(* ===== verification/Bek_Prelude.thy ===== *)
theory Bek_Prelude
  imports Main "HOL-Library.Word" "HOL-Library.Monad_Syntax"
begin

text \<open>
  Shared vocabulary of the development.

  Machine integers.  A value whose bits matter (a byte, a page-table entry, a hash) is a
  machine word.  A \<open>uSize\<close>, that is an index, a size or a count, is a \<open>nat\<close> below
  \<open>2 ^ 64\<close>; the operations \<open>uadd\<close>, \<open>usub\<close> and \<open>umul\<close> are the 64-bit operations of
  the code with the wrap-around written out.

  Failures.  \<open>VERIFY\<close>, \<open>ASSERT\<close>, \<open>PANIC\<close> and \<open>ASSERT_UNREACHABLE\<close> of
  \<open>bek/assertions.h\<close> (in the build without \<open>NDEBUG\<close>, where all of them stop the
  system) make a function return in the \<open>option\<close> type: \<open>None\<close> is the panic.
  An error that the code returns is a value of the type \<open>expected\<close> of
  \<open>bek/expected.h\<close>.
\<close>

unbundle bit_operations_syntax

named_theorems u64_simps \<open>64-bit arithmetic that does not wrap around\<close>

type_synonym u8 = "8 word"
type_synonym u16 = "16 word"
type_synonym u32 = "32 word"
type_synonym u64 = "64 word"
type_synonym uSize = nat

subsection \<open>Wrap-around arithmetic on sizes\<close>

definition uadd :: "uSize \<Rightarrow> uSize \<Rightarrow> uSize" where
  "uadd a b = (a + b) mod 2 ^ 64"

definition usub :: "uSize \<Rightarrow> uSize \<Rightarrow> uSize" where
  "usub a b = (if b \<le> a then a - b else a + 2 ^ 64 - b)"

definition umul :: "uSize \<Rightarrow> uSize \<Rightarrow> uSize" where
  "umul a b = (a * b) mod 2 ^ 64"

lemma uadd_small [u64_simps]: "a + b < 2 ^ 64 \<Longrightarrow> uadd a b = a + b"
  by (simp add: uadd_def)

lemma usub_le [u64_simps]: "b \<le> a \<Longrightarrow> usub a b = a - b"
  by (simp add: usub_def)

lemma umul_small [u64_simps]: "a * b < 2 ^ 64 \<Longrightarrow> umul a b = a * b"
  by (simp add: umul_def)

lemma uadd_bound: "uadd a b < 2 ^ 64"
  by (simp add: uadd_def)

lemma usub_word:
  assumes "a < 2 ^ 64" and "b < 2 ^ 64"
  shows "usub a b = unat (of_nat a - of_nat b :: u64)"
proof -
  have "unat (of_nat a :: u64) = a" and "unat (of_nat b :: u64) = b"
    using assms by (simp_all add: unat_of_nat)
  then show ?thesis
    using assms by (simp add: usub_def unat_sub_if')
qed

subsection \<open>Results\<close>

datatype ErrorCode = ESUCCESS | EACCES | EADDRINUSE | EAGAIN | EBADF | ECHILD | EEXIST | EFAIL
  | EFAULT | EFBIG | EINVAL | EIO | ENODEV | ENOENT | ENOEXEC | ENOMEM | ENOTDIR | ENOTSUP
  | EOVERFLOW | EPERM | ERANGE | ESPIPE

datatype 'a expected = Value 'a | Err ErrorCode

fun has_value :: "'a expected \<Rightarrow> bool" where
  "has_value (Value _) = True"
| "has_value (Err _) = False"

fun map_value :: "('a \<Rightarrow> 'b) \<Rightarrow> 'a expected \<Rightarrow> 'b expected" where
  "map_value f (Value x) = Value (f x)"
| "map_value f (Err e) = Err e"

text \<open>\<open>EXPECTED_TRY\<close>: run the rest on the value, or return the error at once.\<close>

fun expected_try :: "'a expected \<Rightarrow> ('a \<Rightarrow> 'b expected) \<Rightarrow> 'b expected" where
  "expected_try (Value x) f = f x"
| "expected_try (Err e) f = Err e"

text \<open>\<open>VERIFY\<close> and \<open>ASSERT\<close>: go on, or panic.\<close>

definition verify :: "bool \<Rightarrow> unit option" where
  "verify b = (if b then Some () else None)"

lemma verify_simps [simp]: "verify True = Some ()" "verify False = None"
  by (simp_all add: verify_def)

lemma verify_eq_Some [simp]: "verify b = Some u \<longleftrightarrow> b"
  by (simp add: verify_def)

lemma verify_bind_eq_Some [simp]:
  "(verify b \<bind> f) = Some x \<longleftrightarrow> b \<and> f () = Some x"
  by (cases b) simp_all

lemma verify_bind_eq_None [simp]:
  "(verify b \<bind> f) = None \<longleftrightarrow> (b \<longrightarrow> f () = None)"
  by (cases b) simp_all

lemma has_value_iff: "has_value r \<longleftrightarrow> (\<exists>x. r = Value x)"
  by (cases r) auto

lemma option_eqI: "(\<And>v. a = Some v \<longleftrightarrow> b = Some v) \<Longrightarrow> a = b"
  by (cases a) (auto, metis option.exhaust)

subsection \<open>Lists\<close>

lemma nth_list_update_if:
  "i < length xs \<Longrightarrow> xs[i := v] ! j = (if i = j then v else xs ! j)"
  by (simp add: nth_list_update)

lemma list_all_nth: "list_all P xs \<longleftrightarrow> (\<forall>i < length xs. P (xs ! i))"
  by (simp add: list_all_length)

end
