(* ===== verification/Bek_Utility.thy ===== *)
theory Bek_Utility
  imports Bek_Prelude
begin

text \<open>
  The arithmetic, byte-order, hashing and memory helpers of \<open>bek/utility.h\<close>,
  \<open>bek/src/utility.cpp\<close> and \<open>bek/src/memory.cpp\<close>.  The target is little endian
  (AArch64), so the \<open>IS_LITTLE_ENDIAN\<close> branches are the ones modelled.  An object in memory
  is the list of its bytes; an access outside it is undefined in C++ and \<open>None\<close> here.
\<close>

subsection \<open>Rounding\<close>

definition ceil_div :: "uSize \<Rightarrow> uSize \<Rightarrow> uSize" where
  "ceil_div a b = usub (uadd a b) 1 div b"

definition align_up :: "uSize \<Rightarrow> uSize \<Rightarrow> uSize" where
  "align_up a alignment = umul (ceil_div a alignment) alignment"

definition align_down :: "uSize \<Rightarrow> uSize \<Rightarrow> uSize" where
  "align_down a alignment = umul (a div alignment) alignment"

text \<open>\<open>__builtin_clz\<close>: the zero bits above the highest set bit of a \<open>u32\<close>.\<close>

definition builtin_clz :: "u32 \<Rightarrow> nat" where
  "builtin_clz n = length (takeWhile (\<lambda>i. \<not> bit n i) (rev [0..<32]))"

definition floor_log_2 :: "u32 \<Rightarrow> nat" where
  "floor_log_2 n = (if n = 0 then 0 else 31 - builtin_clz n)"

lemma ceil_div_small:
  assumes "0 < b" and "a + b < 2 ^ 64"
  shows "ceil_div a b = (a + b - 1) div b"
  using assms by (simp add: ceil_div_def uadd_small usub_le)

lemma align_down_le: "align_down a b \<le> a"
proof -
  have "umul (a div b) b \<le> (a div b) * b" by (simp add: umul_def)
  then show ?thesis by (metis align_down_def div_times_less_eq_dividend le_trans)
qed

lemma align_down_eq: "a < 2 ^ 64 \<Longrightarrow> align_down a b = a - a mod b"
  by (metis align_down_def div_times_less_eq_dividend le_less_trans minus_mod_eq_div_mult umul_small)

text \<open>\<open>align_up\<close> without overflow is the least multiple at or above its argument.\<close>

lemma align_up_eq:
  assumes "0 < b" and "a + b < 2 ^ 64"
  shows "align_up a b = ((a + b - 1) div b) * b"
proof -
  have "((a + b - 1) div b) * b \<le> a + b - 1" by simp
  with assms(2) have "((a + b - 1) div b) * b < 2 ^ 64" by linarith
  then show ?thesis
    unfolding align_up_def ceil_div_small [OF assms] by (rule umul_small)
qed

lemma align_up_spec:
  assumes "0 < b" and "a + b < 2 ^ 64"
  shows "a \<le> align_up a b" and "align_up a b < a + b" and "b dvd align_up a b"
proof -
  define q r where "q = (a + b - 1) div b" and "r = (a + b - 1) mod b"
  have "r < b" using assms(1) by (simp add: r_def)
  moreover have "a + b = q * b + r + 1"
    using assms(1) div_mult_mod_eq [of "a + b - 1" b] by (simp add: q_def r_def)
  ultimately have "a \<le> q * b \<and> q * b < a + b" by linarith
  then show "a \<le> align_up a b" and "align_up a b < a + b"
    unfolding align_up_eq [OF assms] q_def by simp_all
  show "b dvd align_up a b"
    unfolding align_up_eq [OF assms] by simp
qed

lemma align_up_least:
  assumes "0 < b" and "a + b < 2 ^ 64" and "a \<le> m" and "b dvd m"
  shows "align_up a b \<le> m"
proof (rule ccontr)
  assume less: "\<not> align_up a b \<le> m"
  obtain q where q: "m = b * q" using assms(4) by blast
  obtain p where p: "align_up a b = b * p" using align_up_spec(3) [OF assms(1,2)] by blast
  have "q < p" using less unfolding p q by simp
  then have "b * Suc q \<le> b * p" by (intro mult_le_mono2) simp
  then have "a + b \<le> align_up a b" using assms(3) unfolding p q by simp
  then show False using align_up_spec(2) [OF assms(1,2)] by simp
qed

lemma align_up_aligned:
  assumes "0 < b" and "a + b < 2 ^ 64" and "b dvd a"
  shows "align_up a b = a"
  using align_up_least [OF assms(1,2) order.refl assms(3)] align_up_spec(1) [OF assms(1,2)]
  by (rule order.antisym)

subsection \<open>Bytes of a word\<close>

fun le_word :: "u8 list \<Rightarrow> 'a::len word" where
  "le_word [] = 0"
| "le_word (b # bs) = ucast b OR push_bit 8 (le_word bs)"

fun le_bytes :: "nat \<Rightarrow> 'a::len word \<Rightarrow> u8 list" where
  "le_bytes 0 w = []"
| "le_bytes (Suc n) w = ucast w # le_bytes n (drop_bit 8 w)"

lemma length_le_bytes [simp]: "length (le_bytes n w) = n"
  by (induction n arbitrary: w) simp_all

lemma le_word_le_bytes: "le_word (le_bytes n w) = take_bit (8 * n) (w :: 'a::len word)"
proof (induction n arbitrary: w)
  case 0
  then show ?case by simp
next
  case (Suc n)
  show ?case
    by (rule bit_word_eqI) (auto simp: Suc bit_simps)
qed

lemma le_word_le_bytes_full:
  "LENGTH('a::len) \<le> 8 * n \<Longrightarrow> le_word (le_bytes n w) = (w :: 'a word)"
  by (simp add: le_word_le_bytes take_bit_word_eq_self)

lemma bit_le_word_length: "bit (le_word bs :: 'a::len word) i \<Longrightarrow> i < 8 * length bs"
proof (induction bs arbitrary: i)
  case Nil
  then show ?case by simp
next
  case (Cons b bs)
  then show ?case
    by (cases "i < 8") (auto simp: bit_simps dest: bit_imp_le_length Cons.IH)
qed

lemma le_bytes_le_word:
  "8 * length bs \<le> LENGTH('a::len) \<Longrightarrow> le_bytes (length bs) (le_word bs :: 'a word) = bs"
proof (induction bs)
  case Nil
  then show ?case by simp
next
  case (Cons b bs)
  have "ucast (ucast b OR push_bit 8 (le_word bs) :: 'a word) = b"
    using Cons.prems by (intro bit_word_eqI) (auto simp: bit_simps)
  moreover have "drop_bit 8 (ucast b OR push_bit 8 (le_word bs) :: 'a word)
      = take_bit (LENGTH('a) - 8) (le_word bs)"
    using Cons.prems by (intro bit_word_eqI) (auto simp: bit_simps dest: bit_imp_le_length)
  moreover have "take_bit (LENGTH('a) - 8) (le_word bs :: 'a word) = le_word bs"
    using Cons.prems bit_le_word_length [of bs]
    by (intro bit_word_eqI) (auto simp: bit_simps, fastforce)
  ultimately show ?case using Cons by simp
qed

subsection \<open>Objects in memory\<close>

definition mem_read :: "'a list \<Rightarrow> uSize \<Rightarrow> uSize \<Rightarrow> 'a list option" where
  "mem_read m off n = (if off + n \<le> length m then Some (take n (drop off m)) else None)"

definition mem_write :: "'a list \<Rightarrow> uSize \<Rightarrow> 'a list \<Rightarrow> 'a list option" where
  "mem_write m off bs =
     (if off + length bs \<le> length m
      then Some (take off m @ bs @ drop (off + length bs) m) else None)"

lemma length_mem_write: "mem_write m off bs = Some m' \<Longrightarrow> length m' = length m"
  by (auto simp: mem_write_def split: if_splits)

lemma length_mem_read: "mem_read m off n = Some bs \<Longrightarrow> length bs = n"
  by (auto simp: mem_read_def split: if_splits)

lemma mem_read_write_same:
  "mem_write m off bs = Some m' \<Longrightarrow> mem_read m' off (length bs) = Some bs"
  by (auto simp: mem_write_def mem_read_def split: if_splits)

lemma mem_write_nth:
  assumes "mem_write m off bs = Some m'" and "i < length m"
  shows "m' ! i = (if off \<le> i \<and> i < off + length bs then bs ! (i - off) else m ! i)"
  using assms by (auto simp: mem_write_def nth_append min_def split: if_splits)

definition readLE16 :: "u8 list \<Rightarrow> uSize \<Rightarrow> u16 option" where
  "readLE16 m off = map_option le_word (mem_read m off 2)"

definition readLE32 :: "u8 list \<Rightarrow> uSize \<Rightarrow> u32 option" where
  "readLE32 m off = map_option le_word (mem_read m off 4)"

definition writeLE16 :: "u16 \<Rightarrow> u8 list \<Rightarrow> uSize \<Rightarrow> u8 list option" where
  "writeLE16 v m off = mem_write m off (le_bytes 2 v)"

definition writeLE32 :: "u32 \<Rightarrow> u8 list \<Rightarrow> uSize \<Rightarrow> u8 list option" where
  "writeLE32 v m off = mem_write m off (le_bytes 4 v)"

definition swapBytes32 :: "u32 \<Rightarrow> u32" where
  "swapBytes32 v = le_word (rev (le_bytes 4 v))"

lemma readLE16_writeLE16: "writeLE16 v m off = Some m' \<Longrightarrow> readLE16 m' off = Some v"
  using mem_read_write_same [of m off "le_bytes 2 v" m']
  by (simp add: writeLE16_def readLE16_def le_word_le_bytes_full)

lemma readLE32_writeLE32: "writeLE32 v m off = Some m' \<Longrightarrow> readLE32 m' off = Some v"
  using mem_read_write_same [of m off "le_bytes 4 v" m']
  by (simp add: writeLE32_def readLE32_def le_word_le_bytes_full)

lemma swapBytes32_involution: "swapBytes32 (swapBytes32 v) = v"
proof -
  have "le_bytes 4 (le_word (rev (le_bytes 4 v)) :: u32) = rev (le_bytes 4 v)"
    using le_bytes_le_word [of "rev (le_bytes 4 v)", where 'a = 32] by simp
  then show ?thesis by (simp add: swapBytes32_def le_word_le_bytes_full)
qed

subsection \<open>Hashes\<close>

definition hash_u64 :: "u64 \<Rightarrow> u64" where
  "hash_u64 x =
     (let x = x XOR drop_bit 30 x;
          x = x * 0xbf58476d1ce4e5b9;
          x = x XOR drop_bit 27 x;
          x = x * 0x94d049bb133111eb;
          x = x XOR drop_bit 31 x
      in x)"

definition hash_bytes :: "u8 list \<Rightarrow> u64" where
  "hash_bytes str = foldl (\<lambda>h c. (h * 54059) XOR (ucast c * 76963)) 37 str"

subsection \<open>memset, memcmp, memcopy, strlen\<close>

fun memset_bytewise :: "u8 \<Rightarrow> uSize \<Rightarrow> u8 list" where
  "memset_bytewise c 0 = []"
| "memset_bytewise c (Suc n) = c # memset_bytewise c n"

fun memset_wordwise :: "u8 \<Rightarrow> uSize \<Rightarrow> u8 list" where
  "memset_wordwise c n =
     (if n \<ge> 8 then le_bytes 8 ((- 1 :: u64) div 255 * ucast c) @ memset_wordwise c (n - 8)
      else memset_bytewise c n)"

declare memset_wordwise.simps [simp del]

text \<open>The \<open>n\<close> bytes that \<open>memset\<close> stores at the address \<open>d\<close>.\<close>

definition memset_stored :: "u64 \<Rightarrow> u8 \<Rightarrow> uSize \<Rightarrow> u8 list" where
  "memset_stored d c n = (if d AND 7 = 0 then memset_wordwise c n else memset_bytewise c n)"

fun mem_compare :: "u8 list \<Rightarrow> u8 list \<Rightarrow> int" where
  "mem_compare (a # as) (b # bs) =
     (let d = uint a - uint b in if d \<noteq> 0 then d else mem_compare as bs)"
| "mem_compare _ _ = 0"

definition MAX_MEMCOPY :: uSize where
  "MAX_MEMCOPY = 2 * 1024 * 1024"

text \<open>
  \<open>bek::memcopy\<close> into the object \<open>m\<close> at offset \<open>off\<close>: a copy above \<open>MAX_MEMCOPY\<close>
  panics.  \<open>memcpy\<close> and \<open>memmove\<close> are one routine (\<open>bek/src/a64/memory.S\<close>) that
  handles overlap, so the test which of the two is called has no effect on the result.
\<close>

definition memcopy :: "u8 list \<Rightarrow> uSize \<Rightarrow> u8 list \<Rightarrow> u8 list option" where
  "memcopy m off from =
     (if length from = 0 then Some m
      else do { verify (length from \<le> MAX_MEMCOPY); mem_write m off from })"

fun strlen :: "u8 list \<Rightarrow> uSize option" where
  "strlen [] = None"
| "strlen (c # cs) = (if c \<noteq> 0 then map_option Suc (strlen cs) else Some 0)"

lemma memset_bytewise_eq: "memset_bytewise c n = replicate n c"
  by (induction n) simp_all

lemma le_word_Cons_plus: "(le_word (b # bs) :: 'a::len word) = ucast b + push_bit 8 (le_word bs)"
  by (simp, rule disjunctive_add [symmetric]) (auto simp: bit_simps dest: bit_imp_le_length)

lemma memset_mask_bytes: "le_bytes 8 (0x0101010101010101 * ucast c :: u64) = replicate 8 c"
proof -
  have "(le_word (replicate 8 c) :: u64) = 0x0101010101010101 * ucast c"
    by (simp add: numeral_eq_Suc le_word_Cons_plus del: le_word.simps(2))
  then show ?thesis
    using le_bytes_le_word [of "replicate 8 c", where 'a = 64] by simp
qed

lemma memset_wordwise_eq: "memset_wordwise c n = replicate n c"
proof (induction c n rule: memset_wordwise.induct)
  case (1 c n)
  show ?case
  proof (cases "n \<ge> 8")
    case True
    then have "memset_wordwise c n = replicate 8 c @ replicate (n - 8) c"
      using "1" by (simp add: memset_wordwise.simps [of c n] memset_mask_bytes)
    then show ?thesis using True by (simp flip: replicate_add)
  next
    case False
    then show ?thesis by (simp add: memset_wordwise.simps [of c n] memset_bytewise_eq)
  qed
qed

lemma memset_stored_eq: "memset_stored d c n = replicate n c"
  by (simp add: memset_stored_def memset_wordwise_eq memset_bytewise_eq)

lemma mem_compare_eq_0: "length as = length bs \<Longrightarrow> mem_compare as bs = 0 \<longleftrightarrow> as = bs"
  by (induction as bs rule: mem_compare.induct) (auto simp: Let_def word_uint_eq_iff)

lemma memcopy_ok:
  assumes "length bs \<le> MAX_MEMCOPY" and "off + length bs \<le> length m"
  shows "memcopy m off bs = Some (take off m @ bs @ drop (off + length bs) m)"
  using assms by (simp add: memcopy_def mem_write_def)

lemma strlen_append_zero: "0 \<notin> set cs \<Longrightarrow> strlen (cs @ 0 # rest) = Some (length cs)"
  by (induction cs) auto

end
