(* ===== verification/Transactional_Buffer.thy ===== *)
theory Transactional_Buffer
  imports Bek_Utility
begin

text \<open>
  \<open>kernel/include/library/transactional_buffer.h\<close> and \<open>user_buffer.{h,cpp}\<close>: the buffers
  through which the kernel moves bytes from and to its callers.  The abstract class is a
  datatype with one constructor per subclass and the virtual calls are its case
  distinctions.  A buffer holds the bytes of the memory it refers to.

  The locale \<open>byte_window\<close> is the contract the clients (ring buffer, pipe, interlink) rely
  on: accesses inside the window succeed, write exactly the bytes given and read back what
  is there.  It holds for every buffer that is not a \<open>BitwiseObjectBuffer\<close>, which accepts
  only whole-object accesses.
\<close>

datatype TransactionalBuffer =
    KernelBuffer "u8 list"
  | UserBuffer "u8 list"
  | BitwiseObjectBuffer "u8 list"
  | TransactionalBufferSubset TransactionalBuffer uSize uSize

fun tb_size :: "TransactionalBuffer \<Rightarrow> uSize" where
  "tb_size (KernelBuffer m) = length m"
| "tb_size (UserBuffer m) = length m"
| "tb_size (BitwiseObjectBuffer m) = length m"
| "tb_size (TransactionalBufferSubset b off len) = len"

text \<open>
  \<open>write_from(buffer, length, offset)\<close>, with the bytes of \<open>buffer\<close> as a list: the result and
  the buffer afterwards.
\<close>

fun tb_write_from :: "TransactionalBuffer \<Rightarrow> u8 list \<Rightarrow> uSize
    \<Rightarrow> (uSize expected \<times> TransactionalBuffer) option" where
  "tb_write_from (KernelBuffer m) bs off =
     do { m' \<leftarrow> memcopy m off bs; Some (Value (length bs), KernelBuffer m') }"
| "tb_write_from (UserBuffer m) bs off =
     (if uadd (length bs) off > length m then Some (Err EINVAL, UserBuffer m)
      else do { m' \<leftarrow> memcopy m off bs; Some (Value (length bs), UserBuffer m') })"
| "tb_write_from (BitwiseObjectBuffer m) bs off =
     do { verify (off = 0 \<and> length bs = length m);
          m' \<leftarrow> memcopy m 0 bs; Some (Value (length bs), BitwiseObjectBuffer m') }"
| "tb_write_from (TransactionalBufferSubset b boff len) bs off =
     do { (r, b') \<leftarrow> tb_write_from b bs (uadd off boff);
          Some (r, TransactionalBufferSubset b' boff len) }"

text \<open>\<open>read_to(buffer, length, offset)\<close>: the result and the bytes stored to the destination.\<close>

definition read_checked :: "u8 list \<Rightarrow> uSize \<Rightarrow> uSize \<Rightarrow> (uSize expected \<times> u8 list) option" where
  "read_checked m len off =
     (if len = 0 then Some (Value 0, [])
      else do { verify (len \<le> MAX_MEMCOPY); bs \<leftarrow> mem_read m off len; Some (Value len, bs) })"

fun tb_read_to :: "TransactionalBuffer \<Rightarrow> uSize \<Rightarrow> uSize \<Rightarrow> (uSize expected \<times> u8 list) option" where
  "tb_read_to (KernelBuffer m) len off = read_checked m len off"
| "tb_read_to (UserBuffer m) len off =
     (if uadd len off > length m then Some (Err EINVAL, []) else read_checked m len off)"
| "tb_read_to (BitwiseObjectBuffer m) len off =
     do { verify (off = 0 \<and> len = length m); read_checked m len off }"
| "tb_read_to (TransactionalBufferSubset b boff blen) len off = tb_read_to b len (uadd off boff)"

text \<open>The constructor of a subset checks its range (lines 87 to 90).\<close>

definition make_subset :: "TransactionalBuffer \<Rightarrow> uSize \<Rightarrow> uSize \<Rightarrow> TransactionalBuffer option" where
  "make_subset b off len =
     do { verify (off \<le> tb_size b); verify (uadd off len \<le> tb_size b);
          Some (TransactionalBufferSubset b off len) }"

text \<open>\<open>read_object\<close> and \<open>write_object\<close>, on the bytes of the object.\<close>

definition tb_read_object :: "TransactionalBuffer \<Rightarrow> uSize \<Rightarrow> uSize \<Rightarrow> u8 list expected option" where
  "tb_read_object b sz off =
     do { (r, bs) \<leftarrow> tb_read_to b sz off;
          Some (case r of Err e \<Rightarrow> Err e | Value _ \<Rightarrow> Value bs) }"

definition tb_write_object :: "TransactionalBuffer \<Rightarrow> u8 list \<Rightarrow> uSize
    \<Rightarrow> (uSize expected \<times> TransactionalBuffer) option" where
  "tb_write_object b obj off =
     do { (r, b') \<leftarrow> tb_write_from b obj off;
          Some (case r of Err e \<Rightarrow> Err e | Value _ \<Rightarrow> Value 0, b') }"

definition user_buffer_clear :: "u8 list \<Rightarrow> u8 list" where
  "user_buffer_clear m = memset_stored 0 0 (length m)"

subsection \<open>The contract of a byte window\<close>

locale byte_window =
  fixes ok :: "'b \<Rightarrow> bool"
    and bytes :: "'b \<Rightarrow> u8 list"
    and write_from :: "'b \<Rightarrow> u8 list \<Rightarrow> uSize \<Rightarrow> (uSize expected \<times> 'b) option"
    and read_to :: "'b \<Rightarrow> uSize \<Rightarrow> uSize \<Rightarrow> (uSize expected \<times> u8 list) option"
  assumes write_in_window:
      "ok b \<Longrightarrow> off + length bs \<le> length (bytes b) \<Longrightarrow> length bs \<le> MAX_MEMCOPY \<Longrightarrow>
       \<exists>b'. write_from b bs off = Some (Value (length bs), b') \<and> ok b' \<and>
         bytes b' = take off (bytes b) @ bs @ drop (off + length bs) (bytes b)"
    and read_in_window:
      "ok b \<Longrightarrow> off + len \<le> length (bytes b) \<Longrightarrow> len \<le> MAX_MEMCOPY \<Longrightarrow>
       read_to b len off = Some (Value len, take len (drop off (bytes b)))"
begin

lemma write_keeps_size:
  assumes "ok b" and "off + length bs \<le> length (bytes b)" and "length bs \<le> MAX_MEMCOPY"
    and "write_from b bs off = Some (r, b')"
  shows "length (bytes b') = length (bytes b)"
  using write_in_window [OF assms(1-3)] assms(2,4) by auto

text \<open>What was written is read back, and bytes outside the written range are unchanged.\<close>

lemma read_after_write:
  assumes "ok b" and "off + length bs \<le> length (bytes b)" and "length bs \<le> MAX_MEMCOPY"
  shows "\<exists>b'. write_from b bs off = Some (Value (length bs), b') \<and>
    read_to b' (length bs) off = Some (Value (length bs), bs)"
proof -
  obtain b' where w: "write_from b bs off = Some (Value (length bs), b')" and ok: "ok b'"
    and bytes: "bytes b' = take off (bytes b) @ bs @ drop (off + length bs) (bytes b)"
    using write_in_window [OF assms] by blast
  have "length (bytes b') = length (bytes b)"
    using write_keeps_size [OF assms w] .
  then have "read_to b' (length bs) off = Some (Value (length bs), take (length bs) (drop off (bytes b')))"
    using ok assms by (intro read_in_window) auto
  moreover have "take (length bs) (drop off (bytes b')) = bs"
    using assms(2) by (simp add: bytes)
  ultimately show ?thesis using w by auto
qed

end

text \<open>The bytes of the window and the buffers for which the contract holds.\<close>

fun tb_bytes :: "TransactionalBuffer \<Rightarrow> u8 list" where
  "tb_bytes (KernelBuffer m) = m"
| "tb_bytes (UserBuffer m) = m"
| "tb_bytes (BitwiseObjectBuffer m) = m"
| "tb_bytes (TransactionalBufferSubset b off len) = take len (drop off (tb_bytes b))"

fun tb_ok :: "TransactionalBuffer \<Rightarrow> bool" where
  "tb_ok (KernelBuffer m) = (length m < 2 ^ 64)"
| "tb_ok (UserBuffer m) = (length m < 2 ^ 64)"
| "tb_ok (BitwiseObjectBuffer m) = False"
| "tb_ok (TransactionalBufferSubset b off len) = (tb_ok b \<and> off + len \<le> tb_size b)"

lemma tb_size_bytes [simp]: "tb_ok b \<Longrightarrow> length (tb_bytes b) = tb_size b"
  by (induction b) auto

lemma tb_size_bound: "tb_ok b \<Longrightarrow> tb_size b < 2 ^ 64"
  by (induction b) auto

text \<open>Writing into a window of a list is writing at the shifted offset.\<close>

lemma window_splice:
  assumes "off + length bs \<le> len" and "boff + len \<le> length xs"
  shows "take len (drop boff (take (off + boff) xs @ bs @ drop (off + boff + length bs) xs))
    = take off (take len (drop boff xs)) @ bs @ drop (off + length bs) (take len (drop boff xs))"
    (is "?l = ?r")
proof (rule nth_equalityI)
  show "length ?l = length ?r" using assms by auto
next
  fix i
  assume "i < length ?l"
  then have "i < len" by (rule less_le_trans) (simp only: length_take min.cobounded2)
  then show "?l ! i = ?r ! i"
    using assms by (auto simp: nth_append min_def add.commute drop_take)
qed

lemma tb_write_ok:
  assumes "tb_ok b" and "off + length bs \<le> tb_size b" and "length bs \<le> MAX_MEMCOPY"
  shows "\<exists>b'. tb_write_from b bs off = Some (Value (length bs), b') \<and> tb_ok b' \<and>
    tb_size b' = tb_size b \<and>
    tb_bytes b' = take off (tb_bytes b) @ bs @ drop (off + length bs) (tb_bytes b)"
  using assms
proof (induction b arbitrary: off)
  case (KernelBuffer m)
  then show ?case by (simp add: memcopy_ok)
next
  case (UserBuffer m)
  then have "uadd (length bs) off = off + length bs"
    by (simp add: uadd_small add.commute)
  with UserBuffer show ?case by (simp add: memcopy_ok)
next
  case (BitwiseObjectBuffer m)
  then show ?case by simp
next
  case (TransactionalBufferSubset b boff len)
  have bound: "off + boff + length bs \<le> tb_size b" and okb: "tb_ok b"
    using TransactionalBufferSubset.prems by auto
  then have eq: "uadd off boff = off + boff"
    using tb_size_bound [OF okb] by (simp add: uadd_small)
  obtain b' where b': "tb_write_from b bs (off + boff) = Some (Value (length bs), b')" "tb_ok b'"
      "tb_size b' = tb_size b"
      "tb_bytes b' = take (off + boff) (tb_bytes b) @ bs @ drop (off + boff + length bs) (tb_bytes b)"
    using TransactionalBufferSubset.IH [of "off + boff"] bound okb TransactionalBufferSubset.prems(3)
    by auto
  have "take len (drop boff (tb_bytes b')) = take off (take len (drop boff (tb_bytes b))) @ bs @
      drop (off + length bs) (take len (drop boff (tb_bytes b)))"
    using TransactionalBufferSubset.prems okb
    by (simp only: b'(4)) (rule window_splice; simp)
  with b' eq show ?case using TransactionalBufferSubset.prems by simp
qed

lemma tb_read_ok:
  assumes "tb_ok b" and "off + len \<le> tb_size b" and "len \<le> MAX_MEMCOPY"
  shows "tb_read_to b len off = Some (Value len, take len (drop off (tb_bytes b)))"
  using assms
proof (induction b arbitrary: off)
  case (KernelBuffer m)
  then show ?case by (simp add: read_checked_def mem_read_def)
next
  case (UserBuffer m)
  then have "uadd len off = off + len" by (simp add: uadd_small add.commute)
  with UserBuffer show ?case by (simp add: read_checked_def mem_read_def)
next
  case (BitwiseObjectBuffer m)
  then show ?case by simp
next
  case (TransactionalBufferSubset b boff blen)
  then have "off + boff + len \<le> tb_size b" and okb: "tb_ok b" by auto
  moreover from this have "uadd off boff = off + boff"
    using tb_size_bound [OF okb] by (simp add: uadd_small)
  ultimately show ?case
    using TransactionalBufferSubset by (simp add: min_def drop_take)
qed

interpretation tb: byte_window tb_ok tb_bytes tb_write_from tb_read_to
proof unfold_locales
  show "\<exists>b'. tb_write_from b bs off = Some (Value (length bs), b') \<and> tb_ok b' \<and>
      tb_bytes b' = take off (tb_bytes b) @ bs @ drop (off + length bs) (tb_bytes b)"
    if "tb_ok b" "off + length bs \<le> length (tb_bytes b)" "length bs \<le> MAX_MEMCOPY" for b off bs
    using tb_write_ok [of b off bs] that by auto
qed (simp add: tb_read_ok)

end
