(* ===== verification/Ring_Buffer.thy ===== *)
theory Ring_Buffer
  imports Transactional_Buffer
begin

text \<open>
  \<open>kernel/src/library/ringbuffer.cpp\<close>: the bounded byte queue behind the interlink
  connections.  The two copy loops may in principle run for ever, so they are partial
  functions into \<open>option\<close>; that they return is part of what is proved.  The abstraction is
  the list \<open>rb_contents\<close> of the bytes between the two indices, and the locale
  \<open>byte_queue\<close> states the FIFO contract that the ring buffer and the pipe share.
\<close>

record ring_buffer =
  rb_buffer :: "u8 list"
  rb_read_idx :: uSize
  rb_write_idx :: uSize

definition ring_buffer_new :: "uSize \<Rightarrow> ring_buffer" where
  "ring_buffer_new sz = \<lparr>rb_buffer = replicate sz 0, rb_read_idx = 0, rb_write_idx = 0\<rparr>"

definition rb_capacity :: "ring_buffer \<Rightarrow> uSize" where
  "rb_capacity rb = length (rb_buffer rb)"

definition pending_bytes :: "ring_buffer \<Rightarrow> uSize" where
  "pending_bytes rb =
     (if rb_write_idx rb \<ge> rb_read_idx rb then usub (rb_write_idx rb) (rb_read_idx rb)
      else uadd (usub (length (rb_buffer rb)) (rb_read_idx rb)) (rb_write_idx rb))"

definition free_bytes :: "ring_buffer \<Rightarrow> uSize" where
  "free_bytes rb =
     (if rb_write_idx rb \<ge> rb_read_idx rb
      then usub (uadd (usub (length (rb_buffer rb)) (rb_write_idx rb)) (rb_read_idx rb)) 1
      else usub (usub (rb_read_idx rb) (rb_write_idx rb)) 1)"

text \<open>The loop of \<open>read_to\<close> (lines 38 to 48).\<close>

partial_function (option) rb_read_loop ::
  "ring_buffer \<Rightarrow> TransactionalBuffer \<Rightarrow> uSize \<Rightarrow> uSize
     \<Rightarrow> (uSize expected \<times> ring_buffer \<times> TransactionalBuffer) option" where
  "rb_read_loop rb buffer read_space bytes_read =
     (if read_space \<noteq> 0 \<and> bytes_read < tb_size buffer then
        (let segment_read_space =
               (if rb_write_idx rb \<ge> rb_read_idx rb then usub (rb_write_idx rb) (rb_read_idx rb)
                else usub (length (rb_buffer rb)) (rb_read_idx rb));
             to_read = min segment_read_space (usub (tb_size buffer) bytes_read)
         in do {
           bs \<leftarrow> mem_read (rb_buffer rb) (rb_read_idx rb) to_read;
           (res, buffer') \<leftarrow> tb_write_from buffer bs bytes_read;
           (case res of
              Err e \<Rightarrow> Some (Err e, rb, buffer')
            | Value _ \<Rightarrow>
                (let idx = uadd (rb_read_idx rb) to_read;
                     rb' = rb\<lparr>rb_read_idx := if idx = length (rb_buffer rb) then 0 else idx\<rparr>
                 in rb_read_loop rb' buffer' (pending_bytes rb') (uadd bytes_read to_read)))
         })
      else Some (Value bytes_read, rb, buffer))"

definition rb_read_to :: "ring_buffer \<Rightarrow> TransactionalBuffer \<Rightarrow> bool
    \<Rightarrow> (uSize expected \<times> ring_buffer \<times> TransactionalBuffer) option" where
  "rb_read_to rb buffer partial = do {
     verify (partial \<or> tb_size buffer < length (rb_buffer rb));
     (let read_space = pending_bytes rb
      in if \<not> partial \<and> read_space < tb_size buffer then Some (Err EAGAIN, rb, buffer)
         else rb_read_loop rb buffer read_space 0)
   }"

text \<open>The loop of \<open>write_to\<close> (lines 56 to 69).\<close>

partial_function (option) rb_write_loop ::
  "ring_buffer \<Rightarrow> TransactionalBuffer \<Rightarrow> uSize \<Rightarrow> uSize
     \<Rightarrow> (uSize expected \<times> ring_buffer) option" where
  "rb_write_loop rb buffer write_space bytes_written =
     (if write_space \<noteq> 0 \<and> bytes_written < tb_size buffer then
        (let segment =
               (if rb_write_idx rb \<ge> rb_read_idx rb
                then usub (length (rb_buffer rb)) (rb_write_idx rb)
                else usub (usub (rb_read_idx rb) (rb_write_idx rb)) 1);
             segment_write_space = (if rb_read_idx rb = 0 then usub segment 1 else segment);
             to_write = min segment_write_space (usub (tb_size buffer) bytes_written)
         in do {
           (res, bs) \<leftarrow> tb_read_to buffer to_write bytes_written;
           (case res of
              Err e \<Rightarrow> Some (Err e, rb)
            | Value _ \<Rightarrow> do {
                m' \<leftarrow> mem_write (rb_buffer rb) (rb_write_idx rb) bs;
                (let idx = uadd (rb_write_idx rb) to_write;
                     rb' = rb\<lparr>rb_buffer := m',
                              rb_write_idx := if idx = length (rb_buffer rb) then 0 else idx\<rparr>
                 in rb_write_loop rb' buffer (free_bytes rb') (uadd bytes_written to_write)) })
         })
      else Some (Value bytes_written, rb))"

definition rb_write_to :: "ring_buffer \<Rightarrow> TransactionalBuffer \<Rightarrow> bool
    \<Rightarrow> (uSize expected \<times> ring_buffer) option" where
  "rb_write_to rb buffer partial =
     (let write_space = free_bytes rb
      in if write_space < tb_size buffer \<and> \<not> partial then Some (Err EAGAIN, rb)
         else rb_write_loop rb buffer write_space 0)"

subsection \<open>Invariant and abstraction\<close>

text \<open>
  Both indices are inside the storage; one byte of it is never used, so that equal indices
  mean an empty queue.  The storage is small enough for \<open>memcopy\<close> (the connections use 1024
  bytes).
\<close>

definition rb_inv :: "ring_buffer \<Rightarrow> bool" where
  "rb_inv rb \<longleftrightarrow> rb_read_idx rb < length (rb_buffer rb) \<and> rb_write_idx rb < length (rb_buffer rb) \<and>
     length (rb_buffer rb) \<le> MAX_MEMCOPY"

definition rb_contents :: "ring_buffer \<Rightarrow> u8 list" where
  "rb_contents rb =
     (if rb_read_idx rb \<le> rb_write_idx rb
      then take (rb_write_idx rb - rb_read_idx rb) (drop (rb_read_idx rb) (rb_buffer rb))
      else drop (rb_read_idx rb) (rb_buffer rb) @ take (rb_write_idx rb) (rb_buffer rb))"

lemma MAX_MEMCOPY_u64: "n \<le> MAX_MEMCOPY \<Longrightarrow> n < 2 ^ 63"
  by (simp add: MAX_MEMCOPY_def)

lemma rb_inv_new: "0 < sz \<Longrightarrow> sz \<le> MAX_MEMCOPY \<Longrightarrow> rb_inv (ring_buffer_new sz)"
  by (simp add: rb_inv_def ring_buffer_new_def)

lemma rb_contents_new [simp]: "rb_contents (ring_buffer_new sz) = []"
  by (simp add: rb_contents_def ring_buffer_new_def)

lemma pending_bytes_eq: "rb_inv rb \<Longrightarrow> pending_bytes rb = length (rb_contents rb)"
  using MAX_MEMCOPY_u64 [of "length (rb_buffer rb)"]
  by (auto simp: rb_inv_def pending_bytes_def rb_contents_def usub_le uadd_small)

lemma free_bytes_eq: "rb_inv rb \<Longrightarrow> free_bytes rb = rb_capacity rb - 1 - length (rb_contents rb)"
  using MAX_MEMCOPY_u64 [of "length (rb_buffer rb)"]
  by (auto simp: rb_inv_def free_bytes_def rb_contents_def rb_capacity_def usub_le uadd_small)

lemma rb_contents_less: "rb_inv rb \<Longrightarrow> length (rb_contents rb) < rb_capacity rb"
  by (auto simp: rb_inv_def rb_contents_def rb_capacity_def)

subsection \<open>One segment at a time\<close>

definition rb_read_segment :: "ring_buffer \<Rightarrow> nat" where
  "rb_read_segment rb = (if rb_read_idx rb \<le> rb_write_idx rb then rb_write_idx rb - rb_read_idx rb
     else length (rb_buffer rb) - rb_read_idx rb)"

definition rb_write_segment :: "ring_buffer \<Rightarrow> nat" where
  "rb_write_segment rb =
     (if rb_read_idx rb \<le> rb_write_idx rb
      then length (rb_buffer rb) - rb_write_idx rb - (if rb_read_idx rb = 0 then 1 else 0)
      else rb_read_idx rb - rb_write_idx rb - 1)"

definition rb_consume :: "nat \<Rightarrow> ring_buffer \<Rightarrow> ring_buffer" where
  "rb_consume k rb = rb\<lparr>rb_read_idx :=
     if rb_read_idx rb + k = length (rb_buffer rb) then 0 else rb_read_idx rb + k\<rparr>"

definition rb_produce :: "u8 list \<Rightarrow> ring_buffer \<Rightarrow> ring_buffer" where
  "rb_produce bs rb = rb\<lparr>
     rb_buffer := take (rb_write_idx rb) (rb_buffer rb) @ bs @
       drop (rb_write_idx rb + length bs) (rb_buffer rb),
     rb_write_idx := if rb_write_idx rb + length bs = length (rb_buffer rb) then 0
       else rb_write_idx rb + length bs\<rparr>"

lemma rb_consume_inv:
  "rb_inv rb \<Longrightarrow> k \<le> rb_read_segment rb \<Longrightarrow> rb_inv (rb_consume k rb)"
  by (auto simp: rb_inv_def rb_consume_def rb_read_segment_def split: if_splits)

lemma rb_consume_capacity [simp]: "rb_capacity (rb_consume k rb) = rb_capacity rb"
  by (simp add: rb_consume_def rb_capacity_def)

lemma rb_consume_contents:
  assumes "rb_inv rb" and "k \<le> rb_read_segment rb"
  shows "rb_contents (rb_consume k rb) = drop k (rb_contents rb)"
proof (cases "rb_read_idx rb \<le> rb_write_idx rb")
  case True
  then show ?thesis
    using assms
    by (simp add: rb_inv_def rb_consume_def rb_contents_def rb_read_segment_def drop_take add.commute)
      linarith
next
  case False
  then show ?thesis
    using assms
    by (cases "rb_read_idx rb + k = length (rb_buffer rb)")
      (simp_all add: rb_inv_def rb_consume_def rb_contents_def rb_read_segment_def add.commute)
qed

lemma rb_consume_bytes:
  assumes "rb_inv rb" and "k \<le> rb_read_segment rb"
  shows "take k (rb_contents rb) = take k (drop (rb_read_idx rb) (rb_buffer rb))"
  using assms by (simp add: rb_inv_def rb_contents_def rb_read_segment_def split: if_splits)

lemma rb_produce_inv:
  "rb_inv rb \<Longrightarrow> length bs \<le> rb_write_segment rb \<Longrightarrow> rb_inv (rb_produce bs rb)"
  by (auto simp: rb_inv_def rb_produce_def rb_write_segment_def split: if_splits)

lemma rb_produce_capacity [simp]:
  "rb_inv rb \<Longrightarrow> length bs \<le> rb_write_segment rb \<Longrightarrow> rb_capacity (rb_produce bs rb) = rb_capacity rb"
  by (auto simp: rb_inv_def rb_produce_def rb_write_segment_def rb_capacity_def split: if_splits)

lemma rb_produce_contents:
  assumes "rb_inv rb" and "length bs \<le> rb_write_segment rb"
  shows "rb_contents (rb_produce bs rb) = rb_contents rb @ bs"
proof (cases "rb_read_idx rb \<le> rb_write_idx rb")
  case True
  then have "take (rb_write_idx rb - rb_read_idx rb) (drop (rb_read_idx rb) (rb_buffer rb))
      = drop (rb_read_idx rb) (take (rb_write_idx rb) (rb_buffer rb))"
    by (simp add: drop_take)
  with True show ?thesis
    using assms
    by (cases "rb_write_idx rb + length bs = length (rb_buffer rb)"; cases "rb_read_idx rb = 0")
      (simp_all add: rb_inv_def rb_produce_def rb_contents_def rb_write_segment_def)
next
  case False
  then show ?thesis
    using assms
    by (simp add: rb_inv_def rb_produce_def rb_contents_def rb_write_segment_def) linarith
qed

lemma rb_read_segment_le: "rb_inv rb \<Longrightarrow> rb_read_segment rb \<le> length (rb_contents rb)"
  by (auto simp: rb_inv_def rb_read_segment_def rb_contents_def)

lemma rb_write_segment_le: "rb_inv rb \<Longrightarrow> rb_write_segment rb \<le> free_bytes rb"
  by (auto simp: free_bytes_eq rb_inv_def rb_write_segment_def rb_contents_def rb_capacity_def)

lemma rb_read_segment_pos: "rb_inv rb \<Longrightarrow> rb_contents rb \<noteq> [] \<Longrightarrow> 0 < rb_read_segment rb"
  by (auto simp: rb_inv_def rb_read_segment_def rb_contents_def split: if_splits)

lemma rb_write_segment_pos: "rb_inv rb \<Longrightarrow> 0 < free_bytes rb \<Longrightarrow> 0 < rb_write_segment rb"
  by (auto simp: free_bytes_eq rb_inv_def rb_write_segment_def rb_contents_def rb_capacity_def
      split: if_splits)

text \<open>The segment sizes as the code computes them.\<close>

lemma read_segment_code:
  assumes "rb_inv rb"
  shows "(if rb_write_idx rb \<ge> rb_read_idx rb then usub (rb_write_idx rb) (rb_read_idx rb)
      else usub (length (rb_buffer rb)) (rb_read_idx rb)) = rb_read_segment rb"
  using assms by (simp add: rb_inv_def rb_read_segment_def usub_le)

lemma write_segment_code:
  assumes "rb_inv rb"
  shows "(let segment = (if rb_write_idx rb \<ge> rb_read_idx rb
              then usub (length (rb_buffer rb)) (rb_write_idx rb)
              else usub (usub (rb_read_idx rb) (rb_write_idx rb)) 1)
          in if rb_read_idx rb = 0 then usub segment 1 else segment) = rb_write_segment rb"
  using assms by (auto simp: rb_inv_def rb_write_segment_def usub_le)

lemma rb_index_code:
  "rb_inv rb \<Longrightarrow> i \<le> length (rb_buffer rb) \<Longrightarrow> k \<le> length (rb_buffer rb) \<Longrightarrow> uadd i k = i + k"
  using MAX_MEMCOPY_u64 [of "length (rb_buffer rb)"] by (simp add: rb_inv_def uadd_small)

subsection \<open>The loops\<close>

text \<open>What reading up to \<open>n\<close> bytes into a buffer from position \<open>br\<close> does.\<close>

definition rb_read_result :: "ring_buffer \<Rightarrow> TransactionalBuffer \<Rightarrow> nat \<Rightarrow> nat
    \<Rightarrow> ring_buffer \<Rightarrow> TransactionalBuffer \<Rightarrow> bool" where
  "rb_read_result rb b br n rb' b' \<longleftrightarrow>
     rb_inv rb' \<and> rb_capacity rb' = rb_capacity rb \<and> rb_contents rb' = drop n (rb_contents rb) \<and>
     tb_ok b' \<and> tb_size b' = tb_size b \<and>
     tb_bytes b' = take br (tb_bytes b) @ take n (rb_contents rb) @ drop (br + n) (tb_bytes b)"

lemma rb_read_result_0: "rb_inv rb \<Longrightarrow> tb_ok b \<Longrightarrow> rb_read_result rb b br 0 rb b"
  by (simp add: rb_read_result_def)

lemma rb_read_result_trans:
  assumes "rb_read_result rb b br k rb1 b1" and "rb_read_result rb1 b1 (br + k) n rb2 b2"
    and "k \<le> length (rb_contents rb)" and "br + k \<le> tb_size b" and "tb_ok b"
  shows "rb_read_result rb b br (k + n) rb2 b2"
proof -
  have len: "length (tb_bytes b) = tb_size b" using assms(5) by simp
  have "take (br + k) (tb_bytes b1) = take br (tb_bytes b) @ take k (rb_contents rb)"
    using assms(1,3,4) len by (simp add: rb_read_result_def)
  moreover have "drop (br + k + n) (tb_bytes b1) = drop (br + (k + n)) (tb_bytes b)"
    using assms(1,3,4) len by (simp add: rb_read_result_def ac_simps)
  moreover have "take (k + n) (rb_contents rb) = take k (rb_contents rb) @ take n (drop k (rb_contents rb))"
    by (simp add: take_add)
  ultimately show ?thesis
    using assms(1,2) by (simp add: rb_read_result_def add.commute)
qed

lemma rb_read_step:
  assumes inv: "rb_inv rb" and ok: "tb_ok b" and br: "br < tb_size b" and "rb_contents rb \<noteq> []"
    and k: "k = min (rb_read_segment rb) (tb_size b - br)"
  shows "\<exists>b'. rb_read_loop rb b (pending_bytes rb) br =
      rb_read_loop (rb_consume k rb) b' (pending_bytes (rb_consume k rb)) (br + k) \<and>
      rb_read_result rb b br k (rb_consume k rb) b'"
proof -
  have seg: "k \<le> rb_read_segment rb" and fit: "br + k \<le> tb_size b" using k br by auto
  have cap: "rb_read_idx rb + k \<le> length (rb_buffer rb)" and max: "k \<le> MAX_MEMCOPY"
    using seg inv by (auto simp: rb_read_segment_def rb_inv_def split: if_splits)
  obtain b' where b': "tb_write_from b (take k (rb_contents rb)) br = Some (Value k, b')" "tb_ok b'"
      "tb_size b' = tb_size b"
      "tb_bytes b' = take br (tb_bytes b) @ take k (rb_contents rb) @ drop (br + k) (tb_bytes b)"
    using tb_write_ok [OF ok, of br "take k (rb_contents rb)"] fit max seg
      rb_read_segment_le [OF inv] by (auto simp: min_absorb2)
  have "rb_read_loop rb b (pending_bytes rb) br =
      rb_read_loop (rb_consume k rb) b' (pending_bytes (rb_consume k rb)) (br + k)"
    using assms(4) br b'(1) cap fit tb_size_bound [OF ok] rb_consume_bytes [OF inv seg]
      rb_index_code [OF inv, of "rb_read_idx rb" k]
    by (subst rb_read_loop.simps)
      (simp add: read_segment_code [OF inv] usub_le k [symmetric] pending_bytes_eq [OF inv]
        mem_read_def rb_consume_def uadd_small Let_def)
  then show ?thesis
    using b' rb_consume_inv [OF inv seg] rb_consume_contents [OF inv seg]
    by (auto simp: rb_read_result_def)
qed

lemma rb_read_loop_ok:
  assumes "rb_inv rb" and "tb_ok b" and "br \<le> tb_size b"
  shows "\<exists>rb' b'. rb_read_loop rb b (pending_bytes rb) br =
      Some (Value (br + min (length (rb_contents rb)) (tb_size b - br)), rb', b') \<and>
      rb_read_result rb b br (min (length (rb_contents rb)) (tb_size b - br)) rb' b'"
  using assms
proof (induction "length (rb_contents rb)" arbitrary: rb b br rule: less_induct)
  case less
  show ?case
  proof (cases "rb_contents rb = [] \<or> br = tb_size b")
    case True
    then show ?thesis
      using less.prems
      by (subst rb_read_loop.simps) (auto simp: pending_bytes_eq rb_read_result_0)
  next
    case False
    define k where "k = min (rb_read_segment rb) (tb_size b - br)"
    obtain b1 where step: "rb_read_loop rb b (pending_bytes rb) br =
        rb_read_loop (rb_consume k rb) b1 (pending_bytes (rb_consume k rb)) (br + k)"
      and res: "rb_read_result rb b br k (rb_consume k rb) b1"
      using rb_read_step [OF less.prems(1,2) _ _ k_def] False less.prems(3) by auto
    have k: "0 < k" "k \<le> length (rb_contents rb)" "br + k \<le> tb_size b"
      using False less.prems rb_read_segment_pos [OF less.prems(1)]
        rb_read_segment_le [OF less.prems(1)] by (auto simp: k_def)
    have sz: "tb_size b1 = tb_size b" and len: "length (rb_contents (rb_consume k rb)) = length (rb_contents rb) - k"
      using res by (simp_all add: rb_read_result_def)
    define n where "n = min (length (rb_contents rb) - k) (tb_size b - (br + k))"
    have split_min: "min (length (rb_contents rb)) (tb_size b - br) = k + n"
      using k by (auto simp: n_def min_def)
    have lt: "length (rb_contents (rb_consume k rb)) < length (rb_contents rb)"
      using len k by linarith
    have prems: "rb_inv (rb_consume k rb)" "tb_ok b1" "br + k \<le> tb_size b1"
      using res k sz by (simp_all add: rb_read_result_def)
    obtain rb' b' where
      "rb_read_loop (rb_consume k rb) b1 (pending_bytes (rb_consume k rb)) (br + k) =
         Some (Value (br + k + n), rb', b')"
      "rb_read_result (rb_consume k rb) b1 (br + k) n rb' b'"
      using less.hyps [OF lt prems] unfolding sz len n_def by blast
    then show ?thesis
      unfolding split_min step using rb_read_result_trans [OF res _ k(2,3) less.prems(2)]
      by (auto simp: add.assoc)
  qed
qed

text \<open>The write side: one step produces a segment, and the loop appends what fits.\<close>

lemma rb_write_step:
  assumes inv: "rb_inv rb" and ok: "tb_ok b" and bw: "bw < tb_size b" and "0 < free_bytes rb"
    and k: "k = min (rb_write_segment rb) (tb_size b - bw)"
    and bs: "bs = take k (drop bw (tb_bytes b))"
  shows "rb_write_loop rb b (free_bytes rb) bw =
      rb_write_loop (rb_produce bs rb) b (free_bytes (rb_produce bs rb)) (bw + k)"
    and "length bs = k" and "k \<le> rb_write_segment rb"
proof -
  show seg: "k \<le> rb_write_segment rb" using k by simp
  have fit: "bw + k \<le> tb_size b" using k bw by auto
  show len: "length bs = k" using fit ok by (simp add: bs)
  have cap: "rb_write_idx rb + k \<le> length (rb_buffer rb)" and max: "k \<le> MAX_MEMCOPY"
    using seg inv by (auto simp: rb_write_segment_def rb_inv_def split: if_splits)
  have read: "tb_read_to b k bw = Some (Value k, bs)"
    using tb_read_ok [OF ok fit max] bs by simp
  show "rb_write_loop rb b (free_bytes rb) bw =
      rb_write_loop (rb_produce bs rb) b (free_bytes (rb_produce bs rb)) (bw + k)"
    using assms(4) bw read cap fit tb_size_bound [OF ok] len
      rb_index_code [OF inv, of "rb_write_idx rb" k] write_segment_code [OF inv]
    by (subst rb_write_loop.simps)
      (simp add: usub_le k [symmetric] mem_write_def rb_produce_def uadd_small Let_def)
qed

lemma rb_write_loop_ok:
  assumes "rb_inv rb" and "tb_ok b" and "bw \<le> tb_size b"
  shows "\<exists>rb'. rb_write_loop rb b (free_bytes rb) bw =
      Some (Value (bw + min (free_bytes rb) (tb_size b - bw)), rb') \<and> rb_inv rb' \<and>
      rb_capacity rb' = rb_capacity rb \<and>
      rb_contents rb' = rb_contents rb @ take (min (free_bytes rb) (tb_size b - bw)) (drop bw (tb_bytes b))"
  using assms
proof (induction "free_bytes rb" arbitrary: rb bw rule: less_induct)
  case less
  show ?case
  proof (cases "free_bytes rb = 0 \<or> bw = tb_size b")
    case True
    then show ?thesis using less.prems by (subst rb_write_loop.simps) auto
  next
    case False
    define k where "k = min (rb_write_segment rb) (tb_size b - bw)"
    define bs where "bs = take k (drop bw (tb_bytes b))"
    define rb1 where "rb1 = rb_produce bs rb"
    have bw: "bw < tb_size b" and pos: "0 < free_bytes rb" using False less.prems(3) by auto
    note step = rb_write_step [OF less.prems(1,2) bw pos k_def bs_def, folded rb1_def]
    have seg: "length bs \<le> rb_write_segment rb" using step(2,3) by simp
    have inv1: "rb_inv rb1" and cap1: "rb_capacity rb1 = rb_capacity rb"
      and con1: "rb_contents rb1 = rb_contents rb @ bs"
      using rb_produce_inv [OF less.prems(1) seg] rb_produce_contents [OF less.prems(1) seg]
        rb_produce_capacity [OF less.prems(1) seg] by (simp_all add: rb1_def)
    have k: "0 < k" "k \<le> free_bytes rb" "bw + k \<le> tb_size b"
      using pos bw rb_write_segment_pos [OF less.prems(1)] rb_write_segment_le [OF less.prems(1)]
      by (auto simp: k_def)
    have free1: "free_bytes rb1 = free_bytes rb - k"
      using step(2) by (simp add: free_bytes_eq inv1 less.prems(1) cap1 con1)
    define n where "n = min (free_bytes rb - k) (tb_size b - (bw + k))"
    have split_min: "min (free_bytes rb) (tb_size b - bw) = k + n"
      using k by (auto simp: n_def min_def)
    have lt: "free_bytes rb1 < free_bytes rb" using free1 k by linarith
    obtain rb' where rb': "rb_write_loop rb1 b (free_bytes rb1) (bw + k) = Some (Value (bw + k + n), rb')"
      "rb_inv rb'" "rb_capacity rb' = rb_capacity rb"
      "rb_contents rb' = rb_contents rb @ bs @ take n (drop (bw + k) (tb_bytes b))"
      using less.hyps [OF lt inv1 less.prems(2) k(3)] unfolding free1 cap1 con1 n_def by auto
    have "take (k + n) (drop bw (tb_bytes b)) = bs @ take n (drop (bw + k) (tb_bytes b))"
      by (simp add: bs_def take_add add.commute)
    with rb' show ?thesis unfolding split_min step(1) by (auto simp: add.assoc)
  qed
qed

subsection \<open>The two operations\<close>

lemma rb_write_full:
  "rb_inv rb \<Longrightarrow> free_bytes rb < tb_size b \<Longrightarrow> rb_write_to rb b False = Some (Err EAGAIN, rb)"
  by (simp add: rb_write_to_def Let_def)

lemma rb_write_fits:
  assumes "rb_inv rb" and "tb_ok b" and "partial \<or> tb_size b \<le> free_bytes rb"
  shows "\<exists>rb'. rb_write_to rb b partial = Some (Value (min (free_bytes rb) (tb_size b)), rb') \<and>
    rb_inv rb' \<and> rb_capacity rb' = rb_capacity rb \<and>
    rb_contents rb' = rb_contents rb @ take (free_bytes rb) (tb_bytes b)"
proof -
  have "take (min (free_bytes rb) (tb_size b)) (tb_bytes b) = take (free_bytes rb) (tb_bytes b)"
    using assms(2) by (simp add: min_def)
  then show ?thesis
    using rb_write_loop_ok [OF assms(1,2), of 0] assms(3)
    by (auto simp: rb_write_to_def Let_def)
qed

lemma rb_read_empty:
  assumes "rb_inv rb" and "tb_size b < rb_capacity rb" and "length (rb_contents rb) < tb_size b"
  shows "rb_read_to rb b False = Some (Err EAGAIN, rb, b)"
  using assms by (simp add: rb_read_to_def pending_bytes_eq rb_capacity_def)

lemma rb_read_fits:
  assumes "rb_inv rb" and "tb_ok b" and "partial \<or> tb_size b \<le> length (rb_contents rb)"
  shows "\<exists>rb' b'. rb_read_to rb b partial =
      Some (Value (min (length (rb_contents rb)) (tb_size b)), rb', b') \<and>
    rb_read_result rb b 0 (min (length (rb_contents rb)) (tb_size b)) rb' b'"
proof -
  have "partial \<or> tb_size b < length (rb_buffer rb)"
    using assms(3) rb_contents_less [OF assms(1)] by (auto simp: rb_capacity_def)
  then show ?thesis
    using rb_read_loop_ok [OF assms(1,2), of 0] assms(3)
    by (auto simp: rb_read_to_def pending_bytes_eq [OF assms(1)] Let_def)
qed

subsection \<open>The contract of a byte queue\<close>

text \<open>
  Messages are sent whole or not at all, and are received in the order of sending.
  \<open>room\<close> is the number of bytes that can still be sent.
\<close>

locale byte_queue =
  fixes inv :: "'q \<Rightarrow> bool"
    and room :: "'q \<Rightarrow> nat"
    and contents :: "'q \<Rightarrow> u8 list"
    and send :: "'q \<Rightarrow> TransactionalBuffer \<Rightarrow> (uSize expected \<times> 'q) option"
    and receive :: "'q \<Rightarrow> TransactionalBuffer \<Rightarrow> (uSize expected \<times> 'q \<times> TransactionalBuffer) option"
  assumes send_fits:
      "inv q \<Longrightarrow> tb_ok b \<Longrightarrow> tb_size b \<le> room q \<Longrightarrow>
       \<exists>q'. send q b = Some (Value (tb_size b), q') \<and> inv q' \<and> room q' = room q - tb_size b \<and>
         contents q' = contents q @ tb_bytes b"
    and send_full: "inv q \<Longrightarrow> room q < tb_size b \<Longrightarrow> send q b = Some (Err EAGAIN, q)"
    and receive_fits:
      "inv q \<Longrightarrow> tb_ok b \<Longrightarrow> tb_size b \<le> length (contents q) \<Longrightarrow> contents q \<noteq> [] \<Longrightarrow>
       \<exists>q' b'. receive q b = Some (Value (tb_size b), q', b') \<and> inv q' \<and>
         room q' = room q + tb_size b \<and> contents q' = drop (tb_size b) (contents q) \<and>
         tb_bytes b' = take (tb_size b) (contents q)"
begin

primrec send_all :: "TransactionalBuffer list \<Rightarrow> 'q \<Rightarrow> 'q option" where
  "send_all [] q = Some q"
| "send_all (b # bs) q = (case send q b of Some (Value _, q') \<Rightarrow> send_all bs q' | _ \<Rightarrow> None)"

text \<open>A sequence of messages that fits is accepted, and the queue holds their bytes in order.\<close>

lemma send_all_fits:
  assumes "inv q" and "list_all tb_ok bs" and "sum_list (map tb_size bs) \<le> room q"
  shows "\<exists>q'. send_all bs q = Some q' \<and> inv q' \<and> contents q' = contents q @ concat (map tb_bytes bs)"
  using assms
proof (induction bs arbitrary: q)
  case Nil
  then show ?case by simp
next
  case (Cons b bs)
  then obtain q1 where q1: "send q b = Some (Value (tb_size b), q1)" "inv q1"
      "room q1 = room q - tb_size b" "contents q1 = contents q @ tb_bytes b"
    using send_fits [of q b] by auto
  then show ?case using Cons.IH [of q1] Cons.prems by auto
qed

text \<open>First in, first out: the first message sent to an empty queue is the first received.\<close>

lemma fifo:
  assumes "inv q" and "contents q = []" and "tb_ok m" and "list_all tb_ok ms"
    and "tb_size m + sum_list (map tb_size ms) \<le> room q" and "0 < tb_size m"
    and "tb_ok d" and "tb_size d = tb_size m"
  shows "\<exists>q' q'' d'. send_all (m # ms) q = Some q' \<and>
    receive q' d = Some (Value (tb_size m), q'', d') \<and> tb_bytes d' = tb_bytes m \<and>
    contents q'' = concat (map tb_bytes ms)"
proof -
  obtain q' where q': "send_all (m # ms) q = Some q'" "inv q'"
      "contents q' = tb_bytes m @ concat (map tb_bytes ms)"
    using send_all_fits [of q "m # ms"] assms by auto
  have len: "length (tb_bytes m) = tb_size m" using assms(3) by simp
  have "tb_size d \<le> length (contents q')" and "contents q' \<noteq> []"
    using q'(3) len assms(6,8) by auto
  then obtain q'' d' where "receive q' d = Some (Value (tb_size d), q'', d')"
      "contents q'' = drop (tb_size d) (contents q')" "tb_bytes d' = take (tb_size d) (contents q')"
    using receive_fits [OF q'(2) assms(7)] by blast
  then show ?thesis using q' len assms(8) by auto
qed

end

interpretation rbq: byte_queue rb_inv free_bytes rb_contents
  "\<lambda>rb b. rb_write_to rb b False" "\<lambda>rb b. rb_read_to rb b False"
proof unfold_locales
  show "\<exists>rb'. rb_write_to rb b False = Some (Value (tb_size b), rb') \<and> rb_inv rb' \<and>
      free_bytes rb' = free_bytes rb - tb_size b \<and> rb_contents rb' = rb_contents rb @ tb_bytes b"
    if that: "rb_inv rb" "tb_ok b" "tb_size b \<le> free_bytes rb" for rb b
    using rb_write_fits [of rb b False] that by (auto simp: free_bytes_eq)
next
  show "\<exists>rb' b'. rb_read_to rb b False = Some (Value (tb_size b), rb', b') \<and> rb_inv rb' \<and>
      free_bytes rb' = free_bytes rb + tb_size b \<and> rb_contents rb' = drop (tb_size b) (rb_contents rb) \<and>
      tb_bytes b' = take (tb_size b) (rb_contents rb)"
    if that: "rb_inv rb" "tb_ok b" "tb_size b \<le> length (rb_contents rb)" for rb b
    using rb_read_fits [of rb b False] rb_contents_less [OF that(1)] that
    by (auto simp: rb_read_result_def free_bytes_eq min_absorb2)
qed (simp add: rb_write_full)

subsection \<open>Properties\<close>

text \<open>
  C9: \<open>ring_buffer::write_to\<close> refines appending to a bounded list, on every branch: a message
  that does not fit is refused with \<open>EAGAIN\<close> and changes nothing unless partial writes are
  allowed; otherwise the loop returns, reports how many bytes it took, appends exactly those
  to the contents and keeps the invariant and the capacity.
\<close>

theorem rb_write_refines:
  assumes "rb_inv rb" and "tb_ok b"
  defines "room \<equiv> rb_capacity rb - 1 - length (rb_contents rb)"
  shows "\<exists>rb' res. rb_write_to rb b partial = Some (res, rb') \<and> rb_inv rb' \<and>
    rb_capacity rb' = rb_capacity rb \<and>
    (if \<not> partial \<and> room < tb_size b then res = Err EAGAIN \<and> rb' = rb
     else res = Value (min room (tb_size b)) \<and>
       rb_contents rb' = rb_contents rb @ take room (tb_bytes b))"
proof (cases "\<not> partial \<and> room < tb_size b")
  case True
  then show ?thesis
    using rb_write_full [OF assms(1)] assms(1) by (simp add: room_def free_bytes_eq)
next
  case False
  then show ?thesis
    using rb_write_fits [OF assms(1,2), of partial] assms(1)
    by (auto simp: room_def free_bytes_eq)
qed

theorem rb_write_refines_witness:
  "\<exists>rb' res. rb_write_to \<lparr>rb_buffer = [0, 0, 7, 8], rb_read_idx = 2, rb_write_idx = 0\<rparr>
     (KernelBuffer [9]) False = Some (res, rb') \<and> rb_inv rb' \<and> rb_capacity rb' = 4 \<and>
     res = Value 1 \<and> rb_contents rb' = [7, 8, 9]"
proof -
  let ?rb = "\<lparr>rb_buffer = [0, 0, 7, 8], rb_read_idx = 2, rb_write_idx = 0\<rparr> :: ring_buffer"
  have "rb_inv ?rb" and "rb_capacity ?rb = 4" and "rb_contents ?rb = [7, 8]"
    by (simp_all add: rb_inv_def rb_contents_def rb_capacity_def MAX_MEMCOPY_def)
  then show ?thesis using rb_write_refines [of ?rb "KernelBuffer [9]" False] by simp
qed

text \<open>
  C10: \<open>ring_buffer::read_to\<close> on every branch.  A read that is not partial and asks for as many bytes as
  the buffer has room for, or more, stops the system: it is asserted to be smaller.  Otherwise it refines
  taking from the front of the list: a request for more than is pending is refused with \<open>EAGAIN\<close> and
  changes nothing unless partial reads are allowed; else the loop returns, the oldest bytes are moved to
  the start of the caller's buffer in order, the rest of that buffer is unchanged, and the queue
  keeps the remaining bytes.
\<close>

theorem rb_read_refines:
  assumes "rb_inv rb" and "tb_ok b"
  defines "n \<equiv> min (length (rb_contents rb)) (tb_size b)"
  shows "if \<not> partial \<and> rb_capacity rb \<le> tb_size b then rb_read_to rb b partial = None
    else \<exists>rb' b' res. rb_read_to rb b partial = Some (res, rb', b') \<and> rb_inv rb' \<and>
      rb_capacity rb' = rb_capacity rb \<and>
      (if \<not> partial \<and> length (rb_contents rb) < tb_size b then res = Err EAGAIN \<and> rb' = rb \<and> b' = b
       else res = Value n \<and> rb_contents rb' = drop n (rb_contents rb) \<and>
         tb_bytes b' = take n (rb_contents rb) @ drop n (tb_bytes b))"
proof -
  consider (panics) "\<not> partial \<and> rb_capacity rb \<le> tb_size b"
    | (refused) "\<not> partial" "tb_size b < rb_capacity rb" "length (rb_contents rb) < tb_size b"
    | (served) "partial \<or> tb_size b \<le> length (rb_contents rb)" by linarith
  then show ?thesis
  proof cases
    case panics
    then show ?thesis by (simp add: rb_read_to_def rb_capacity_def)
  next
    case refused
    then show ?thesis using rb_read_empty [OF assms(1)] assms(1) by simp
  next
    case served
    then have "partial \<or> tb_size b < rb_capacity rb" using rb_contents_less [OF assms(1)] by auto
    then show ?thesis
      using rb_read_fits [OF assms(1,2) served] served by (auto simp: n_def rb_read_result_def)
  qed
qed

theorem rb_read_refines_witness:
  "\<exists>rb' b' res. rb_read_to \<lparr>rb_buffer = [9, 0, 7, 8], rb_read_idx = 2, rb_write_idx = 1\<rparr>
     (KernelBuffer [1, 2, 3]) False = Some (res, rb', b') \<and> rb_inv rb' \<and> res = Value 3 \<and>
     rb_contents rb' = [] \<and> tb_bytes b' = [7, 8, 9]"
proof -
  let ?rb = "\<lparr>rb_buffer = [9, 0, 7, 8], rb_read_idx = 2, rb_write_idx = 1\<rparr> :: ring_buffer"
  have "rb_inv ?rb" and "rb_capacity ?rb = 4" and "rb_contents ?rb = [7, 8, 9]"
    by (simp_all add: rb_inv_def rb_contents_def rb_capacity_def MAX_MEMCOPY_def)
  then show ?thesis using rb_read_refines [of ?rb "KernelBuffer [1, 2, 3]" False]
    by (auto simp: numeral_3_eq_3)
qed

end
