(* ===== verification/Pipe.thy ===== *)
theory Pipe
  imports Ring_Buffer
begin

text \<open>
  \<open>kernel/src/process/pipe.cpp\<close> and \<open>pipe.h\<close>: the anonymous pipe.  Its two copy loops are
  written out again in the source with one difference to the ring buffer's: the write loop
  does not look at the free space again, so a blocking write to a full pipe spins.  The
  reader polls in the same way.  The pipe is the second provider of \<open>byte_queue\<close>; the queue
  part of its state is the ring buffer \<open>pipe_rb\<close>, through which the segment lemmas of
  that theory apply.
\<close>

record pipe =
  pipe_data :: "u8 list"
  pipe_read_idx :: uSize
  pipe_write_idx :: uSize

definition PIPE_DEFAULT_SIZE :: uSize where
  "PIPE_DEFAULT_SIZE = 4096"

definition pipe_new :: pipe where
  "pipe_new = \<lparr>pipe_data = replicate PIPE_DEFAULT_SIZE 0, pipe_read_idx = 0, pipe_write_idx = 0\<rparr>"

definition pipe_write_space :: "pipe \<Rightarrow> uSize" where
  "pipe_write_space p =
     (if pipe_write_idx p \<ge> pipe_read_idx p
      then usub (uadd (usub (length (pipe_data p)) (pipe_write_idx p)) (pipe_read_idx p)) 1
      else usub (usub (pipe_read_idx p) (pipe_write_idx p)) 1)"

definition pipe_read_space :: "pipe \<Rightarrow> uSize" where
  "pipe_read_space p =
     (if pipe_write_idx p \<ge> pipe_read_idx p then usub (pipe_write_idx p) (pipe_read_idx p)
      else uadd (usub (length (pipe_data p)) (pipe_read_idx p)) (pipe_write_idx p))"

text \<open>The loop of \<open>write\<close> (lines 34 to 46); \<open>None\<close> is not returning.\<close>

partial_function (option) pipe_write_loop ::
  "pipe \<Rightarrow> TransactionalBuffer \<Rightarrow> uSize \<Rightarrow> (uSize expected \<times> pipe) option" where
  "pipe_write_loop p buffer bytes_written =
     (if bytes_written < tb_size buffer then
        (let segment =
               (if pipe_write_idx p \<ge> pipe_read_idx p
                then usub (length (pipe_data p)) (pipe_write_idx p)
                else usub (usub (pipe_read_idx p) (pipe_write_idx p)) 1);
             segment_write_space = (if pipe_read_idx p = 0 then usub segment 1 else segment);
             to_write = min segment_write_space (usub (tb_size buffer) bytes_written)
         in do {
           (res, bs) \<leftarrow> tb_read_to buffer to_write bytes_written;
           (case res of
              Err e \<Rightarrow> Some (Err e, p)
            | Value _ \<Rightarrow> do {
                m' \<leftarrow> mem_write (pipe_data p) (pipe_write_idx p) bs;
                (let idx = uadd (pipe_write_idx p) to_write
                 in pipe_write_loop
                      (p\<lparr>pipe_data := m',
                         pipe_write_idx := if idx = length (pipe_data p) then 0 else idx\<rparr>)
                      buffer (uadd bytes_written to_write)) })
         })
      else Some (Value bytes_written, p))"

definition pipe_write :: "pipe \<Rightarrow> TransactionalBuffer \<Rightarrow> bool \<Rightarrow> (uSize expected \<times> pipe) option" where
  "pipe_write p buffer blocking =
     (if pipe_write_space p < tb_size buffer \<and> \<not> blocking then Some (Err EAGAIN, p)
      else pipe_write_loop p buffer 0)"

text \<open>The polling loop of \<open>read\<close> (lines 49 to 52) and its copy loop (lines 56 to 67).\<close>

partial_function (option) pipe_wait_loop :: "pipe \<Rightarrow> bool \<Rightarrow> uSize option" where
  "pipe_wait_loop p blocking =
     (let read_space = pipe_read_space p
      in if read_space = 0 \<and> blocking then pipe_wait_loop p blocking else Some read_space)"

partial_function (option) pipe_read_loop ::
  "pipe \<Rightarrow> TransactionalBuffer \<Rightarrow> uSize \<Rightarrow> uSize
     \<Rightarrow> (uSize expected \<times> pipe \<times> TransactionalBuffer) option" where
  "pipe_read_loop p buffer read_space bytes_read =
     (if read_space \<noteq> 0 \<and> bytes_read < tb_size buffer then
        (let segment_read_space =
               (if pipe_write_idx p \<ge> pipe_read_idx p then usub (pipe_write_idx p) (pipe_read_idx p)
                else usub (length (pipe_data p)) (pipe_read_idx p));
             to_read = min segment_read_space (usub (tb_size buffer) bytes_read)
         in do {
           bs \<leftarrow> mem_read (pipe_data p) (pipe_read_idx p) to_read;
           (res, buffer') \<leftarrow> tb_write_from buffer bs bytes_read;
           (case res of
              Err e \<Rightarrow> Some (Err e, p, buffer')
            | Value _ \<Rightarrow>
                (let idx = uadd (pipe_read_idx p) to_read;
                     p' = p\<lparr>pipe_read_idx := if idx = length (pipe_data p) then 0 else idx\<rparr>
                 in pipe_read_loop p' buffer' (pipe_read_space p') (uadd bytes_read to_read)))
         })
      else Some (Value bytes_read, p, buffer))"

definition pipe_read :: "pipe \<Rightarrow> TransactionalBuffer \<Rightarrow> bool
    \<Rightarrow> (uSize expected \<times> pipe \<times> TransactionalBuffer) option" where
  "pipe_read p buffer blocking = do {
     read_space \<leftarrow> pipe_wait_loop p blocking;
     (if read_space = 0 then Some (Err EAGAIN, p, buffer)
      else pipe_read_loop p buffer read_space 0)
   }"

text \<open>\<open>PipeHandle\<close>: the end of a pipe that a process holds.\<close>

record pipe_handle =
  ph_is_reader :: bool
  ph_is_blocking :: bool

definition pipe_handle_read :: "pipe_handle \<Rightarrow> pipe \<Rightarrow> TransactionalBuffer
    \<Rightarrow> (uSize expected \<times> pipe \<times> TransactionalBuffer) option" where
  "pipe_handle_read h p buffer =
     (if ph_is_reader h then pipe_read p buffer (ph_is_blocking h) else Some (Err ENOTSUP, p, buffer))"

definition pipe_handle_write :: "pipe_handle \<Rightarrow> pipe \<Rightarrow> TransactionalBuffer
    \<Rightarrow> (uSize expected \<times> pipe) option" where
  "pipe_handle_write h p buffer =
     (if \<not> ph_is_reader h then pipe_write p buffer (ph_is_blocking h) else Some (Err ENOTSUP, p))"

subsection \<open>The queue part as a ring buffer\<close>

definition pipe_rb :: "pipe \<Rightarrow> ring_buffer" where
  "pipe_rb p = \<lparr>rb_buffer = pipe_data p, rb_read_idx = pipe_read_idx p, rb_write_idx = pipe_write_idx p\<rparr>"

definition rb_pipe :: "ring_buffer \<Rightarrow> pipe" where
  "rb_pipe rb = \<lparr>pipe_data = rb_buffer rb, pipe_read_idx = rb_read_idx rb, pipe_write_idx = rb_write_idx rb\<rparr>"

lemma pipe_rb_inverse [simp]: "pipe_rb (rb_pipe rb) = rb" "rb_pipe (pipe_rb p) = p"
  by (simp_all add: pipe_rb_def rb_pipe_def)

lemma pipe_rb_sel [simp]:
  "rb_buffer (pipe_rb p) = pipe_data p" "rb_read_idx (pipe_rb p) = pipe_read_idx p"
  "rb_write_idx (pipe_rb p) = pipe_write_idx p"
  by (simp_all add: pipe_rb_def)

lemma pipe_write_space_rb: "pipe_write_space p = free_bytes (pipe_rb p)"
  by (simp add: pipe_write_space_def free_bytes_def)

lemma pipe_read_space_rb: "pipe_read_space p = pending_bytes (pipe_rb p)"
  by (simp add: pipe_read_space_def pending_bytes_def)

lemma rb_pipe_sel [simp]:
  "pipe_data (rb_pipe rb) = rb_buffer rb" "pipe_read_idx (rb_pipe rb) = rb_read_idx rb"
  "pipe_write_idx (rb_pipe rb) = rb_write_idx rb"
  by (simp_all add: rb_pipe_def)

lemma rb_pipe_update [simp]:
  "(rb_pipe rb)\<lparr>pipe_read_idx := r\<rparr> = rb_pipe (rb\<lparr>rb_read_idx := r\<rparr>)"
  "(rb_pipe rb)\<lparr>pipe_data := m, pipe_write_idx := w\<rparr> = rb_pipe (rb\<lparr>rb_buffer := m, rb_write_idx := w\<rparr>)"
  by (simp_all add: rb_pipe_def)

lemma pipe_update_rb:
  "rb_pipe ((pipe_rb p)\<lparr>rb_buffer := m, rb_write_idx := w\<rparr>) = p\<lparr>pipe_data := m, pipe_write_idx := w\<rparr>"
  by (simp add: rb_pipe_def pipe_rb_def)

text \<open>The copy loops simulate those of the ring buffer.\<close>

lemma pipe_read_loop_sim:
  assumes "rb_read_loop rb b rs br = Some y"
  shows "pipe_read_loop (rb_pipe rb) b rs br = Some (map_prod id (map_prod rb_pipe id) y)"
  using assms
proof (rule rb_read_loop.raw_induct [rotated], goal_cases)
  case (1 loop rb b rs br y)
  show ?case
  proof (cases "rs \<noteq> 0 \<and> br < tb_size b")
    case False
    then show ?thesis using 1(2) by (subst pipe_read_loop.simps) auto
  next
    case True
    define k where "k = min (if rb_write_idx rb \<ge> rb_read_idx rb then usub (rb_write_idx rb) (rb_read_idx rb)
                else usub (length (rb_buffer rb)) (rb_read_idx rb)) (usub (tb_size b) br)"
    define rb1 where "rb1 = rb\<lparr>rb_read_idx := if uadd (rb_read_idx rb) k = length (rb_buffer rb) then 0
      else uadd (rb_read_idx rb) k\<rparr>"
    obtain bs res b1 where step: "mem_read (rb_buffer rb) (rb_read_idx rb) k = Some bs"
        "tb_write_from b bs br = Some (res, b1)"
        "(case res of Err e \<Rightarrow> Some (Err e, rb, b1)
          | Value _ \<Rightarrow> loop rb1 b1 (pending_bytes rb1) (uadd br k)) = Some y"
      using 1(2) True unfolding Let_def k_def [symmetric] rb1_def [symmetric]
      by (simp add: bind_eq_Some_conv split: prod.splits) metis
    have "pipe_read_loop (rb_pipe rb) b rs br = (case res of Err e \<Rightarrow> Some (Err e, rb_pipe rb, b1)
          | Value _ \<Rightarrow> pipe_read_loop (rb_pipe rb1) b1 (pending_bytes rb1) (uadd br k))"
      using True step(1,2)
      by (subst pipe_read_loop.simps)
        (unfold Let_def rb_pipe_sel rb_pipe_update pipe_read_space_rb pipe_rb_inverse,
          fold k_def, fold rb1_def, simp)
    then show ?thesis using step(3) 1(1) by (cases res) auto
  qed
qed

lemma pipe_write_loop_sim:
  assumes "rb_write_loop rb b ws bw = Some y" and "fst y = Value (tb_size b)"
  shows "pipe_write_loop (rb_pipe rb) b bw = Some (map_prod id rb_pipe y)"
proof -
  have "fst y = Value (tb_size b) \<longrightarrow>
      pipe_write_loop (rb_pipe rb) b bw = Some (map_prod id rb_pipe y)"
    using assms(1)
  proof (rule rb_write_loop.raw_induct [rotated], goal_cases)
    case (1 loop rb b ws bw y)
    show ?case
    proof (cases "ws \<noteq> 0 \<and> bw < tb_size b")
      case False
      then show ?thesis using 1(2) by (subst pipe_write_loop.simps) auto
    next
      case True
      define k where "k = min (if rb_read_idx rb = 0
          then usub (if rb_write_idx rb \<ge> rb_read_idx rb then usub (length (rb_buffer rb)) (rb_write_idx rb)
                else usub (usub (rb_read_idx rb) (rb_write_idx rb)) 1) 1
          else (if rb_write_idx rb \<ge> rb_read_idx rb then usub (length (rb_buffer rb)) (rb_write_idx rb)
                else usub (usub (rb_read_idx rb) (rb_write_idx rb)) 1)) (usub (tb_size b) bw)"
      define rb1 where "rb1 m = rb\<lparr>rb_buffer := m, rb_write_idx :=
        if uadd (rb_write_idx rb) k = length (rb_buffer rb) then 0 else uadd (rb_write_idx rb) k\<rparr>" for m
      have eq: "pipe_write_loop (rb_pipe rb) b bw = do {
           (res, bs) \<leftarrow> tb_read_to b k bw;
           (case res of Err e \<Rightarrow> Some (Err e, rb_pipe rb)
            | Value _ \<Rightarrow> do { m' \<leftarrow> mem_write (rb_buffer rb) (rb_write_idx rb) bs;
                pipe_write_loop (rb_pipe (rb1 m')) b (uadd bw k) }) }"
        using True
        by (subst pipe_write_loop.simps)
          (unfold Let_def rb_pipe_sel rb_pipe_update, fold k_def, fold rb1_def, simp)
      have "tb_read_to b k bw \<bind> (\<lambda>(res, bs). case res of Err e \<Rightarrow> Some (Err e, rb)
            | Value _ \<Rightarrow> mem_write (rb_buffer rb) (rb_write_idx rb) bs \<bind>
                (\<lambda>m'. loop (rb1 m') b (free_bytes (rb1 m')) (uadd bw k))) = Some y"
        using 1(2) unfolding Let_def k_def [symmetric] rb1_def [symmetric] if_P [OF True] .
      then obtain res bs where read: "tb_read_to b k bw = Some (res, bs)"
          and rest: "(case res of Err e \<Rightarrow> Some (Err e, rb)
            | Value _ \<Rightarrow> mem_write (rb_buffer rb) (rb_write_idx rb) bs \<bind>
                (\<lambda>m'. loop (rb1 m') b (free_bytes (rb1 m')) (uadd bw k))) = Some y"
        by (auto simp only: bind_eq_Some_conv split_paired_Ex prod.case)
      show ?thesis
      proof (cases res)
        case (Value v)
        then obtain m' where m': "mem_write (rb_buffer rb) (rb_write_idx rb) bs = Some m'"
            and "loop (rb1 m') b (free_bytes (rb1 m')) (uadd bw k) = Some y"
          using rest by (auto simp: bind_eq_Some_conv)
        then show ?thesis using 1(1) Value read unfolding eq by simp
      next
        case (Err e)
        then show ?thesis using rest by auto
      qed
    qed
  qed
  then show ?thesis using assms(2) by simp
qed

subsection \<open>Non-blocking operations are a byte queue\<close>

definition pipe_inv :: "pipe \<Rightarrow> bool" where
  "pipe_inv p \<longleftrightarrow> rb_inv (pipe_rb p)"

definition pipe_contents :: "pipe \<Rightarrow> u8 list" where
  "pipe_contents p = rb_contents (pipe_rb p)"

lemma pipe_new_ok: "pipe_inv pipe_new" "pipe_contents pipe_new = []" "pipe_write_space pipe_new = 4095"
  by (simp_all add: pipe_inv_def pipe_contents_def rb_inv_def rb_contents_def pipe_rb_def pipe_new_def
      pipe_write_space_def PIPE_DEFAULT_SIZE_def MAX_MEMCOPY_def usub_le uadd_small)

text \<open>A write that fits is stored whole, whether it may block or not.\<close>

lemma pipe_write_fits:
  assumes "pipe_inv p" and "tb_ok b" and "tb_size b \<le> pipe_write_space p"
  shows "\<exists>p'. pipe_write p b blocking = Some (Value (tb_size b), p') \<and> pipe_inv p' \<and>
    pipe_write_space p' = pipe_write_space p - tb_size b \<and>
    pipe_contents p' = pipe_contents p @ tb_bytes b"
proof -
  have inv: "rb_inv (pipe_rb p)" using assms(1) by (simp add: pipe_inv_def)
  have fits: "tb_size b \<le> free_bytes (pipe_rb p)" using assms(3) by (simp add: pipe_write_space_rb)
  obtain rb' where rb': "rb_write_loop (pipe_rb p) b (free_bytes (pipe_rb p)) 0 = Some (Value (tb_size b), rb')"
      "rb_inv rb'" "rb_capacity rb' = rb_capacity (pipe_rb p)"
      "rb_contents rb' = rb_contents (pipe_rb p) @ tb_bytes b"
    using rb_write_loop_ok [OF inv assms(2), of 0] fits assms(2) by (auto simp: min_absorb2)
  have "pipe_write_loop p b 0 = Some (Value (tb_size b), rb_pipe rb')"
    using pipe_write_loop_sim [OF rb'(1)] by simp
  then show ?thesis
    using rb' assms(2,3) inv
    by (auto simp: pipe_write_def pipe_inv_def pipe_contents_def pipe_write_space_rb free_bytes_eq)
qed

lemma pipe_wait_returns: "0 < pipe_read_space p \<or> \<not> blocking \<Longrightarrow> pipe_wait_loop p blocking = Some (pipe_read_space p)"
  by (subst pipe_wait_loop.simps) (auto simp: Let_def)

text \<open>A read from a pipe that is not empty takes what is there, at most the buffer's size.\<close>

lemma pipe_read_fits:
  assumes "pipe_inv p" and "tb_ok b" and "pipe_contents p \<noteq> []"
  defines "n \<equiv> min (length (pipe_contents p)) (tb_size b)"
  shows "\<exists>p' b'. pipe_read p b blocking = Some (Value n, p', b') \<and> pipe_inv p' \<and>
    pipe_write_space p' = pipe_write_space p + n \<and>
    pipe_contents p' = drop n (pipe_contents p) \<and>
    tb_bytes b' = take n (pipe_contents p) @ drop n (tb_bytes b)"
proof -
  have inv: "rb_inv (pipe_rb p)" using assms(1) by (simp add: pipe_inv_def)
  have space: "pipe_read_space p = length (pipe_contents p)"
    using inv by (simp add: pipe_read_space_rb pending_bytes_eq pipe_contents_def)
  obtain rb' b' where loop: "rb_read_loop (pipe_rb p) b (pending_bytes (pipe_rb p)) 0 = Some (Value n, rb', b')"
      and res: "rb_read_result (pipe_rb p) b 0 n rb' b'"
    using rb_read_loop_ok [OF inv assms(2), of 0] by (auto simp: n_def pipe_contents_def)
  have "pipe_read_loop p b (pipe_read_space p) 0 = Some (Value n, rb_pipe rb', b')"
    using pipe_read_loop_sim [OF loop] by (simp add: pipe_read_space_rb)
  moreover have "pipe_wait_loop p blocking = Some (pipe_read_space p)"
    using space assms(3) by (simp add: pipe_wait_returns)
  moreover have "free_bytes rb' = free_bytes (pipe_rb p) + n"
    using res inv rb_contents_less [OF inv]
    by (auto simp: rb_read_result_def free_bytes_eq n_def pipe_contents_def)
  ultimately show ?thesis
    using res space assms(3)
    by (auto simp: pipe_read_def rb_read_result_def pipe_inv_def pipe_contents_def pipe_write_space_rb)
qed

interpretation pq: byte_queue pipe_inv pipe_write_space pipe_contents
  "\<lambda>p b. pipe_write p b False" "\<lambda>p b. pipe_read p b False"
proof unfold_locales
  show "\<exists>p'. pipe_write p b False = Some (Value (tb_size b), p') \<and> pipe_inv p' \<and>
      pipe_write_space p' = pipe_write_space p - tb_size b \<and> pipe_contents p' = pipe_contents p @ tb_bytes b"
    if "pipe_inv p" "tb_ok b" "tb_size b \<le> pipe_write_space p" for p b
    using pipe_write_fits [OF that] .
next
  show "\<exists>p' b'. pipe_read p b False = Some (Value (tb_size b), p', b') \<and> pipe_inv p' \<and>
      pipe_write_space p' = pipe_write_space p + tb_size b \<and>
      pipe_contents p' = drop (tb_size b) (pipe_contents p) \<and>
      tb_bytes b' = take (tb_size b) (pipe_contents p)"
    if "pipe_inv p" "tb_ok b" "tb_size b \<le> length (pipe_contents p)" "pipe_contents p \<noteq> []" for p b
    using pipe_read_fits [of p b False] that by (auto simp: min_absorb2)
qed (simp add: pipe_write_def)

text \<open>The first of several messages written to an empty pipe is the first to be read.\<close>

lemmas pipe_first_message = pq.fifo

subsection \<open>A blocking write with too little room\<close>

text \<open>One round of the write loop, in the terms of the ring buffer.\<close>

lemma pipe_write_loop_round:
  assumes "pipe_inv p" and ok: "tb_ok b" and bw: "bw < tb_size b"
    and k: "k = min (rb_write_segment (pipe_rb p)) (tb_size b - bw)"
  shows "(let segment =
               (if pipe_write_idx p \<ge> pipe_read_idx p
                then usub (length (pipe_data p)) (pipe_write_idx p)
                else usub (usub (pipe_read_idx p) (pipe_write_idx p)) 1);
             segment_write_space = (if pipe_read_idx p = 0 then usub segment 1 else segment);
             to_write = min segment_write_space (usub (tb_size b) bw)
         in do {
           (res, bs) \<leftarrow> tb_read_to b to_write bw;
           (case res of
              Err e \<Rightarrow> Some (Err e, p)
            | Value _ \<Rightarrow> do {
                m' \<leftarrow> mem_write (pipe_data p) (pipe_write_idx p) bs;
                (let idx = uadd (pipe_write_idx p) to_write
                 in loop
                      (p\<lparr>pipe_data := m',
                         pipe_write_idx := if idx = length (pipe_data p) then 0 else idx\<rparr>)
                      b (uadd bw to_write)) })
         }) = loop (rb_pipe (rb_produce (take k (drop bw (tb_bytes b))) (pipe_rb p))) b (bw + k)"
proof -
  have inv: "rb_inv (pipe_rb p)" using assms(1) by (simp add: pipe_inv_def)
  have seg: "k \<le> rb_write_segment (pipe_rb p)" and fit: "bw + k \<le> tb_size b" using k bw by auto
  have cap: "pipe_write_idx p + k \<le> length (pipe_data p)" and max: "k \<le> MAX_MEMCOPY"
    using seg inv by (auto simp: rb_write_segment_def rb_inv_def split: if_splits)
  have "uadd (pipe_write_idx p) k = pipe_write_idx p + k"
    using rb_index_code [OF inv, of "pipe_write_idx p" k] cap by simp
  moreover have "tb_read_to b k bw = Some (Value k, take k (drop bw (tb_bytes b)))"
    using tb_read_ok [OF ok fit max] .
  moreover have seg_code: "(if pipe_read_idx p = 0
      then usub (if pipe_write_idx p \<ge> pipe_read_idx p
                 then usub (length (pipe_data p)) (pipe_write_idx p)
                 else usub (usub (pipe_read_idx p) (pipe_write_idx p)) 1) 1
      else if pipe_write_idx p \<ge> pipe_read_idx p then usub (length (pipe_data p)) (pipe_write_idx p)
           else usub (usub (pipe_read_idx p) (pipe_write_idx p)) 1) = rb_write_segment (pipe_rb p)"
    using write_segment_code [OF inv] by (simp only: Let_def pipe_rb_sel)
  ultimately show ?thesis
    using cap fit tb_size_bound [OF ok] ok bw unfolding Let_def seg_code
    by (simp add: usub_le k [symmetric] mem_write_def rb_produce_def uadd_small pipe_update_rb)
qed

lemma pipe_write_loop_spins:
  assumes "pipe_write_loop p b bw = Some y"
  shows "\<not> (pipe_inv p \<and> tb_ok b \<and> pipe_write_space p < tb_size b - bw)"
  using assms
proof (rule pipe_write_loop.raw_induct [rotated], goal_cases)
  case (1 loop p b bw y)
  show ?case
  proof
    assume asm: "pipe_inv p \<and> tb_ok b \<and> pipe_write_space p < tb_size b - bw"
    then have bw: "bw < tb_size b" and inv: "rb_inv (pipe_rb p)" by (auto simp: pipe_inv_def)
    define k where "k = min (rb_write_segment (pipe_rb p)) (tb_size b - bw)"
    define bs where "bs = take k (drop bw (tb_bytes b))"
    have len: "length bs = k" using asm by (simp add: bs_def k_def)
    have seg: "length bs \<le> rb_write_segment (pipe_rb p)" unfolding len by (simp add: k_def)
    have "loop (rb_pipe (rb_produce bs (pipe_rb p))) b (bw + k) = Some y"
      using 1(2) pipe_write_loop_round [OF _ _ bw k_def, of loop] asm bw by (simp add: bs_def)
    from 1(1) [OF this]
    have "\<not> (pipe_write_space (rb_pipe (rb_produce bs (pipe_rb p))) < tb_size b - (bw + k))"
      using asm rb_produce_inv [OF inv seg] by (simp add: pipe_inv_def)
    moreover have "free_bytes (rb_produce bs (pipe_rb p)) = free_bytes (pipe_rb p) - k"
      using rb_produce_inv [OF inv seg] rb_produce_contents [OF inv seg] inv seg len
      by (simp add: free_bytes_eq)
    moreover have "k \<le> free_bytes (pipe_rb p)" using rb_write_segment_le [OF inv] by (simp add: k_def)
    ultimately show False using asm by (auto simp: pipe_write_space_rb)
  qed
qed

subsection \<open>Properties\<close>

text \<open>Writes and reads of a pipe that is not blocking, and what each of them gives.\<close>

datatype pipe_op = PipeWrite TransactionalBuffer | PipeRead TransactionalBuffer

datatype pipe_outcome = Written "uSize expected" | Taken "uSize expected" "u8 list"

fun pipe_run :: "pipe \<Rightarrow> pipe_op list \<Rightarrow> (pipe_outcome list \<times> pipe) option" where
  "pipe_run p [] = Some ([], p)"
| "pipe_run p (PipeWrite b # ops) = do {
     (res, p1) \<leftarrow> pipe_write p b False;
     (outcomes, p2) \<leftarrow> pipe_run p1 ops;
     Some (Written res # outcomes, p2) }"
| "pipe_run p (PipeRead b # ops) = do {
     (res, p1, b') \<leftarrow> pipe_read p b False;
     (outcomes, p2) \<leftarrow> pipe_run p1 ops;
     Some (Taken res (tb_bytes b') # outcomes, p2) }"

text \<open>The same on a bounded list: a message is taken whole or refused, a read takes what there is.\<close>

fun queue_run :: "nat \<Rightarrow> u8 list \<Rightarrow> pipe_op list \<Rightarrow> pipe_outcome list \<times> u8 list" where
  "queue_run capacity q [] = ([], q)"
| "queue_run capacity q (PipeWrite b # ops) =
     (if length q + tb_size b \<le> capacity
      then apfst (Cons (Written (Value (tb_size b)))) (queue_run capacity (q @ tb_bytes b) ops)
      else apfst (Cons (Written (Err EAGAIN))) (queue_run capacity q ops))"
| "queue_run capacity q (PipeRead b # ops) =
     (if q = [] then apfst (Cons (Taken (Err EAGAIN) (tb_bytes b))) (queue_run capacity q ops)
      else (let n = min (length q) (tb_size b)
            in apfst (Cons (Taken (Value n) (take n q @ drop n (tb_bytes b)))) (queue_run capacity (drop n q) ops)))"

text \<open>The bytes of the messages that were accepted, and the bytes that were read, in order.\<close>

fun bytes_in :: "pipe_op list \<Rightarrow> pipe_outcome list \<Rightarrow> u8 list" where
  "bytes_in (PipeWrite b # ops) (Written (Value n) # rs) = take n (tb_bytes b) @ bytes_in ops rs"
| "bytes_in (_ # ops) (_ # rs) = bytes_in ops rs"
| "bytes_in _ _ = []"

fun bytes_out :: "pipe_outcome list \<Rightarrow> u8 list" where
  "bytes_out (Taken (Value n) bs # rs) = take n bs @ bytes_out rs"
| "bytes_out (_ # rs) = bytes_out rs"
| "bytes_out [] = []"

fun op_ok :: "pipe_op \<Rightarrow> bool" where
  "op_ok (PipeWrite b) = tb_ok b"
| "op_ok (PipeRead b) = tb_ok b"

lemma pipe_room: "pipe_inv p \<Longrightarrow> pipe_write_space p = length (pipe_data p) - 1 - length (pipe_contents p)
    \<and> length (pipe_contents p) < length (pipe_data p)"
  using rb_contents_less [of "pipe_rb p"]
  by (simp add: pipe_inv_def pipe_contents_def pipe_write_space_rb free_bytes_eq rb_capacity_def)

lemma pipe_read_empty:
  assumes "pipe_inv p" and "pipe_contents p = []"
  shows "pipe_read p b False = Some (Err EAGAIN, p, b)"
  using assms by (simp add: pipe_read_def pipe_wait_returns pipe_read_space_rb pending_bytes_eq
      pipe_inv_def pipe_contents_def)

lemma queue_run_fifo:
  assumes "list_all op_ok ops"
  shows "q @ bytes_in ops (fst (queue_run c q ops)) = bytes_out (fst (queue_run c q ops)) @ snd (queue_run c q ops)"
  using assms
proof (induction c q ops rule: queue_run.induct)
  case (2 c q b ops)
  then show ?case by (simp add: append_assoc[symmetric] del: append_assoc)
next
  case (3 c q b ops)
  then show ?case
    by (auto simp: Let_def min_def) (metis append.assoc append_take_drop_id)
qed simp

lemma pipe_run_queue:
  assumes "pipe_inv p" and "list_all op_ok ops" and "pipe_write_space p + length (pipe_contents p) = capacity"
  shows "\<exists>p'. pipe_run p ops = Some (fst (queue_run capacity (pipe_contents p) ops), p') \<and> pipe_inv p'
     \<and> pipe_contents p' = snd (queue_run capacity (pipe_contents p) ops)"
  using assms
proof (induction ops arbitrary: p)
  case (Cons op ops)
  show ?case
  proof (cases op)
    case (PipeWrite b)
    then have ok: "tb_ok b" "length (tb_bytes b) = tb_size b" using Cons.prems by simp_all
    show ?thesis
    proof (cases "tb_size b \<le> pipe_write_space p")
      case True
      then obtain p1 where p1: "pipe_write p b False = Some (Value (tb_size b), p1)" "pipe_inv p1"
        "pipe_write_space p1 = pipe_write_space p - tb_size b" "pipe_contents p1 = pipe_contents p @ tb_bytes b"
        using pipe_write_fits [OF Cons.prems(1) ok(1)] by blast
      then show ?thesis using Cons.IH [of p1] Cons.prems True PipeWrite ok by auto
    next
      case False
      then have "pipe_write p b False = Some (Err EAGAIN, p)" by (simp add: pipe_write_def)
      then show ?thesis using Cons.IH [of p] Cons.prems False PipeWrite by auto
    qed
  next
    case (PipeRead b)
    then have ok: "tb_ok b" using Cons.prems by simp
    show ?thesis
    proof (cases "pipe_contents p = []")
      case True
      then show ?thesis using Cons.IH [of p] Cons.prems PipeRead pipe_read_empty by auto
    next
      case False
      define n where "n = min (length (pipe_contents p)) (tb_size b)"
      obtain p1 b' where p1: "pipe_read p b False = Some (Value n, p1, b')" "pipe_inv p1"
        "pipe_write_space p1 = pipe_write_space p + n" "pipe_contents p1 = drop n (pipe_contents p)"
        "tb_bytes b' = take n (pipe_contents p) @ drop n (tb_bytes b)"
        using pipe_read_fits [OF Cons.prems(1) ok False] unfolding n_def by blast
      have "pipe_write_space p1 + length (pipe_contents p1) = capacity"
        using p1(3,4) Cons.prems(3) by (simp add: n_def)
      then show ?thesis using Cons.IH [of p1] Cons.prems p1 PipeRead False by (auto simp: Let_def n_def)
    qed
  qed
qed simp

text \<open>
  C11: a pipe whose ends do not block delivers bytes first in, first out, under any sequence of writes and
  reads of any sizes, starting from any contents.  Every write and every read gives exactly what it gives
  on a bounded list: a message is accepted whole when there is room for it and refused with \<open>EAGAIN\<close>
  otherwise, a read takes what is there up to the size of its buffer or gives \<open>EAGAIN\<close>.  So the bytes that
  were in the pipe and those accepted later are those read, in the same order, and then those still there.
\<close>

theorem pipe_fifo:
  assumes "pipe_inv p" and "list_all op_ok ops" and "length (pipe_data p) = Suc capacity"
  shows "\<exists>outcomes p'. pipe_run p ops = Some (outcomes, p') \<and> pipe_inv p' \<and>
    (outcomes, pipe_contents p') = queue_run capacity (pipe_contents p) ops \<and>
    pipe_contents p @ bytes_in ops outcomes = bytes_out outcomes @ pipe_contents p'"
proof -
  have "pipe_write_space p + length (pipe_contents p) = capacity"
    using pipe_room [OF assms(1)] assms(3) by simp
  then show ?thesis
    using pipe_run_queue [OF assms(1,2)] queue_run_fifo [OF assms(2), of "pipe_contents p" capacity]
    by (force simp: prod_eq_iff)
qed

theorem pipe_fifo_witness:
  "\<exists>outcomes p'. pipe_run pipe_new [PipeWrite (KernelBuffer [1, 2]), PipeWrite (UserBuffer [3]),
      PipeRead (KernelBuffer [0]), PipeRead (KernelBuffer [0, 0, 0])] = Some (outcomes, p') \<and>
    outcomes = [Written (Value 2), Written (Value 1), Taken (Value 1) [1], Taken (Value 2) [2, 3, 0]] \<and>
    pipe_contents p' = []"
proof -
  have "list_all op_ok [PipeWrite (KernelBuffer [1, 2]), PipeWrite (UserBuffer [3]),
      PipeRead (KernelBuffer [0]), PipeRead (KernelBuffer [0, 0, 0])]" by simp
  moreover have "length (pipe_data pipe_new) = Suc 4095" by (simp add: pipe_new_def PIPE_DEFAULT_SIZE_def)
  ultimately obtain outcomes p' where run: "pipe_run pipe_new [PipeWrite (KernelBuffer [1, 2]), PipeWrite (UserBuffer [3]),
      PipeRead (KernelBuffer [0]), PipeRead (KernelBuffer [0, 0, 0])] = Some (outcomes, p')"
    and queue: "(outcomes, pipe_contents p') = queue_run 4095 (pipe_contents pipe_new) [PipeWrite (KernelBuffer [1, 2]),
      PipeWrite (UserBuffer [3]), PipeRead (KernelBuffer [0]), PipeRead (KernelBuffer [0, 0, 0])]"
    using pipe_fifo [OF pipe_new_ok(1)] by blast
  from queue have "outcomes = [Written (Value 2), Written (Value 1), Taken (Value 1) [1], Taken (Value 2) [2, 3, 0]]"
    and "pipe_contents p' = []" by (simp_all add: pipe_new_ok(2))
  with run show ?thesis by blast
qed

text \<open>
a blocking write of more bytes than there is room for does not return while nobody reads:
  once the room is used up, every further round of the loop copies nothing.  (The same write
  returns \<open>EAGAIN\<close> at once when it may not block.)
\<close>

theorem pipe_blocking_write_spins:
  assumes "pipe_inv p" and "tb_ok b" and "pipe_write_space p < tb_size b"
  shows "pipe_write p b True = None \<and> pipe_write p b False = Some (Err EAGAIN, p)"
  using pipe_write_loop_spins [of p b 0] assms
  by (cases "pipe_write_loop p b 0") (auto simp: pipe_write_def)

theorem pipe_blocking_write_spins_witness:
  "pipe_write pipe_new (UserBuffer (replicate 4096 0)) True = None"
  using pipe_blocking_write_spins [of pipe_new "UserBuffer (replicate 4096 0)"]
  by (simp add: pipe_new_ok)

end
