(* ===== verification/Hashtable.thy ===== *)
theory Hashtable
  imports Bek_Utility
begin

text \<open>
  \<open>kernel/include/library/hashtable.h\<close>: open addressing with linear probing.  The two arrays
  \<open>buckets\<close> and \<open>filled\<close> are one list of slots (a bucket has a value only where the fill
  flag says so) and the capacity is its length.  The hash function of the key type is an
  argument.

  Reference meaning: \<open>ht_map\<close>, a linear search of the slots.  The invariant \<open>ht_inv\<close> says
  that keys are unique, that the load counts the filled slots and that no probe path to a key
  crosses an empty slot.
\<close>

datatype ('k, 'v) slot = SEmpty | SDeleted | SFilled 'k 'v

record ('k, 'v) hashtable =
  ht_slots :: "('k, 'v) slot list"
  ht_load :: uSize

abbreviation ht_capacity :: "('k, 'v) hashtable \<Rightarrow> uSize" where
  "ht_capacity t \<equiv> length (ht_slots t)"

definition hashtable_new :: "uSize \<Rightarrow> ('k, 'v) hashtable" where
  "hashtable_new cap = \<lparr>ht_slots = replicate cap SEmpty, ht_load = 0\<rparr>"

fun slot_hit :: "'k \<Rightarrow> bool \<Rightarrow> ('k, 'v) slot \<Rightarrow> bool" where
  "slot_hit key inserting SEmpty = True"
| "slot_hit key inserting SDeleted = inserting"
| "slot_hit key inserting (SFilled k v) = (key = k)"

text \<open>The slots in the order of the two loops of \<open>unchecked_lookup\<close>.\<close>

definition probes :: "nat \<Rightarrow> nat \<Rightarrow> nat list" where
  "probes index cap = [index..<cap] @ [0..<index]"

definition unchecked_lookup :: "('k \<Rightarrow> u64) \<Rightarrow> ('k, 'v) hashtable \<Rightarrow> 'k \<Rightarrow> bool \<Rightarrow> uSize option" where
  "unchecked_lookup hash t key inserting = do {
     verify (0 < ht_capacity t);
     (let index = unat (hash key) mod ht_capacity t
      in List.find (\<lambda>i. slot_hit key inserting (ht_slots t ! i)) (probes index (ht_capacity t))) }"

text \<open>
  \<open>unchecked_set\<close>: the index of the iterator, whether the pair was stored, and the table.
\<close>

definition unchecked_set :: "('k \<Rightarrow> u64) \<Rightarrow> ('k, 'v) hashtable \<Rightarrow> 'k \<Rightarrow> 'v \<Rightarrow> bool
    \<Rightarrow> (uSize \<times> bool \<times> ('k, 'v) hashtable) option" where
  "unchecked_set hash t key val overwrite = do {
     index \<leftarrow> unchecked_lookup hash t key True;
     (case ht_slots t ! index of
        SFilled _ _ \<Rightarrow>
          if overwrite then Some (index, True, t\<lparr>ht_slots := (ht_slots t)[index := SFilled key val]\<rparr>)
          else Some (index, False, t)
      | _ \<Rightarrow> Some (index, True, t\<lparr>ht_slots := (ht_slots t)[index := SFilled key val],
                                ht_load := ht_load t + 1\<rparr>)) }"

fun transfer :: "('k \<Rightarrow> u64) \<Rightarrow> ('k, 'v) slot list \<Rightarrow> ('k, 'v) hashtable \<Rightarrow> ('k, 'v) hashtable option" where
  "transfer hash [] t = Some t"
| "transfer hash (SFilled k v # rest) t =
     do { (_, _, t') \<leftarrow> unchecked_set hash t k v False; transfer hash rest t' }"
| "transfer hash (_ # rest) t = transfer hash rest t"

definition check_size :: "('k \<Rightarrow> u64) \<Rightarrow> ('k, 'v) hashtable \<Rightarrow> ('k, 'v) hashtable option" where
  "check_size hash t =
     (if ht_load t * 2 > ht_capacity t
      then transfer hash (ht_slots t) \<lparr>ht_slots = replicate (ht_capacity t * 2) SEmpty, ht_load = 0\<rparr>
      else Some t)"

definition ht_insert :: "('k \<Rightarrow> u64) \<Rightarrow> ('k, 'v) hashtable \<Rightarrow> 'k \<Rightarrow> 'v
    \<Rightarrow> (uSize \<times> bool \<times> ('k, 'v) hashtable) option" where
  "ht_insert hash t key val = do { t' \<leftarrow> check_size hash t; unchecked_set hash t' key val False }"

definition ht_set :: "('k \<Rightarrow> u64) \<Rightarrow> ('k, 'v) hashtable \<Rightarrow> 'k \<Rightarrow> 'v
    \<Rightarrow> (uSize \<times> bool \<times> ('k, 'v) hashtable) option" where
  "ht_set hash t key val = do { t' \<leftarrow> check_size hash t; unchecked_set hash t' key val True }"

definition ht_find :: "('k \<Rightarrow> u64) \<Rightarrow> ('k, 'v) hashtable \<Rightarrow> 'k \<Rightarrow> 'v option option" where
  "ht_find hash t key = do {
     index \<leftarrow> unchecked_lookup hash t key False;
     Some (case ht_slots t ! index of SFilled _ v \<Rightarrow> Some v | _ \<Rightarrow> None) }"

definition ht_extract :: "('k \<Rightarrow> u64) \<Rightarrow> ('k, 'v) hashtable \<Rightarrow> 'k
    \<Rightarrow> ('v option \<times> ('k, 'v) hashtable) option" where
  "ht_extract hash t key = do {
     index \<leftarrow> unchecked_lookup hash t key False;
     Some (case ht_slots t ! index of
             SFilled _ v \<Rightarrow> (Some v, t\<lparr>ht_slots := (ht_slots t)[index := SDeleted],
                                     ht_load := usub (ht_load t) 1\<rparr>)
           | _ \<Rightarrow> (None, t)) }"

text \<open>The pairs in the order of the sequence iterator.\<close>

definition ht_items :: "('k, 'v) hashtable \<Rightarrow> ('k \<times> 'v) list" where
  "ht_items t = List.map_filter (\<lambda>s. case s of SFilled k v \<Rightarrow> Some (k, v) | _ \<Rightarrow> None) (ht_slots t)"

subsection \<open>Reference meaning and invariant\<close>

fun is_filled :: "('k, 'v) slot \<Rightarrow> bool" where
  "is_filled (SFilled _ _) = True"
| "is_filled _ = False"

fun has_key :: "'k \<Rightarrow> ('k, 'v) slot \<Rightarrow> bool" where
  "has_key key (SFilled k _) = (key = k)"
| "has_key key _ = False"

fun slot_value :: "('k, 'v) slot \<Rightarrow> 'v option" where
  "slot_value (SFilled _ v) = Some v"
| "slot_value _ = None"

definition ht_map :: "('k, 'v) hashtable \<Rightarrow> 'k \<Rightarrow> 'v option" where
  "ht_map t key = Option.bind (List.find (has_key key) (ht_slots t)) slot_value"

definition ht_probe :: "('k \<Rightarrow> u64) \<Rightarrow> ('k, 'v) hashtable \<Rightarrow> 'k \<Rightarrow> nat list" where
  "ht_probe hash t key = probes (unat (hash key) mod ht_capacity t) (ht_capacity t)"

definition ht_inv :: "('k \<Rightarrow> u64) \<Rightarrow> ('k, 'v) hashtable \<Rightarrow> bool" where
  "ht_inv hash t \<longleftrightarrow> 0 < ht_capacity t \<and> ht_load t = length (filter is_filled (ht_slots t)) \<and>
     (\<forall>i j k. i < ht_capacity t \<and> j < ht_capacity t \<and> has_key k (ht_slots t ! i) \<and>
        has_key k (ht_slots t ! j) \<longrightarrow> i = j) \<and>
     (\<forall>i k. i < ht_capacity t \<and> has_key k (ht_slots t ! i) \<longrightarrow>
        (\<forall>j \<in> set (takeWhile (\<lambda>j. j \<noteq> i) (ht_probe hash t k)). ht_slots t ! j \<noteq> SEmpty))"

lemma find_Some_iff_takeWhile:
  "List.find P xs = Some i \<longleftrightarrow> i \<in> set xs \<and> P i \<and> (\<forall>j \<in> set (takeWhile (\<lambda>j. j \<noteq> i) xs). \<not> P j)"
  by (induction xs) auto

lemma find_is_Some: "List.find P xs \<noteq> None \<longleftrightarrow> (\<exists>i \<in> set xs. P i)"
  by (induction xs) auto

lemma set_probes [simp]: "h < cap \<Longrightarrow> set (probes h cap) = {0..<cap}"
  by (auto simp: probes_def)

lemma set_ht_probe: "0 < ht_capacity t \<Longrightarrow> set (ht_probe hash t k) = {0..<ht_capacity t}"
  by (simp add: ht_probe_def)

lemma has_key_cases: "has_key k s \<longleftrightarrow> (\<exists>v. s = SFilled k v)"
  by (cases s) auto

lemma lookup_Some_iff:
  "unchecked_lookup hash t key ins = Some i \<longleftrightarrow> 0 < ht_capacity t \<and> i < ht_capacity t \<and>
     slot_hit key ins (ht_slots t ! i) \<and>
     (\<forall>j \<in> set (takeWhile (\<lambda>j. j \<noteq> i) (ht_probe hash t key)). \<not> slot_hit key ins (ht_slots t ! j))"
  by (auto simp: unchecked_lookup_def Let_def find_Some_iff_takeWhile ht_probe_def)

lemma lookup_is_Some:
  assumes "0 < ht_capacity t" and "i < ht_capacity t" and "slot_hit key ins (ht_slots t ! i)"
  shows "\<exists>j. unchecked_lookup hash t key ins = Some j"
  using assms find_is_Some [of "\<lambda>i. slot_hit key ins (ht_slots t ! i)"
      "probes (unat (hash key) mod ht_capacity t) (ht_capacity t)"]
  by (auto simp: unchecked_lookup_def Let_def)

lemma ht_map_Some_iff:
  assumes "ht_inv hash t"
  shows "ht_map t key = Some v \<longleftrightarrow> (\<exists>i < ht_capacity t. ht_slots t ! i = SFilled key v)"
proof
  assume "ht_map t key = Some v"
  then obtain s where s: "List.find (has_key key) (ht_slots t) = Some s" "slot_value s = Some v"
    by (auto simp: ht_map_def bind_eq_Some_conv)
  then have "has_key key s" and "s \<in> set (ht_slots t)" by (auto simp: find_Some_iff)
  with s(2) show "\<exists>i < ht_capacity t. ht_slots t ! i = SFilled key v"
    by (cases s) (auto simp: in_set_conv_nth)
next
  assume "\<exists>i < ht_capacity t. ht_slots t ! i = SFilled key v"
  then obtain i where i: "i < ht_capacity t" "ht_slots t ! i = SFilled key v" by blast
  then obtain s where s: "List.find (has_key key) (ht_slots t) = Some s"
    using find_is_Some [of "has_key key" "ht_slots t"] nth_mem [OF i(1)] by fastforce
  then obtain j where j: "j < ht_capacity t" "s = ht_slots t ! j" "has_key key (ht_slots t ! j)"
    by (auto simp: find_Some_iff)
  then have "i = j" using assms i unfolding ht_inv_def by fastforce
  then show "ht_map t key = Some v" using s i j by (simp add: ht_map_def)
qed

lemma ht_map_None_iff:
  "ht_map t key = None \<longleftrightarrow> (\<forall>i < ht_capacity t. \<not> has_key key (ht_slots t ! i))"
proof -
  have "List.find (has_key key) (ht_slots t) = Some s \<Longrightarrow> \<exists>v. slot_value s = Some v" for s
    by (cases s) (auto simp: find_Some_iff)
  then have "ht_map t key = None \<longleftrightarrow> List.find (has_key key) (ht_slots t) = None"
    by (cases "List.find (has_key key) (ht_slots t)") (auto simp: ht_map_def)
  then show ?thesis by (auto simp: find_None_iff in_set_conv_nth)
qed

subsection \<open>Lookup\<close>

lemma slot_hit_iff: "slot_hit key ins s \<longleftrightarrow> s = SEmpty \<or> (ins \<and> s = SDeleted) \<or> has_key key s"
  by (cases s) auto

lemma before_in_probe:
  assumes "0 < ht_capacity t" and "j \<in> set (takeWhile (\<lambda>j. j \<noteq> i) (ht_probe hash t k))"
  shows "j < ht_capacity t" and "j \<noteq> i"
  using assms set_ht_probe [OF assms(1), of hash k] set_takeWhileD [OF assms(2)] by auto

lemma lookup_present:
  assumes inv: "ht_inv hash t" and i: "i < ht_capacity t" "has_key key (ht_slots t ! i)"
    and del: "ins \<longrightarrow> SDeleted \<notin> set (ht_slots t)"
  shows "unchecked_lookup hash t key ins = Some i"
proof -
  have cap: "0 < ht_capacity t" using inv by (simp add: ht_inv_def)
  have "\<not> slot_hit key ins (ht_slots t ! j)"
    if j: "j \<in> set (takeWhile (\<lambda>j. j \<noteq> i) (ht_probe hash t key))" for j
  proof -
    note jc = before_in_probe [OF cap j]
    have "ht_slots t ! j \<noteq> SEmpty" using inv i j unfolding ht_inv_def by blast
    moreover have "\<not> has_key key (ht_slots t ! j)" using inv i jc unfolding ht_inv_def by blast
    ultimately show ?thesis using del nth_mem [OF jc(1)] by (auto simp: slot_hit_iff)
  qed
  then show ?thesis using i cap by (simp add: lookup_Some_iff slot_hit_iff)
qed

lemma find_ok:
  assumes inv: "ht_inv hash t" and ex: "ht_map t key \<noteq> None \<or> SEmpty \<in> set (ht_slots t)"
  shows "ht_find hash t key = Some (ht_map t key)"
proof (cases "ht_map t key")
  case (Some v)
  then obtain i where i: "i < ht_capacity t" "ht_slots t ! i = SFilled key v"
    using ht_map_Some_iff [OF inv] by blast
  then have "unchecked_lookup hash t key False = Some i" by (intro lookup_present [OF inv]) auto
  then show ?thesis using i Some by (simp add: ht_find_def)
next
  case None
  then obtain e where e: "e < ht_capacity t" "ht_slots t ! e = SEmpty"
    using ex by (auto simp: in_set_conv_nth)
  obtain j where j: "unchecked_lookup hash t key False = Some j"
    using lookup_is_Some [of t e key False hash] e inv by (auto simp: ht_inv_def)
  then have "slot_hit key False (ht_slots t ! j)" "j < ht_capacity t" by (auto simp: lookup_Some_iff)
  then have "ht_slots t ! j = SEmpty" using None by (auto simp: slot_hit_iff ht_map_None_iff)
  then show ?thesis using j None by (simp add: ht_find_def)
qed

subsection \<open>Storing\<close>

lemma length_filter_update:
  "i < length xs \<Longrightarrow> length (filter P (xs[i := y])) + (if P (xs ! i) then 1 else 0)
     = length (filter P xs) + (if P y then 1 else 0)"
proof (induction xs arbitrary: i)
  case (Cons x xs)
  show ?case using Cons.IH [of "i - 1"] Cons.prems by (cases i) (auto split: if_splits)
qed simp

lemma ht_probe_update [simp]: "ht_probe hash (t\<lparr>ht_slots := (ht_slots t)[i := s], ht_load := n\<rparr>) = ht_probe hash t"
  "ht_probe hash (t\<lparr>ht_slots := (ht_slots t)[i := s]\<rparr>) = ht_probe hash t"
  by (simp_all add: ht_probe_def fun_eq_iff)

lemma map_update_slot:
  assumes inv: "ht_inv hash t" and i: "i < ht_capacity t"
    and inv': "ht_inv hash t'" and t': "ht_slots t' = (ht_slots t)[i := SFilled key val]"
    and old: "\<And>k. has_key k (ht_slots t ! i) \<Longrightarrow> k = key"
  shows "ht_map t' = (ht_map t)(key \<mapsto> val)"
proof (rule ext)
  fix k
  have len: "ht_capacity t' = ht_capacity t" by (simp add: t')
  show "ht_map t' k = ((ht_map t)(key \<mapsto> val)) k"
  proof (cases "k = key")
    case True
    have "ht_map t' key = Some val"
      unfolding ht_map_Some_iff [OF inv'] len using i by (intro exI [of _ i]) (simp add: t')
    then show ?thesis using True by simp
  next
    case False
    have "ht_slots t' ! j = SFilled k v \<longleftrightarrow> ht_slots t ! j = SFilled k v" if "j < ht_capacity t" for j v
      using old [of k] False i t' by (cases "j = i") auto
    then have "ht_map t' k = Some v \<longleftrightarrow> ht_map t k = Some v" for v
      unfolding ht_map_Some_iff [OF inv'] ht_map_Some_iff [OF inv] len by blast
    then have "ht_map t' k = ht_map t k" by (rule option_eqI)
    then show ?thesis using False by simp
  qed
qed

lemma inv_fill_slot:
  assumes inv: "ht_inv hash t" and i: "i < ht_capacity t" and free: "\<not> is_filled (ht_slots t ! i)"
    and absent: "ht_map t key = None"
    and path: "\<And>j. j \<in> set (takeWhile (\<lambda>j. j \<noteq> i) (ht_probe hash t key)) \<Longrightarrow> ht_slots t ! j \<noteq> SEmpty"
  shows "ht_inv hash (t\<lparr>ht_slots := (ht_slots t)[i := SFilled key val], ht_load := ht_load t + 1\<rparr>)"
    (is "ht_inv hash ?t")
proof -
  have keys: "has_key k (ht_slots ?t ! j) \<longleftrightarrow> (if j = i then k = key else has_key k (ht_slots t ! j))"
    if "j < ht_capacity t" for j k
    using that by auto
  have "ht_load ?t = length (filter is_filled (ht_slots ?t))"
    using inv free length_filter_update [OF i, of is_filled "SFilled key val"] by (simp add: ht_inv_def)
  moreover have "j1 = j2" if "j1 < ht_capacity t" "j2 < ht_capacity t" "has_key k (ht_slots ?t ! j1)"
      "has_key k (ht_slots ?t ! j2)" for j1 j2 k
    using that keys absent inv unfolding ht_map_None_iff ht_inv_def by metis
  moreover have "ht_slots ?t ! x \<noteq> SEmpty"
    if "j < ht_capacity t" "has_key k (ht_slots ?t ! j)"
      "x \<in> set (takeWhile (\<lambda>x. x \<noteq> j) (ht_probe hash t k))" for j k x
  proof (cases "x = i")
    case True
    then show ?thesis using i by simp
  next
    case False
    have "ht_slots t ! x \<noteq> SEmpty"
    proof (cases "j = i")
      case True
      then show ?thesis using that keys [OF that(1), of k] path by simp
    next
      case j: False
      then show ?thesis using that keys [OF that(1), of k] inv unfolding ht_inv_def by auto
    qed
    then show ?thesis using False by simp
  qed
  ultimately show ?thesis using inv unfolding ht_inv_def by auto
qed

lemma set_absent:
  assumes inv: "ht_inv hash t" and absent: "ht_map t key = None"
    and room: "\<exists>i<ht_capacity t. \<not> is_filled (ht_slots t ! i)"
  shows "\<exists>i t'. unchecked_set hash t key val ow = Some (i, True, t') \<and> ht_inv hash t' \<and>
    ht_map t' = (ht_map t)(key \<mapsto> val) \<and> ht_load t' = ht_load t + 1 \<and>
    ht_capacity t' = ht_capacity t \<and> (SDeleted \<notin> set (ht_slots t) \<longrightarrow> SDeleted \<notin> set (ht_slots t'))"
proof -
  obtain e where e: "e < ht_capacity t" "\<not> is_filled (ht_slots t ! e)" using room by blast
  then have "slot_hit key True (ht_slots t ! e)" by (cases "ht_slots t ! e") auto
  then obtain i where i: "unchecked_lookup hash t key True = Some i"
    using lookup_is_Some [of t e key True hash] e inv by (auto simp: ht_inv_def)
  then have ic: "i < ht_capacity t" and hit: "slot_hit key True (ht_slots t ! i)"
    and path: "\<And>j. j \<in> set (takeWhile (\<lambda>j. j \<noteq> i) (ht_probe hash t key)) \<Longrightarrow> ht_slots t ! j \<noteq> SEmpty"
    by (auto simp: lookup_Some_iff slot_hit_iff)
  have free: "\<not> is_filled (ht_slots t ! i)" and nokey: "\<not> has_key k (ht_slots t ! i)" for k
    using hit absent ic by (cases "ht_slots t ! i"; auto simp: ht_map_None_iff)+
  let ?t = "t\<lparr>ht_slots := (ht_slots t)[i := SFilled key val], ht_load := ht_load t + 1\<rparr>"
  have inv': "ht_inv hash ?t" by (rule inv_fill_slot [OF inv ic free absent path])
  have "ht_map ?t = (ht_map t)(key \<mapsto> val)"
    using nokey by (intro map_update_slot [OF inv ic inv']) auto
  moreover have "unchecked_set hash t key val ow = Some (i, True, ?t)"
    using i free by (cases "ht_slots t ! i") (auto simp: unchecked_set_def)
  moreover have "SDeleted \<notin> set (ht_slots t) \<longrightarrow> SDeleted \<notin> set (ht_slots ?t)"
    using set_update_subset_insert [of "ht_slots t" i "SFilled key val"] by auto
  ultimately show ?thesis using inv' by (intro exI [of _ i] exI [of _ ?t]) simp
qed

definition ht_clean :: "('k, 'v) hashtable \<Rightarrow> bool" where
  "ht_clean t \<longleftrightarrow> SDeleted \<notin> set (ht_slots t)"

lemma set_present:
  assumes inv: "ht_inv hash t" and "ht_clean t" and present: "ht_map t key = Some old"
  shows "\<exists>i t'. unchecked_set hash t key val True = Some (i, True, t') \<and> ht_inv hash t' \<and>
      ht_clean t' \<and> ht_map t' = (ht_map t)(key \<mapsto> val) \<and> ht_capacity t' = ht_capacity t \<and>
      ht_load t' = ht_load t"
    and "\<exists>i. unchecked_set hash t key val False = Some (i, False, t)"
proof -
  obtain i where i: "i < ht_capacity t" "ht_slots t ! i = SFilled key old"
    using present ht_map_Some_iff [OF inv] by blast
  have lookup: "unchecked_lookup hash t key True = Some i"
    using lookup_present [OF inv i(1)] i(2) assms(2) by (auto simp: ht_clean_def)
  show "\<exists>i. unchecked_set hash t key val False = Some (i, False, t)"
    using lookup i(2) by (simp add: unchecked_set_def)
  let ?t = "t\<lparr>ht_slots := (ht_slots t)[i := SFilled key val]\<rparr>"
  have keys: "has_key k (ht_slots ?t ! j) \<longleftrightarrow> has_key k (ht_slots t ! j)" for j k
    using i by (cases "j = i") auto
  have empty: "ht_slots ?t ! j = SEmpty \<longleftrightarrow> ht_slots t ! j = SEmpty" for j
    using i by (cases "j = i") auto
  have "length (filter is_filled (ht_slots ?t)) = length (filter is_filled (ht_slots t))"
    using length_filter_update [OF i(1), of is_filled "SFilled key val"] i(2) by simp
  then have inv': "ht_inv hash ?t"
    using inv unfolding ht_inv_def keys empty ht_probe_update by simp
  have map': "ht_map ?t = (ht_map t)(key \<mapsto> val)"
    using i by (intro map_update_slot [OF inv i(1) inv']) auto
  have clean': "ht_clean ?t"
    using assms(2) set_update_subset_insert [of "ht_slots t" i "SFilled key val"] by (auto simp: ht_clean_def)
  have "unchecked_set hash t key val True = Some (i, True, ?t)"
    using lookup i(2) by (simp add: unchecked_set_def)
  with inv' map' clean' show "\<exists>i t'. unchecked_set hash t key val True = Some (i, True, t') \<and> ht_inv hash t' \<and>
      ht_clean t' \<and> ht_map t' = (ht_map t)(key \<mapsto> val) \<and> ht_capacity t' = ht_capacity t \<and>
      ht_load t' = ht_load t" by (intro exI [of _ i] exI [of _ ?t]) simp
qed

subsection \<open>Growing\<close>

definition slots_map :: "('k, 'v) slot list \<Rightarrow> 'k \<Rightarrow> 'v option" where
  "slots_map ss key = Option.bind (List.find (has_key key) ss) slot_value"

lemma ht_map_slots: "ht_map t = slots_map (ht_slots t)"
  by (simp add: ht_map_def slots_map_def fun_eq_iff)

fun keys_distinct :: "('k, 'v) slot list \<Rightarrow> bool" where
  "keys_distinct [] = True"
| "keys_distinct (SFilled k v # ss) = (slots_map ss k = None \<and> keys_distinct ss)"
| "keys_distinct (SEmpty # ss) = keys_distinct ss"
| "keys_distinct (SDeleted # ss) = keys_distinct ss"

lemma slots_map_simps [simp]:
  "slots_map [] k = None"
  "slots_map (s # ss) k = (if has_key k s then slot_value s else slots_map ss k)"
  by (auto simp: slots_map_def)

lemma slots_map_None: "slots_map ss k = None \<longleftrightarrow> (\<forall>s \<in> set ss. \<not> has_key k s)"
  by (induction ss) (auto simp: has_key_cases)

lemma keys_distinct_inv:
  assumes "\<And>i j k. i < length ss \<Longrightarrow> j < length ss \<Longrightarrow> has_key k (ss ! i) \<Longrightarrow> has_key k (ss ! j) \<Longrightarrow> i = j"
  shows "keys_distinct ss"
  using assms
proof (induction ss rule: keys_distinct.induct)
  case (2 k v ss)
  have "\<not> has_key k s" if "s \<in> set ss" for s
    using that "2.prems" [of 0 "Suc _" k] by (auto simp: in_set_conv_nth)
  moreover have "keys_distinct ss" using "2.prems" [of "Suc _" "Suc _"] by (intro "2.IH") auto
  ultimately show ?case by (simp add: slots_map_None)
next
  case (3 ss)
  then show ?case using "3.prems" [of "Suc _" "Suc _"] by auto
next
  case (4 ss)
  then show ?case using "4.prems" [of "Suc _" "Suc _"] by auto
qed simp

lemma room_left:
  assumes "ht_inv hash t" and "ht_load t < ht_capacity t"
  shows "\<exists>i<ht_capacity t. \<not> is_filled (ht_slots t ! i)"
proof (rule ccontr)
  assume "\<not> ?thesis"
  then have "filter is_filled (ht_slots t) = ht_slots t"
    by (auto simp: filter_id_conv in_set_conv_nth)
  then show False using assms by (simp add: ht_inv_def)
qed

lemma transfer_ok:
  assumes "ht_inv hash t" and "ht_clean t" and "keys_distinct ss"
    and "\<And>k. slots_map ss k \<noteq> None \<Longrightarrow> ht_map t k = None"
    and "ht_load t + length (filter is_filled ss) < ht_capacity t"
  shows "\<exists>t'. transfer hash ss t = Some t' \<and> ht_inv hash t' \<and> ht_clean t' \<and>
    ht_capacity t' = ht_capacity t \<and> ht_load t' = ht_load t + length (filter is_filled ss) \<and>
    ht_map t' = ht_map t ++ slots_map ss"
  using assms
proof (induction ss arbitrary: t rule: keys_distinct.induct)
  case (1 t)
  then show ?case by (auto simp: map_add_def fun_eq_iff)
next
  case (2 k v ss t)
  have absent: "ht_map t k = None" using "2.prems"(4) [of k] by simp
  have room: "\<exists>i<ht_capacity t. \<not> is_filled (ht_slots t ! i)"
    using room_left [OF "2.prems"(1)] "2.prems"(5) by simp
  obtain i t1 where t1: "unchecked_set hash t k v False = Some (i, True, t1)" "ht_inv hash t1"
      "ht_map t1 = (ht_map t)(k \<mapsto> v)" "ht_load t1 = ht_load t + 1" "ht_capacity t1 = ht_capacity t"
      "SDeleted \<notin> set (ht_slots t) \<longrightarrow> SDeleted \<notin> set (ht_slots t1)"
    using set_absent [OF "2.prems"(1) absent room] by blast
  have dist: "slots_map ss k = None" "keys_distinct ss" using "2.prems"(3) by auto
  have clean1: "ht_clean t1" using t1(6) "2.prems"(2) by (simp add: ht_clean_def)
  have disj1: "ht_map t1 j = None" if "slots_map ss j \<noteq> None" for j
    using "2.prems"(4) [of j] that dist(1) t1(3) by (auto split: if_splits)
  have load1: "ht_load t1 + length (filter is_filled ss) < ht_capacity t1"
    using "2.prems"(5) t1(4,5) by simp
  obtain t' where t': "transfer hash ss t1 = Some t'" "ht_inv hash t'" "ht_clean t'"
      "ht_capacity t' = ht_capacity t1" "ht_load t' = ht_load t1 + length (filter is_filled ss)"
      "ht_map t' = ht_map t1 ++ slots_map ss"
    using "2.IH" [OF t1(2) clean1 dist(2) disj1 load1] by blast
  have "ht_map t' = ht_map t ++ slots_map (SFilled k v # ss)"
    unfolding t'(6) t1(3) using dist(1) by (auto simp: map_add_def fun_eq_iff split: option.splits)
  then show ?case using t1(1,4,5) t'(1-5) by (intro exI [of _ t']) (simp del: slots_map_simps)
next
  case (3 ss t)
  then show ?case by (auto simp: map_add_def)
next
  case (4 ss t)
  then show ?case by (auto simp: map_add_def)
qed

lemma inv_empty: "0 < n \<Longrightarrow> ht_inv hash \<lparr>ht_slots = replicate n SEmpty, ht_load = 0\<rparr>"
  by (auto simp: ht_inv_def)

lemma check_size_ok:
  assumes inv: "ht_inv hash t"
  shows "\<exists>t'. check_size hash t = Some t' \<and> ht_inv hash t' \<and> ht_map t' = ht_map t \<and>
    ht_load t' * 2 \<le> ht_capacity t' \<and> ht_capacity t \<le> ht_capacity t' \<and> (ht_clean t \<longrightarrow> ht_clean t')"
proof (cases "ht_load t * 2 > ht_capacity t")
  case False
  then show ?thesis using inv by (auto simp: check_size_def)
next
  case True
  let ?e = "\<lparr>ht_slots = replicate (ht_capacity t * 2) SEmpty, ht_load = 0\<rparr> :: ('a, 'b) hashtable"
  have cap: "0 < ht_capacity t" and load: "ht_load t = length (filter is_filled (ht_slots t))"
    using inv by (auto simp: ht_inv_def)
  have le: "ht_load t \<le> ht_capacity t" unfolding load by (rule length_filter_le)
  have none: "ht_map ?e = (\<lambda>_. None)" by (auto simp: ht_map_None_iff fun_eq_iff)
  have "keys_distinct (ht_slots t)" using inv unfolding ht_inv_def by (intro keys_distinct_inv) blast
  then obtain t' where t': "transfer hash (ht_slots t) ?e = Some t'" "ht_inv hash t'" "ht_clean t'"
      "ht_capacity t' = ht_capacity ?e" "ht_load t' = ht_load ?e + length (filter is_filled (ht_slots t))"
      "ht_map t' = ht_map ?e ++ slots_map (ht_slots t)"
    using transfer_ok [of hash ?e "ht_slots t"] inv_empty [of "ht_capacity t * 2" hash] cap le load none
    by (auto simp: ht_clean_def)
  have "ht_map t' = slots_map (ht_slots t)"
    unfolding t'(6) none by (auto simp: map_add_def fun_eq_iff split: option.splits)
  then have "ht_map t' = ht_map t" by (simp add: ht_map_slots [of t])
  then show ?thesis using True t' le load by (auto simp: check_size_def)
qed

subsection \<open>Removing\<close>

text \<open>Removing a key keeps the invariant, removes exactly that key and leaves a tombstone.\<close>

lemma extract_present:
  assumes inv: "ht_inv hash t" and present: "ht_map t key = Some v"
  shows "\<exists>t'. ht_extract hash t key = Some (Some v, t') \<and> ht_inv hash t' \<and> ht_map t' = (ht_map t)(key := None) \<and>
    ht_load t' + 1 = ht_load t \<and> ht_capacity t' = ht_capacity t"
proof -
  obtain i where i: "i < ht_capacity t" "ht_slots t ! i = SFilled key v"
    using present ht_map_Some_iff [OF inv] by blast
  have lookup: "unchecked_lookup hash t key False = Some i"
    using i by (intro lookup_present [OF inv]) auto
  have count: "length (filter is_filled ((ht_slots t)[i := SDeleted])) + 1 = ht_load t"
    using length_filter_update [OF i(1), of is_filled SDeleted] i(2) inv by (simp add: ht_inv_def)
  let ?t = "t\<lparr>ht_slots := (ht_slots t)[i := SDeleted], ht_load := usub (ht_load t) 1\<rparr>"
  have load: "usub (ht_load t) 1 + 1 = ht_load t" using count by (simp add: usub_le)
  have keys: "has_key k (ht_slots ?t ! j) \<longleftrightarrow> has_key k (ht_slots t ! j) \<and> k \<noteq> key" if "j < ht_capacity t" for j k
  proof (cases "j = i")
    case False
    then have "has_key k (ht_slots t ! j) \<Longrightarrow> k \<noteq> key"
      using inv i that unfolding ht_inv_def by (metis has_key.simps(1))
    then show ?thesis using False by auto
  qed (use i in auto)
  have empty: "ht_slots ?t ! j = SEmpty \<longleftrightarrow> ht_slots t ! j = SEmpty" for j
    using i by (cases "j = i") auto
  have uniq: "a = b" if "a < ht_capacity t" "b < ht_capacity t" "has_key k (ht_slots ?t ! a)"
      "has_key k (ht_slots ?t ! b)" for a b k
    using that keys inv unfolding ht_inv_def by blast
  have reach: "ht_slots ?t ! x \<noteq> SEmpty" if "a < ht_capacity t" "has_key k (ht_slots ?t ! a)"
      "x \<in> set (takeWhile (\<lambda>x. x \<noteq> a) (ht_probe hash t k))" for a k x
    unfolding empty using that keys inv unfolding ht_inv_def by blast
  have inv': "ht_inv hash ?t"
    using inv count load uniq reach unfolding ht_inv_def by auto
  have "ht_map ?t k = Some w \<longleftrightarrow> ((ht_map t)(key := None)) k = Some w" for k w
  proof -
    have "ht_slots ?t ! j = SFilled k w \<longleftrightarrow> ht_slots t ! j = SFilled k w \<and> k \<noteq> key" if "j < ht_capacity t" for j
      using keys [OF that, of k] i that by (cases "j = i") (auto simp: has_key_cases)
    then show ?thesis unfolding ht_map_Some_iff [OF inv'] by (auto simp: ht_map_Some_iff [OF inv])
  qed
  then have "ht_map ?t = (ht_map t)(key := None)" by (intro ext option_eqI) blast
  moreover have "ht_extract hash t key = Some (Some v, ?t)" using lookup i(2) by (simp add: ht_extract_def)
  ultimately show ?thesis using inv' load by (intro exI [of _ ?t]) simp
qed

subsection \<open>The contract of a map\<close>

locale key_map =
  fixes inv :: "'t \<Rightarrow> bool"
    and absm :: "'t \<Rightarrow> 'k \<Rightarrow> 'v option"
    and find_key :: "'t \<Rightarrow> 'k \<Rightarrow> 'v option option"
    and put :: "'t \<Rightarrow> 'k \<Rightarrow> 'v \<Rightarrow> (uSize \<times> bool \<times> 't) option"
    and add :: "'t \<Rightarrow> 'k \<Rightarrow> 'v \<Rightarrow> (uSize \<times> bool \<times> 't) option"
  assumes find_abs: "inv t \<Longrightarrow> find_key t k = Some (absm t k)"
    and put_abs: "inv t \<Longrightarrow> \<exists>i t'. put t k v = Some (i, True, t') \<and> inv t' \<and> absm t' = (absm t)(k \<mapsto> v)"
    and add_abs: "inv t \<Longrightarrow> \<exists>i t'. add t k v = Some (i, absm t k = None, t') \<and> inv t' \<and>
      absm t' = (if absm t k = None then (absm t)(k \<mapsto> v) else absm t)"
begin

lemma find_after_put:
  assumes "inv t"
  shows "\<exists>i t'. put t k v = Some (i, True, t') \<and> inv t' \<and>
    find_key t' j = Some (if j = k then Some v else absm t j)"
  using put_abs [OF assms, of k v] find_abs by fastforce

lemma add_twice:
  assumes "inv t" and "absm t k = None"
  shows "\<exists>i t' i' t''. add t k v = Some (i, True, t') \<and> add t' k w = Some (i', False, t'') \<and>
    find_key t'' k = Some (Some v)"
proof -
  obtain i t' where t': "add t k v = Some (i, True, t')" "inv t'" "absm t' = (absm t)(k \<mapsto> v)"
    using add_abs [OF assms(1), of k v] assms(2) by auto
  obtain i' t'' where "add t' k w = Some (i', False, t'')" "inv t''" "absm t'' = absm t'"
    using add_abs [OF t'(2), of k w] t'(3) by auto
  then show ?thesis using t' find_abs [of t'' k] by auto
qed

end

text \<open>
  The table provides the contract as long as nothing has been removed from it and its capacity
  is at least 3 (the default is 4, and it only grows).
\<close>

definition ht_ok :: "('k \<Rightarrow> u64) \<Rightarrow> ('k, 'v) hashtable \<Rightarrow> bool" where
  "ht_ok hash t \<longleftrightarrow> ht_inv hash t \<and> ht_clean t \<and> ht_load t < ht_capacity t \<and> 3 \<le> ht_capacity t"

lemma ht_ok_empty_slot:
  assumes "ht_ok hash t"
  shows "SEmpty \<in> set (ht_slots t)"
proof -
  obtain i where i: "i < ht_capacity t" "\<not> is_filled (ht_slots t ! i)"
    using room_left [of hash t] assms by (auto simp: ht_ok_def)
  then have "ht_slots t ! i = SEmpty"
    using assms nth_mem [OF i(1)] by (cases "ht_slots t ! i") (auto simp: ht_ok_def ht_clean_def)
  then show ?thesis using nth_mem [OF i(1)] by simp
qed

lemma ht_store_ok:
  assumes "ht_ok hash t"
  shows "\<exists>i t'. ht_set hash t k v = Some (i, True, t') \<and> ht_ok hash t' \<and> ht_map t' = (ht_map t)(k \<mapsto> v)"
    and "\<exists>i t'. ht_insert hash t k v = Some (i, ht_map t k = None, t') \<and> ht_ok hash t' \<and>
      ht_map t' = (if ht_map t k = None then (ht_map t)(k \<mapsto> v) else ht_map t)"
proof -
  obtain t1 where t1: "check_size hash t = Some t1" "ht_inv hash t1" "ht_map t1 = ht_map t"
      "ht_load t1 * 2 \<le> ht_capacity t1" "ht_capacity t \<le> ht_capacity t1" "ht_clean t1"
    using check_size_ok [of hash t] assms by (auto simp: ht_ok_def)
  have cap: "3 \<le> ht_capacity t1" using t1(5) assms by (simp add: ht_ok_def)
  then have ok1: "ht_ok hash t1" using t1 by (simp add: ht_ok_def)
  have new: "\<exists>i t'. unchecked_set hash t1 k v ow = Some (i, True, t') \<and> ht_ok hash t' \<and>
      ht_map t' = (ht_map t)(k \<mapsto> v)" if "ht_map t k = None" for ow
    using set_absent [OF t1(2), of k v ow] room_left [OF t1(2)] that t1 cap
    by (auto simp: ht_ok_def ht_clean_def)
  have keep: "ht_ok hash t'" if "ht_inv hash t'" "ht_clean t'" "ht_capacity t' = ht_capacity t1"
      "ht_load t' = ht_load t1" for t' :: "('a, 'b) hashtable"
    using that ok1 by (simp add: ht_ok_def)
  show "\<exists>i t'. ht_insert hash t k v = Some (i, ht_map t k = None, t') \<and> ht_ok hash t' \<and>
      ht_map t' = (if ht_map t k = None then (ht_map t)(k \<mapsto> v) else ht_map t)"
  proof (cases "ht_map t k")
    case None
    then show ?thesis using new [of False] t1(1) by (auto simp: ht_insert_def)
  next
    case (Some old)
    then show ?thesis
      using set_present(2) [OF t1(2,6), of k old v] t1(1,3) ok1 by (auto simp: ht_insert_def)
  qed
  show "\<exists>i t'. ht_set hash t k v = Some (i, True, t') \<and> ht_ok hash t' \<and> ht_map t' = (ht_map t)(k \<mapsto> v)"
  proof (cases "ht_map t k")
    case None
    then show ?thesis using new [of True] t1(1) by (auto simp: ht_set_def)
  next
    case (Some old)
    then show ?thesis
      using set_present(1) [OF t1(2,6), of k old v] t1(1,3) keep by (auto simp: ht_set_def)
  qed
qed

interpretation ht: key_map "ht_ok hash" ht_map "ht_find hash" "ht_set hash" "ht_insert hash" for hash
proof unfold_locales
  show "ht_find hash t k = Some (ht_map t k)" if "ht_ok hash t" for t :: "('a, 'b) hashtable" and k
    using find_ok [of hash t k] ht_ok_empty_slot [OF that] that by (simp add: ht_ok_def)
qed (rule ht_store_ok, assumption)+

subsection \<open>Properties\<close>

text \<open>
  C12: while nothing has been removed, the table refines a finite map: \<open>find\<close> returns what the map
  holds, \<open>set\<close> overwrites, \<open>insert\<close> stores only a new key and says whether it did, every call
  returns (no probe runs off the end), and the invariant is kept, also when the table grows.
\<close>

theorem hashtable_refines_map:
  assumes "ht_ok hash t"
  shows "ht_find hash t k = Some (ht_map t k) \<and>
    (\<exists>i t'. ht_set hash t k v = Some (i, True, t') \<and> ht_ok hash t' \<and> ht_map t' = (ht_map t)(k \<mapsto> v)) \<and>
    (\<exists>i t'. ht_insert hash t k v = Some (i, ht_map t k = None, t') \<and> ht_ok hash t' \<and>
      ht_map t' = (if ht_map t k = None then (ht_map t)(k \<mapsto> v) else ht_map t))"
  using ht.find_abs [OF assms] ht.put_abs [OF assms] ht.add_abs [OF assms] by blast

theorem hashtable_refines_map_witness:
  "ht_find hash_u64 (hashtable_new 4 :: (u64, nat) hashtable) 7 = Some None \<and>
    (\<exists>i t'. ht_set hash_u64 (hashtable_new 4) 7 1 = Some (i, True, t' :: (u64, nat) hashtable) \<and> ht_map t' 7 = Some 1)"
proof -
  have ok: "ht_ok hash_u64 (hashtable_new 4 :: (u64, nat) hashtable)"
    using inv_empty [of 4 hash_u64] by (simp add: ht_ok_def hashtable_new_def ht_clean_def)
  have "ht_map (hashtable_new 4 :: (u64, nat) hashtable) 7 = None"
    by (simp add: ht_map_None_iff hashtable_new_def)
  then show ?thesis using hashtable_refines_map [OF ok, of 7 1] by auto
qed

text \<open>
removing a key that is present returns its value, removes exactly that key and keeps the
  invariant of the remaining keys: none of them becomes unreachable.
\<close>

theorem hashtable_extract:
  assumes "ht_inv hash t" and "ht_map t k = Some v"
  shows "\<exists>t'. ht_extract hash t k = Some (Some v, t') \<and> ht_inv hash t' \<and>
    ht_map t' = (ht_map t)(k := None) \<and>
    (\<forall>j w. ht_map t' j = Some w \<longrightarrow> ht_find hash t' j = Some (Some w))"
proof -
  obtain t' where "ht_extract hash t k = Some (Some v, t')" "ht_inv hash t'"
      "ht_map t' = (ht_map t)(k := None)"
    using extract_present [OF assms] by blast
  then show ?thesis using find_ok [of hash t'] by auto
qed

theorem hashtable_extract_witness:
  "\<exists>t'. ht_extract (\<lambda>_. 0) \<lparr>ht_slots = [SFilled (1 :: u64) True, SEmpty], ht_load = 1\<rparr> 1 = Some (Some True, t') \<and>
    ht_map t' 1 = None"
proof -
  let ?t = "\<lparr>ht_slots = [SFilled (1 :: u64) True, SEmpty], ht_load = 1\<rparr>"
  have "ht_inv (\<lambda>_. 0) ?t"
    by (auto simp: ht_inv_def less_Suc_eq nth_Cons' ht_probe_def probes_def upt_rec split: if_splits)
  moreover have "ht_map ?t 1 = Some True" by (simp add: ht_map_def)
  ultimately show ?thesis using hashtable_extract [of "\<lambda>_. 0" ?t 1 True] by auto
qed

text \<open>
after a removal the table does not keep the promise of \<open>insert\<close>'s comment (a key that
  exists is not stored again): the probe for insertion stops at the tombstone before it reaches
  the key.  The key 2 is stored twice, the load counts it twice, and once it is removed the
  older value shows up again.
\<close>

theorem hashtable_insert_duplicates_key:
  "let hash = (\<lambda>k :: nat. 0 :: u64);
       t1 = \<lparr>ht_slots = [SFilled 1 ''a'', SFilled 2 ''b'', SEmpty, SEmpty], ht_load = 2\<rparr>;
       t2 = \<lparr>ht_slots = [SDeleted, SFilled 2 ''b'', SEmpty, SEmpty], ht_load = 1\<rparr>;
       t3 = \<lparr>ht_slots = [SFilled 2 ''c'', SFilled 2 ''b'', SEmpty, SEmpty], ht_load = 2\<rparr>;
       t4 = \<lparr>ht_slots = [SDeleted, SFilled 2 ''b'', SEmpty, SEmpty], ht_load = 1\<rparr>
   in do { (_, _, s1) \<leftarrow> ht_insert hash (hashtable_new 4) 1 ''a''; ht_insert hash s1 2 ''b'' } = Some (1, True, t1) \<and>
      ht_extract hash t1 1 = Some (Some ''a'', t2) \<and> ht_find hash t2 2 = Some (Some ''b'') \<and>
      ht_insert hash t2 2 ''c'' = Some (0, True, t3) \<and>
      ht_extract hash t3 2 = Some (Some ''c'', t4) \<and> ht_find hash t4 2 = Some (Some ''b'')"
  by code_simp

text \<open>
tombstones are never reclaimed by a removal, so a table without any entry can have no empty
  slot: a lookup in it hits \<open>ASSERT_UNREACHABLE\<close>.  Inserting and removing four keys with
  different hashes in a table of four slots is enough.
\<close>

theorem hashtable_tombstones_panic:
  "let hash = (\<lambda>k :: nat. of_nat k :: u64);
       cycle = (\<lambda>k t. do { (_, _, t') \<leftarrow> ht_insert hash t k (); (_, t'') \<leftarrow> ht_extract hash t' k; Some t'' })
   in do { t0 \<leftarrow> cycle 0 (hashtable_new 4); t1 \<leftarrow> cycle 1 t0; t2 \<leftarrow> cycle 2 t1; cycle 3 t2 } =
        Some \<lparr>ht_slots = replicate 4 SDeleted, ht_load = 0\<rparr> \<and>
      ht_find hash \<lparr>ht_slots = replicate 4 (SDeleted :: (nat, unit) slot), ht_load = 0\<rparr> 0 = None"
  by code_simp

end
