(* ===== verification/Lru_Cache.thy ===== *)
theory Lru_Cache
  imports Hashtable
begin

text \<open>
  \<open>kernel/include/library/lru_cache.h\<close>: the cache of block-device and file-system objects, on
  top of the hash table.  A cached object is known by a value of type \<open>'v\<close>; its reference
  count is state of the object and not of the cache, so it is the argument \<open>refs\<close>.  The calls
  of the purge callback are returned as a list.
\<close>

record 'v lru_item =
  li_last_use_counter :: u64
  li_v :: 'v

record ('k, 'v) lru_cache =
  lru_counter :: u64
  lru_max_items :: uSize
  lru_table :: "('k, 'v lru_item) hashtable"

definition lru_cache_new :: "uSize \<Rightarrow> ('k, 'v) lru_cache" where
  "lru_cache_new max_items =
     \<lparr>lru_counter = 0, lru_max_items = max_items, lru_table = hashtable_new (max_items * 2)\<rparr>"

text \<open>The loop that chooses what to purge (lines 75 to 80).\<close>

fun select_purge :: "('v \<Rightarrow> nat) \<Rightarrow> ('k \<times> 'v lru_item) list \<Rightarrow> ('k \<times> u64) option \<Rightarrow> ('k \<times> u64) option" where
  "select_purge refs [] to_delete = to_delete"
| "select_purge refs ((k, item) # rest) to_delete =
     select_purge refs rest
       (if refs (li_v item) = 1 \<and>
           (case to_delete of None \<Rightarrow> True | Some d \<Rightarrow> snd d > li_last_use_counter item)
        then Some (k, li_last_use_counter item) else to_delete)"

definition try_purge :: "('k \<Rightarrow> u64) \<Rightarrow> ('v \<Rightarrow> nat) \<Rightarrow> ('k, 'v) lru_cache
    \<Rightarrow> (('k \<times> 'v) list \<times> ('k, 'v) lru_cache) option" where
  "try_purge hash refs c =
     (if ht_load (lru_table c) > lru_max_items c
      then (case select_purge refs (ht_items (lru_table c)) None of
              None \<Rightarrow> Some ([], c)
            | Some (k, _) \<Rightarrow> do {
                (x, t) \<leftarrow> ht_extract hash (lru_table c) k;
                (case x of
                   None \<Rightarrow> Some ([], c\<lparr>lru_table := t\<rparr>)
                 | Some item \<Rightarrow>
                     if refs (li_v item) = 1 then Some ([(k, li_v item)], c\<lparr>lru_table := t\<rparr>)
                     else do { (_, _, t') \<leftarrow> ht_set hash t k item; Some ([], c\<lparr>lru_table := t'\<rparr>) }) })
      else Some ([], c))"

definition lru_set :: "('k \<Rightarrow> u64) \<Rightarrow> ('v \<Rightarrow> nat) \<Rightarrow> ('k, 'v) lru_cache \<Rightarrow> 'k \<Rightarrow> 'v
    \<Rightarrow> (bool \<times> ('k \<times> 'v) list \<times> ('k, 'v) lru_cache) option" where
  "lru_set hash refs c k v = do {
     (_, success, t) \<leftarrow> ht_insert hash (lru_table c) k \<lparr>li_last_use_counter = lru_counter c, li_v = v\<rparr>;
     (purged, c') \<leftarrow> try_purge hash refs (c\<lparr>lru_table := t\<rparr>);
     Some (success, purged, c') }"

definition lru_find :: "('k \<Rightarrow> u64) \<Rightarrow> ('k, 'v) lru_cache \<Rightarrow> 'k \<Rightarrow> ('v option \<times> ('k, 'v) lru_cache) option" where
  "lru_find hash c key = do {
     index \<leftarrow> unchecked_lookup hash (lru_table c) key False;
     Some (case ht_slots (lru_table c) ! index of
             SFilled k item \<Rightarrow>
               (let counter = lru_counter c + 1;
                    item' = item\<lparr>li_last_use_counter := counter\<rparr>
                in (Some (li_v item),
                    c\<lparr>lru_counter := counter,
                      lru_table := (lru_table c)\<lparr>ht_slots := (ht_slots (lru_table c))[index := SFilled k item']\<rparr>\<rparr>))
           | _ \<Rightarrow> (None, c)) }"

subsection \<open>The choice\<close>

definition purgeable :: "('v \<Rightarrow> nat) \<Rightarrow> ('k \<times> 'v lru_item) list \<Rightarrow> ('k \<times> u64) set" where
  "purgeable refs items = {(k, li_last_use_counter item) | k item. (k, item) \<in> set items \<and> refs (li_v item) = 1}"

lemma purgeable_Cons:
  "purgeable refs ((k, item) # rest) =
     (if refs (li_v item) = 1 then insert (k, li_last_use_counter item) (purgeable refs rest) else purgeable refs rest)"
  by (auto simp: purgeable_def)

lemma select_purge_least:
  "case select_purge refs items d of
     None \<Rightarrow> d = None \<and> purgeable refs items = {}
   | Some e \<Rightarrow> e \<in> purgeable refs items \<union> set_option d \<and>
       (\<forall>x \<in> purgeable refs items \<union> set_option d. snd e \<le> snd x)"
proof (induction items arbitrary: d)
  case Nil
  then show ?case by (cases d) (auto simp: purgeable_def)
next
  case (Cons x rest)
  obtain k item where x: "x = (k, item)" by fastforce
  let ?c = "li_last_use_counter item"
  show ?case
  proof (cases "refs (li_v item) = 1 \<and> (case d of None \<Rightarrow> True | Some d \<Rightarrow> snd d > ?c)")
    case True
    then have "select_purge refs (x # rest) d = select_purge refs rest (Some (k, ?c))" by (simp add: x)
    then show ?thesis
      using Cons.IH [of "Some (k, ?c)"] True
      by (auto simp: x purgeable_Cons split: option.splits)
  next
    case False
    then have "select_purge refs (x # rest) d = select_purge refs rest d" by (auto simp: x)
    then show ?thesis
      using Cons.IH [of d] False
      by (auto simp: x purgeable_Cons split: option.splits)
  qed
qed

lemma ht_items_iff:
  assumes "ht_inv hash t"
  shows "(k, v) \<in> set (ht_items t) \<longleftrightarrow> ht_map t k = Some v"
  unfolding ht_map_Some_iff [OF assms]
  by (force simp: ht_items_def List.map_filter_def in_set_conv_nth split: slot.splits)

text \<open>
  C22: when the cache holds more than \<open>max_items\<close> entries, \<open>try_purge\<close> removes exactly one entry,
  namely one that is not referenced elsewhere and whose last use is the oldest among those, and
  hands it to the purge callback; when every entry is in use it removes nothing.  It never fails
  and keeps the table's invariant.
\<close>

theorem try_purge_removes_oldest:
  assumes "ht_inv hash (lru_table c)"
  defines "m \<equiv> ht_map (lru_table c)"
  shows "\<exists>purged c'. try_purge hash refs c = Some (purged, c') \<and> ht_inv hash (lru_table c') \<and>
    (if ht_load (lru_table c) \<le> lru_max_items c \<or> (\<forall>k item. m k = Some item \<longrightarrow> refs (li_v item) \<noteq> 1)
     then purged = [] \<and> c' = c
     else \<exists>k item. m k = Some item \<and> refs (li_v item) = 1 \<and> purged = [(k, li_v item)] \<and>
       ht_map (lru_table c') = m(k := None) \<and>
       (\<forall>j other. m j = Some other \<and> refs (li_v other) = 1 \<longrightarrow>
          li_last_use_counter item \<le> li_last_use_counter other))"
proof -
  let ?t = "lru_table c"
  have mem: "(k, c) \<in> purgeable refs (ht_items ?t) \<longleftrightarrow>
      (\<exists>item. m k = Some item \<and> refs (li_v item) = 1 \<and> c = li_last_use_counter item)" for k c
    unfolding purgeable_def m_def ht_items_iff [OF assms(1), symmetric] by auto
  note least = select_purge_least [where refs = refs and items = "ht_items ?t" and d = None]
  show ?thesis
  proof (cases "ht_load ?t \<le> lru_max_items c")
    case True
    then show ?thesis using assms(1) by (simp add: try_purge_def)
  next
    case full: False
    show ?thesis
    proof (cases "select_purge refs (ht_items ?t) None")
      case None
      then have "purgeable refs (ht_items ?t) = {}" using least by simp
      then have none: "\<forall>k item. m k = Some item \<longrightarrow> refs (li_v item) \<noteq> 1"
        using mem by blast
      have "try_purge hash refs c = Some ([], c)" using full None by (simp add: try_purge_def)
      then show ?thesis using none assms(1) by auto
    next
      case (Some e)
      obtain k u where e: "e = (k, u)" by fastforce
      have least': "(k, u) \<in> purgeable refs (ht_items ?t)"
          "\<And>y. y \<in> purgeable refs (ht_items ?t) \<Longrightarrow> u \<le> snd y"
        using least unfolding Some e by auto
      obtain item where item: "m k = Some item" "refs (li_v item) = 1" "u = li_last_use_counter item"
        using least'(1) unfolding mem by blast
      have min: "li_last_use_counter item \<le> li_last_use_counter other"
        if "m j = Some other" "refs (li_v other) = 1" for j other
        using least'(2) [of "(j, li_last_use_counter other)"] that unfolding mem item(3) by auto
      obtain t' where t': "ht_extract hash ?t k = Some (Some item, t')" "ht_inv hash t'"
          "ht_map t' = m(k := None)"
        using extract_present [OF assms(1)] item(1) unfolding m_def by blast
      have res: "try_purge hash refs c = Some ([(k, li_v item)], c\<lparr>lru_table := t'\<rparr>)"
        using full Some e t'(1) item(2) by (simp add: try_purge_def)
      have busy: "\<not> (ht_load ?t \<le> lru_max_items c \<or> (\<forall>k item. m k = Some item \<longrightarrow> refs (li_v item) \<noteq> 1))"
        using full item by blast
      show ?thesis
        unfolding res if_not_P [OF busy] using t'(2,3) item(1,2) min
        by (intro exI [of _ "[(k, li_v item)]"] exI [of _ "c\<lparr>lru_table := t'\<rparr>"] conjI exI [of _ k]
            exI [of _ item] allI impI) auto
    qed
  qed
qed

theorem try_purge_removes_oldest_witness:
  "\<exists>purged c'. try_purge (\<lambda>_. 0) (\<lambda>v. v) \<lparr>lru_counter = 5, lru_max_items = 1, lru_table =
      \<lparr>ht_slots = [SFilled (1 :: u64) \<lparr>li_last_use_counter = 3, li_v = 1\<rparr>,
                    SFilled 2 \<lparr>li_last_use_counter = 2, li_v = 1 :: nat\<rparr>, SEmpty], ht_load = 2\<rparr>\<rparr> = Some (purged, c') \<and>
    length purged = 1"
proof -
  let ?t = "\<lparr>ht_slots = [SFilled (1 :: u64) \<lparr>li_last_use_counter = 3, li_v = 1\<rparr>,
                    SFilled 2 \<lparr>li_last_use_counter = 2, li_v = 1 :: nat\<rparr>, SEmpty], ht_load = 2\<rparr>"
  let ?c = "\<lparr>lru_counter = 5, lru_max_items = 1, lru_table = ?t\<rparr>"
  have inv: "ht_inv (\<lambda>_. 0) (lru_table ?c)"
    by (auto simp: ht_inv_def less_Suc_eq nth_Cons' ht_probe_def probes_def upt_rec split: if_splits)
  have used: "ht_map (lru_table ?c) 1 = Some \<lparr>li_last_use_counter = 3, li_v = 1\<rparr>" by (simp add: ht_map_def)
  show ?thesis
    using try_purge_removes_oldest [OF inv, of "\<lambda>v. v"] used by (fastforce split: if_splits)
qed

end
