(* ===== verification/Bitset.thy ===== *)
theory Bitset
  imports Bek_Utility
begin

text \<open>
  \<open>kernel/include/library/bitset.h\<close>: a view of a byte array as an array of bits.  The
  abstraction is the function \<open>bv_bit\<close>.  The word-at-a-time routines are compared with
  their bit-at-a-time meaning: \<open>get_region_size\<close> is the length of the run of equal bits,
  and \<open>find_first_fit\<close> finds the first run that is long enough.
\<close>

record bitset_view =
  bv_data :: "u8 list"
  bv_length :: uSize

definition mem_byte :: "u8 list \<Rightarrow> uSize \<Rightarrow> u8 option" where
  "mem_byte m i = (if i < length m then Some (m ! i) else None)"

definition bv_get :: "bitset_view \<Rightarrow> uSize \<Rightarrow> bool option" where
  "bv_get bv index = do {
     verify (index < bv_length bv);
     b \<leftarrow> mem_byte (bv_data bv) (index div 8);
     Some (b AND push_bit (index mod 8) 1 \<noteq> 0) }"

definition bv_set :: "bitset_view \<Rightarrow> uSize \<Rightarrow> bool \<Rightarrow> bitset_view option" where
  "bv_set bv index val = do {
     verify (index < bv_length bv);
     b \<leftarrow> mem_byte (bv_data bv) (index div 8);
     Some (bv\<lparr>bv_data := (bv_data bv)[index div 8 :=
       if val then b OR push_bit (index mod 8) 1 else b AND NOT (push_bit (index mod 8) 1)]\<rparr>) }"

text \<open>The three loops of \<open>set_range\<close>.\<close>

function set_range_start :: "bitset_view \<Rightarrow> uSize \<Rightarrow> uSize \<Rightarrow> bool \<Rightarrow> (bitset_view \<times> uSize) option" where
  "set_range_start bv start stop val =
     (if start mod 8 \<noteq> 0 \<and> start < stop
      then do { bv' \<leftarrow> bv_set bv start val; set_range_start bv' (start + 1) stop val }
      else Some (bv, start))"
  by pat_completeness auto

termination set_range_start
  by (relation "measure (\<lambda>(bv, start, stop, val). stop - start)") auto

declare set_range_start.simps [simp del]

function set_range_end :: "bitset_view \<Rightarrow> uSize \<Rightarrow> uSize \<Rightarrow> bool \<Rightarrow> (bitset_view \<times> uSize) option" where
  "set_range_end bv start stop val =
     (if stop AND 8 \<noteq> 0 \<and> start < stop
      then do { bv' \<leftarrow> bv_set bv (stop - 1) val; set_range_end bv' start (stop - 1) val }
      else Some (bv, stop))"
  by pat_completeness auto

termination set_range_end
  by (relation "measure (\<lambda>(bv, start, stop, val). stop - start)") auto

declare set_range_end.simps [simp del]

function set_range_full :: "bitset_view \<Rightarrow> uSize \<Rightarrow> uSize \<Rightarrow> bool \<Rightarrow> bitset_view option" where
  "set_range_full bv start stop val =
     (if start < stop
      then do {
        _ \<leftarrow> mem_byte (bv_data bv) (start div 8);
        set_range_full
          (bv\<lparr>bv_data := (bv_data bv)[start div 8 := if val then 0xFF else 0x00]\<rparr>) (start + 8) stop val }
      else Some bv)"
  by pat_completeness auto

termination set_range_full
  by (relation "measure (\<lambda>(bv, start, stop, val). stop - start)") auto

declare set_range_full.simps [simp del]

definition bv_set_range :: "bitset_view \<Rightarrow> uSize \<Rightarrow> uSize \<Rightarrow> bool \<Rightarrow> bitset_view option" where
  "bv_set_range bv start count val = do {
     verify (uadd start count < bv_length bv);
     (let stop = uadd start count
      in do {
        (bv1, start1) \<leftarrow> set_range_start bv start stop val;
        (bv2, stop1) \<leftarrow> set_range_end bv1 start1 stop val;
        set_range_full bv2 start1 stop1 val }) }"

text \<open>The three loops of \<open>get_region_size\<close>; the first also says whether it ceased early.\<close>

function region_start :: "bitset_view \<Rightarrow> uSize \<Rightarrow> uSize \<Rightarrow> bool \<Rightarrow> (uSize \<times> bool) option" where
  "region_start bv start stop val =
     (if start mod 8 \<noteq> 0 \<and> start < stop
      then do { g \<leftarrow> bv_get bv start;
                (if g \<noteq> val then Some (start, True) else region_start bv (start + 1) stop val) }
      else Some (start, False))"
  by pat_completeness auto

termination region_start
  by (relation "measure (\<lambda>(bv, start, stop, val). stop - start)") auto

declare region_start.simps [simp del]

function region_full :: "bitset_view \<Rightarrow> uSize \<Rightarrow> uSize \<Rightarrow> bool \<Rightarrow> uSize option" where
  "region_full bv start aligned_end val =
     (if start < aligned_end
      then do { b \<leftarrow> mem_byte (bv_data bv) (start div 8);
                (if b \<noteq> (if val then 0xFF else 0x00) then Some start
                 else region_full bv (start + 8) aligned_end val) }
      else Some start)"
  by pat_completeness auto

termination region_full
  by (relation "measure (\<lambda>(bv, start, stop, val). stop - start)") auto

declare region_full.simps [simp del]

function region_rest :: "bitset_view \<Rightarrow> uSize \<Rightarrow> uSize \<Rightarrow> bool \<Rightarrow> uSize option" where
  "region_rest bv start stop val =
     (if start < stop
      then do { g \<leftarrow> bv_get bv start;
                (if g \<noteq> val then Some start else region_rest bv (start + 1) stop val) }
      else Some start)"
  by pat_completeness auto

termination region_rest
  by (relation "measure (\<lambda>(bv, start, stop, val). stop - start)") auto

declare region_rest.simps [simp del]

definition bv_get_region_size :: "bitset_view \<Rightarrow> uSize \<Rightarrow> bool \<Rightarrow> uSize \<Rightarrow> uSize option" where
  "bv_get_region_size bv start_index val max_size =
     (let region_max_size = min max_size (usub (bv_length bv) start_index);
          stop = uadd start_index region_max_size;
          aligned_end = (stop div 8) * 8
      in do {
        (start, cease) \<leftarrow> region_start bv start_index stop val;
        (if cease then Some (usub start start_index)
         else do {
           start' \<leftarrow> region_full bv start aligned_end val;
           start'' \<leftarrow> region_rest bv start' stop val;
           Some (usub start'' start_index) }) })"

record fit_result =
  fit_index :: uSize
  fit_size :: uSize

definition fit_invalid :: fit_result where
  "fit_invalid = \<lparr>fit_index = 0, fit_size = 0\<rparr>"

definition fit_is_invalid :: "fit_result \<Rightarrow> bool" where
  "fit_is_invalid r \<longleftrightarrow> fit_index r = 0 \<and> fit_size r = 0"

definition MAX_USIZE :: uSize where
  "MAX_USIZE = 0xFFFFFFFFFFFFFFFF"

text \<open>The search loop (lines 117 to 129).\<close>

partial_function (option) find_first_fit_loop ::
  "bitset_view \<Rightarrow> uSize \<Rightarrow> uSize \<Rightarrow> bool \<Rightarrow> uSize \<Rightarrow> uSize \<Rightarrow> fit_result option" where
  "find_first_fit_loop bv start_index len val alignment max_size =
     (if start_index < bv_length bv
      then do {
        g \<leftarrow> bv_get bv start_index;
        (if g = val
         then do {
           region_size \<leftarrow> bv_get_region_size bv start_index val max_size;
           (if region_size \<ge> len
            then Some \<lparr>fit_index = start_index, fit_size = region_size\<rparr>
            else find_first_fit_loop bv (uadd start_index region_size) len val alignment max_size) }
         else do {
           bad_region_size \<leftarrow> bv_get_region_size bv start_index (\<not> val) MAX_USIZE;
           find_first_fit_loop bv (uadd start_index (align_up bad_region_size alignment))
             len val alignment max_size }) }
      else Some fit_invalid)"

definition bv_find_first_fit ::
  "bitset_view \<Rightarrow> uSize \<Rightarrow> bool \<Rightarrow> uSize \<Rightarrow> uSize \<Rightarrow> uSize \<Rightarrow> uSize \<Rightarrow> fit_result option" where
  "bv_find_first_fit bv len val hint alignment alignment_offset max_size = do {
     verify (alignment_offset < alignment);
     find_first_fit_loop bv
       (usub (align_up (uadd hint alignment_offset) alignment) alignment_offset)
       len val alignment max_size }"

subsection \<open>Bits\<close>

definition bv_bit :: "bitset_view \<Rightarrow> nat \<Rightarrow> bool" where
  "bv_bit bv i = bit (bv_data bv ! (i div 8)) (i mod 8)"

definition bv_ok :: "bitset_view \<Rightarrow> bool" where
  "bv_ok bv \<longleftrightarrow> bv_length bv \<le> 8 * length (bv_data bv) \<and> bv_length bv < 2 ^ 63"

lemma mask_bit_test: "(b :: u8) AND 2 ^ k \<noteq> 0 \<longleftrightarrow> bit b k"
  by (simp add: bit_iff_and_push_bit_not_eq_0)

lemma bv_index: "bv_ok bv \<Longrightarrow> i < bv_length bv \<Longrightarrow> i div 8 < length (bv_data bv)"
  by (auto simp: bv_ok_def)

lemma bv_get_ok: "bv_ok bv \<Longrightarrow> i < bv_length bv \<Longrightarrow> bv_get bv i = Some (bv_bit bv i)"
  by (simp add: bv_get_def mem_byte_def bv_index mask_bit_test [symmetric] bv_bit_def)

lemma bit_index_eq: "(i :: nat) div 8 = j div 8 \<Longrightarrow> i mod 8 = j mod 8 \<Longrightarrow> i = j"
  by (metis div_mult_mod_eq)

lemma bv_set_ok:
  assumes "bv_ok bv" and "i < bv_length bv"
  shows "\<exists>bv'. bv_set bv i val = Some bv' \<and> bv_ok bv' \<and> bv_length bv' = bv_length bv \<and>
    bv_bit bv' = (bv_bit bv)(i := val)"
proof -
  let ?b = "bv_data bv ! (i div 8)"
  let ?b' = "if val then ?b OR push_bit (i mod 8) 1 else ?b AND NOT (push_bit (i mod 8) 1)"
  let ?bv = "bv\<lparr>bv_data := (bv_data bv)[i div 8 := ?b']\<rparr>"
  have idx: "i div 8 < length (bv_data bv)" using assms by (rule bv_index)
  have "bit ?b' k = (if k = i mod 8 then val else bit ?b k)" if "k < 8" for k
    using that by (auto simp: bit_simps)
  then have "bv_bit ?bv = (bv_bit bv)(i := val)"
    using idx bit_index_eq [of _ i] by (intro ext) (auto simp: bv_bit_def nth_list_update)
  moreover have "bv_set bv i val = Some ?bv"
    using assms idx by (simp add: bv_set_def mem_byte_def)
  moreover have "bv_ok ?bv" using assms(1) by (simp add: bv_ok_def)
  ultimately show ?thesis by (intro exI [of _ ?bv]) simp
qed

subsection \<open>Setting a range\<close>

definition ceil8 :: "nat \<Rightarrow> nat" where
  "ceil8 n = (n + 7) div 8 * 8"

lemma aligned_less:
  assumes "start < stop" and "(start :: nat) mod 8 = 0" and "stop mod 8 = 0"
  shows "start + 8 \<le> stop"
proof -
  obtain q r where "start = 8 * q" "stop = 8 * r" using assms(2,3) by (metis mod_0_imp_dvd dvdE)
  then show ?thesis using assms(1) by simp
qed

lemma ceil8_bounds: "n \<le> ceil8 n" "ceil8 n mod 8 = 0" "n \<le> m \<Longrightarrow> m mod 8 = 0 \<Longrightarrow> ceil8 n \<le> m"
proof -
  have "(n + 7) div 8 * 8 + (n + 7) mod 8 = n + 7" by (rule div_mult_mod_eq)
  moreover have "(n + 7) mod 8 < 8" by simp
  ultimately show "n \<le> ceil8 n" unfolding ceil8_def by linarith
  show "ceil8 n mod 8 = 0" by (simp add: ceil8_def)
  assume "n \<le> m" and "m mod 8 = 0"
  then obtain r where r: "m = r * 8" by (metis mod_0_imp_dvd dvdE mult.commute)
  then have "(n + 7) div 8 < r + 1" using \<open>n \<le> m\<close> by (simp add: div_less_iff_less_mult)
  then show "ceil8 n \<le> m" unfolding ceil8_def r by simp
qed

lemma ceil8_less: "n mod 8 \<noteq> 0 \<Longrightarrow> n < ceil8 n"
  using ceil8_bounds(1,2) [of n] by (metis le_neq_implies_less)

lemma ceil8_step: "n mod 8 \<noteq> 0 \<Longrightarrow> ceil8 (n + 1) = ceil8 n"
  using ceil8_bounds [of n] ceil8_bounds [of "n + 1"] ceil8_less [of n] by (intro order.antisym) auto

lemma set_range_start_ok:
  assumes "bv_ok bv" and "stop \<le> bv_length bv" and "start \<le> stop"
  shows "\<exists>bv' s. set_range_start bv start stop val = Some (bv', s) \<and> bv_ok bv' \<and>
    bv_length bv' = bv_length bv \<and> start \<le> s \<and> s \<le> stop \<and> (s mod 8 = 0 \<or> s = stop) \<and>
    s \<le> ceil8 start \<and>
    (\<forall>i. bv_bit bv' i = (if start \<le> i \<and> i < s then val else bv_bit bv i))"
  using assms
proof (induction bv start stop val rule: set_range_start.induct)
  case (1 bv start stop val)
  show ?case
  proof (cases "start mod 8 \<noteq> 0 \<and> start < stop")
    case True
    then obtain bv1 where bv1: "bv_set bv start val = Some bv1" "bv_ok bv1"
        "bv_length bv1 = bv_length bv" "bv_bit bv1 = (bv_bit bv)(start := val)"
      using bv_set_ok [of bv start val] 1(2-4) by auto
    obtain bv' s where IH: "set_range_start bv1 (start + 1) stop val = Some (bv', s)" "bv_ok bv'"
        "bv_length bv' = bv_length bv1" "start + 1 \<le> s" "s \<le> stop" "s mod 8 = 0 \<or> s = stop" "s \<le> ceil8 start"
        "\<forall>i. bv_bit bv' i = (if start + 1 \<le> i \<and> i < s then val else bv_bit bv1 i)"
      using 1(1) [OF True bv1(1,2)] 1(3,4) True bv1(3) ceil8_step [of start] by auto
    then have "bv_bit bv' i = (if start \<le> i \<and> i < s then val else bv_bit bv i)" for i
      by (auto simp: bv1(4))
    then show ?thesis
      using True IH bv1(1,3) by (subst set_range_start.simps) auto
  next
    case False
    then show ?thesis using 1(2-4) ceil8_bounds(1) [of start] by (subst set_range_start.simps) auto
  qed
qed

lemma and_8_iff: "(n :: nat) AND 8 \<noteq> 0 \<longleftrightarrow> 8 \<le> n mod 16"
proof -
  have "n AND 8 \<noteq> 0 \<longleftrightarrow> bit n 3"
    using bit_iff_and_push_bit_not_eq_0 [of n 3] by simp
  also have "\<dots> \<longleftrightarrow> odd (n div 8)" by (simp add: bit_iff_odd)
  also have "\<dots> \<longleftrightarrow> 8 \<le> n mod 16" by presburger
  finally show ?thesis .
qed

lemma mod_16_pred: "8 \<le> (n :: nat) mod 16 \<Longrightarrow> (n - 1) mod 16 < 8 \<Longrightarrow> (n - 1) mod 16 = 7"
  by (cases n) (auto simp: mod_Suc split: if_splits)

lemma set_range_end_ok:
  assumes "bv_ok bv" and "stop \<le> bv_length bv" and "start \<le> stop"
  shows "\<exists>bv' e. set_range_end bv start stop val = Some (bv', e) \<and> bv_ok bv' \<and>
    bv_length bv' = bv_length bv \<and> start \<le> e \<and> e \<le> stop \<and> (e = start \<or> e mod 16 < 8) \<and>
    (e < stop \<longrightarrow> 8 \<le> stop mod 16) \<and> (e = stop \<or> e = start \<or> e + 1 \<le> stop \<and> e mod 16 = 7) \<and>
    (\<forall>i. bv_bit bv' i = (if e \<le> i \<and> i < stop then val else bv_bit bv i))"
  using assms
proof (induction bv start stop val rule: set_range_end.induct)
  case (1 bv start stop val)
  show ?case
  proof (cases "stop AND 8 \<noteq> 0 \<and> start < stop")
    case True
    then have "stop - 1 < bv_length bv" using 1(3) by linarith
    from bv_set_ok [OF 1(2) this]
    obtain bv1 where bv1: "bv_set bv (stop - 1) val = Some bv1" "bv_ok bv1"
        "bv_length bv1 = bv_length bv" "bv_bit bv1 = (bv_bit bv)(stop - 1 := val)"
      by blast
    have "stop - 1 \<le> bv_length bv1" and "start \<le> stop - 1" using True 1(3) bv1(3) by auto
    from 1(1) [OF True bv1(1,2) this]
    obtain bv' e where IH: "set_range_end bv1 start (stop - 1) val = Some (bv', e)" "bv_ok bv'"
        "bv_length bv' = bv_length bv1" "start \<le> e" "e \<le> stop - 1" "e = start \<or> e mod 16 < 8"
        "e = stop - 1 \<or> e = start \<or> e + 1 \<le> stop - 1 \<and> e mod 16 = 7"
        "\<forall>i. bv_bit bv' i = (if e \<le> i \<and> i < stop - 1 then val else bv_bit bv1 i)"
      by blast
    have bits: "bv_bit bv' i = (if e \<le> i \<and> i < stop then val else bv_bit bv i)" for i
      using IH(5,8) True by (auto simp: bv1(4))
    have stop8: "8 \<le> stop mod 16" using True and_8_iff [of stop] by simp
    have "e = start \<or> e + 1 \<le> stop \<and> e mod 16 = 7"
      using IH(5,6,7) True mod_16_pred [OF stop8] by auto
    moreover have "set_range_end bv start stop val = set_range_end bv1 start (stop - 1) val"
      using True bv1(1) by (simp add: set_range_end.simps [of bv start stop val])
    ultimately show ?thesis
      using True IH(1-6) bv1(3) bits stop8 by auto
  next
    case False
    then have "start < stop \<longrightarrow> stop mod 16 < 8" using and_8_iff [of stop] by auto
    then show ?thesis using False 1(2-4) by (subst set_range_end.simps) auto
  qed
qed

lemma byte_fill_bit: "k < 8 \<Longrightarrow> bit (if val then 0xFF else 0x00 :: u8) k = val"
proof -
  have "bit (mask 8 :: u8) k" if "k < 8" using that by (simp add: bit_mask_iff del: mask_eq_exp_minus_1)
  moreover have "(0xFF :: u8) = mask 8" by (simp add: mask_eq_exp_minus_1)
  ultimately show "k < 8 \<Longrightarrow> bit (if val then 0xFF else 0x00 :: u8) k = val" by simp
qed

lemma byte_index_iff:
  assumes "(start :: nat) mod 8 = 0"
  shows "start div 8 = i div 8 \<longleftrightarrow> start \<le> i \<and> i < start + 8"
proof -
  obtain q where "start = 8 * q" using assms by (metis mod_0_imp_dvd dvdE)
  then show ?thesis by (auto intro: div_nat_eqI [symmetric])
qed

lemma set_range_full_ok:
  assumes "bv_ok bv" and "stop \<le> bv_length bv" and "start mod 8 = 0 \<or> stop \<le> start"
  shows "\<exists>bv'. set_range_full bv start stop val = Some bv' \<and> bv_ok bv' \<and>
    bv_length bv' = bv_length bv \<and>
    (\<forall>i. bv_bit bv' i = (if start \<le> i \<and> start < stop \<and> i < ceil8 stop then val else bv_bit bv i))"
  using assms
proof (induction bv start stop val rule: set_range_full.induct)
  case (1 bv start stop val)
  show ?case
  proof (cases "start < stop")
    case True
    define bv1 where "bv1 = bv\<lparr>bv_data := (bv_data bv)[start div 8 := if val then 0xFF else 0x00]\<rparr>"
    have idx: "start div 8 < length (bv_data bv)" using 1(2,3) True by (intro bv_index) auto
    have al: "start mod 8 = 0" using True 1(4) by auto
    have bits1: "bv_bit bv1 i = (if start \<le> i \<and> i < start + 8 then val else bv_bit bv i)" for i
    proof -
      have "start div 8 = i div 8 \<longleftrightarrow> start \<le> i \<and> i < start + 8" using byte_index_iff [OF al, of i] .
      then show ?thesis using idx byte_fill_bit [of "i mod 8" val] by (auto simp: bv_bit_def bv1_def)
    qed
    have ok1: "bv_ok bv1" "bv_length bv1 = bv_length bv" using 1(2) by (simp_all add: bv_ok_def bv1_def)
    have al1: "(start + 8) mod 8 = 0 \<or> stop \<le> start + 8" using al by simp
    have byte: "mem_byte (bv_data bv) (start div 8) = Some (bv_data bv ! (start div 8))"
      using idx by (simp add: mem_byte_def)
    obtain bv' where IH: "set_range_full bv1 (start + 8) stop val = Some bv'" "bv_ok bv'"
        "bv_length bv' = bv_length bv1"
        "\<forall>i. bv_bit bv' i = (if start + 8 \<le> i \<and> start + 8 < stop \<and> i < ceil8 stop then val else bv_bit bv1 i)"
      using 1(1) [OF True byte, folded bv1_def] ok1 1(3) al1 by auto
    have le: "start + 8 \<le> ceil8 stop"
      using True al ceil8_bounds(1,2) [of stop] by (intro aligned_less) auto
    have ge: "ceil8 stop \<le> start + 8" if "stop \<le> start + 8" using that al by (intro ceil8_bounds(3)) auto
    have "bv_bit bv' i = (if start \<le> i \<and> start < stop \<and> i < ceil8 stop then val else bv_bit bv i)" for i
      using IH(4) le ge True by (auto simp: bits1)
    then show ?thesis
      using True IH(1-3) byte ok1(2) by (subst set_range_full.simps) (auto simp: bv1_def)
  next
    case False
    then show ?thesis using 1(2-4) by (subst set_range_full.simps) auto
  qed
qed

text \<open>
  What \<open>set_range\<close> stores: the bits of the range, and, because the end is tested with
  \<open>end & 8\<close> and not with \<open>end % 8\<close>, also the bits after the range up to the end of
  their byte when bit 3 of the end is clear.
\<close>

definition set_range_stop :: "nat \<Rightarrow> nat \<Rightarrow> nat" where
  "set_range_stop start stop = (if stop mod 16 < 8 \<and> ceil8 start < stop then ceil8 stop else stop)"

lemma range_union:
  assumes "start \<le> s" and "s \<le> stop" and "s mod 8 = 0 \<or> s = stop" and "s \<le> ceil8 start"
    and "s \<le> e" and "e \<le> stop" and "e = s \<or> e mod 16 < 8" and "e < stop \<longrightarrow> 8 \<le> stop mod 16"
    and "e = stop \<or> e = s \<or> e + 1 \<le> stop \<and> e mod 16 = 7"
  shows "(s \<le> i \<and> s < e \<and> i < ceil8 e) \<or> (e \<le> i \<and> i < stop) \<or> (start \<le> i \<and> i < s) \<longleftrightarrow>
    start \<le> i \<and> i < set_range_stop start stop"
proof (cases "e = stop")
  case True
  have "s < stop \<Longrightarrow> ceil8 start \<le> s" using assms(1,3) ceil8_bounds(3) [of start s] by auto
  then show ?thesis
    using True assms(1-4,7) ceil8_bounds(1) [of stop] by (auto simp: set_range_stop_def)
next
  case False
  then have "\<not> stop mod 16 < 8" using assms(6,8) by auto
  moreover have "ceil8 e = e + 1" if "e mod 16 = 7"
  proof -
    have e: "e mod 8 = 7" using that mod_mod_cancel [of 8 16 e] by simp
    then have "ceil8 e \<le> e + 1" by (intro ceil8_bounds(3)) (auto simp: mod_Suc)
    then show ?thesis using ceil8_less [of e] e by simp
  qed
  ultimately show ?thesis
    using False assms by (auto simp: set_range_stop_def)
qed

lemma bv_set_range_ok:
  assumes "bv_ok bv" and "start + count < bv_length bv"
  shows "\<exists>bv'. bv_set_range bv start count val = Some bv' \<and> bv_ok bv' \<and> bv_length bv' = bv_length bv \<and>
    (\<forall>i. bv_bit bv' i =
      (if start \<le> i \<and> i < set_range_stop start (start + count) then val else bv_bit bv i))"
proof -
  let ?stop = "start + count"
  have u: "uadd start count = ?stop" using assms by (simp add: bv_ok_def uadd_small)
  have stop: "?stop \<le> bv_length bv" using assms(2) by simp
  obtain bv1 s where r1: "set_range_start bv start ?stop val = Some (bv1, s)" "bv_ok bv1"
      "bv_length bv1 = bv_length bv" "start \<le> s" "s \<le> ?stop" "s mod 8 = 0 \<or> s = ?stop" "s \<le> ceil8 start"
      "\<forall>i. bv_bit bv1 i = (if start \<le> i \<and> i < s then val else bv_bit bv i)"
    using set_range_start_ok [OF assms(1) stop, of start val] by auto
  have stop1: "?stop \<le> bv_length bv1" using stop r1(3) by simp
  obtain bv2 e where r2: "set_range_end bv1 s ?stop val = Some (bv2, e)" "bv_ok bv2"
      "bv_length bv2 = bv_length bv" "s \<le> e" "e \<le> ?stop" "e = s \<or> e mod 16 < 8"
      "e < ?stop \<longrightarrow> 8 \<le> ?stop mod 16" "e = ?stop \<or> e = s \<or> e + 1 \<le> ?stop \<and> e mod 16 = 7"
      "\<forall>i. bv_bit bv2 i = (if e \<le> i \<and> i < ?stop then val else bv_bit bv1 i)"
    using set_range_end_ok [OF r1(2) stop1 r1(5), of val] r1(3) by auto
  have al: "s mod 8 = 0 \<or> e \<le> s" and stop2: "e \<le> bv_length bv2"
    using r1(6) r2(3-5) stop by auto
  obtain bv3 where r3: "set_range_full bv2 s e val = Some bv3" "bv_ok bv3" "bv_length bv3 = bv_length bv"
      "\<forall>i. bv_bit bv3 i = (if s \<le> i \<and> s < e \<and> i < ceil8 e then val else bv_bit bv2 i)"
    using set_range_full_ok [OF r2(2) stop2 al, of val] r2(3) by auto
  have eq: "(s \<le> i \<and> s < e \<and> i < ceil8 e) \<or> (e \<le> i \<and> i < ?stop) \<or> (start \<le> i \<and> i < s) \<longleftrightarrow>
      start \<le> i \<and> i < set_range_stop start ?stop" for i
    using range_union [OF r1(4-7) r2(4-8)] .
  have "\<forall>i. bv_bit bv3 i =
      (if start \<le> i \<and> i < set_range_stop start ?stop then val else bv_bit bv i)"
    unfolding r3(4) [rule_format] r2(9) [rule_format] r1(8) [rule_format] eq [symmetric] by auto
  then show ?thesis
    using u assms(2) r1(1) r2(1) r3(1-3) by (simp add: bv_set_range_def)
qed

subsection \<open>Runs of equal bits\<close>

definition bit_run :: "bitset_view \<Rightarrow> bool \<Rightarrow> nat \<Rightarrow> nat \<Rightarrow> nat" where
  "bit_run bv val start stop = length (takeWhile (\<lambda>i. bv_bit bv i = val) [start..<stop])"

lemma bit_run_simps:
  "stop \<le> start \<Longrightarrow> bit_run bv val start stop = 0"
  "bv_bit bv start \<noteq> val \<Longrightarrow> bit_run bv val start stop = 0"
  "start < stop \<Longrightarrow> bv_bit bv start = val \<Longrightarrow> bit_run bv val start stop = Suc (bit_run bv val (Suc start) stop)"
  by (auto simp: bit_run_def upt_rec [of start])

lemma bit_run_le: "bit_run bv val start stop \<le> stop - start"
  unfolding bit_run_def by (metis length_takeWhile_le length_upt)

lemma bit_run_bits: "start \<le> i \<Longrightarrow> i < start + bit_run bv val start stop \<Longrightarrow> bv_bit bv i = val"
proof -
  assume i: "start \<le> i" "i < start + bit_run bv val start stop"
  let ?t = "takeWhile (\<lambda>i. bv_bit bv i = val) [start..<stop]"
  have "i - start < length ?t" using i by (simp add: bit_run_def)
  moreover from this have "?t ! (i - start) = [start..<stop] ! (i - start)" by (rule takeWhile_nth)
  moreover have "i < stop" using i bit_run_le [of bv val start stop] by linarith
  ultimately show "bv_bit bv i = val"
    using i nth_mem [of "i - start" ?t] set_takeWhileD by fastforce
qed

lemma bit_run_stop:
  assumes "start + bit_run bv val start stop < stop"
  shows "bv_bit bv (start + bit_run bv val start stop) \<noteq> val"
  using assms nth_length_takeWhile [of "\<lambda>i. bv_bit bv i = val" "[start..<stop]"]
  by (simp add: bit_run_def)

text \<open>A run may be measured in parts.\<close>

lemma bit_run_split:
  assumes "\<And>i. start \<le> i \<Longrightarrow> i < mid \<Longrightarrow> bv_bit bv i = val" and "start \<le> mid" and "mid \<le> stop"
  shows "start + bit_run bv val start stop = mid + bit_run bv val mid stop"
proof -
  have "[start..<stop] = [start..<mid] @ [mid..<stop]"
    using assms(2,3) by (metis le_Suc_ex upt_add_eq_append)
  moreover have "takeWhile (\<lambda>i. bv_bit bv i = val) ([start..<mid] @ [mid..<stop])
      = [start..<mid] @ takeWhile (\<lambda>i. bv_bit bv i = val) [mid..<stop]"
    using assms(1) by (intro takeWhile_append2) auto
  ultimately show ?thesis using assms(2) by (simp add: bit_run_def)
qed

lemma region_rest_ok:
  assumes "bv_ok bv" and "stop \<le> bv_length bv"
  shows "region_rest bv start stop val = Some (start + bit_run bv val start stop)"
  using assms
proof (induction bv start stop val rule: region_rest.induct)
  case (1 bv start stop val)
  then show ?case
    by (cases "bv_bit bv start = val"; subst region_rest.simps)
      (auto simp: bv_get_ok bit_run_simps)
qed

lemma region_start_ok:
  assumes "bv_ok bv" and "stop \<le> bv_length bv" and "start \<le> stop"
  shows "\<exists>s c. region_start bv start stop val = Some (s, c) \<and> start \<le> s \<and> s \<le> stop \<and>
    (\<forall>i. start \<le> i \<and> i < s \<longrightarrow> bv_bit bv i = val) \<and>
    (if c then s < stop \<and> bv_bit bv s \<noteq> val else s mod 8 = 0 \<or> s = stop)"
  using assms
proof (induction bv start stop val rule: region_start.induct)
  case (1 bv start stop val)
  show ?case
  proof (cases "start mod 8 \<noteq> 0 \<and> start < stop")
    case False
    then have "region_start bv start stop val = Some (start, False)"
      by (subst region_start.simps) (simp only: if_False)
    then show ?thesis using False 1(4) by (intro exI [of _ start] exI [of _ False]) auto
  next
    case True
    then have get: "bv_get bv start = Some (bv_bit bv start)" using 1(2,3) by (simp add: bv_get_ok)
    show ?thesis
    proof (cases "bv_bit bv start = val")
      case False
      then have "region_start bv start stop val = Some (start, True)"
        using True get by (simp add: region_start.simps [of bv start stop val])
      then show ?thesis using False True by (intro exI [of _ start] exI [of _ True]) auto
    next
      case eq: True
      have "\<not> bv_bit bv start \<noteq> val" and "start + 1 \<le> stop" using eq True by auto
      from 1(1) [OF True get this(1) 1(2,3) this(2)]
      obtain s c where IH: "region_start bv (start + 1) stop val = Some (s, c)" "start + 1 \<le> s" "s \<le> stop"
        "\<forall>i. start + 1 \<le> i \<and> i < s \<longrightarrow> bv_bit bv i = val"
        "if c then s < stop \<and> bv_bit bv s \<noteq> val else s mod 8 = 0 \<or> s = stop"
        by blast
      have "bv_bit bv i = val" if "start \<le> i" "i < s" for i
        using IH(4) eq that by (cases "i = start") auto
      moreover have "region_start bv start stop val = region_start bv (start + 1) stop val"
        using True get eq by (simp add: region_start.simps [of bv start stop val])
      ultimately show ?thesis using IH(1,2,3,5) by (intro exI [of _ s] exI [of _ c]) simp
    qed
  qed
qed

lemma byte_uniform: "b = (if val then 0xFF else 0x00 :: u8) \<longleftrightarrow> (\<forall>k < 8. bit b k = val)"
  using byte_fill_bit [of _ val] by (auto simp: bit_eq_iff [of b])

lemma region_full_ok:
  assumes "bv_ok bv" and "stop \<le> bv_length bv" and "start mod 8 = 0" and "stop mod 8 = 0"
  shows "\<exists>s. region_full bv start stop val = Some s \<and> start \<le> s \<and> (s \<le> stop \<or> s = start) \<and>
    (\<forall>i. start \<le> i \<and> i < s \<longrightarrow> bv_bit bv i = val)"
  using assms
proof (induction bv start stop val rule: region_full.induct)
  case (1 bv start stop val)
  show ?case
  proof (cases "start < stop")
    case False
    then have "region_full bv start stop val = Some start" by (simp add: region_full.simps [of bv start stop val])
    then show ?thesis by (intro exI [of _ start]) auto
  next
    case True
    then have idx: "start div 8 < length (bv_data bv)" using 1(2,3) by (intro bv_index) auto
    then have byte: "mem_byte (bv_data bv) (start div 8) = Some (bv_data bv ! (start div 8))"
      by (simp add: mem_byte_def)
    show ?thesis
    proof (cases "bv_data bv ! (start div 8) = (if val then 0xFF else 0x00)")
      case False
      then have "region_full bv start stop val = Some start"
        using True byte by (simp add: region_full.simps [of bv start stop val])
      then show ?thesis by (intro exI [of _ start]) auto
    next
      case eq: True
      have near: "bv_bit bv i = val" if "start \<le> i" "i < start + 8" for i
      proof -
        have "i div 8 = start div 8" using byte_index_iff [OF 1(4), of i] that by simp
        moreover have "\<forall>k < 8. bit (bv_data bv ! (start div 8)) k = val"
          using byte_uniform [THEN iffD1, OF eq] .
        ultimately show ?thesis unfolding bv_bit_def by simp
      qed
      have le: "start + 8 \<le> stop" using aligned_less [OF True 1(4,5)] .
      have "(start + 8) mod 8 = 0" using 1(4) by simp
      from 1(1) [OF True byte _ 1(2,3) this 1(5)] eq
      obtain s where IH: "region_full bv (start + 8) stop val = Some s" "start + 8 \<le> s"
          "s \<le> stop \<or> s = start + 8" "\<forall>i. start + 8 \<le> i \<and> i < s \<longrightarrow> bv_bit bv i = val"
        by blast
      have bits: "\<forall>i. start \<le> i \<and> i < s \<longrightarrow> bv_bit bv i = val"
        using IH(4) near by (meson not_less)
      have "region_full bv start stop val = Some s"
        using True byte eq IH(1) by (simp add: region_full.simps [of bv start stop val])
      moreover have "start \<le> s" "s \<le> stop \<or> s = start" using IH(2,3) le by linarith+
      ultimately show ?thesis using bits by blast
    qed
  qed
qed

text \<open>\<open>get_region_size\<close> computes the length of the run, cut off at \<open>max_size\<close> bits.\<close>

lemma bv_get_region_size_ok:
  assumes "bv_ok bv" and "start \<le> bv_length bv" 
  shows "bv_get_region_size bv start val max_size =
    Some (bit_run bv val start (start + min max_size (bv_length bv - start)))"
proof -
  define stop where "stop = start + min max_size (bv_length bv - start)"
  have stop: "stop \<le> bv_length bv" "start \<le> stop" using assms(2) by (auto simp: stop_def)
  have u: "uadd start (min max_size (usub (bv_length bv) start)) = stop"
    using assms stop by (simp add: usub_le stop_def uadd_small bv_ok_def)
  obtain s c where r1: "region_start bv start stop val = Some (s, c)" "start \<le> s" "s \<le> stop"
      "\<forall>i. start \<le> i \<and> i < s \<longrightarrow> bv_bit bv i = val"
      "if c then s < stop \<and> bv_bit bv s \<noteq> val else s mod 8 = 0 \<or> s = stop"
    using region_start_ok [OF assms(1) stop, of val] by blast
  have run1: "start + bit_run bv val start stop = s + bit_run bv val s stop"
    using r1(2-4) by (intro bit_run_split) auto
  show ?thesis
  proof (cases c)
    case True
    then have "bit_run bv val s stop = 0" using r1(5) by (simp add: bit_run_simps)
    then have "bit_run bv val start stop = s - start" using run1 r1(2) by simp
    then show ?thesis
      using True r1(1,2) unfolding bv_get_region_size_def Let_def u
      by (simp add: usub_le stop_def [symmetric])
  next
    case False
    define ae where "ae = stop div 8 * 8"
    have ae: "ae \<le> stop" "ae mod 8 = 0" by (simp_all add: ae_def)
    obtain s' where r2: "region_full bv s ae val = Some s'" "s \<le> s'" "s' \<le> stop"
        "\<forall>i. s \<le> i \<and> i < s' \<longrightarrow> bv_bit bv i = val"
    proof (cases "s mod 8 = 0")
      case True
      then show ?thesis
        using region_full_ok [OF assms(1) _ True ae(2), of val] ae(1) stop(1) r1(3) that by fastforce
    next
      case s: False
      then have "\<not> s < ae" using r1(5) False ae(1) by auto
      then have "region_full bv s ae val = Some s" by (simp add: region_full.simps)
      then show ?thesis using that [of s] r1(3) by force
    qed
    have r3: "region_rest bv s' stop val = Some (s' + bit_run bv val s' stop)"
      using region_rest_ok [OF assms(1) stop(1)] .
    have "s + bit_run bv val s stop = s' + bit_run bv val s' stop"
      using r2(2-4) by (intro bit_run_split) auto
    then have "usub (s' + bit_run bv val s' stop) start = bit_run bv val start stop"
      using run1 by (metis diff_add_inverse le_add1 usub_le)
    then show ?thesis
      using False r1(1) r2(1) r3 unfolding bv_get_region_size_def Let_def u ae_def
      by (simp add: stop_def [symmetric])
  qed
qed

subsection \<open>First fit\<close>

text \<open>A fit at index \<open>i\<close>: the next \<open>n\<close> bits exist and equal \<open>val\<close>.\<close>

definition fits_at :: "bitset_view \<Rightarrow> bool \<Rightarrow> nat \<Rightarrow> nat \<Rightarrow> bool" where
  "fits_at bv val n i \<longleftrightarrow> i + n \<le> bv_length bv \<and> (\<forall>j. i \<le> j \<and> j < i + n \<longrightarrow> bv_bit bv j = val)"

lemma fits_at_mono: "fits_at bv val m i \<Longrightarrow> n \<le> m \<Longrightarrow> fits_at bv val n i"
  by (auto simp: fits_at_def)

lemma align_up_1: "n < 2 ^ 63 \<Longrightarrow> align_up n 1 = n"
  by (rule align_up_aligned) auto

lemma run_region:
  "start < bv_length bv \<Longrightarrow> bv_ok bv \<Longrightarrow> min MAX_USIZE (bv_length bv - start) = bv_length bv - start"
  by (auto simp: bv_ok_def MAX_USIZE_def)

lemma find_first_fit_loop_ok:
  assumes "bv_ok bv" and "0 < len"
  shows "\<exists>r. find_first_fit_loop bv start len val 1 MAX_USIZE = Some r \<and>
    (if \<exists>i\<ge>start. fits_at bv val len i
     then len \<le> fit_size r \<and> start \<le> fit_index r \<and> fits_at bv val (fit_size r) (fit_index r) \<and>
       (\<forall>i. start \<le> i \<and> i < fit_index r \<longrightarrow> \<not> fits_at bv val len i)
     else r = fit_invalid)"
  using assms
proof (induction "bv_length bv - start" arbitrary: start rule: less_induct)
  case less
  show ?case
  proof (cases "start < bv_length bv")
    case False
    then have "\<not> fits_at bv val len i" if "start \<le> i" for i
      using that less.prems(2) by (auto simp: fits_at_def)
    then show ?thesis using False by (subst find_first_fit_loop.simps) auto
  next
    case True
    let ?n = "bv_length bv"
    let ?v = "bv_bit bv start"
    define k where "k = bit_run bv ?v start ?n"
    have get: "bv_get bv start = Some ?v" using less.prems(1) True by (rule bv_get_ok)
    have size: "bv_get_region_size bv start ?v MAX_USIZE = Some k"
      using bv_get_region_size_ok [OF less.prems(1), of start ?v MAX_USIZE] True
        run_region [OF True less.prems(1)] by (simp add: k_def)
    have k: "0 < k" "start + k \<le> ?n"
      using True bit_run_le [of bv ?v start ?n] by (auto simp: k_def bit_run_simps(3))
    have bits: "bv_bit bv i = ?v" if "start \<le> i" "i < start + k" for i
      using bit_run_bits that unfolding k_def by blast
    have u: "uadd start k = start + k" "align_up k 1 = k"
      using k less.prems(1) align_up_1 [of k] by (auto simp: bv_ok_def uadd_small)
    show ?thesis
    proof (cases "?v = val \<and> len \<le> k")
      case found: True
      then have "find_first_fit_loop bv start len val 1 MAX_USIZE = Some \<lparr>fit_index = start, fit_size = k\<rparr>"
        using True get size by (subst find_first_fit_loop.simps) simp
      moreover have "fits_at bv val k start" using found bits k(2) unfolding fits_at_def by blast
      moreover from this have "fits_at bv val len start" using found by (auto intro: fits_at_mono)
      ultimately have ex: "\<exists>i\<ge>start. fits_at bv val len i"
        and loop: "find_first_fit_loop bv start len val 1 MAX_USIZE = Some \<lparr>fit_index = start, fit_size = k\<rparr>"
        and fit: "fits_at bv val k start" by blast+
      show ?thesis unfolding if_P [OF ex] loop using found fit by auto
    next
      case skip: False
      have step: "find_first_fit_loop bv start len val 1 MAX_USIZE =
          find_first_fit_loop bv (start + k) len val 1 MAX_USIZE"
      proof (cases "?v = val")
        case eq: True
        then show ?thesis
          using True get size skip u(1) by (subst find_first_fit_loop.simps) simp
      next
        case False
        then have "(\<not> val) = ?v" by simp
        then have "bv_get_region_size bv start (\<not> val) MAX_USIZE = Some k" using size by simp
        then show ?thesis
          using True get False u by (subst find_first_fit_loop.simps) simp
      qed
      have none: "\<not> fits_at bv val len i" if "start \<le> i" "i < start + k" for i
      proof (cases "?v = val")
        case False
        then show ?thesis using bits [OF that] that less.prems(2) by (auto simp: fits_at_def)
      next
        case eq: True
        show ?thesis
        proof
          assume fit: "fits_at bv val len i"
          have "start + k < i + len" using skip eq that by auto
          moreover from this have "bv_bit bv (start + k) = val"
            using fit that by (simp add: fits_at_def)
          moreover have "start + k < ?n" using calculation(1) fit by (simp add: fits_at_def)
          ultimately show False using bit_run_stop [of start bv ?v ?n] eq by (simp add: k_def)
        qed
      qed
      have later: "start + k \<le> i" if "start \<le> i" "fits_at bv val len i" for i
        using none [OF that(1)] that(2) by (meson not_less)
      have ex: "(\<exists>i\<ge>start. fits_at bv val len i) \<longleftrightarrow> (\<exists>i\<ge>start + k. fits_at bv val len i)"
        using later by (meson add_leD1)
      have "?n - (start + k) < ?n - start" using k True by linarith
      from less.hyps [OF this less.prems]
      obtain r where r: "find_first_fit_loop bv (start + k) len val 1 MAX_USIZE = Some r"
        and spec: "if \<exists>i\<ge>start + k. fits_at bv val len i
          then len \<le> fit_size r \<and> start + k \<le> fit_index r \<and> fits_at bv val (fit_size r) (fit_index r) \<and>
            (\<forall>i. start + k \<le> i \<and> i < fit_index r \<longrightarrow> \<not> fits_at bv val len i)
          else r = fit_invalid"
        by blast
      show ?thesis
      proof (cases "\<exists>i\<ge>start + k. fits_at bv val len i")
        case False
        then show ?thesis using r spec unfolding step ex if_not_P [OF False] by blast
      next
        case some: True
        have spec': "len \<le> fit_size r" "start + k \<le> fit_index r" "fits_at bv val (fit_size r) (fit_index r)"
            "\<And>i. start + k \<le> i \<Longrightarrow> i < fit_index r \<Longrightarrow> \<not> fits_at bv val len i"
          using spec unfolding if_P [OF some] by blast+
        have "\<not> fits_at bv val len i" if "start \<le> i" "i < fit_index r" for i
          using later [OF that(1)] spec'(4) that(2) by blast
        then show ?thesis using r spec'(1,3) add_leD1 [OF spec'(2)] unfolding step ex if_P [OF some] by blast
      qed
    qed
  qed
qed

subsection \<open>Properties\<close>

text \<open>
\<open>set_range\<close> on a range that ends before the last bit stores \<open>val\<close> in every bit of the
  range and keeps the size, and the other bits it changes are exactly those from the end of the
  range to the end of that byte, in the case that bit 3 of the end is clear and the range
  contains the start of a byte.  In particular \<open>set_range(0, 5, false)\<close> also clears the bits
  5, 6 and 7.
\<close>

theorem set_range_effect:
  assumes "bv_ok bv" and "start + count < bv_length bv"
  shows "\<exists>bv'. bv_set_range bv start count val = Some bv' \<and> bv_ok bv' \<and> bv_length bv' = bv_length bv \<and>
    (\<forall>i. bv_bit bv' i =
      (if start \<le> i \<and> i < set_range_stop start (start + count) then val else bv_bit bv i)) \<and>
    start + count \<le> set_range_stop start (start + count)"
  using bv_set_range_ok [OF assms, of val] ceil8_bounds(1) [of "start + count"]
  by (auto simp: set_range_stop_def)

theorem set_range_effect_witness:
  "\<exists>bv'. bv_set_range \<lparr>bv_data = [0xFF, 0xFF], bv_length = 16\<rparr> 0 5 False = Some bv' \<and>
    \<not> bv_bit bv' 4 \<and> \<not> bv_bit bv' 7 \<and> bv_bit bv' 8"
proof -
  let ?bv = "\<lparr>bv_data = [0xFF, 0xFF], bv_length = 16\<rparr> :: bitset_view"
  have ok: "bv_ok ?bv" by (simp add: bv_ok_def)
  have "set_range_stop 0 5 = 8" by (simp add: set_range_stop_def ceil8_def)
  moreover have "bv_bit ?bv 8" by (simp add: bv_bit_def)
  ultimately show ?thesis
    using set_range_effect [OF ok, of 0 5 False] by (auto simp del: bv_set_range_def)
qed

text \<open>
the byte-at-a-time \<open>get_region_size\<close> equals its bit-at-a-time meaning: the number of
  consecutive bits from \<open>start\<close> that equal \<open>val\<close>, at most \<open>max_size\<close> and within the
  view.
\<close>

theorem get_region_size_eq_run:
  assumes "bv_ok bv" and "start \<le> bv_length bv"
  shows "bv_get_region_size bv start val max_size = Some (length (takeWhile (\<lambda>i. bv_bit bv i = val)
    [start..<start + min max_size (bv_length bv - start)]))"
  using bv_get_region_size_ok [OF assms] by (simp add: bit_run_def)

theorem get_region_size_eq_run_witness:
  "bv_get_region_size \<lparr>bv_data = [0xF8, 0xFF, 0x07], bv_length = 24\<rparr> 3 True MAX_USIZE = Some 16"
proof -
  let ?bv = "\<lparr>bv_data = [0xF8, 0xFF, 0x07], bv_length = 24\<rparr> :: bitset_view"
  have "bv_ok ?bv" by (simp add: bv_ok_def)
  then show ?thesis
    using get_region_size_eq_run [of ?bv 3 True MAX_USIZE]
    by (simp add: MAX_USIZE_def bv_bit_def upt_rec)
qed

text \<open>
\<open>find_first_fit\<close> without an alignment returns, and returns the first index at or after the
  hint from which \<open>length\<close> bits equal \<open>val\<close>, together with a run of such bits that is at
  least that long; when there is none it returns the invalid result.
\<close>

theorem find_first_fit_correct:
  assumes "bv_ok bv" and "0 < len" and "hint \<le> bv_length bv"
  shows "\<exists>r. bv_find_first_fit bv len val hint 1 0 MAX_USIZE = Some r \<and>
    (if \<exists>i\<ge>hint. fits_at bv val len i
     then len \<le> fit_size r \<and> hint \<le> fit_index r \<and> fits_at bv val (fit_size r) (fit_index r) \<and>
       (\<forall>i. hint \<le> i \<and> i < fit_index r \<longrightarrow> \<not> fits_at bv val len i)
     else r = fit_invalid)"
proof -
  have "usub (align_up (uadd hint 0) 1) 0 = hint"
    using assms(1,3) align_up_1 [of hint] by (simp add: uadd_small usub_le bv_ok_def)
  then show ?thesis
    using find_first_fit_loop_ok [OF assms(1,2), of hint val] by (simp add: bv_find_first_fit_def)
qed

theorem find_first_fit_correct_witness:
  "\<exists>r. bv_find_first_fit \<lparr>bv_data = [0xFB, 0x01], bv_length = 16\<rparr> 2 False 0 1 0 MAX_USIZE = Some r \<and>
    fits_at \<lparr>bv_data = [0xFB, 0x01], bv_length = 16\<rparr> False 2 (fit_index r)"
proof -
  let ?bv = "\<lparr>bv_data = [0xFB, 0x01], bv_length = 16\<rparr> :: bitset_view"
  have ok: "bv_ok ?bv" by (simp add: bv_ok_def)
  have "fits_at ?bv False 2 9"
  proof -
    have "(\<forall>j. 9 \<le> j \<and> j < 11 \<longrightarrow> bv_bit ?bv j = False) \<longleftrightarrow> (\<forall>j \<in> {9..<11}. \<not> bv_bit ?bv j)"
      by auto
    moreover have "{9..<11} = {9, 10 :: nat}" by auto
    ultimately show ?thesis by (simp add: fits_at_def bv_bit_def)
  qed
  then have ex: "\<exists>i\<ge>0. fits_at ?bv False 2 i" by blast
  show ?thesis
    using find_first_fit_correct [OF ok, of 2 0 False, unfolded if_P [OF ex]] by (auto intro: fits_at_mono)
qed

end
