(* ===== verification/Addresses.thy ===== *)
theory Addresses
  imports Bek_Utility
begin

text \<open>
  \<open>kernel/include/mm/addresses.h\<close>: pointers and regions.  The pointer classes (physical,
  user, kernel virtual) differ in their type only; a pointer is its 64-bit value and a region
  a start and a size.  Pointer arithmetic wraps around; \<open>region_ok\<close> says that a region does
  not, and under it the predicates have their meaning on sets of addresses.
\<close>

definition PAGE_SIZE :: uSize where
  "PAGE_SIZE = 4096"

lemma PAGE_SIZE_pos [simp]: "0 < PAGE_SIZE" "PAGE_SIZE \<noteq> 0"
  by (simp_all add: PAGE_SIZE_def)

definition page_base :: "uSize \<Rightarrow> uSize" where
  "page_base ptr = ptr - ptr mod PAGE_SIZE"

definition page_offset :: "uSize \<Rightarrow> uSize" where
  "page_offset ptr = ptr mod PAGE_SIZE"

record region =
  rg_start :: uSize
  rg_size :: uSize

definition rg_end :: "region \<Rightarrow> uSize" where
  "rg_end r = uadd (rg_start r) (rg_size r)"

definition rg_overlaps :: "region \<Rightarrow> region \<Rightarrow> bool" where
  "rg_overlaps r other \<longleftrightarrow> rg_start other < rg_end r \<and> rg_end other > rg_start r"

definition rg_contains_ptr :: "region \<Rightarrow> uSize \<Rightarrow> bool" where
  "rg_contains_ptr r ptr \<longleftrightarrow> ptr \<ge> rg_start r \<and> ptr < rg_end r"

definition rg_contains :: "region \<Rightarrow> region \<Rightarrow> bool" where
  "rg_contains r other \<longleftrightarrow> rg_start other \<ge> rg_start r \<and> rg_end other \<le> rg_end r"

definition rg_intersection :: "region \<Rightarrow> region \<Rightarrow> region" where
  "rg_intersection r other =
     (let new_start = max (rg_start r) (rg_start other);
          new_end = min (rg_end r) (rg_end other)
      in if new_end \<ge> new_start then \<lparr>rg_start = new_start, rg_size = usub new_end new_start\<rparr>
         else \<lparr>rg_start = 0, rg_size = 0\<rparr>)"

definition rg_page_aligned :: "region \<Rightarrow> bool" where
  "rg_page_aligned r \<longleftrightarrow> page_offset (rg_start r) = 0 \<and> rg_size r mod PAGE_SIZE = 0"

definition rg_align_to_page :: "region \<Rightarrow> region" where
  "rg_align_to_page r =
     (let end_address = align_up (rg_end r) PAGE_SIZE;
          start_address = align_down (rg_start r) PAGE_SIZE
      in \<lparr>rg_start = start_address, rg_size = usub end_address start_address\<rparr>)"

subsection \<open>Regions as sets of addresses\<close>

definition region_ok :: "region \<Rightarrow> bool" where
  "region_ok r \<longleftrightarrow> rg_start r + rg_size r < 2 ^ 64"

definition rg_addrs :: "region \<Rightarrow> nat set" where
  "rg_addrs r = {rg_start r ..< rg_start r + rg_size r}"

lemma rg_end_eq: "region_ok r \<Longrightarrow> rg_end r = rg_start r + rg_size r"
  by (simp add: rg_end_def region_ok_def uadd_small)

lemma rg_contains_ptr_iff: "region_ok r \<Longrightarrow> rg_contains_ptr r p \<longleftrightarrow> p \<in> rg_addrs r"
  by (simp add: rg_contains_ptr_def rg_addrs_def rg_end_eq)

lemma rg_overlaps_iff:
  assumes "region_ok r" and "region_ok s" and "0 < rg_size r" and "0 < rg_size s"
  shows "rg_overlaps r s \<longleftrightarrow> rg_addrs r \<inter> rg_addrs s \<noteq> {}"
proof
  assume "rg_overlaps r s"
  then have "max (rg_start r) (rg_start s) \<in> rg_addrs r \<inter> rg_addrs s"
    using assms by (auto simp: rg_overlaps_def rg_end_eq rg_addrs_def max_def)
  then show "rg_addrs r \<inter> rg_addrs s \<noteq> {}" by blast
qed (use assms in \<open>auto simp: rg_overlaps_def rg_end_eq rg_addrs_def\<close>)

lemma rg_contains_subset:
  "region_ok r \<Longrightarrow> region_ok s \<Longrightarrow> rg_contains r s \<Longrightarrow> rg_addrs s \<subseteq> rg_addrs r"
  by (auto simp: rg_contains_def rg_end_eq rg_addrs_def)

lemma rg_intersection_addrs:
  assumes "region_ok r" and "region_ok s"
  shows "rg_addrs (rg_intersection r s) = rg_addrs r \<inter> rg_addrs s"
  using assms
  by (auto simp: rg_intersection_def Let_def rg_end_eq rg_addrs_def usub_le)

text \<open>\<open>align_to_page\<close> is the smallest page-aligned region around the given one.\<close>

lemma rg_align_to_page_ok:
  assumes "rg_start r + rg_size r + PAGE_SIZE < 2 ^ 64"
  shows "rg_page_aligned (rg_align_to_page r)" and "rg_addrs r \<subseteq> rg_addrs (rg_align_to_page r)"
proof -
  have ok: "region_ok r" using assms by (simp add: region_ok_def)
  have up: "rg_end r \<le> align_up (rg_end r) PAGE_SIZE" "PAGE_SIZE dvd align_up (rg_end r) PAGE_SIZE"
    using assms by (auto intro!: align_up_spec simp: rg_end_eq [OF ok])
  have down: "align_down (rg_start r) PAGE_SIZE \<le> rg_start r" by (rule align_down_le)
  have down_dvd: "PAGE_SIZE dvd align_down (rg_start r) PAGE_SIZE"
    using assms by (subst align_down_eq) (auto simp: dvd_minus_mod)
  have le: "align_down (rg_start r) PAGE_SIZE \<le> align_up (rg_end r) PAGE_SIZE"
    using up(1) down by (simp add: rg_end_eq [OF ok])
  show "rg_page_aligned (rg_align_to_page r)"
    using up(2) down_dvd le
    by (simp add: rg_page_aligned_def rg_align_to_page_def page_offset_def usub_le mod_eq_0_iff_dvd dvd_diff_nat Let_def)
  show "rg_addrs r \<subseteq> rg_addrs (rg_align_to_page r)"
    using up(1) down le by (auto simp: rg_addrs_def rg_align_to_page_def usub_le rg_end_eq [OF ok] Let_def)
qed

end
