(* ===== verification/Page_Allocator.thy ===== *)
theory Page_Allocator
  imports Bitset Addresses
begin

text \<open>
  \<open>kernel/src/mm/page_allocator.cpp\<close>: the allocator of physical pages.  A region keeps two
  bitmaps, one bit per page: the page is reserved, and the allocation continues after the
  page.  The bitmaps live in the first pages of the region; the model keeps them as the two
  byte lists \<open>rpa_free_bitmap\<close> and \<open>rpa_continuation_bitmap\<close>, with their first contents
  (the memory as the allocator finds it) as an argument of the constructor.
\<close>

record region_page_allocator =
  rpa_region :: region
  rpa_free_bitmap :: "u8 list"
  rpa_continuation_bitmap :: "u8 list"
  rpa_last_freed :: uSize

text \<open>\<open>data()[index / 8] |= 1 << (index % 8)\<close>, \<open>&= ~(...)\<close>, and the test of the bit.\<close>

definition bm_set :: "u8 list \<Rightarrow> uSize \<Rightarrow> bool \<Rightarrow> u8 list option" where
  "bm_set m index val = do {
     b \<leftarrow> mem_byte m (index div 8);
     Some (m[index div 8 := if val then b OR push_bit (index mod 8) 1
                            else b AND NOT (push_bit (index mod 8) 1)]) }"

definition bm_test :: "u8 list \<Rightarrow> uSize \<Rightarrow> bool option" where
  "bm_test m index = do {
     b \<leftarrow> mem_byte m (index div 8);
     Some (b AND push_bit (index mod 8) 1 \<noteq> 0) }"

function mark_as_reserved_index ::
  "region_page_allocator \<Rightarrow> uSize \<Rightarrow> uSize \<Rightarrow> region_page_allocator option" where
  "mark_as_reserved_index a index stop =
     (if index < stop
      then do {
        f \<leftarrow> bm_set (rpa_free_bitmap a) index True;
        c \<leftarrow> bm_set (rpa_continuation_bitmap a) index (index + 1 \<noteq> stop);
        mark_as_reserved_index (a\<lparr>rpa_free_bitmap := f, rpa_continuation_bitmap := c\<rparr>) (index + 1) stop }
      else Some a)"
  by pat_completeness auto

termination mark_as_reserved_index
  by (relation "measure (\<lambda>(a, index, stop). stop - index)") auto

declare mark_as_reserved_index.simps [simp del]

function mark_region_as_free_loop :: "region_page_allocator \<Rightarrow> uSize \<Rightarrow> region_page_allocator option" where
  "mark_region_as_free_loop a start_index =
     (case bm_set (rpa_free_bitmap a) start_index False of
        None \<Rightarrow> None
      | Some f \<Rightarrow>
         (let a' = a\<lparr>rpa_free_bitmap := f\<rparr>
          in case bm_test (rpa_continuation_bitmap a) start_index of
               None \<Rightarrow> None
             | Some c \<Rightarrow> if \<not> c then Some a' else mark_region_as_free_loop a' (start_index + 1)))"
  by pat_completeness auto

termination mark_region_as_free_loop
  by (relation "measure (\<lambda>(a, i). 8 * length (rpa_continuation_bitmap a) - i)")
    (auto simp: bm_test_def mem_byte_def split: if_splits)

declare mark_region_as_free_loop.simps [simp del]

definition mark_region_as_free :: "region_page_allocator \<Rightarrow> uSize \<Rightarrow> region_page_allocator option" where
  "mark_region_as_free a start_index = mark_region_as_free_loop (a\<lparr>rpa_last_freed := start_index\<rparr>) start_index"

text \<open>The loop of \<open>search_for_free\<close>: \<open>MAX_USIZE\<close> is the \<open>-1\<close> of the code.\<close>

function search_loop :: "u8 list \<Rightarrow> uSize \<Rightarrow> uSize \<Rightarrow> uSize \<Rightarrow> uSize \<Rightarrow> uSize \<Rightarrow> uSize option" where
  "search_loop bm page_number n_pages index region_begin region_size =
     (if index < page_number
      then do {
        reserved \<leftarrow> bm_test bm index;
        (if reserved then search_loop bm page_number n_pages (index + 1) (index + 1) 0
         else if region_size + 1 = n_pages then Some region_begin
         else search_loop bm page_number n_pages (index + 1) region_begin (region_size + 1)) }
      else Some MAX_USIZE)"
  by pat_completeness auto

termination search_loop
  by (relation "measure (\<lambda>(bm, pn, n, index, rb, rs). pn - index)") auto

declare search_loop.simps [simp del]

definition search_for_free :: "region_page_allocator \<Rightarrow> uSize \<Rightarrow> uSize option" where
  "search_for_free a n_pages =
     search_loop (rpa_free_bitmap a) (rg_size (rpa_region a) div PAGE_SIZE) n_pages
       (rpa_last_freed a) (rpa_last_freed a) 0"

definition allocate_pages :: "region_page_allocator \<Rightarrow> uSize
    \<Rightarrow> (uSize option \<times> region_page_allocator) option" where
  "allocate_pages a n_pages = do {
     region \<leftarrow> search_for_free a n_pages;
     (if region \<noteq> MAX_USIZE
      then do {
        a' \<leftarrow> mark_as_reserved_index a region (uadd region n_pages);
        Some (Some (uadd (rg_start (rpa_region a)) (umul region PAGE_SIZE)), a') }
      else Some (None, a)) }"

text \<open>
  The difference of two pointers in pages, signed (the division rounds to zero) and read back as
  \<open>uSize\<close>.  A distance of \<open>2 ^ 63\<close> or more is not a pointer difference in C++; the regions are in the
  direct mapping of physical memory, whose addresses are less than \<open>2 ^ 48\<close> apart.
\<close>

definition page_index :: "uSize \<Rightarrow> uSize \<Rightarrow> uSize" where
  "page_index p start =
     (if start \<le> p then (p - start) div PAGE_SIZE else usub 0 ((start - p) div PAGE_SIZE))"

definition rpa_free_region :: "region_page_allocator \<Rightarrow> uSize \<Rightarrow> region_page_allocator option" where
  "rpa_free_region a p = mark_region_as_free a (page_index (page_base p) (rg_start (rpa_region a)))"

definition rpa_mark_as_reserved :: "region_page_allocator \<Rightarrow> region \<Rightarrow> region_page_allocator option" where
  "rpa_mark_as_reserved a r =
     (let index = page_index (page_base (rg_start r)) (rg_start (rpa_region a));
          len = rg_size r div PAGE_SIZE
      in do {
        verify (uadd index len < rg_size (rpa_region a) div PAGE_SIZE);
        mark_as_reserved_index a index (uadd index len) })"

text \<open>The constructor, on the bytes found in the region's memory.\<close>

definition region_page_allocator_new :: "region \<Rightarrow> u8 list \<Rightarrow> region_page_allocator option" where
  "region_page_allocator_new r mem = do {
     verify (rg_page_aligned r);
     (let page_number = rg_size r div PAGE_SIZE;
          bytes_per_bitmap = uadd (usub page_number 1 div 8) 1;
          pages_needed = uadd (usub (umul bytes_per_bitmap 2) 1 div PAGE_SIZE) 1
      in do {
        f \<leftarrow> mem_read mem 0 bytes_per_bitmap;
        c \<leftarrow> mem_read mem bytes_per_bitmap bytes_per_bitmap;
        mark_as_reserved_index
          \<lparr>rpa_region = r, rpa_free_bitmap = f, rpa_continuation_bitmap = c, rpa_last_freed = 0\<rparr>
          0 pages_needed }) }"

subsection \<open>The allocator over all regions\<close>

definition MAX_PHYSICAL_REGIONS :: nat where
  "MAX_PHYSICAL_REGIONS = 4"

type_synonym page_allocator = "region_page_allocator option list"

definition page_allocator_new :: page_allocator where
  "page_allocator_new = replicate MAX_PHYSICAL_REGIONS None"

fun register_new_region :: "page_allocator \<Rightarrow> region \<Rightarrow> u8 list \<Rightarrow> page_allocator option" where
  "register_new_region [] r mem = None"
| "register_new_region (None # rest) r mem =
     do { a \<leftarrow> region_page_allocator_new r mem; Some (Some a # rest) }"
| "register_new_region (Some a # rest) r mem = do {
     verify (\<not> rg_overlaps (rpa_region a) r);
     rest' \<leftarrow> register_new_region rest r mem;
     Some (Some a # rest') }"

fun pa_mark_loop :: "page_allocator \<Rightarrow> region \<Rightarrow> page_allocator option" where
  "pa_mark_loop [] r = Some []"
| "pa_mark_loop (o_region # rest) r = do {
     o' \<leftarrow> (case o_region of
              Some a \<Rightarrow> if rg_overlaps (rpa_region a) r then map_option Some (rpa_mark_as_reserved a r)
                        else Some (Some a)
            | None \<Rightarrow> Some None);
     rest' \<leftarrow> pa_mark_loop rest r;
     Some (o' # rest') }"

definition pa_mark_as_reserved :: "page_allocator \<Rightarrow> region \<Rightarrow> page_allocator option" where
  "pa_mark_as_reserved pa r = do { verify (rg_page_aligned r); pa_mark_loop pa r }"

fun allocate_region :: "page_allocator \<Rightarrow> uSize \<Rightarrow> (region option \<times> page_allocator) option" where
  "allocate_region [] page_number = Some (None, [])"
| "allocate_region (None # rest) page_number = Some (None, None # rest)"
| "allocate_region (Some a # rest) page_number = do {
     (allocation, a') \<leftarrow> allocate_pages a page_number;
     (case allocation of
        Some p \<Rightarrow> Some (Some \<lparr>rg_start = p, rg_size = umul page_number PAGE_SIZE\<rparr>, Some a' # rest)
      | None \<Rightarrow> do { (r, rest') \<leftarrow> allocate_region rest page_number; Some (r, Some a' # rest') }) }"

fun pa_free_region :: "page_allocator \<Rightarrow> uSize \<Rightarrow> page_allocator option" where
  "pa_free_region [] start = None"
| "pa_free_region (None # rest) start = Some (None # rest)"
| "pa_free_region (Some a # rest) start =
     (if rg_contains_ptr (rpa_region a) start
      then do { a' \<leftarrow> rpa_free_region a start; Some (Some a' # rest) }
      else do { rest' \<leftarrow> pa_free_region rest start; Some (Some a # rest') })"

subsection \<open>Pages\<close>

definition bm_bit :: "u8 list \<Rightarrow> nat \<Rightarrow> bool" where
  "bm_bit m i = bit (m ! (i div 8)) (i mod 8)"

definition page_count :: "region_page_allocator \<Rightarrow> nat" where
  "page_count a = rg_size (rpa_region a) div PAGE_SIZE"

definition reserved :: "region_page_allocator \<Rightarrow> nat \<Rightarrow> bool" where
  "reserved a = bm_bit (rpa_free_bitmap a)"

definition continues :: "region_page_allocator \<Rightarrow> nat \<Rightarrow> bool" where
  "continues a = bm_bit (rpa_continuation_bitmap a)"

definition rpa_ok :: "region_page_allocator \<Rightarrow> bool" where
  "rpa_ok a \<longleftrightarrow> region_ok (rpa_region a) \<and> rg_page_aligned (rpa_region a) \<and>
     page_count a \<le> 8 * length (rpa_free_bitmap a) \<and>
     page_count a \<le> 8 * length (rpa_continuation_bitmap a)"

lemma bm_set_ok:
  assumes "i < 8 * length m"
  shows "\<exists>m'. bm_set m i val = Some m' \<and> length m' = length m \<and> bm_bit m' = (bm_bit m)(i := val)"
proof -
  let ?b = "m ! (i div 8)"
  let ?b' = "if val then ?b OR push_bit (i mod 8) 1 else ?b AND NOT (push_bit (i mod 8) 1)"
  have idx: "i div 8 < length m" using assms by auto
  have "bit ?b' k = (if k = i mod 8 then val else bit ?b k)" if "k < 8" for k
    using that by (auto simp: bit_simps)
  then have "bm_bit (m[i div 8 := ?b']) = (bm_bit m)(i := val)"
    using idx bit_index_eq [of _ i] by (intro ext) (auto simp: bm_bit_def nth_list_update)
  then show ?thesis using idx by (simp add: bm_set_def mem_byte_def)
qed

lemma bm_test_ok: "i < 8 * length m \<Longrightarrow> bm_test m i = Some (bm_bit m i)"
  by (auto simp: bm_test_def mem_byte_def bm_bit_def mask_bit_test [symmetric])

lemma rpa_ok_page: "rpa_ok a \<Longrightarrow> i < page_count a \<Longrightarrow>
    i < 8 * length (rpa_free_bitmap a) \<and> i < 8 * length (rpa_continuation_bitmap a)"
  by (auto simp: rpa_ok_def)

lemma page_count_bound: "rpa_ok a \<Longrightarrow> page_count a * PAGE_SIZE = rg_size (rpa_region a)"
  "rpa_ok a \<Longrightarrow> page_count a < 2 ^ 52"
  by (auto simp: rpa_ok_def page_count_def rg_page_aligned_def region_ok_def PAGE_SIZE_def)

text \<open>The fields that an operation on the bitmaps keeps.\<close>

definition rpa_frame :: "region_page_allocator \<Rightarrow> region_page_allocator \<Rightarrow> bool" where
  "rpa_frame a a' \<longleftrightarrow> rpa_ok a' \<and> rpa_region a' = rpa_region a"

lemma mark_ok:
  assumes "rpa_ok a" and "stop \<le> page_count a"
  shows "\<exists>a'. mark_as_reserved_index a index stop = Some a' \<and> rpa_frame a a' \<and>
    rpa_last_freed a' = rpa_last_freed a \<and>
    reserved a' = (\<lambda>i. index \<le> i \<and> i < stop \<or> reserved a i) \<and>
    continues a' = (\<lambda>i. if index \<le> i \<and> i < stop then i + 1 \<noteq> stop else continues a i)"
  using assms
proof (induction a index stop rule: mark_as_reserved_index.induct)
  case (1 a index stop)
  show ?case
  proof (cases "index < stop")
    case False
    then have "mark_as_reserved_index a index stop = Some a"
      by (simp add: mark_as_reserved_index.simps [of a])
    moreover have "\<not> (index \<le> i \<and> i < stop)" for i using False by linarith
    ultimately show ?thesis using "1.prems" by (auto simp: rpa_frame_def fun_eq_iff)
  next
    case True
    have idx: "index < 8 * length (rpa_free_bitmap a)" "index < 8 * length (rpa_continuation_bitmap a)"
      using rpa_ok_page [OF "1.prems"(1), of index] "1.prems"(2) True by auto
    obtain f where f: "bm_set (rpa_free_bitmap a) index True = Some f"
        "length f = length (rpa_free_bitmap a)" "bm_bit f = (bm_bit (rpa_free_bitmap a))(index := True)"
      using bm_set_ok [OF idx(1)] by blast
    obtain c where c: "bm_set (rpa_continuation_bitmap a) index (index + 1 \<noteq> stop) = Some c"
        "length c = length (rpa_continuation_bitmap a)"
        "bm_bit c = (bm_bit (rpa_continuation_bitmap a))(index := index + 1 \<noteq> stop)"
      using bm_set_ok [OF idx(2)] by blast
    let ?a = "a\<lparr>rpa_free_bitmap := f, rpa_continuation_bitmap := c\<rparr>"
    have ok: "rpa_ok ?a" "stop \<le> page_count ?a"
      using "1.prems" f(2) c(2) by (simp_all add: rpa_ok_def page_count_def)
    obtain a' where a': "mark_as_reserved_index ?a (index + 1) stop = Some a'" "rpa_frame ?a a'"
        "rpa_last_freed a' = rpa_last_freed ?a"
        "reserved a' = (\<lambda>i. index + 1 \<le> i \<and> i < stop \<or> reserved ?a i)"
        "continues a' = (\<lambda>i. if index + 1 \<le> i \<and> i < stop then i + 1 \<noteq> stop else continues ?a i)"
      using "1.IH" [OF True f(1) c(1) ok] by blast
    have "mark_as_reserved_index a index stop = Some a'"
      using True f(1) c(1) a'(1) by (simp add: mark_as_reserved_index.simps [of a])
    moreover have "reserved a' = (\<lambda>i. index \<le> i \<and> i < stop \<or> reserved a i)"
      using True unfolding a'(4) by (auto simp: reserved_def f(3) fun_eq_iff)
    moreover have "continues a' = (\<lambda>i. if index \<le> i \<and> i < stop then i + 1 \<noteq> stop else continues a i)"
      using True unfolding a'(5) by (auto simp: continues_def c(3) fun_eq_iff)
    ultimately show ?thesis using a'(2,3) by (simp add: rpa_frame_def)
  qed
qed

text \<open>An allocation of \<open>n\<close> pages at \<open>start\<close>: the continuation bits end with its last page.\<close>

definition extent :: "region_page_allocator \<Rightarrow> nat \<Rightarrow> nat \<Rightarrow> bool" where
  "extent a start n \<longleftrightarrow> 0 < n \<and> start + n \<le> page_count a \<and> \<not> continues a (start + n - 1) \<and>
     (\<forall>i. start \<le> i \<and> i < start + n - 1 \<longrightarrow> continues a i)"

lemma free_loop_ok:
  assumes "rpa_ok a" and "extent a start n"
  shows "\<exists>a'. mark_region_as_free_loop a start = Some a' \<and> rpa_frame a a' \<and>
    rpa_last_freed a' = rpa_last_freed a \<and> continues a' = continues a \<and>
    reserved a' = (\<lambda>i. \<not> (start \<le> i \<and> i < start + n) \<and> reserved a i)"
  using assms
proof (induction n arbitrary: a start)
  case 0
  then show ?case by (simp add: extent_def)
next
  case (Suc n)
  have "start < page_count a" using Suc.prems(2) by (simp add: extent_def)
  then have idx: "start < 8 * length (rpa_free_bitmap a)" "start < 8 * length (rpa_continuation_bitmap a)"
    using rpa_ok_page [OF Suc.prems(1)] by auto
  obtain f where f: "bm_set (rpa_free_bitmap a) start False = Some f"
      "length f = length (rpa_free_bitmap a)" "bm_bit f = (bm_bit (rpa_free_bitmap a))(start := False)"
    using bm_set_ok [OF idx(1)] by blast
  let ?a = "a\<lparr>rpa_free_bitmap := f\<rparr>"
  have ok: "rpa_ok ?a" and con: "continues ?a = continues a"
    using Suc.prems(1) f(2) by (simp_all add: rpa_ok_def page_count_def continues_def)
  have test: "bm_test (rpa_continuation_bitmap a) start = Some (continues a start)"
    using idx(2) by (simp add: bm_test_ok continues_def)
  have unfold: "mark_region_as_free_loop a start =
      (if continues a start then mark_region_as_free_loop ?a (start + 1) else Some ?a)"
    using f(1) test by (simp add: mark_region_as_free_loop.simps [of a])
  show ?case
  proof (cases "n = 0")
    case True
    then have "\<not> continues a start" using Suc.prems(2) by (simp add: extent_def)
    moreover have "reserved ?a = (\<lambda>i. \<not> (start \<le> i \<and> i < start + Suc n) \<and> reserved a i)"
      using True by (auto simp: reserved_def f(3) fun_eq_iff)
    ultimately show ?thesis using unfold ok con by (simp add: rpa_frame_def)
  next
    case False
    have ext: "extent ?a (start + 1) n" and c: "continues a start"
      using Suc.prems(2) False by (auto simp: extent_def con page_count_def)
    obtain a' where a': "mark_region_as_free_loop ?a (start + 1) = Some a'" "rpa_frame ?a a'"
        "rpa_last_freed a' = rpa_last_freed ?a" "continues a' = continues ?a"
        "reserved a' = (\<lambda>i. \<not> (start + 1 \<le> i \<and> i < start + 1 + n) \<and> reserved ?a i)"
      using Suc.IH [OF ok ext] by blast
    have "reserved a' = (\<lambda>i. \<not> (start \<le> i \<and> i < start + Suc n) \<and> reserved a i)"
      unfolding a'(5) by (auto simp: reserved_def f(3) fun_eq_iff)
    then show ?thesis using unfold c a'(1-4) con by (simp add: rpa_frame_def)
  qed
qed

subsection \<open>The search\<close>

definition free_run :: "u8 list \<Rightarrow> nat \<Rightarrow> nat \<Rightarrow> nat \<Rightarrow> bool" where
  "free_run bm pages n i \<longleftrightarrow> i + n \<le> pages \<and> (\<forall>j. i \<le> j \<and> j < i + n \<longrightarrow> \<not> bm_bit bm j)"

text \<open>
  The loop keeps: the pages from \<open>region_begin\<close> to \<open>index\<close> are free and fewer than wanted.
\<close>

lemma search_loop_ok:
  assumes "pages \<le> 8 * length bm" and "rb + rs = index" and "rs < n" and "index \<le> pages"
    and "\<And>j. rb \<le> j \<Longrightarrow> j < index \<Longrightarrow> \<not> bm_bit bm j"
  shows "(\<exists>b. search_loop bm pages n index rb rs = Some b \<and> rb \<le> b \<and> free_run bm pages n b) \<or>
    search_loop bm pages n index rb rs = Some MAX_USIZE \<and> (\<forall>i\<ge>rb. \<not> free_run bm pages n i)"
  using assms
proof (induction "pages - index" arbitrary: index rb rs)
  case 0
  then have "index = pages" by simp
  then have "search_loop bm pages n index rb rs = Some MAX_USIZE"
    by (simp add: search_loop.simps [of bm])
  moreover have "\<not> free_run bm pages n i" if "rb \<le> i" for i
    using that "0.prems"(2,3) \<open>index = pages\<close> unfolding free_run_def by linarith
  ultimately show ?case by blast
next
  case (Suc d)
  then have lt: "index < pages" and d: "d = pages - (index + 1)" "index + 1 \<le> pages" by auto
  have test: "bm_test bm index = Some (bm_bit bm index)"
    using lt Suc.prems(1) by (simp add: bm_test_ok)
  show ?case
  proof (cases "bm_bit bm index")
    case True
    have step: "search_loop bm pages n index rb rs = search_loop bm pages n (index + 1) (index + 1) 0"
      using lt test True by (simp add: search_loop.simps [of bm pages n index])
    have "\<not> free_run bm pages n i" if "rb \<le> i" "i < index + 1" for i
    proof -
      have "i \<le> index" "index < i + n" using that Suc.prems(2,3) by auto
      then show ?thesis using True unfolding free_run_def by blast
    qed
    then have none: "(\<forall>i\<ge>index + 1. \<not> free_run bm pages n i) \<Longrightarrow> (\<forall>i\<ge>rb. \<not> free_run bm pages n i)"
      by (meson not_less)
    have "(\<exists>b. search_loop bm pages n (index + 1) (index + 1) 0 = Some b \<and> index + 1 \<le> b \<and> free_run bm pages n b) \<or>
      search_loop bm pages n (index + 1) (index + 1) 0 = Some MAX_USIZE \<and>
        (\<forall>i\<ge>index + 1. \<not> free_run bm pages n i)"
      using Suc.prems(3) by (intro Suc.hyps(1) [OF d(1) Suc.prems(1) _ _ d(2)]) auto
    moreover have "rb \<le> b" if "index + 1 \<le> b" for b using that Suc.prems(2) by linarith
    ultimately show ?thesis
      unfolding step using none by blast
  next
    case False
    have free: "\<not> bm_bit bm j" if "rb \<le> j" "j < index + 1" for j
      using Suc.prems(5) [OF that(1)] False that(2) by (cases "j = index") auto
    show ?thesis
    proof (cases "rs + 1 = n")
      case enough: True
      have "search_loop bm pages n index rb rs = Some rb"
        using lt test False enough by (simp add: search_loop.simps [of bm pages n index])
      moreover have "rb + n = index + 1" using enough Suc.prems(2) by linarith
      then have "free_run bm pages n rb" using free d(2) unfolding free_run_def by auto
      ultimately show ?thesis by blast
    next
      case more: False
      then have "search_loop bm pages n index rb rs = search_loop bm pages n (index + 1) rb (rs + 1)"
        using lt test False by (simp add: search_loop.simps [of bm pages n index])
      moreover have "rb + (rs + 1) = index + 1" and "rs + 1 < n" using Suc.prems(2,3) more by linarith+
      ultimately show ?thesis
        using Suc.hyps(1) [OF d(1) Suc.prems(1) _ _ d(2)] free by presburger
    qed
  qed
qed

lemma search_for_free_ok:
  assumes "rpa_ok a" and "0 < n" and "rpa_last_freed a \<le> page_count a"
  shows "(\<exists>b. search_for_free a n = Some b \<and> b < MAX_USIZE \<and> rpa_last_freed a \<le> b \<and>
      b + n \<le> page_count a \<and> (\<forall>j. b \<le> j \<and> j < b + n \<longrightarrow> \<not> reserved a j)) \<or>
    search_for_free a n = Some MAX_USIZE \<and>
      (\<forall>i\<ge>rpa_last_freed a. i + n \<le> page_count a \<longrightarrow> (\<exists>j. i \<le> j \<and> j < i + n \<and> reserved a j))"
proof -
  have pages: "page_count a \<le> 8 * length (rpa_free_bitmap a)" using assms(1) by (simp add: rpa_ok_def)
  have small: "b < MAX_USIZE" if "b + n \<le> page_count a" for b
    using that page_count_bound(2) [OF assms(1)] by (simp add: MAX_USIZE_def)
  have search: "search_for_free a n = search_loop (rpa_free_bitmap a) (page_count a) n
      (rpa_last_freed a) (rpa_last_freed a) 0"
    by (simp add: search_for_free_def page_count_def)
  from search_loop_ok [OF pages, of "rpa_last_freed a" 0 "rpa_last_freed a" n]
  show ?thesis
    unfolding search using assms(2,3) small by (auto simp: free_run_def reserved_def)
qed

subsection \<open>Allocation and release\<close>

definition allocated_at :: "region_page_allocator \<Rightarrow> region_page_allocator \<Rightarrow> nat \<Rightarrow> nat \<Rightarrow> bool" where
  "allocated_at a a' b n \<longleftrightarrow> rpa_last_freed a \<le> b \<and> b + n \<le> page_count a \<and>
     (\<forall>j. b \<le> j \<and> j < b + n \<longrightarrow> \<not> reserved a j) \<and>
     rpa_frame a a' \<and> rpa_last_freed a' = rpa_last_freed a \<and> extent a' b n \<and>
     reserved a' = (\<lambda>i. b \<le> i \<and> i < b + n \<or> reserved a i)"

lemma page_address:
  assumes "rpa_ok a" and "b < page_count a"
  shows "uadd (rg_start (rpa_region a)) (umul b PAGE_SIZE) = rg_start (rpa_region a) + b * PAGE_SIZE"
    and "page_index (page_base (rg_start (rpa_region a) + b * PAGE_SIZE)) (rg_start (rpa_region a)) = b"
proof -
  have "b * PAGE_SIZE < rg_size (rpa_region a)"
    using assms(2) page_count_bound(1) [OF assms(1)] by (metis PAGE_SIZE_pos(1) mult_less_cancel2)
  then have "rg_start (rpa_region a) + b * PAGE_SIZE < 2 ^ 64"
    using assms(1) by (simp add: rpa_ok_def region_ok_def)
  then show "uadd (rg_start (rpa_region a)) (umul b PAGE_SIZE) = rg_start (rpa_region a) + b * PAGE_SIZE"
    by (simp add: umul_small uadd_small)
  have "rg_start (rpa_region a) mod PAGE_SIZE = 0"
    using assms(1) by (simp add: rpa_ok_def rg_page_aligned_def page_offset_def)
  then show "page_index (page_base (rg_start (rpa_region a) + b * PAGE_SIZE)) (rg_start (rpa_region a)) = b"
    by (simp add: page_base_def page_index_def mod_add_left_eq [symmetric])
qed

lemma allocate_pages_ok:
  assumes "rpa_ok a" and "0 < n" and "rpa_last_freed a \<le> page_count a"
  shows "(\<exists>b a'. allocate_pages a n = Some (Some (rg_start (rpa_region a) + b * PAGE_SIZE), a') \<and>
      allocated_at a a' b n) \<or>
    allocate_pages a n = Some (None, a) \<and>
      (\<forall>i\<ge>rpa_last_freed a. i + n \<le> page_count a \<longrightarrow> (\<exists>j. i \<le> j \<and> j < i + n \<and> reserved a j))"
  using search_for_free_ok [OF assms]
proof
  assume "\<exists>b. search_for_free a n = Some b \<and> b < MAX_USIZE \<and> rpa_last_freed a \<le> b \<and>
      b + n \<le> page_count a \<and> (\<forall>j. b \<le> j \<and> j < b + n \<longrightarrow> \<not> reserved a j)"
  then obtain b where b: "search_for_free a n = Some b" "b < MAX_USIZE" "rpa_last_freed a \<le> b"
      "b + n \<le> page_count a" "\<forall>j. b \<le> j \<and> j < b + n \<longrightarrow> \<not> reserved a j" by blast
  have u: "uadd b n = b + n"
    using b(4) page_count_bound(2) [OF assms(1)] by (simp add: uadd_small)
  obtain a' where a': "mark_as_reserved_index a b (b + n) = Some a'" "rpa_frame a a'"
      "rpa_last_freed a' = rpa_last_freed a" "reserved a' = (\<lambda>i. b \<le> i \<and> i < b + n \<or> reserved a i)"
      "continues a' = (\<lambda>i. if b \<le> i \<and> i < b + n then i + 1 \<noteq> b + n else continues a i)"
    using mark_ok [OF assms(1) b(4), of b] by blast
  have "page_count a' = page_count a" using a'(2) by (simp add: rpa_frame_def page_count_def)
  then have "extent a' b n" using assms(2) b(4) by (auto simp: extent_def a'(5))
  then have "allocated_at a a' b n" using a' b(3-5) by (simp add: allocated_at_def)
  moreover have "allocate_pages a n = Some (Some (rg_start (rpa_region a) + b * PAGE_SIZE), a')"
    using b(1,2,4) a'(1) u page_address(1) [OF assms(1), of b] assms(2) by (simp add: allocate_pages_def)
  ultimately show ?thesis by blast
qed (simp add: allocate_pages_def)

subsection \<open>Properties\<close>

text \<open>
  C3: \<open>allocate_pages\<close> for at least one page succeeds exactly when there is a run of free pages at
  or after the page that was freed last.  On success the address is that of the first page of
  such a run inside the region, all pages of the run were free, and exactly these pages
  become reserved; on failure nothing changes.
\<close>

theorem allocate_pages_correct:
  assumes "rpa_ok a" and "0 < n" and "rpa_last_freed a \<le> page_count a"
  shows "\<exists>res a'. allocate_pages a n = Some (res, a') \<and> rpa_ok a' \<and>
    (case res of
       None \<Rightarrow> a' = a \<and>
         \<not> (\<exists>i\<ge>rpa_last_freed a. i + n \<le> page_count a \<and> (\<forall>j. i \<le> j \<and> j < i + n \<longrightarrow> \<not> reserved a j))
     | Some p \<Rightarrow> (\<exists>b\<ge>rpa_last_freed a. p = rg_start (rpa_region a) + b * PAGE_SIZE \<and>
         b + n \<le> page_count a \<and> (\<forall>j. b \<le> j \<and> j < b + n \<longrightarrow> \<not> reserved a j) \<and>
         reserved a' = (\<lambda>i. b \<le> i \<and> i < b + n \<or> reserved a i)))"
  using allocate_pages_ok [OF assms]
proof
  assume "\<exists>b a'. allocate_pages a n = Some (Some (rg_start (rpa_region a) + b * PAGE_SIZE), a') \<and>
      allocated_at a a' b n"
  then obtain b a' where *: "allocate_pages a n = Some (Some (rg_start (rpa_region a) + b * PAGE_SIZE), a')"
      "allocated_at a a' b n" by blast
  show ?thesis
    by (intro exI [of _ "Some (rg_start (rpa_region a) + b * PAGE_SIZE)"] exI [of _ a'])
      (use * in \<open>auto simp: allocated_at_def rpa_frame_def\<close>)
qed (use assms(1) in auto)

theorem allocate_pages_correct_witness:
  "\<exists>res a'. allocate_pages \<lparr>rpa_region = \<lparr>rg_start = 0x8000, rg_size = 0x8000\<rparr>, rpa_free_bitmap = [0x03],
      rpa_continuation_bitmap = [0x01], rpa_last_freed = 0\<rparr> 2 = Some (res, a') \<and> rpa_ok a'"
proof -
  let ?a = "\<lparr>rpa_region = \<lparr>rg_start = 0x8000, rg_size = 0x8000\<rparr>, rpa_free_bitmap = [0x03],
      rpa_continuation_bitmap = [0x01], rpa_last_freed = 0\<rparr> :: region_page_allocator"
  have "rpa_ok ?a"
    by (simp add: rpa_ok_def region_ok_def rg_page_aligned_def page_offset_def PAGE_SIZE_def page_count_def)
  then show ?thesis using allocate_pages_correct [of ?a 2] by auto
qed

text \<open>
  C13: releasing an allocation undoes it: the address that \<open>allocate_pages\<close> returned is accepted
  by \<open>free_region\<close>, the loop stops at the end of the allocation, and the reserved pages are
  those from before the allocation.
\<close>

theorem page_alloc_free_roundtrip:
  assumes "rpa_ok a" and "0 < n" and "rpa_last_freed a \<le> page_count a"
    and "allocate_pages a n = Some (Some p, a')"
  shows "\<exists>a''. rpa_free_region a' p = Some a'' \<and> rpa_ok a'' \<and> reserved a'' = reserved a"
proof -
  obtain b where p: "p = rg_start (rpa_region a) + b * PAGE_SIZE" and al: "allocated_at a a' b n"
    using allocate_pages_ok [OF assms(1-3)] assms(4) by auto
  have "b < page_count a" using al assms(2) by (simp add: allocated_at_def)
  then have idx: "page_index (page_base p) (rg_start (rpa_region a')) = b"
    using page_address(2) [OF assms(1)] al p by (simp add: allocated_at_def rpa_frame_def)
  let ?a = "a'\<lparr>rpa_last_freed := b\<rparr>"
  have eqs: "reserved ?a = reserved a'" "continues ?a = continues a'" "page_count ?a = page_count a'"
    by (simp_all add: reserved_def continues_def page_count_def)
  have ok: "rpa_ok ?a" "extent ?a b n"
    using al by (auto simp: allocated_at_def rpa_frame_def rpa_ok_def extent_def page_count_def continues_def)
  obtain a'' where a'': "mark_region_as_free_loop ?a b = Some a''" "rpa_frame ?a a''"
      "reserved a'' = (\<lambda>i. \<not> (b \<le> i \<and> i < b + n) \<and> reserved ?a i)"
    using free_loop_ok [OF ok] by blast
  have "reserved a'' = reserved a"
    using al unfolding a''(3) eqs by (auto simp: allocated_at_def fun_eq_iff)
  moreover have "rpa_free_region a' p = Some a''"
    using a''(1) idx by (simp add: rpa_free_region_def mark_region_as_free_def)
  ultimately show ?thesis using a''(2) by (simp add: rpa_frame_def)
qed

theorem page_alloc_free_roundtrip_witness:
  "\<exists>a''. rpa_free_region \<lparr>rpa_region = \<lparr>rg_start = 0x8000, rg_size = 0x8000\<rparr>, rpa_free_bitmap = [0x0F],
      rpa_continuation_bitmap = [0x05], rpa_last_freed = 0\<rparr> 0xA000 = Some a'' \<and> rpa_ok a''"
proof -
  let ?a = "\<lparr>rpa_region = \<lparr>rg_start = 0x8000, rg_size = 0x8000\<rparr>, rpa_free_bitmap = [0x03],
      rpa_continuation_bitmap = [0x01], rpa_last_freed = 0\<rparr> :: region_page_allocator"
  have "rpa_ok ?a" and "rpa_last_freed ?a \<le> page_count ?a"
    by (simp_all add: rpa_ok_def region_ok_def rg_page_aligned_def page_offset_def PAGE_SIZE_def page_count_def)
  moreover have "allocate_pages ?a 2 = Some (Some 0xA000, \<lparr>rpa_region = \<lparr>rg_start = 0x8000, rg_size = 0x8000\<rparr>,
      rpa_free_bitmap = [0x0F], rpa_continuation_bitmap = [0x05], rpa_last_freed = 0\<rparr>)"
    by (simp add: allocate_pages_def search_for_free_def search_loop.simps mark_as_reserved_index.simps
        bm_test_def bm_set_def mem_byte_def PAGE_SIZE_def MAX_USIZE_def uadd_def umul_def)
  ultimately show ?thesis using page_alloc_free_roundtrip [of ?a 2] by fastforce
qed

end
