(* ===== verification/Intrusive_List.thy ===== *)
theory Intrusive_List
  imports Bek_Prelude
begin

text \<open>
  \<open>kernel/include/library/intrusive_list.h\<close>: doubly linked lists whose nodes live inside the
  listed objects.  The nodes and the list heads are an explicit store, addressed by numbers, so
  that the aliasing between neighbours is visible.  \<open>il_list\<close> abstracts a head to the list of
  the addresses of its objects, and every operation is shown to do to that list what its name
  says, leaving all nodes of other lists alone.
\<close>

type_synonym addr = nat

record il_node =
  n_list_head :: "addr option"
  n_next :: "addr option"
  n_prev :: "addr option"

record il_head =
  h_first :: "addr option"
  h_last :: "addr option"

record il_store =
  il_nodes :: "addr \<Rightarrow> il_node"
  il_heads :: "addr \<Rightarrow> il_head"

definition upd_node :: "addr \<Rightarrow> (il_node \<Rightarrow> il_node) \<Rightarrow> il_store \<Rightarrow> il_store" where
  "upd_node a f st = st\<lparr>il_nodes := (il_nodes st)(a := f (il_nodes st a))\<rparr>"

definition upd_head :: "addr \<Rightarrow> (il_head \<Rightarrow> il_head) \<Rightarrow> il_store \<Rightarrow> il_store" where
  "upd_head a f st = st\<lparr>il_heads := (il_heads st)(a := f (il_heads st a))\<rparr>"

text \<open>\<open>if (p) p->field = v\<close>\<close>

definition upd_opt :: "addr option \<Rightarrow> (il_node \<Rightarrow> il_node) \<Rightarrow> il_store \<Rightarrow> il_store" where
  "upd_opt p f st = (case p of None \<Rightarrow> st | Some a \<Rightarrow> upd_node a f st)"

text \<open>\<open>IntrusiveListNode::remove\<close>, assignment by assignment.\<close>

definition node_remove :: "addr \<Rightarrow> il_store \<Rightarrow> il_store" where
  "node_remove this st =
     (case n_list_head (il_nodes st this) of
        None \<Rightarrow> st
      | Some h \<Rightarrow>
         (let m_next = n_next (il_nodes st this);
              m_prev = n_prev (il_nodes st this);
              st1 = (if h_first (il_heads st h) = Some this
                     then upd_head h (\<lambda>hd. hd\<lparr>h_first := m_next\<rparr>) st else st);
              st2 = (if h_last (il_heads st1 h) = Some this
                     then upd_head h (\<lambda>hd. hd\<lparr>h_last := m_prev\<rparr>) st1 else st1);
              st3 = upd_opt m_next (\<lambda>n. n\<lparr>n_prev := m_prev\<rparr>) st2;
              st4 = upd_opt m_prev (\<lambda>n. n\<lparr>n_next := m_next\<rparr>) st3
          in upd_node this (\<lambda>n. \<lparr>n_list_head = None, n_next = None, n_prev = None\<rparr>) st4))"

definition il_empty :: "addr \<Rightarrow> il_store \<Rightarrow> bool" where
  "il_empty h st \<longleftrightarrow> h_first (il_heads st h) = None"

definition il_append :: "addr \<Rightarrow> addr \<Rightarrow> il_store \<Rightarrow> il_store option" where
  "il_append h item st = do {
     verify (n_list_head (il_nodes st item) = None);
     (let last = h_last (il_heads st h);
          st1 = upd_node item (\<lambda>n. \<lparr>n_list_head = Some h, n_next = None, n_prev = last\<rparr>) st;
          st2 = upd_opt last (\<lambda>n. n\<lparr>n_next := Some item\<rparr>) st1;
          st3 = upd_head h (\<lambda>hd. hd\<lparr>h_last := Some item\<rparr>) st2
      in Some (if h_first (il_heads st3 h) = None
               then upd_head h (\<lambda>hd. hd\<lparr>h_first := Some item\<rparr>) st3 else st3)) }"

definition il_remove :: "addr \<Rightarrow> addr \<Rightarrow> il_store \<Rightarrow> il_store option" where
  "il_remove h item st = do {
     verify (n_list_head (il_nodes st item) = Some h);
     Some (node_remove item st) }"

definition il_insert_before :: "addr \<Rightarrow> addr \<Rightarrow> addr \<Rightarrow> il_store \<Rightarrow> il_store option" where
  "il_insert_before h before insertee st = do {
     verify (n_list_head (il_nodes st insertee) = None);
     verify (n_list_head (il_nodes st before) = Some h);
     (let prev = n_prev (il_nodes st before);
          st1 = upd_node insertee (\<lambda>n. \<lparr>n_list_head = Some h, n_next = Some before, n_prev = prev\<rparr>) st;
          st2 = upd_opt prev (\<lambda>n. n\<lparr>n_next := Some insertee\<rparr>) st1;
          st3 = upd_node before (\<lambda>n. n\<lparr>n_prev := Some insertee\<rparr>) st2
      in Some (if h_first (il_heads st3 h) = Some before
               then upd_head h (\<lambda>hd. hd\<lparr>h_first := Some insertee\<rparr>) st3 else st3)) }"

definition il_pop_front :: "addr \<Rightarrow> il_store \<Rightarrow> (addr \<times> il_store) option" where
  "il_pop_front h st =
     (case h_first (il_heads st h) of None \<Rightarrow> None | Some a \<Rightarrow> Some (a, node_remove a st))"

subsection \<open>Abstraction to lists\<close>

definition first_or :: "addr option \<Rightarrow> addr list \<Rightarrow> addr option" where
  "first_or q xs = (case xs of [] \<Rightarrow> q | x # _ \<Rightarrow> Some x)"

definition last_or :: "addr option \<Rightarrow> addr list \<Rightarrow> addr option" where
  "last_or p xs = (if xs = [] then p else Some (last xs))"

lemma first_or_simps [simp]: "first_or q [] = q" "first_or q (x # xs) = Some x"
  "first_or q (xs @ ys) = first_or (first_or q ys) xs"
  by (simp_all add: first_or_def split: list.split)

lemma last_or_simps [simp]: "last_or p [] = p" "last_or p (xs @ [x]) = Some x"
  "last_or p (xs @ ys) = last_or (last_or p xs) ys" "last_or p (x # xs) = last_or (Some x) xs"
  by (simp_all add: last_or_def)

text \<open>A chain of nodes between the neighbours \<open>p\<close> and \<open>q\<close>.\<close>

fun lseg :: "(addr \<Rightarrow> il_node) \<Rightarrow> addr \<Rightarrow> addr option \<Rightarrow> addr list \<Rightarrow> addr option \<Rightarrow> bool" where
  "lseg ns h p [] q = True"
| "lseg ns h p (x # xs) q =
     (ns x = \<lparr>n_list_head = Some h, n_next = first_or q xs, n_prev = p\<rparr> \<and> lseg ns h (Some x) xs q)"

definition il_list :: "il_store \<Rightarrow> addr \<Rightarrow> addr list \<Rightarrow> bool" where
  "il_list st h xs \<longleftrightarrow> distinct xs \<and> h_first (il_heads st h) = first_or None xs \<and>
     h_last (il_heads st h) = last_or None xs \<and> lseg (il_nodes st) h None xs None"

lemma lseg_append: "lseg ns h p (xs @ ys) q \<longleftrightarrow> lseg ns h p xs (first_or q ys) \<and> lseg ns h (last_or p xs) ys q"
  by (induction xs arbitrary: p) auto

lemma lseg_cong: "(\<And>x. x \<in> set xs \<Longrightarrow> ns x = ns' x) \<Longrightarrow> lseg ns h p xs q = lseg ns' h p xs q"
  by (induction xs arbitrary: p) auto

lemma lseg_frame: "a \<notin> set xs \<Longrightarrow> lseg (ns(a := n)) h p xs q = lseg ns h p xs q"
  by (rule lseg_cong) auto

lemma lseg_head: "lseg ns h p xs q \<Longrightarrow> x \<in> set xs \<Longrightarrow> n_list_head (ns x) = Some h"
  by (induction xs arbitrary: p) auto

definition map_opt_node :: "addr option \<Rightarrow> (il_node \<Rightarrow> il_node) \<Rightarrow> (addr \<Rightarrow> il_node) \<Rightarrow> addr \<Rightarrow> il_node" where
  "map_opt_node p f ns = (case p of None \<Rightarrow> ns | Some a \<Rightarrow> ns(a := f (ns a)))"

lemma upd_sel [simp]:
  "il_nodes (upd_node a f st) = (il_nodes st)(a := f (il_nodes st a))" "il_heads (upd_node a f st) = il_heads st"
  "il_nodes (upd_head a g st) = il_nodes st" "il_heads (upd_head a g st) = (il_heads st)(a := g (il_heads st a))"
  "il_nodes (upd_opt p f st) = map_opt_node p f (il_nodes st)" "il_heads (upd_opt p f st) = il_heads st"
  by (simp_all add: upd_node_def upd_head_def upd_opt_def map_opt_node_def split: option.split)

lemma map_opt_node_other: "p \<noteq> Some a \<Longrightarrow> map_opt_node p f ns a = ns a"
  by (cases p) (auto simp: map_opt_node_def)

text \<open>Redirecting the last \<open>next\<close> and the first \<open>prev\<close> of a chain.\<close>

lemma lseg_set_next:
  assumes "lseg ns h p xs q" and "distinct xs"
  shows "lseg (map_opt_node (last_or None xs) (\<lambda>n. n\<lparr>n_next := q'\<rparr>) ns) h p xs q'"
  using assms
proof (cases xs rule: rev_cases)
  case (snoc ys y)
  then show ?thesis
    using assms by (auto simp: lseg_append map_opt_node_def lseg_frame)
qed simp

lemma lseg_set_prev:
  assumes "lseg ns h p xs q" and "distinct xs"
  shows "lseg (map_opt_node (first_or None xs) (\<lambda>n. n\<lparr>n_prev := p'\<rparr>) ns) h p' xs q"
  using assms by (cases xs) (auto simp: map_opt_node_def lseg_frame)

lemma lseg_opt_frame:
  "(\<And>a. p' = Some a \<Longrightarrow> a \<notin> set xs) \<Longrightarrow> lseg (map_opt_node p' f ns) h p xs q = lseg ns h p xs q"
  by (rule lseg_cong) (auto simp: map_opt_node_def split: option.split)

lemma last_or_in: "last_or None xs = Some a \<Longrightarrow> a \<in> set xs"
  by (auto simp: last_or_def split: if_splits)

lemma first_or_in: "first_or None xs = Some a \<Longrightarrow> a \<in> set xs"
  by (cases xs) auto

subsection \<open>Operations\<close>

lemma il_list_node: "il_list st h xs \<Longrightarrow> x \<in> set xs \<Longrightarrow> n_list_head (il_nodes st x) = Some h"
  unfolding il_list_def using lseg_head by blast

text \<open>An operation on the list \<open>xs\<close> of \<open>h\<close> and the node \<open>x\<close> leaves every other list alone.\<close>

definition il_frame :: "addr \<Rightarrow> addr set \<Rightarrow> il_store \<Rightarrow> il_store \<Rightarrow> bool" where
  "il_frame h S st st' \<longleftrightarrow> (\<forall>a. a \<notin> S \<longrightarrow> il_nodes st' a = il_nodes st a) \<and>
     (\<forall>h'. h' \<noteq> h \<longrightarrow> il_heads st' h' = il_heads st h')"

lemma il_frame_other:
  assumes "il_frame h S st st'" and "il_list st h' ys" and "h' \<noteq> h"
    and "\<And>a. a \<in> S \<Longrightarrow> n_list_head (il_nodes st a) \<noteq> Some h'"
  shows "il_list st' h' ys"
proof -
  have "il_nodes st y = il_nodes st' y" if "y \<in> set ys" for y
    using that assms(1,4) il_list_node [OF assms(2)] by (metis il_frame_def)
  then have "lseg (il_nodes st) h' None ys None = lseg (il_nodes st') h' None ys None" by (rule lseg_cong)
  then show ?thesis using assms(1-3) by (auto simp: il_list_def il_frame_def)
qed

lemma append_ok:
  assumes l: "il_list st h xs" and new: "n_list_head (il_nodes st x) = None"
  shows "\<exists>st'. il_append h x st = Some st' \<and> il_list st' h (xs @ [x]) \<and> il_frame h (insert x (set xs)) st st'"
proof -
  have x: "x \<notin> set xs" using il_list_node [OF l] new by force
  let ?last = "last_or None xs"
  define st1 where "st1 = upd_node x (\<lambda>n. \<lparr>n_list_head = Some h, n_next = None, n_prev = ?last\<rparr>) st"
  define st2 where "st2 = upd_opt ?last (\<lambda>n. n\<lparr>n_next := Some x\<rparr>) st1"
  define st3 where "st3 = upd_head h (\<lambda>hd. hd\<lparr>h_last := Some x\<rparr>) st2"
  define st4 where "st4 = (if h_first (il_heads st3 h) = None
    then upd_head h (\<lambda>hd. hd\<lparr>h_first := Some x\<rparr>) st3 else st3)"
  have res: "il_append h x st = Some st4"
    using l new by (simp add: il_append_def il_list_def st1_def st2_def st3_def st4_def Let_def)
  have nodes: "il_nodes st4 = map_opt_node ?last (\<lambda>n. n\<lparr>n_next := Some x\<rparr>)
      ((il_nodes st)(x := \<lparr>n_list_head = Some h, n_next = None, n_prev = ?last\<rparr>))"
    by (simp add: st4_def st3_def st2_def st1_def)
  have seg: "lseg (il_nodes st4) h None xs (Some x)"
    unfolding nodes using l x by (intro lseg_set_next [where q = None]) (auto simp: il_list_def lseg_frame)
  have "?last \<noteq> Some x" using x last_or_in by auto
  then have node_x: "il_nodes st4 x = \<lparr>n_list_head = Some h, n_next = None, n_prev = ?last\<rparr>"
    unfolding nodes by (simp add: map_opt_node_other)
  have heads: "il_heads st4 = (il_heads st)(h := \<lparr>h_first = first_or (Some x) xs, h_last = Some x\<rparr>)"
    using l by (cases xs) (auto simp: st4_def st3_def st2_def st1_def il_list_def fun_eq_iff)
  have "il_list st4 h (xs @ [x])"
    using l x seg node_x heads by (auto simp: il_list_def lseg_append)
  moreover have "il_frame h (insert x (set xs)) st st4"
    unfolding il_frame_def nodes heads using last_or_in [of xs]
    by (auto simp: map_opt_node_def split: option.splits)
  ultimately show ?thesis using res by blast
qed

lemma remove_ok:
  assumes l: "il_list st h (ys @ x # zs)"
  shows "\<exists>st'. il_remove h x st = Some st' \<and> il_list st' h (ys @ zs) \<and>
    n_list_head (il_nodes st' x) = None \<and> il_frame h (set (ys @ x # zs)) st st'"
proof -
  let ?p = "last_or None ys" and ?q = "first_or None zs"
  have d: "distinct (ys @ x # zs)" and segs: "lseg (il_nodes st) h None ys (Some x)"
      "il_nodes st x = \<lparr>n_list_head = Some h, n_next = ?q, n_prev = ?p\<rparr>" "lseg (il_nodes st) h (Some x) zs None"
    using l by (auto simp: il_list_def lseg_append)
  define ns where "ns = (map_opt_node ?p (\<lambda>n. n\<lparr>n_next := ?q\<rparr>) (map_opt_node ?q (\<lambda>n. n\<lparr>n_prev := ?p\<rparr>) (il_nodes st)))
      (x := \<lparr>n_list_head = None, n_next = None, n_prev = None\<rparr>)"
  define st' where "st' = node_remove x st"
  have nodes: "il_nodes st' = ns"
    by (simp add: st'_def node_remove_def segs(2) Let_def ns_def)
  have heads: "il_heads st' = (il_heads st)(h := \<lparr>h_first = first_or None (ys @ zs), h_last = last_or None (ys @ zs)\<rparr>)"
  proof -
    have hh: "il_heads st h = \<lparr>h_first = first_or (Some x) ys, h_last = last_or (Some x) zs\<rparr>"
      using l by (simp add: il_list_def)
    have f: "first_or (Some x) ys = Some x \<longleftrightarrow> ys = []" using d by (cases ys) auto
    have e: "last_or (Some x) zs = Some x \<longleftrightarrow> zs = []" using d by (auto simp: last_or_def)
    have "first_or ?q ys = (if ys = [] then ?q else first_or (Some x) ys)"
      and "last_or ?p zs = (if zs = [] then ?p else last_or (Some x) zs)"
      by (auto simp: first_or_def last_or_def split: list.split)
    then show ?thesis
      unfolding st'_def node_remove_def segs(2) by (auto simp: Let_def hh f e fun_eq_iff)
  qed
  have q_ys: "?q = Some a \<Longrightarrow> a \<notin> set ys" and p_zs: "?p = Some a \<Longrightarrow> a \<notin> set zs" for a
    using d first_or_in [of zs a] last_or_in [of ys a] by auto
  have "lseg ns h None ys ?q"
    unfolding ns_def using d segs(1) q_ys
    by (subst lseg_frame) (auto intro!: lseg_set_next [where q = "Some x"] simp: lseg_opt_frame)
  moreover have "lseg ns h ?p zs None"
    unfolding ns_def using d segs(3) p_zs
    by (subst lseg_frame) (auto simp: lseg_opt_frame intro!: lseg_set_prev [where p = "Some x"])
  ultimately have "il_list st' h (ys @ zs)"
    using d heads nodes by (auto simp: il_list_def lseg_append)
  moreover have "il_frame h (set (ys @ x # zs)) st st'"
    unfolding il_frame_def nodes heads ns_def using first_or_in [of zs] last_or_in [of ys]
    by (auto simp: map_opt_node_def split: option.splits)
  moreover have "il_remove h x st = Some st'" by (simp add: il_remove_def segs(2) st'_def)
  ultimately show ?thesis using nodes by (auto simp: ns_def)
qed

lemma insert_before_ok:
  assumes l: "il_list st h (ys @ b # zs)" and new: "n_list_head (il_nodes st x) = None"
  shows "\<exists>st'. il_insert_before h b x st = Some st' \<and> il_list st' h (ys @ x # b # zs) \<and>
    il_frame h (insert x (set (ys @ b # zs))) st st'"
proof -
  let ?p = "last_or None ys"
  have x: "x \<notin> set (ys @ b # zs)" using il_list_node [OF l] new by force
  have d: "distinct (ys @ b # zs)" and segs: "lseg (il_nodes st) h None ys (Some b)"
      "il_nodes st b = \<lparr>n_list_head = Some h, n_next = first_or None zs, n_prev = ?p\<rparr>"
      "lseg (il_nodes st) h (Some b) zs None"
    using l by (auto simp: il_list_def lseg_append)
  define ns where "ns = (map_opt_node ?p (\<lambda>n. n\<lparr>n_next := Some x\<rparr>)
      ((il_nodes st)(x := \<lparr>n_list_head = Some h, n_next = Some b, n_prev = ?p\<rparr>)))
      (b := \<lparr>n_list_head = Some h, n_next = first_or None zs, n_prev = Some x\<rparr>)"
  define st1 where "st1 = upd_node x (\<lambda>n. \<lparr>n_list_head = Some h, n_next = Some b, n_prev = ?p\<rparr>) st"
  define st2 where "st2 = upd_opt ?p (\<lambda>n. n\<lparr>n_next := Some x\<rparr>) st1"
  define st3 where "st3 = upd_node b (\<lambda>n. n\<lparr>n_prev := Some x\<rparr>) st2"
  define st4 where "st4 = (if h_first (il_heads st3 h) = Some b
    then upd_head h (\<lambda>hd. hd\<lparr>h_first := Some x\<rparr>) st3 else st3)"
  have res: "il_insert_before h b x st = Some st4"
    using new segs(2) by (simp add: il_insert_before_def st1_def st2_def st3_def st4_def Let_def)
  have p: "?p \<noteq> Some x" "?p \<noteq> Some b" using x d last_or_in [of ys] by auto
  have nodes: "il_nodes st4 = ns"
    using p(2) x segs(2) by (auto simp: st4_def st3_def st2_def st1_def ns_def map_opt_node_other)
  have "first_or (Some b) ys = Some b \<longleftrightarrow> ys = []" using d by (cases ys) auto
  then have heads: "il_heads st4 = (il_heads st)(h := \<lparr>h_first = first_or (Some x) ys, h_last = last_or (Some b) zs\<rparr>)"
    using l by (cases ys) (auto simp: st4_def st3_def st2_def st1_def il_list_def fun_eq_iff)
  have "lseg ns h None ys (Some x)"
    unfolding ns_def using d x segs(1)
    by (subst lseg_frame) (auto intro!: lseg_set_next [where q = "Some b"] simp: lseg_frame)
  moreover have "ns x = \<lparr>n_list_head = Some h, n_next = Some b, n_prev = ?p\<rparr>"
    unfolding ns_def using x p(1) by (simp add: map_opt_node_other)
  moreover have "lseg ns h (Some b) zs None"
  proof -
    have "?p = Some a \<Longrightarrow> a \<notin> set zs" for a using d last_or_in [of ys a] by auto
    then show ?thesis unfolding ns_def using d x segs(3) by (auto simp: lseg_frame lseg_opt_frame)
  qed
  ultimately have "il_list st4 h (ys @ x # b # zs)"
    using d x heads nodes by (auto simp: il_list_def lseg_append ns_def)
  moreover have "il_frame h (insert x (set (ys @ b # zs))) st st4"
    unfolding il_frame_def nodes heads ns_def using last_or_in [of ys]
    by (auto simp: map_opt_node_def split: option.splits)
  ultimately show ?thesis using res by blast
qed

lemma pop_front_ok:
  assumes "il_list st h (x # xs)"
  shows "\<exists>st'. il_pop_front h st = Some (x, st') \<and> il_list st' h xs \<and> n_list_head (il_nodes st' x) = None \<and>
    il_frame h (set (x # xs)) st st'"
proof -
  have "h_first (il_heads st h) = Some x" using assms by (simp add: il_list_def)
  moreover obtain st' where "il_remove h x st = Some st'" "il_list st' h xs" "n_list_head (il_nodes st' x) = None"
    "il_frame h (set (x # xs)) st st'"
    using remove_ok [of st h "[]" x xs] assms by auto
  ultimately show ?thesis by (auto simp: il_remove_def il_pop_front_def)
qed

lemma il_empty_iff: "il_list st h xs \<Longrightarrow> il_empty h st \<longleftrightarrow> xs = []"
  by (cases xs) (simp_all add: il_list_def il_empty_def)

text \<open>
  C20: the pointer operations of the intrusive list refine those of a list, empty or not.  On a head
  whose objects are \<open>xs\<close>, a node that is in no list is appended at the end; any element \<open>b\<close> of \<open>xs\<close>
  can be removed, which detaches it, and the node can be inserted before it; the first element is taken
  from the front unless there is none, which is when the list calls itself empty.  No assertion fails,
  and every list with another head is the same as before.
\<close>

theorem intrusive_list_refines:
  assumes "il_list st h xs" and "n_list_head (il_nodes st x) = None"
    and "il_list st h' other" and "h' \<noteq> h"
  shows "(il_empty h st \<longleftrightarrow> xs = []) \<and>
    (\<exists>s. il_append h x st = Some s \<and> il_list s h (xs @ [x]) \<and> il_list s h' other) \<and>
    (\<forall>ys b zs. xs = ys @ b # zs \<longrightarrow>
       (\<exists>s. il_remove h b st = Some s \<and> il_list s h (ys @ zs) \<and> n_list_head (il_nodes s b) = None \<and> il_list s h' other) \<and>
       (\<exists>s. il_insert_before h b x st = Some s \<and> il_list s h (ys @ x # b # zs) \<and> il_list s h' other)) \<and>
    (case xs of [] \<Rightarrow> il_pop_front h st = None
     | a # as \<Rightarrow> \<exists>s. il_pop_front h st = Some (a, s) \<and> il_list s h as \<and> n_list_head (il_nodes s a) = None \<and> il_list s h' other)"
proof (intro conjI allI impI)
  have own: "n_list_head (il_nodes st a) \<noteq> Some h'" if "a \<in> insert x (set xs)" for a
    using that il_list_node [OF assms(1)] assms(2,4) by auto
  have other: "il_list s h' other" if "il_frame h S st s" "S \<subseteq> insert x (set xs)" for s S
    using that own by (intro il_frame_other [OF that(1) assms(3,4)]) auto
  show "il_empty h st \<longleftrightarrow> xs = []" by (rule il_empty_iff [OF assms(1)])
  show "\<exists>s. il_append h x st = Some s \<and> il_list s h (xs @ [x]) \<and> il_list s h' other"
    using append_ok [OF assms(1,2)] other by blast
  show "\<exists>s. il_remove h b st = Some s \<and> il_list s h (ys @ zs) \<and> n_list_head (il_nodes s b) = None \<and> il_list s h' other"
    if "xs = ys @ b # zs" for ys b zs
    using remove_ok [of st h ys b zs] assms(1) other that by blast
  show "\<exists>s. il_insert_before h b x st = Some s \<and> il_list s h (ys @ x # b # zs) \<and> il_list s h' other"
    if "xs = ys @ b # zs" for ys b zs
    using insert_before_ok [of st h ys b zs x] assms(1,2) other that by blast
  show "case xs of [] \<Rightarrow> il_pop_front h st = None
     | a # as \<Rightarrow> \<exists>s. il_pop_front h st = Some (a, s) \<and> il_list s h as \<and> n_list_head (il_nodes s a) = None \<and> il_list s h' other"
  proof (cases xs)
    case Nil
    then show ?thesis using assms(1) by (simp add: il_list_def il_pop_front_def)
  next
    case (Cons a as)
    then obtain s where "il_pop_front h st = Some (a, s)" "il_list s h as" "n_list_head (il_nodes s a) = None"
      "il_frame h (set xs) st s"
      using pop_front_ok [of st h a as] assms(1) by auto
    then show ?thesis using Cons other by (simp add: subset_insertI)
  qed
qed

text \<open>A list of one node, taken from the front, and appending to the list that is then empty.\<close>

definition demo_list :: il_store where
  "demo_list = \<lparr>il_nodes = (\<lambda>_. \<lparr>n_list_head = None, n_next = None, n_prev = None\<rparr>)
        (1 := \<lparr>n_list_head = Some 0, n_next = None, n_prev = None\<rparr>),
      il_heads = (\<lambda>_. \<lparr>h_first = None, h_last = None\<rparr>)(0 := \<lparr>h_first = Some 1, h_last = Some 1\<rparr>)\<rparr>"

theorem intrusive_list_refines_witness:
  "\<exists>s s'. il_pop_front 0 demo_list = Some (1, s) \<and> il_list s 0 [] \<and>
     il_append 5 2 demo_list = Some s' \<and> il_list s' 5 [2] \<and> il_list s' 0 [1]"
proof -
  have "il_list demo_list 0 [1]" "il_list demo_list 5 []" "n_list_head (il_nodes demo_list 2) = None"
    by (simp_all add: il_list_def demo_list_def)
  then show ?thesis
    using intrusive_list_refines [of demo_list 0 "[1]" 2 5 "[]"] intrusive_list_refines [of demo_list 5 "[]" 2 0 "[1]"]
    by auto
qed

end
