(* ===== verification/Kmalloc.thy ===== *)
theory Kmalloc
  imports Page_Allocator Intrusive_List
begin

text \<open>
  \<open>kernel/src/mm/kmalloc.cpp\<close>: the kernel heap.  Small objects come from slabs, larger ones from
  a bitmap of 128-byte chunks, and from 64 KiB on whole pages are used.

  Addresses are numbers and the null pointer is 0.  The links of the free lists inside a slab
  live in the free objects themselves; the memory that holds them is the function \<open>ka_links\<close>
  from the address of an object to the pointer stored there.  The slab headers are a map from
  the address of the block.  The intrusive lists of blocks are lists of addresses, as
  \<open>Intrusive_List\<close> justifies.
\<close>

subsection \<open>Bitmap allocator\<close>

definition chunk_size :: uSize where
  "chunk_size = 128"

record bitmap_allocator =
  ba_data :: uSize
  ba_chunk_count :: uSize
  ba_allocated_chunks :: uSize
  ba_bitmap :: bitset_view

definition calculate_chunk_count :: "uSize \<Rightarrow> uSize" where
  "calculate_chunk_count sz = umul sz 8 div uadd (umul chunk_size 8) 1"

text \<open>The constructor, on the bytes that follow the chunks.\<close>

definition bitmap_allocator_new :: "uSize \<Rightarrow> uSize \<Rightarrow> u8 list \<Rightarrow> bitmap_allocator option" where
  "bitmap_allocator_new data sz bytes =
     (let count = calculate_chunk_count sz
      in do {
        verify (uadd (umul count chunk_size) (ceil_div count 8) \<le> sz);
        Some \<lparr>ba_data = data, ba_chunk_count = count, ba_allocated_chunks = 0,
              ba_bitmap = \<lparr>bv_data = bytes, bv_length = count\<rparr>\<rparr> })"

definition ba_allocate :: "bitmap_allocator \<Rightarrow> uSize \<Rightarrow> uSize \<Rightarrow> (uSize \<times> bitmap_allocator) option" where
  "ba_allocate ba sz alignment =
     (let chunks_needed = ceil_div sz chunk_size;
          chunk_alignment = ceil_div alignment chunk_size
      in do {
        verify (alignment \<noteq> 0 \<and> umul chunk_alignment chunk_size mod alignment = 0);
        verify (ba_data ba mod chunk_size = 0);
        (let align_offset = (ba_data ba div chunk_size) mod chunk_alignment
         in do {
           result \<leftarrow> bv_find_first_fit (ba_bitmap ba) chunks_needed False 0 chunk_alignment align_offset MAX_USIZE;
           (if fit_is_invalid result then Some (0, ba)
            else do {
              bm \<leftarrow> bv_set_range (ba_bitmap ba) (fit_index result) chunks_needed True;
              Some (uadd (ba_data ba) (umul (fit_index result) chunk_size),
                    ba\<lparr>ba_bitmap := bm,
                       ba_allocated_chunks := uadd (ba_allocated_chunks ba) chunks_needed\<rparr>) }) }) })"

definition ba_free :: "bitmap_allocator \<Rightarrow> uSize \<Rightarrow> uSize \<Rightarrow> bitmap_allocator option" where
  "ba_free ba ptr sz = do {
     verify (ba_data ba \<le> ptr \<and> ptr < uadd (ba_data ba) (umul chunk_size (ba_chunk_count ba)));
     (let chunk_index = (ptr - ba_data ba) div chunk_size;
          chunks_to_free = ceil_div sz chunk_size
      in do {
        bm \<leftarrow> bv_set_range (ba_bitmap ba) chunk_index chunks_to_free False;
        Some (ba\<lparr>ba_bitmap := bm, ba_allocated_chunks := usub (ba_allocated_chunks ba) chunks_to_free\<rparr>) }) }"

definition ba_total_bytes :: "bitmap_allocator \<Rightarrow> uSize" where
  "ba_total_bytes ba = umul (ba_chunk_count ba) chunk_size"

definition ba_free_bytes :: "bitmap_allocator \<Rightarrow> uSize" where
  "ba_free_bytes ba = umul (usub (ba_chunk_count ba) (ba_allocated_chunks ba)) chunk_size"

subsection \<open>Slabs\<close>

text \<open>\<open>sizeof(SlabBlock)\<close>: two words, a list node of three words and two 32-bit counters.\<close>

definition sizeof_SlabBlock :: uSize where
  "sizeof_SlabBlock = 48"

record slab_block =
  sb_object_size :: uSize
  sb_freelist_head :: uSize
  sb_allocated_objects :: int
  sb_total_objects :: int

type_synonym links = "uSize \<Rightarrow> uSize"

definition sb_data_begin :: "uSize \<Rightarrow> slab_block \<Rightarrow> uSize" where
  "sb_data_begin base sb = base + ceil_div sizeof_SlabBlock (sb_object_size sb) * sb_object_size sb"

definition sb_data_end :: "uSize \<Rightarrow> slab_block \<Rightarrow> uSize" where
  "sb_data_end base sb = sb_data_begin base sb + nat (sb_total_objects sb) * sb_object_size sb"

text \<open>The loop of the constructor threads the objects onto the free list, first object first.\<close>

fun thread_freelist :: "uSize \<Rightarrow> uSize \<Rightarrow> nat \<Rightarrow> nat \<Rightarrow> links \<times> uSize \<Rightarrow> links \<times> uSize" where
  "thread_freelist array obj_size i 0 (ls, head) = (ls, head)"
| "thread_freelist array obj_size i (Suc n) (ls, head) =
     thread_freelist array obj_size (i + 1) n (ls(array + i * obj_size := head), array + i * obj_size)"

definition slab_block_new :: "uSize \<Rightarrow> uSize \<Rightarrow> uSize \<Rightarrow> links \<Rightarrow> slab_block \<times> links" where
  "slab_block_new base obj_size block_size ls =
     (let total = (block_size - sizeof_SlabBlock) div obj_size;
          sb = \<lparr>sb_object_size = obj_size, sb_freelist_head = 0, sb_allocated_objects = 0,
                sb_total_objects = int total\<rparr>;
          (ls', head) = thread_freelist (sb_data_begin base sb) obj_size 0 total (ls, 0)
      in (sb\<lparr>sb_freelist_head := head\<rparr>, ls'))"

definition sb_allocate :: "slab_block \<Rightarrow> links \<Rightarrow> uSize \<times> slab_block" where
  "sb_allocate sb ls =
     (if sb_freelist_head sb = 0 then (0, sb)
      else (sb_freelist_head sb,
            sb\<lparr>sb_allocated_objects := sb_allocated_objects sb + 1,
               sb_freelist_head := ls (sb_freelist_head sb)\<rparr>))"

definition sb_deallocate :: "uSize \<Rightarrow> slab_block \<Rightarrow> links \<Rightarrow> uSize \<Rightarrow> (slab_block \<times> links) option" where
  "sb_deallocate base sb ls ptr = do {
     verify (ptr \<ge> sb_data_begin base sb \<and> ptr < sb_data_end base sb);
     verify (ptr mod sb_object_size sb = 0);
     Some (sb\<lparr>sb_allocated_objects := sb_allocated_objects sb - 1, sb_freelist_head := ptr\<rparr>,
           ls(ptr := sb_freelist_head sb)) }"

record slab_allocator =
  sa_free_blocks :: "uSize list"
  sa_full_blocks :: "uSize list"
  sa_obj_size :: uSize
  sa_blk_size :: uSize

definition default_block_size :: "uSize \<Rightarrow> uSize" where
  "default_block_size obj_size = (if obj_size \<le> 256 then 4096 else (obj_size div 256) * 4096)"

definition slab_allocator_new :: "uSize \<Rightarrow> slab_allocator option" where
  "slab_allocator_new object_size = do {
     verify (object_size \<ge> 32);
     Some \<lparr>sa_free_blocks = [], sa_full_blocks = [], sa_obj_size = object_size,
           sa_blk_size = default_block_size object_size\<rparr> }"

subsection \<open>The kernel allocator\<close>

record kernel_allocator =
  ka_bitmap_allocator :: bitmap_allocator
  ka_slab_allocators :: "slab_allocator list"
  ka_pages :: page_allocator
  ka_blocks :: "uSize \<Rightarrow> slab_block option"
  ka_links :: links

text \<open>
  \<open>SlabAllocator::allocate\<close>.  Its call \<open>mem::allocate(m_blk_size, m_blk_size)\<close> asks for 4096 to
  16384 bytes: more than any slab holds and less than 64 KiB, so the bitmap allocator serves it.
  After a failure the code goes on and constructs a block at address 0, a fault.
\<close>

definition sa_refill :: "kernel_allocator \<Rightarrow> slab_allocator \<Rightarrow> (slab_allocator \<times> kernel_allocator) option" where
  "sa_refill ka sa =
     (if sa_free_blocks sa = []
      then do {
        (region, ba) \<leftarrow> ba_allocate (ka_bitmap_allocator ka) (sa_blk_size sa) (sa_blk_size sa);
        verify (region \<noteq> 0);
        (let (sb, ls) = slab_block_new region (sa_obj_size sa) (sa_blk_size sa) (ka_links ka)
         in Some (sa\<lparr>sa_free_blocks := sa_free_blocks sa @ [region]\<rparr>,
                  ka\<lparr>ka_bitmap_allocator := ba, ka_blocks := (ka_blocks ka)(region \<mapsto> sb), ka_links := ls\<rparr>)) }
      else Some (sa, ka))"

definition sa_allocate :: "kernel_allocator \<Rightarrow> slab_allocator
    \<Rightarrow> (uSize \<times> slab_allocator \<times> kernel_allocator) option" where
  "sa_allocate ka sa = do {
     (sa1, ka1) \<leftarrow> sa_refill ka sa;
     (case sa_free_blocks sa1 of
        [] \<Rightarrow> None
      | block # rest \<Rightarrow> do {
          sb \<leftarrow> ka_blocks ka1 block;
          (let (allocation, sb') = sb_allocate sb (ka_links ka1);
               sa2 = (if sb_allocated_objects sb' = sb_total_objects sb'
                      then sa1\<lparr>sa_free_blocks := rest, sa_full_blocks := sa_full_blocks sa1 @ [block]\<rparr>
                      else sa1)
           in Some (allocation, sa2, ka1\<lparr>ka_blocks := (ka_blocks ka1)(block \<mapsto> sb')\<rparr>)) }) }"

definition sa_free :: "kernel_allocator \<Rightarrow> slab_allocator \<Rightarrow> uSize
    \<Rightarrow> (slab_allocator \<times> kernel_allocator) option" where
  "sa_free ka sa ptr =
     (let block = (ptr div sa_blk_size sa) * sa_blk_size sa
      in do {
        sb \<leftarrow> ka_blocks ka block;
        sa' \<leftarrow> (if sb_allocated_objects sb = sb_total_objects sb
                then do {
                  verify (block \<in> set (sa_full_blocks sa));
                  Some (sa\<lparr>sa_full_blocks := remove1 block (sa_full_blocks sa),
                           sa_free_blocks := sa_free_blocks sa @ [block]\<rparr>) }
                else Some sa);
        (sb', ls) \<leftarrow> sb_deallocate block sb (ka_links ka) ptr;
        Some (sa', ka\<lparr>ka_blocks := (ka_blocks ka)(block \<mapsto> sb'), ka_links := ls\<rparr>) })"

definition LARGE_ALLOCATION :: uSize where
  "LARGE_ALLOCATION = 65536"

text \<open>The index of the first slab allocator that takes the size and the alignment.\<close>

definition slab_index :: "kernel_allocator \<Rightarrow> uSize \<Rightarrow> uSize \<Rightarrow> nat option" where
  "slab_index ka sz align =
     List.find (\<lambda>i. sz \<le> sa_obj_size (ka_slab_allocators ka ! i) \<and> align \<le> sa_obj_size (ka_slab_allocators ka ! i))
       [0..<length (ka_slab_allocators ka)]"

text \<open>\<open>allocate\<close>: the pointer and the size of the memory behind it.\<close>

definition ka_allocate :: "kernel_allocator \<Rightarrow> uSize \<Rightarrow> uSize
    \<Rightarrow> ((uSize \<times> uSize) \<times> kernel_allocator) option" where
  "ka_allocate ka sz align =
     (if sz \<ge> LARGE_ALLOCATION
      then do {
        verify (align \<le> PAGE_SIZE);
        (r, pa) \<leftarrow> allocate_region (ka_pages ka) (ceil_div sz PAGE_SIZE);
        Some (case r of Some reg \<Rightarrow> (rg_start reg, rg_size reg) | None \<Rightarrow> (0, 0), ka\<lparr>ka_pages := pa\<rparr>) }
      else (case slab_index ka sz align of
              Some i \<Rightarrow> do {
                (p, sa, ka') \<leftarrow> sa_allocate ka (ka_slab_allocators ka ! i);
                Some ((p, sa_obj_size sa), ka'\<lparr>ka_slab_allocators := (ka_slab_allocators ka')[i := sa]\<rparr>) }
            | None \<Rightarrow> do {
                (p, ba) \<leftarrow> ba_allocate (ka_bitmap_allocator ka) sz align;
                Some ((p, sz), ka\<lparr>ka_bitmap_allocator := ba\<rparr>) }))"

text \<open>
  \<open>free\<close>: after the page allocator has taken back a large region, control goes on to the other two
  allocators.
\<close>

definition ka_free :: "kernel_allocator \<Rightarrow> uSize \<Rightarrow> uSize \<Rightarrow> uSize \<Rightarrow> kernel_allocator option" where
  "ka_free ka ptr sz align = do {
     ka1 \<leftarrow> (if sz \<ge> LARGE_ALLOCATION
             then do {
               verify (align \<le> PAGE_SIZE);
               verify (ptr mod PAGE_SIZE = 0);
               pa \<leftarrow> pa_free_region (ka_pages ka) ptr;
               Some (ka\<lparr>ka_pages := pa\<rparr>) }
             else Some ka);
     (case slab_index ka1 sz align of
        Some i \<Rightarrow> do {
          (sa, ka2) \<leftarrow> sa_free ka1 (ka_slab_allocators ka1 ! i) ptr;
          Some (ka2\<lparr>ka_slab_allocators := (ka_slab_allocators ka2)[i := sa]\<rparr>) }
      | None \<Rightarrow> do {
          ba \<leftarrow> ba_free (ka_bitmap_allocator ka1) ptr sz;
          Some (ka1\<lparr>ka_bitmap_allocator := ba\<rparr>) }) }"

definition mem_free :: "kernel_allocator \<Rightarrow> uSize \<Rightarrow> uSize \<Rightarrow> uSize \<Rightarrow> kernel_allocator option" where
  "mem_free ka ptr sz align = (if ptr \<noteq> 0 then ka_free ka ptr sz align else Some ka)"

subsection \<open>Free lists\<close>

fun freelist :: "links \<Rightarrow> uSize \<Rightarrow> uSize list \<Rightarrow> bool" where
  "freelist ls h [] \<longleftrightarrow> h = 0"
| "freelist ls h (x # xs) \<longleftrightarrow> h = x \<and> x \<noteq> 0 \<and> freelist ls (ls x) xs"

lemma freelist_frame: "a \<notin> set xs \<Longrightarrow> freelist (ls(a := v)) h xs = freelist ls h xs"
  by (induction xs arbitrary: h) auto

definition sb_slots :: "uSize \<Rightarrow> slab_block \<Rightarrow> uSize list" where
  "sb_slots base sb = map (\<lambda>i. sb_data_begin base sb + i * sb_object_size sb) [0..<nat (sb_total_objects sb)]"

text \<open>The block at \<open>base\<close> has the free objects \<open>xs\<close>.\<close>

definition sb_inv :: "uSize \<Rightarrow> slab_block \<Rightarrow> links \<Rightarrow> uSize list \<Rightarrow> bool" where
  "sb_inv base sb ls xs \<longleftrightarrow> 0 < sb_object_size sb \<and> freelist ls (sb_freelist_head sb) xs \<and> distinct xs \<and>
     set xs \<subseteq> set (sb_slots base sb) \<and>
     sb_allocated_objects sb + int (length xs) = sb_total_objects sb"

lemma thread_freelist_ok:
  assumes "freelist ls head (rev (map (\<lambda>j. array + j * obj) [0..<i]))" and "0 < array" and "0 < obj"
  shows "case thread_freelist array obj i n (ls, head) of
    (ls', head') \<Rightarrow> freelist ls' head' (rev (map (\<lambda>j. array + j * obj) [0..<i + n]))"
  using assms(1)
proof (induction n arbitrary: i ls head)
  case (Suc n)
  have "freelist (ls(array + i * obj := head)) (array + i * obj)
      (rev (map (\<lambda>j. array + j * obj) [0..<i + 1]))"
  proof -
    have "array + i * obj \<notin> set (rev (map (\<lambda>j. array + j * obj) [0..<i]))" using assms(3) by auto
    then show ?thesis using Suc.prems assms(2) by (simp add: freelist_frame)
  qed
  moreover have "i + 1 + n = i + Suc n" by simp
  ultimately show ?case using Suc.IH unfolding thread_freelist.simps by metis
qed simp

lemma sb_slots_distinct: "0 < sb_object_size sb \<Longrightarrow> distinct (sb_slots base sb)"
  by (auto simp: sb_slots_def distinct_map inj_on_def)

lemma slab_block_new_inv:
  assumes "slab_block_new base obj blk ls = (sb, ls')" and "0 < base" and "0 < obj"
  shows "sb_inv base sb ls' (rev (sb_slots base sb))" and "sb_object_size sb = obj"
    and "sb_total_objects sb = int ((blk - sizeof_SlabBlock) div obj)" and "sb_allocated_objects sb = 0"
proof -
  let ?total = "(blk - sizeof_SlabBlock) div obj"
  let ?array = "base + ceil_div sizeof_SlabBlock obj * obj"
  obtain ls1 head where t: "thread_freelist ?array obj 0 ?total (ls, 0) = (ls1, head)" by fastforce
  have sb: "sb = \<lparr>sb_object_size = obj, sb_freelist_head = head, sb_allocated_objects = 0,
      sb_total_objects = int ?total\<rparr>" and ls': "ls' = ls1"
    using assms(1) t by (auto simp: slab_block_new_def Let_def sb_data_begin_def)
  show size: "sb_object_size sb = obj" and total: "sb_total_objects sb = int ?total"
    and "sb_allocated_objects sb = 0" by (simp_all add: sb)
  have "freelist ls1 head (rev (map (\<lambda>j. ?array + j * obj) [0..<?total]))"
    using thread_freelist_ok [of ls 0 ?array obj 0 ?total] assms(2,3) t by simp
  then have "freelist ls' (sb_freelist_head sb) (rev (sb_slots base sb))"
    by (simp add: ls' sb sb_slots_def sb_data_begin_def)
  then show "sb_inv base sb ls' (rev (sb_slots base sb))"
    using assms(3) sb_slots_distinct [of sb base] by (simp add: sb_inv_def sb sb_slots_def)
qed

text \<open>The objects of a block end where the block ends.\<close>

lemma ceil_div_header:
  assumes "0 < obj" and "obj < 2 ^ 32"
  shows "ceil_div sizeof_SlabBlock obj = (47 + obj) div obj"
  using assms ceil_div_small [of obj sizeof_SlabBlock] by (simp add: sizeof_SlabBlock_def)

lemma slab_layout:
  assumes "0 < obj" and "obj < 2 ^ 32" and "obj dvd blk" and "sizeof_SlabBlock \<le> blk"
  shows "ceil_div sizeof_SlabBlock obj * obj + (blk - sizeof_SlabBlock) div obj * obj \<le> blk"
    and "sizeof_SlabBlock \<le> ceil_div sizeof_SlabBlock obj * obj"
proof -
  define q where "q = (47 + obj) div obj"
  have q: "q * obj < 48 + obj" "48 \<le> q * obj"
    using assms(1) div_mult_mod_eq [of "47 + obj" obj] mod_less_divisor [OF assms(1), of "47 + obj"]
    unfolding q_def by linarith+
  obtain m where m: "blk = obj * m" using assms(3) by blast
  have "blk - 48 < (m - q + 1) * obj \<or> m < q"
  proof (cases "q \<le> m")
    case True
    then have "m * obj = (m - q) * obj + q * obj" by (simp flip: add_mult_distrib)
    moreover have "(m - q + 1) * obj = (m - q) * obj + obj" by simp
    moreover have "blk = m * obj" using m by (simp add: mult.commute)
    ultimately show ?thesis using q(1) assms(1) by linarith
  qed simp
  moreover have "\<not> m < q"
  proof
    assume "m < q"
    then have "(m + 1) * obj \<le> q * obj" by (intro mult_right_mono) auto
    then show False using q(1) m assms(4) by (simp add: sizeof_SlabBlock_def algebra_simps)
  qed
  ultimately have "(blk - 48) div obj < m - q + 1" by (simp add: div_less_iff_less_mult assms(1))
  then have "q + (blk - 48) div obj \<le> m" using \<open>\<not> m < q\<close> by linarith
  then have "(q + (blk - 48) div obj) * obj \<le> m * obj" by (rule mult_right_mono) simp
  then show "ceil_div sizeof_SlabBlock obj * obj + (blk - sizeof_SlabBlock) div obj * obj \<le> blk"
    unfolding ceil_div_header [OF assms(1,2)] q_def [symmetric]
    by (simp add: m sizeof_SlabBlock_def algebra_simps)
  show "sizeof_SlabBlock \<le> ceil_div sizeof_SlabBlock obj * obj"
    unfolding ceil_div_header [OF assms(1,2)] q_def [symmetric] using q(2) by (simp add: sizeof_SlabBlock_def)
qed

lemma sb_allocate_ok:
  assumes "sb_inv base sb ls xs"
  shows "case xs of
      [] \<Rightarrow> sb_allocate sb ls = (0, sb)
    | x # rest \<Rightarrow> \<exists>sb'. sb_allocate sb ls = (x, sb') \<and> sb_inv base sb' ls rest \<and>
        sb_slots base sb' = sb_slots base sb \<and> sb_object_size sb' = sb_object_size sb"
  using assms
  by (cases xs) (auto simp: sb_allocate_def sb_inv_def sb_slots_def sb_data_begin_def)

lemma sb_deallocate_ok:
  assumes inv: "sb_inv base sb ls xs" and x: "x \<in> set (sb_slots base sb)" "x \<notin> set xs" "x \<noteq> 0"
    and al: "sb_object_size sb dvd base"
  shows "\<exists>sb' ls'. sb_deallocate base sb ls x = Some (sb', ls') \<and> sb_inv base sb' ls' (x # xs)"
proof -
  obtain i where i: "i < nat (sb_total_objects sb)" "x = sb_data_begin base sb + i * sb_object_size sb"
    using x(1) by (auto simp: sb_slots_def)
  have pos: "0 < sb_object_size sb" using inv by (simp add: sb_inv_def)
  have range: "x \<ge> sb_data_begin base sb" "x < sb_data_end base sb"
    using i pos by (auto simp: sb_data_end_def)
  have "sb_object_size sb dvd x" using al by (simp add: i(2) sb_data_begin_def)
  then have "sb_deallocate base sb ls x =
      Some (sb\<lparr>sb_allocated_objects := sb_allocated_objects sb - 1, sb_freelist_head := x\<rparr>,
            ls(x := sb_freelist_head sb))"
    using range by (simp add: sb_deallocate_def)
  moreover have "sb_inv base (sb\<lparr>sb_allocated_objects := sb_allocated_objects sb - 1, sb_freelist_head := x\<rparr>)
      (ls(x := sb_freelist_head sb)) (x # xs)"
    using inv x by (auto simp: sb_inv_def freelist_frame sb_slots_def sb_data_begin_def)
  ultimately show ?thesis by blast
qed

subsection \<open>The bitmap\<close>

definition ba_ok :: "bitmap_allocator \<Rightarrow> bool" where
  "ba_ok ba \<longleftrightarrow> bv_ok (ba_bitmap ba) \<and> bv_length (ba_bitmap ba) = ba_chunk_count ba \<and>
     ba_data ba mod chunk_size = 0 \<and> 0 < ba_data ba \<and> ba_data ba + ba_chunk_count ba * chunk_size < 2 ^ 64"

definition chunk_used :: "bitmap_allocator \<Rightarrow> nat \<Rightarrow> bool" where
  "chunk_used ba = bv_bit (ba_bitmap ba)"

lemma chunk_size_pos [simp]: "0 < chunk_size" by (simp add: chunk_size_def)

lemma ba_allocate_unaligned:
  assumes ok: "ba_ok ba" and sz: "0 < sz" "sz < 2 ^ 63" and al: "0 < al" "al \<le> chunk_size" "al dvd chunk_size"
  defines "n \<equiv> ceil_div sz chunk_size"
  shows "0 < n" and
    "ba_allocate ba sz al =
      do {
        result \<leftarrow> bv_find_first_fit (ba_bitmap ba) n False 0 1 0 MAX_USIZE;
        (if fit_is_invalid result then Some (0, ba)
         else do {
           bm \<leftarrow> bv_set_range (ba_bitmap ba) (fit_index result) n True;
           Some (uadd (ba_data ba) (umul (fit_index result) chunk_size),
                 ba\<lparr>ba_bitmap := bm, ba_allocated_chunks := uadd (ba_allocated_chunks ba) n\<rparr>) }) }"
proof -
  have n: "n = (sz + chunk_size - 1) div chunk_size"
    unfolding n_def using sz(2) by (intro ceil_div_small) (auto simp: chunk_size_def)
  then show "0 < n" using sz(1) by (simp add: div_greater_zero_iff chunk_size_def)
  have "ceil_div al chunk_size = (al + chunk_size - 1) div chunk_size"
    using al(1,2) by (intro ceil_div_small) (auto simp: chunk_size_def)
  also have "\<dots> = 1" using al(1,2) by (intro div_nat_eqI) auto
  finally have one: "ceil_div al chunk_size = 1" .
  have mul: "umul 1 chunk_size = chunk_size" by (simp add: umul_small chunk_size_def)
  show "ba_allocate ba sz al =
      do {
        result \<leftarrow> bv_find_first_fit (ba_bitmap ba) n False 0 1 0 MAX_USIZE;
        (if fit_is_invalid result then Some (0, ba)
         else do {
           bm \<leftarrow> bv_set_range (ba_bitmap ba) (fit_index result) n True;
           Some (uadd (ba_data ba) (umul (fit_index result) chunk_size),
                 ba\<lparr>ba_bitmap := bm, ba_allocated_chunks := uadd (ba_allocated_chunks ba) n\<rparr>) }) }"
    unfolding ba_allocate_def Let_def n_def [symmetric] one unfolding mul
    using ok al by (simp add: ba_ok_def mod_eq_0_iff_dvd [symmetric] del: One_nat_def)
qed

subsection \<open>Properties\<close>

text \<open>
  C23: a new slab block puts every object on its free list exactly once, none of them allocated,
  and the objects lie inside the block: behind the header and before the block's end.  They
  start at multiples of the object size when the block does.
\<close>

theorem slab_block_layout:
  assumes "slab_block_new base obj blk ls = (sb, ls')" and "0 < base" and "0 < obj" and "obj < 2 ^ 32"
    and "obj dvd blk" and "sizeof_SlabBlock \<le> blk"
  shows "sb_inv base sb ls' (rev (sb_slots base sb)) \<and> sb_allocated_objects sb = 0 \<and>
    (\<forall>x \<in> set (sb_slots base sb). base + sizeof_SlabBlock \<le> x \<and> x + obj \<le> base + blk \<and> (obj dvd base \<longrightarrow> obj dvd x))"
proof -
  note new = slab_block_new_inv [OF assms(1-3)]
  note layout = slab_layout [OF assms(3-6)]
  have "base + sizeof_SlabBlock \<le> x \<and> x + obj \<le> base + blk \<and> (obj dvd base \<longrightarrow> obj dvd x)"
    if mem: "x \<in> set (sb_slots base sb)" for x
  proof -
    obtain i where i: "i < (blk - sizeof_SlabBlock) div obj" "x = base + ceil_div sizeof_SlabBlock obj * obj + i * obj"
      using mem unfolding sb_slots_def sb_data_begin_def new(2,3) by auto
    have "(i + 1) * obj \<le> (blk - sizeof_SlabBlock) div obj * obj" using i(1) by (intro mult_right_mono) auto
    then show ?thesis using i(2) layout by auto
  qed
  then show ?thesis using new by blast
qed

theorem slab_block_layout_witness:
  "case slab_block_new 0x2000 32 4096 (\<lambda>_. 0) of (sb, ls') \<Rightarrow>
     \<forall>x \<in> set (sb_slots 0x2000 sb). 0x2000 + sizeof_SlabBlock \<le> x \<and> x + 32 \<le> 0x2000 + 4096"
proof -
  obtain sb ls' where new: "slab_block_new 0x2000 32 4096 (\<lambda>_. 0) = (sb, ls')" by fastforce
  have "(32 :: nat) dvd 4096" by (simp add: dvd_def)
  then show ?thesis using slab_block_layout [OF new] new by (simp add: sizeof_SlabBlock_def)
qed

lemma freelist_cong: "(\<And>a. a \<in> set xs \<Longrightarrow> ls a = ls' a) \<Longrightarrow> freelist ls h xs = freelist ls' h xs"
  by (induction xs arbitrary: h) auto

text \<open>What the users of allocated objects write there does not matter to the block.\<close>

lemma sb_inv_user_writes:
  assumes "sb_inv base sb ls xs" and "\<And>a. a \<in> set xs \<Longrightarrow> ls' a = ls a"
  shows "sb_inv base sb ls' xs"
  using assms freelist_cong [of xs ls' ls "sb_freelist_head sb"] by (simp add: sb_inv_def)

lemma sb_deallocate_outside:
  assumes "0 < sb_object_size sb" and "sb_object_size sb dvd base" and "p \<notin> set (sb_slots base sb)"
  shows "sb_deallocate base sb ls p = None"
proof (rule ccontr)
  assume "\<not> ?thesis"
  then have range: "sb_data_begin base sb \<le> p" "p < sb_data_end base sb" and dv: "p mod sb_object_size sb = 0"
    by (auto simp: sb_deallocate_def bind_eq_None_conv)
  have "sb_object_size sb dvd p - sb_data_begin base sb"
    using dv assms(2) by (intro dvd_diff_nat) (auto simp: sb_data_begin_def)
  then obtain i where i: "p - sb_data_begin base sb = i * sb_object_size sb" by (metis dvdE mult.commute)
  then have "p = sb_data_begin base sb + i * sb_object_size sb" using range(1) by simp
  moreover from this have "i < nat (sb_total_objects sb)" using range(2) assms(1) by (simp add: sb_data_end_def)
  ultimately show False using assms(3) by (auto simp: sb_slots_def)
qed



text \<open>
the bitmap allocator is a first-fit allocator of chunks for alignments up to the chunk size:
  when no run of free chunks is long enough it returns null and changes nothing; otherwise it
  takes the first run, all of whose chunks were free, marks them used and returns its address.
  The one exception is a run that ends with the last chunk, where \<open>set_range\<close>'s assertion
  (\<open>start + count < m_length\<close>) fails and the kernel panics.
\<close>

theorem bitmap_allocate_first_fit:
  assumes ok: "ba_ok ba" and sz: "0 < sz" "sz < 2 ^ 63" and al: "0 < al" "al \<le> chunk_size" "al dvd chunk_size"
  defines "n \<equiv> ceil_div sz chunk_size"
  shows "(\<not> (\<exists>i. fits_at (ba_bitmap ba) False n i) \<and> ba_allocate ba sz al = Some (0, ba)) \<or>
    (\<exists>i. fits_at (ba_bitmap ba) False n i \<and> (\<forall>j<i. \<not> fits_at (ba_bitmap ba) False n j) \<and>
      (if i + n = ba_chunk_count ba then ba_allocate ba sz al = None
       else \<exists>ba'. ba_allocate ba sz al = Some (ba_data ba + i * chunk_size, ba') \<and>
         (\<forall>j. i \<le> j \<and> j < i + n \<longrightarrow> \<not> chunk_used ba j \<and> chunk_used ba' j)))"
proof -
  have bv: "bv_ok (ba_bitmap ba)" "bv_length (ba_bitmap ba) = ba_chunk_count ba"
    using ok by (simp_all add: ba_ok_def)
  note alloc = ba_allocate_unaligned [OF ok sz al, folded n_def]
  obtain r where r: "find_first_fit_loop (ba_bitmap ba) 0 n False 1 MAX_USIZE = Some r"
    and spec: "if \<exists>i\<ge>0. fits_at (ba_bitmap ba) False n i
     then n \<le> fit_size r \<and> 0 \<le> fit_index r \<and> fits_at (ba_bitmap ba) False (fit_size r) (fit_index r) \<and>
       (\<forall>i. 0 \<le> i \<and> i < fit_index r \<longrightarrow> \<not> fits_at (ba_bitmap ba) False n i)
     else r = fit_invalid"
    using find_first_fit_loop_ok [OF bv(1) alloc(1), of 0 False] by blast
  have "usub (align_up (uadd 0 0) 1) 0 = 0"
    using align_up_1 [of 0] by (simp add: uadd_small usub_le)
  then have fit: "bv_find_first_fit (ba_bitmap ba) n False 0 1 0 MAX_USIZE = Some r"
    using r by (simp add: bv_find_first_fit_def)
  show ?thesis
  proof (cases "\<exists>i\<ge>0. fits_at (ba_bitmap ba) False n i")
    case False
    then have "r = fit_invalid" using spec by (simp only: if_False)
    then have "ba_allocate ba sz al = Some (0, ba)"
      unfolding alloc(2) fit by (simp add: fit_is_invalid_def fit_invalid_def)
    then show ?thesis using False by blast
  next
    case True
    let ?i = "fit_index r"
    note sp = spec [unfolded if_P [OF True]]
    have here: "fits_at (ba_bitmap ba) False n ?i" using sp by (blast intro: fits_at_mono)
    have first: "\<forall>j<?i. \<not> fits_at (ba_bitmap ba) False n j" using sp by blast
    have valid: "\<not> fit_is_invalid r" using sp alloc(1) by (auto simp: fit_is_invalid_def)
    have bound: "?i + n \<le> ba_chunk_count ba" using here bv(2) by (simp add: fits_at_def)
    have small: "ba_chunk_count ba < 2 ^ 63" using bv by (simp add: bv_ok_def)
    have "if ?i + n = ba_chunk_count ba then ba_allocate ba sz al = None
       else \<exists>ba'. ba_allocate ba sz al = Some (ba_data ba + ?i * chunk_size, ba') \<and>
         (\<forall>j. ?i \<le> j \<and> j < ?i + n \<longrightarrow> \<not> chunk_used ba j \<and> chunk_used ba' j)"
    proof (cases "?i + n = ba_chunk_count ba")
      case at_end: True
      then have "bv_set_range (ba_bitmap ba) ?i n True = None"
        using small bv(2) by (simp add: bv_set_range_def uadd_small)
      then show ?thesis using at_end valid unfolding alloc(2) fit by simp
    next
      case inside: False
      then have lt: "?i + n < bv_length (ba_bitmap ba)" using bound bv(2) by simp
      obtain bm where bm: "bv_set_range (ba_bitmap ba) ?i n True = Some bm"
          "\<forall>j. bv_bit bm j = (if ?i \<le> j \<and> j < set_range_stop ?i (?i + n) then True else bv_bit (ba_bitmap ba) j)"
        using bv_set_range_ok [OF bv(1) lt, of True] by blast
      have stop: "?i + n \<le> set_range_stop ?i (?i + n)"
        using ceil8_bounds(1) [of "?i + n"] by (simp add: set_range_stop_def)
      have "?i * chunk_size \<le> ba_chunk_count ba * chunk_size" using bound by (intro mult_right_mono) auto
      moreover have "ba_data ba + ba_chunk_count ba * chunk_size < 2 ^ 64" using ok by (simp add: ba_ok_def)
      ultimately have "ba_data ba + ?i * chunk_size < 2 ^ 64" by linarith
      then have addr: "uadd (ba_data ba) (umul ?i chunk_size) = ba_data ba + ?i * chunk_size"
        by (simp add: uadd_small umul_small)
      have bits: "\<not> chunk_used ba j \<and> bv_bit bm j" if "?i \<le> j" "j < ?i + n" for j
      proof
        show "\<not> chunk_used ba j" using that here unfolding chunk_used_def fits_at_def by blast
        show "bv_bit bm j" using that bm(2) stop by auto
      qed
      show ?thesis
        unfolding if_not_P [OF inside] alloc(2) fit using valid bm(1) addr bits by (simp add: chunk_used_def)
    qed
    then show ?thesis using here first by blast
  qed
qed

theorem bitmap_allocate_first_fit_witness:
  "\<exists>p ba'. ba_allocate \<lparr>ba_data = 0x1000, ba_chunk_count = 8, ba_allocated_chunks = 1,
      ba_bitmap = \<lparr>bv_data = [0x01], bv_length = 8\<rparr>\<rparr> 200 16 = Some (p, ba')"
proof -
  let ?bv = "\<lparr>bv_data = [0x01], bv_length = 8\<rparr> :: bitset_view"
  let ?ba = "\<lparr>ba_data = 0x1000, ba_chunk_count = 8, ba_allocated_chunks = 1, ba_bitmap = ?bv\<rparr>"
  have ok: "ba_ok ?ba" by (simp add: ba_ok_def bv_ok_def chunk_size_def)
  have n: "ceil_div 200 chunk_size = 2" by (simp add: ceil_div_def uadd_def usub_def chunk_size_def)
  have fit: "fits_at ?bv False 2 1"
  proof -
    have "{1..<3} = {1, 2 :: nat}" by auto
    then have "\<forall>j \<in> {1..<3}. \<not> bv_bit ?bv j" by (simp add: bv_bit_def)
    then show ?thesis by (auto simp: fits_at_def)
  qed
  have "(16 :: nat) dvd chunk_size" by (simp add: chunk_size_def)
  then have "(\<not> (\<exists>i. fits_at (ba_bitmap ?ba) False 2 i) \<and> ba_allocate ?ba 200 16 = Some (0, ?ba)) \<or>
    (\<exists>i. fits_at (ba_bitmap ?ba) False 2 i \<and> (\<forall>j<i. \<not> fits_at (ba_bitmap ?ba) False 2 j) \<and>
      (if i + 2 = ba_chunk_count ?ba then ba_allocate ?ba 200 16 = None
       else \<exists>ba'. ba_allocate ?ba 200 16 = Some (ba_data ?ba + i * chunk_size, ba') \<and>
         (\<forall>j. i \<le> j \<and> j < i + 2 \<longrightarrow> \<not> chunk_used ?ba j \<and> chunk_used ba' j)))"
    using bitmap_allocate_first_fit [OF ok, of 200 16] unfolding n by (simp add: chunk_size_def)
  then show ?thesis
  proof (elim disjE conjE exE)
    fix i
    assume "fits_at (ba_bitmap ?ba) False 2 i" "\<forall>j<i. \<not> fits_at (ba_bitmap ?ba) False 2 j"
      and res: "if i + 2 = ba_chunk_count ?ba then ba_allocate ?ba 200 16 = None
       else \<exists>ba'. ba_allocate ?ba 200 16 = Some (ba_data ?ba + i * chunk_size, ba') \<and>
         (\<forall>j. i \<le> j \<and> j < i + 2 \<longrightarrow> \<not> chunk_used ?ba j \<and> chunk_used ba' j)"
    then have "\<not> 1 < i" using fit by auto
    then show ?thesis using res by auto
  qed blast
qed

text \<open>
giving back a large allocation stops the system: after the pages have been returned,
  \<open>KernelAllocator::free\<close> does not return but hands the pointer to the bitmap allocator as well,
  whose range check fails for every pointer outside the initial heap.
\<close>

theorem large_free_panics:
  assumes "sz \<ge> LARGE_ALLOCATION" and "\<And>sa. sa \<in> set (ka_slab_allocators ka) \<Longrightarrow> sa_obj_size sa < LARGE_ALLOCATION"
    and "\<not> (ba_data (ka_bitmap_allocator ka) \<le> ptr \<and>
      ptr < uadd (ba_data (ka_bitmap_allocator ka)) (umul chunk_size (ba_chunk_count (ka_bitmap_allocator ka))))"
  shows "ka_free ka ptr sz align = None"
proof -
  have "slab_index ka1 sz align = None" if "ka_slab_allocators ka1 = ka_slab_allocators ka" for ka1
  proof -
    have "\<not> sz \<le> sa_obj_size (ka_slab_allocators ka ! i)" if "i < length (ka_slab_allocators ka)" for i
      using assms(1) assms(2) [OF nth_mem [OF that]] by linarith
    then show ?thesis using that by (auto simp: slab_index_def find_None_iff)
  qed
  moreover have "ba_free (ka_bitmap_allocator ka) ptr sz = None" using assms(3) by (auto simp: ba_free_def)
  ultimately show ?thesis using assms(1) by (auto simp: ka_free_def bind_eq_None_conv split: option.splits)
qed

theorem large_free_panics_witness:
  "ka_free \<lparr>ka_bitmap_allocator = \<lparr>ba_data = 0x1000, ba_chunk_count = 8, ba_allocated_chunks = 0,
      ba_bitmap = \<lparr>bv_data = [0], bv_length = 8\<rparr>\<rparr>, ka_slab_allocators = [], ka_pages = [None],
      ka_blocks = (\<lambda>_. None), ka_links = (\<lambda>_. 0)\<rparr> 0x100000 0x10000 8 = None"
  by (rule large_free_panics) (simp_all add: LARGE_ALLOCATION_def uadd_def umul_def chunk_size_def)

end
