(* ===== verification/Translation_Tables.thy ===== *)
theory Translation_Tables
  imports Page_Allocator
begin

text \<open>
  \<open>kernel/src/arch/a64/translation_tables.{h,cpp}\<close>: the four-level page tables of the ARMv8 MMU.
  A table is the list of its 512 descriptors, and \<open>pt_tables\<close> is the memory that holds the
  tables, by their kernel address.  Descriptors are 64-bit words and the bit fields of the
  source are written out as masks and shifts.

  What the code takes from the linker script and the hardware is a parameter: the bounds of the
  embedded tables, and \<open>kernel_virt_to_phys\<close> and \<open>kernel_phys_to_virt\<close>, which ask the MMU
  (\<open>pe_v2p\<close>, \<open>pe_p2v\<close>).
\<close>

record pt_env =
  pe_tables_start :: uSize
  pe_tables_end :: uSize
  pe_v2p :: "uSize \<Rightarrow> uSize option"
  pe_p2v :: "uSize \<Rightarrow> uSize"

record pt_state =
  pt_tables :: "uSize \<Rightarrow> u64 list"
  pt_embedded_current :: uSize
  pt_pages :: page_allocator

definition PT_ENTRY_COUNT :: nat where
  "PT_ENTRY_COUNT = 512"

definition SHIFTS :: "nat list" where
  "SHIFTS = [39, 30, 21, 12]"

definition SIZES :: "nat list" where
  "SIZES = [2 ^ 39, 2 ^ 30, 2 ^ 21, 2 ^ 12]"

subsection \<open>Descriptors\<close>

definition descriptor_code :: "u64 \<Rightarrow> u64" where
  "descriptor_code e = e AND 3"

definition PT_INVALID_DESCRIPTOR :: u64 where "PT_INVALID_DESCRIPTOR = 0"
definition PT_UPPER_BLOCK_DESCRIPTOR :: u64 where "PT_UPPER_BLOCK_DESCRIPTOR = 1"
definition PT_UPPER_TABLE_DESCRIPTOR :: u64 where "PT_UPPER_TABLE_DESCRIPTOR = 3"
definition PT_LOWER_BLOCK_DESCRIPTOR :: u64 where "PT_LOWER_BLOCK_DESCRIPTOR = 3"

text \<open>Assigning the bit field of \<open>width\<close> bits at \<open>pos\<close>.\<close>

definition set_field :: "nat \<Rightarrow> nat \<Rightarrow> u64 \<Rightarrow> u64 \<Rightarrow> u64" where
  "set_field pos width v e = (e AND NOT (push_bit pos (mask width))) OR push_bit pos (take_bit width v)"

definition l3_create :: "uSize \<Rightarrow> u64 \<Rightarrow> u64" where
  "l3_create phys_addr flags =
     set_field 0 2 PT_LOWER_BLOCK_DESCRIPTOR (set_field 12 36 (drop_bit 12 (of_nat phys_addr)) flags)"

definition create_table_entry :: "uSize \<Rightarrow> u64" where
  "create_table_entry next_table =
     set_field 12 36 (drop_bit 12 (of_nat next_table)) (set_field 0 2 PT_UPPER_TABLE_DESCRIPTOR 0)"

definition create_block_entry :: "uSize \<Rightarrow> u64 \<Rightarrow> u64" where
  "create_block_entry raw_ptr flags =
     set_field 21 27 (drop_bit 21 (of_nat raw_ptr)) (set_field 0 2 PT_UPPER_BLOCK_DESCRIPTOR flags)"

definition table_page_address :: "u64 \<Rightarrow> uSize" where
  "table_page_address e = unat (push_bit 12 (take_bit 36 (drop_bit 12 e)))"

text \<open>The attributes of a user page.\<close>

definition UnprivilegedExecuteNever :: u64 where "UnprivilegedExecuteNever = push_bit 54 1"
definition PrivilegedExecuteNever :: u64 where "PrivilegedExecuteNever = push_bit 53 1"
definition AF :: u64 where "AF = push_bit 10 1"
definition ReadOnly :: u64 where "ReadOnly = push_bit 7 1"
definition EL0Access :: u64 where "EL0Access = push_bit 6 1"

definition attributes_for_user :: "bool \<Rightarrow> bool \<Rightarrow> bool \<Rightarrow> u64" where
  "attributes_for_user readable writeable executable =
     (let a0 = AF OR PrivilegedExecuteNever;
          a1 = (if readable \<or> writeable then a0 OR EL0Access else a0);
          a2 = (if \<not> writeable then a1 OR ReadOnly else a1)
      in if \<not> executable then a2 OR UnprivilegedExecuteNever else a2)"

subsection \<open>Table storage\<close>

definition get_entry :: "pt_state \<Rightarrow> uSize \<Rightarrow> nat \<Rightarrow> u64 option" where
  "get_entry st table idx =
     (if idx < length (pt_tables st table) then Some (pt_tables st table ! idx) else None)"

definition put_entry :: "pt_state \<Rightarrow> uSize \<Rightarrow> nat \<Rightarrow> u64 \<Rightarrow> pt_state" where
  "put_entry st table idx e = st\<lparr>pt_tables := (pt_tables st)(table := (pt_tables st table)[idx := e])\<rparr>"

text \<open>A new table comes from the embedded tables while there are any, and is cleared.\<close>

definition allocate_table :: "pt_env \<Rightarrow> pt_state \<Rightarrow> (uSize \<times> pt_state) option" where
  "allocate_table env st =
     (let cur = pt_embedded_current st
      in do {
        (res, st') \<leftarrow>
          (if cur \<noteq> 0 \<and> cur < pe_tables_end env
           then Some (cur, st\<lparr>pt_embedded_current := uadd cur PAGE_SIZE\<rparr>)
           else do {
             (r, pa) \<leftarrow> allocate_region (pt_pages st) 1;
             reg \<leftarrow> r;
             Some (rg_start reg, st\<lparr>pt_pages := pa\<rparr>) });
        verify (res \<noteq> 0);
        Some (res, st'\<lparr>pt_tables := (pt_tables st')(res := replicate PT_ENTRY_COUNT 0)\<rparr>) })"

definition free_table :: "pt_env \<Rightarrow> pt_state \<Rightarrow> uSize \<Rightarrow> pt_state option" where
  "free_table env st table =
     (if table \<ge> pe_tables_start env \<and> table < pe_tables_end env
      then Some (if uadd table PAGE_SIZE = pt_embedded_current st then st\<lparr>pt_embedded_current := table\<rparr> else st)
      else do { pa \<leftarrow> pa_free_region (pt_pages st) table; Some (st\<lparr>pt_pages := pa\<rparr>) })"

subsection \<open>Mapping\<close>

text \<open>
  The virtual address, the physical address and the size are reference parameters of the code;
  a step returns whether it succeeded, the state and the three values.
\<close>

type_synonym map_result = "bool \<times> pt_state \<times> uSize \<times> uSize \<times> uSize"

function map_lower_loop :: "pt_state \<Rightarrow> uSize \<Rightarrow> nat \<Rightarrow> uSize \<Rightarrow> uSize \<Rightarrow> uSize \<Rightarrow> u64 \<Rightarrow> map_result option" where
  "map_lower_loop st table idx virt phys sz flags =
     (if idx < PT_ENTRY_COUNT \<and> sz > 0
      then (let new_entry = l3_create phys flags
            in do {
              e \<leftarrow> get_entry st table idx;
              (if descriptor_code e \<noteq> PT_INVALID_DESCRIPTOR \<and> e \<noteq> new_entry
               then Some (False, st, virt, phys, sz)
               else map_lower_loop (put_entry st table idx new_entry) table (idx + 1)
                      (uadd virt (SIZES ! 3)) (uadd phys (SIZES ! 3)) (usub sz (SIZES ! 3)) flags) })
      else Some (True, st, virt, phys, sz))"
  by pat_completeness auto

termination map_lower_loop
  by (relation "measure (\<lambda>(st, table, idx, virt, phys, sz, flags). PT_ENTRY_COUNT - idx)") auto

declare map_lower_loop.simps [simp del]

definition map_lower :: "pt_state \<Rightarrow> uSize \<Rightarrow> uSize \<Rightarrow> uSize \<Rightarrow> uSize \<Rightarrow> u64 \<Rightarrow> map_result option" where
  "map_lower st table virt phys sz flags =
     map_lower_loop st table ((virt div 2 ^ (SHIFTS ! 3)) mod PT_ENTRY_COUNT) virt phys sz flags"

function map_upper_loop :: "pt_env \<Rightarrow> pt_state \<Rightarrow> uSize \<Rightarrow> nat \<Rightarrow> uSize \<Rightarrow> uSize \<Rightarrow> uSize \<Rightarrow> u64 \<Rightarrow> nat
    \<Rightarrow> map_result option" where
  "map_upper_loop env st table idx virt phys sz flags level =
     (if level < 3
      then if idx < PT_ENTRY_COUNT \<and> sz > 0
        then do {
          e \<leftarrow> get_entry st table idx;
          (if descriptor_code e = PT_INVALID_DESCRIPTOR \<and> (level = 1 \<or> level = 2) \<and> sz \<ge> SIZES ! level \<and>
              virt mod (SIZES ! level) = 0 \<and> phys mod (SIZES ! level) = 0
           then map_upper_loop env (put_entry st table idx (create_block_entry phys flags)) table (idx + 1)
                  (uadd virt (SIZES ! level)) (uadd phys (SIZES ! level)) (usub sz (SIZES ! level)) flags level
           else do {
             (next_table, st') \<leftarrow>
               (if descriptor_code e = PT_INVALID_DESCRIPTOR
                then do {
                  (next_table, st1) \<leftarrow> allocate_table env st;
                  p \<leftarrow> pe_v2p env next_table;
                  Some (Some next_table, put_entry st1 table idx (create_table_entry p)) }
                else if descriptor_code e = PT_UPPER_TABLE_DESCRIPTOR
                then Some (Some (pe_p2v env (table_page_address e)), st)
                else Some (None, st));
             (case next_table of
                None \<Rightarrow> Some (False, st', virt, phys, sz)
              | Some nt \<Rightarrow> do {
                  (res, st2, virt', phys', sz') \<leftarrow>
                    (if level = 2 then map_lower st' nt virt phys sz flags
                     else map_upper_loop env st' nt
                            ((virt div 2 ^ (SHIFTS ! (level + 1))) mod PT_ENTRY_COUNT)
                            virt phys sz flags (level + 1));
                  (if res then map_upper_loop env st2 table (idx + 1) virt' phys' sz' flags level
                   else Some (False, st2, virt', phys', sz')) }) }) }
        else Some (True, st, virt, phys, sz)
      else None)"
  by pat_completeness auto

termination map_upper_loop
  by (relation "measures [\<lambda>(env, st, table, idx, virt, phys, sz, flags, level). 3 - level,
    \<lambda>(env, st, table, idx, virt, phys, sz, flags, level). PT_ENTRY_COUNT - idx]") auto

declare map_upper_loop.simps [simp del]

definition map_upper :: "pt_env \<Rightarrow> pt_state \<Rightarrow> uSize \<Rightarrow> uSize \<Rightarrow> uSize \<Rightarrow> uSize \<Rightarrow> u64 \<Rightarrow> nat
    \<Rightarrow> map_result option" where
  "map_upper env st table virt phys sz flags level =
     map_upper_loop env st table ((virt div 2 ^ (SHIFTS ! level)) mod PT_ENTRY_COUNT) virt phys sz flags level"

definition map_region :: "pt_env \<Rightarrow> pt_state \<Rightarrow> uSize \<Rightarrow> uSize \<Rightarrow> uSize \<Rightarrow> uSize \<Rightarrow> u64 \<Rightarrow> u64
    \<Rightarrow> (bool \<times> pt_state) option" where
  "map_region env st root virt phys sz attrs attr_idx = do {
     verify (root \<noteq> 0);
     (if page_offset virt \<noteq> 0 \<or> page_offset phys \<noteq> 0 \<or> page_offset sz \<noteq> 0 then Some (False, st)
      else do {
        (res, st', _) \<leftarrow> map_upper env st root virt phys sz (attrs OR push_bit 2 attr_idx) 0;
        Some (res, st') }) }"

subsection \<open>Unmapping\<close>

type_synonym unmap_result = "bool \<times> pt_state \<times> uSize \<times> uSize"

function unmap_lower_loop :: "pt_state \<Rightarrow> uSize \<Rightarrow> nat \<Rightarrow> uSize \<Rightarrow> uSize \<Rightarrow> unmap_result option" where
  "unmap_lower_loop st table idx virt sz =
     (if idx < PT_ENTRY_COUNT \<and> sz > 0
      then do {
        _ \<leftarrow> get_entry st table idx;
        unmap_lower_loop (put_entry st table idx 0) table (idx + 1) (uadd virt (SIZES ! 3)) (usub sz (SIZES ! 3)) }
      else Some (True, st, virt, sz))"
  by pat_completeness auto

termination unmap_lower_loop
  by (relation "measure (\<lambda>(st, table, idx, virt, sz). PT_ENTRY_COUNT - idx)") auto

declare unmap_lower_loop.simps [simp del]

definition unmap_lower :: "pt_state \<Rightarrow> uSize \<Rightarrow> uSize \<Rightarrow> uSize \<Rightarrow> unmap_result option" where
  "unmap_lower st table virt sz =
     unmap_lower_loop st table ((virt div 2 ^ (SHIFTS ! 3)) mod PT_ENTRY_COUNT) virt sz"

text \<open>
  In the branch of a block that is unmapped whole, the address and the size are not advanced
  before \<open>continue\<close> (line 292).
\<close>

function unmap_upper_loop :: "pt_env \<Rightarrow> pt_state \<Rightarrow> uSize \<Rightarrow> nat \<Rightarrow> uSize \<Rightarrow> uSize \<Rightarrow> nat \<Rightarrow> unmap_result option" where
  "unmap_upper_loop env st table idx virt sz level =
     (if level < 3
      then if idx < PT_ENTRY_COUNT \<and> sz > 0
        then do {
          e \<leftarrow> get_entry st table idx;
          (let whole = (virt mod (SIZES ! level) = 0 \<and> sz \<ge> SIZES ! level);
               next_table = pe_p2v env (table_page_address e)
           in if descriptor_code e = PT_UPPER_TABLE_DESCRIPTOR
              then if whole
                then do {
                  st' \<leftarrow> free_table env (put_entry st table idx 0) next_table;
                  unmap_upper_loop env st' table (idx + 1) (uadd virt (SIZES ! level)) (usub sz (SIZES ! level)) level }
                else do {
                  (res, st2, virt', sz') \<leftarrow>
                    (if level = 2 then unmap_lower st next_table virt sz
                     else unmap_upper_loop env st next_table
                            ((virt div 2 ^ (SHIFTS ! (level + 1))) mod PT_ENTRY_COUNT) virt sz (level + 1));
                  (if res then unmap_upper_loop env st2 table (idx + 1) virt' sz' level
                   else Some (False, st2, virt', sz')) }
              else if descriptor_code e = PT_UPPER_BLOCK_DESCRIPTOR
              then if whole then unmap_upper_loop env (put_entry st table idx 0) table (idx + 1) virt sz level
                   else Some (False, st, virt, sz)
              else Some (False, st, virt, sz)) }
        else Some (True, st, virt, sz)
      else None)"
  by pat_completeness auto

termination unmap_upper_loop
  by (relation "measures [\<lambda>(env, st, table, idx, virt, sz, level). 3 - level,
    \<lambda>(env, st, table, idx, virt, sz, level). PT_ENTRY_COUNT - idx]") auto

declare unmap_upper_loop.simps [simp del]

definition unmap_upper :: "pt_env \<Rightarrow> pt_state \<Rightarrow> uSize \<Rightarrow> uSize \<Rightarrow> uSize \<Rightarrow> nat \<Rightarrow> unmap_result option" where
  "unmap_upper env st table virt sz level =
     unmap_upper_loop env st table ((virt div 2 ^ (SHIFTS ! level)) mod PT_ENTRY_COUNT) virt sz level"

definition unmap_region :: "pt_env \<Rightarrow> pt_state \<Rightarrow> uSize \<Rightarrow> uSize \<Rightarrow> uSize \<Rightarrow> (bool \<times> pt_state) option" where
  "unmap_region env st root virt sz = do {
     verify (root \<noteq> 0);
     (if page_offset virt \<noteq> 0 \<or> page_offset sz \<noteq> 0 then Some (False, st)
      else do { (res, st', _) \<leftarrow> unmap_upper env st root virt sz 0; Some (res, st') }) }"

definition create_user_manager :: "pt_state \<Rightarrow> (uSize \<times> pt_state) option" where
  "create_user_manager st = do {
     (r, pa) \<leftarrow> allocate_region (pt_pages st) 1;
     reg \<leftarrow> r;
     verify (rg_start reg \<noteq> 0);
     Some (rg_start reg, st\<lparr>pt_pages := pa\<rparr>) }"

subsection \<open>The boot-time mapping\<close>

text \<open>
  \<open>crude_map_region\<close> runs before the MMU is on: tables are found by their physical address, and the
  ones it needs are taken from \<open>tables_current\<close> on.  One step of its walk finds or makes the next
  table; \<open>None\<close> is the end of the space for tables.
\<close>

definition crude_level :: "(uSize \<Rightarrow> u64 list) \<Rightarrow> uSize \<Rightarrow> uSize \<Rightarrow> uSize \<Rightarrow> nat \<Rightarrow>
    (uSize \<times> (uSize \<Rightarrow> u64 list) \<times> uSize) option" where
  "crude_level tables current tables_end table idx =
     (let e = tables table ! idx
      in if descriptor_code e = PT_INVALID_DESCRIPTOR
         then if current < tables_end
              then Some (current,
                tables(table := (tables table)[idx :=
                  set_field 0 2 PT_UPPER_TABLE_DESCRIPTOR (set_field 12 36 (drop_bit 12 (of_nat current)) e)]),
                uadd current PAGE_SIZE)
              else None
         else Some (table_page_address e, tables, current))"

fun crude_fill :: "u64 list \<Rightarrow> nat \<Rightarrow> uSize \<Rightarrow> u64 \<Rightarrow> nat \<Rightarrow> u64 list" where
  "crude_fill entries idx phys_addr flags 0 = entries"
| "crude_fill entries idx phys_addr flags (Suc n) =
     crude_fill (entries[idx := flags OR of_nat phys_addr OR PT_UPPER_BLOCK_DESCRIPTOR]) (idx + 1)
       (uadd phys_addr (SIZES ! 2)) flags n"

definition crude_map_region :: "(uSize \<Rightarrow> u64 list) \<Rightarrow> uSize \<Rightarrow> uSize \<Rightarrow> uSize \<Rightarrow> u64 \<Rightarrow> uSize \<Rightarrow> uSize \<Rightarrow> uSize \<Rightarrow>
    bool \<times> (uSize \<Rightarrow> u64 list) \<times> uSize" where
  "crude_map_region tables virt_addr phys_addr sz flags tables_start tables_current tables_end =
     (if virt_addr mod (SIZES ! 2) \<noteq> 0 \<or> phys_addr mod (SIZES ! 2) \<noteq> 0 \<or> sz mod (SIZES ! 2) \<noteq> 0 \<or>
         virt_addr div 2 ^ (SHIFTS ! 1) \<noteq> uadd virt_addr sz div 2 ^ (SHIFTS ! 1)
      then (False, tables, tables_current)
      else (let initial = (tables_current = tables_start);
                tables0 = (if initial then (\<lambda>t. if tables_start \<le> t \<and> t < tables_end
                             then replicate PT_ENTRY_COUNT 0 else tables t) else tables);
                current0 = (if initial then uadd tables_current PAGE_SIZE else tables_current);
                index = (\<lambda>a l. (a div 2 ^ (SHIFTS ! l)) mod PT_ENTRY_COUNT)
            in case crude_level tables0 current0 tables_end tables_start (index virt_addr 0) of
                 None \<Rightarrow> (False, tables0, current0)
               | Some (l1, tables1, current1) \<Rightarrow>
                   (case crude_level tables1 current1 tables_end l1 (index virt_addr 1) of
                      None \<Rightarrow> (False, tables1, current1)
                    | Some (l2, tables2, current2) \<Rightarrow>
                        (let first = index virt_addr 2; last_idx = index (uadd virt_addr sz) 2
                         in (True, tables2(l2 := crude_fill (tables2 l2) first phys_addr flags (last_idx - first)),
                             current2)))))"

subsection \<open>Bit fields\<close>

lemma bit_set_field:
  "bit (set_field pos width v e) i \<longleftrightarrow>
     (if pos \<le> i \<and> i < pos + width then i < 64 \<and> bit v (i - pos) else bit e i)"
proof -
  have "bit (push_bit pos (mask width) :: u64) i \<longleftrightarrow> pos \<le> i \<and> i < pos + width \<and> i < 64"
    by (auto simp: bit_push_bit_iff bit_mask_iff)
  then show ?thesis
    by (auto simp: set_field_def bit_or_iff bit_and_iff bit_not_iff bit_push_bit_iff bit_take_bit_iff
        dest: bit_imp_le_length)
qed

lemma word_eq_low_bits: "(\<And>i. i < 64 \<Longrightarrow> bit (a :: u64) i = bit b i) \<Longrightarrow> a = b"
  by (rule bit_word_eqI) auto

lemma bit_of_nat_nat: "bit (of_nat p :: u64) i \<Longrightarrow> bit p i"
  by (simp add: bit_of_nat_iff)

lemma aligned_low_bits:
  assumes "p mod 2 ^ n = 0" and "i < n"
  shows "\<not> bit (of_nat p :: u64) i"
proof
  assume "bit (of_nat p :: u64) i"
  then have "bit (take_bit n p) i" using assms(2) by (simp add: bit_take_bit_iff bit_of_nat_nat)
  then show False using assms(1) by (simp add: take_bit_eq_mod)
qed

lemma high_bits_zero:
  assumes "p < 2 ^ n" and "n \<le> i"
  shows "\<not> bit (of_nat p :: u64) i"
proof
  assume "bit (of_nat p :: u64) i"
  then have "bit (take_bit n p) i" using assms(1) by (simp add: take_bit_nat_eq_self bit_of_nat_nat)
  then show False using assms(2) by (simp add: bit_take_bit_iff)
qed

text \<open>Reading back the address of a page descriptor.\<close>

lemma page_field_roundtrip:
  assumes field: "\<And>i. 12 \<le> i \<Longrightarrow> i < 48 \<Longrightarrow> bit e i = bit (of_nat p :: u64) i"
    and p: "page_offset p = 0" "p < 2 ^ 48"
  shows "table_page_address e = p"
proof -
  have "p mod 2 ^ 12 = 0" using p(1) by (simp add: page_offset_def PAGE_SIZE_def)
  then have low: "\<not> bit (of_nat p :: u64) i" if "i < 12" for i using that by (rule aligned_low_bits)
  have "push_bit 12 (take_bit 36 (drop_bit 12 e)) = of_nat p"
  proof (rule word_eq_low_bits)
    fix i :: nat
    assume "i < 64"
    consider "i < 12" | "12 \<le> i" "i < 48" | "48 \<le> i" by linarith
    then show "bit (push_bit 12 (take_bit 36 (drop_bit 12 e))) i = bit (of_nat p :: u64) i"
      using low field high_bits_zero [OF p(2)] \<open>i < 64\<close>
      by cases (auto simp: bit_push_bit_iff bit_take_bit_iff bit_drop_bit_eq)
  qed
  moreover have "unat (of_nat p :: u64) = p" using p(2) by (simp add: unat_of_nat)
  ultimately show ?thesis by (simp add: table_page_address_def)
qed

lemma code_of_field: "(\<And>i. i < 2 \<Longrightarrow> bit e i = bit (c :: u64) i) \<Longrightarrow> c AND 3 = c \<Longrightarrow> descriptor_code e = c"
proof -
  assume low: "\<And>i. i < 2 \<Longrightarrow> bit e i = bit c i" and c: "c AND 3 = c"
  have "(3 :: u64) = mask 2" by (simp add: mask_eq_exp_minus_1)
  then have three: "bit (3 :: u64) i \<Longrightarrow> i < 2" for i by (simp only: bit_mask_iff)
  have "e AND 3 = c AND 3" using low three by (intro bit_eqI) (auto simp: bit_and_iff)
  then show "descriptor_code e = c" using c by (simp add: descriptor_code_def)
qed

lemma l3_create_fields:
  assumes "page_offset p = 0" and "p < 2 ^ 48"
  shows "descriptor_code (l3_create p flags) = PT_LOWER_BLOCK_DESCRIPTOR"
    and "table_page_address (l3_create p flags) = p"
    and "\<And>i. 2 \<le> i \<Longrightarrow> i < 12 \<or> 48 \<le> i \<Longrightarrow> bit (l3_create p flags) i = bit flags i"
proof -
  have bits: "bit (l3_create p flags) i = (if i < 2 then bit (3 :: u64) i
      else if 12 \<le> i \<and> i < 48 then bit (of_nat p :: u64) i else bit flags i)" for i
    by (auto simp: l3_create_def bit_set_field bit_drop_bit_eq PT_LOWER_BLOCK_DESCRIPTOR_def)
  show "descriptor_code (l3_create p flags) = PT_LOWER_BLOCK_DESCRIPTOR"
    unfolding PT_LOWER_BLOCK_DESCRIPTOR_def by (rule code_of_field) (simp_all add: bits)
  show "table_page_address (l3_create p flags) = p"
    using assms by (intro page_field_roundtrip) (simp_all add: bits)
  show "bit (l3_create p flags) i = bit flags i" if "2 \<le> i" "i < 12 \<or> 48 \<le> i" for i
    using that by (auto simp: bits)
qed

lemma create_table_entry_fields:
  assumes "page_offset p = 0" and "p < 2 ^ 48"
  shows "descriptor_code (create_table_entry p) = PT_UPPER_TABLE_DESCRIPTOR"
    and "table_page_address (create_table_entry p) = p"
proof -
  have bits: "bit (create_table_entry p) i = (if i < 2 then bit (3 :: u64) i
      else if 12 \<le> i \<and> i < 48 then bit (of_nat p :: u64) i else False)" for i
    by (auto simp: create_table_entry_def bit_set_field bit_drop_bit_eq PT_UPPER_TABLE_DESCRIPTOR_def)
  show "descriptor_code (create_table_entry p) = PT_UPPER_TABLE_DESCRIPTOR"
    unfolding PT_UPPER_TABLE_DESCRIPTOR_def by (rule code_of_field) (simp_all add: bits)
  show "table_page_address (create_table_entry p) = p"
    using assms by (intro page_field_roundtrip) (simp_all add: bits)
qed

subsection \<open>The lowest level\<close>

definition tables_ok :: "pt_state \<Rightarrow> bool" where
  "tables_ok st \<longleftrightarrow> (\<forall>t. length (pt_tables st t) = PT_ENTRY_COUNT)"

lemma get_entry_ok: "tables_ok st \<Longrightarrow> idx < PT_ENTRY_COUNT \<Longrightarrow> get_entry st t idx = Some (pt_tables st t ! idx)"
  by (simp add: get_entry_def tables_ok_def)

lemma put_entry_ok: "tables_ok st \<Longrightarrow> tables_ok (put_entry st t idx e)"
  by (simp add: tables_ok_def put_entry_def)

lemma put_entry_nth:
  "tables_ok st \<Longrightarrow> idx < PT_ENTRY_COUNT \<Longrightarrow>
   pt_tables (put_entry st t idx e) t' ! i = (if t' = t \<and> i = idx then e else pt_tables st t' ! i)"
  by (auto simp: put_entry_def tables_ok_def nth_list_update)

lemma SIZES_3: "SIZES ! 3 = PAGE_SIZE"
  by (simp add: SIZES_def PAGE_SIZE_def)

text \<open>Mapping \<open>n\<close> pages from entry \<open>idx\<close> on, none of which may be in use for something else.\<close>

lemma map_lower_loop_ok:
  assumes "tables_ok st" and "idx + n \<le> PT_ENTRY_COUNT"
    and "phys + n * PAGE_SIZE < 2 ^ 64" and "virt + n * PAGE_SIZE < 2 ^ 64"
    and "\<And>k. k < n \<Longrightarrow> descriptor_code (pt_tables st table ! (idx + k)) = PT_INVALID_DESCRIPTOR"
  shows "\<exists>st'. map_lower_loop st table idx virt phys (n * PAGE_SIZE) flags =
      Some (True, st', virt + n * PAGE_SIZE, phys + n * PAGE_SIZE, 0) \<and> tables_ok st' \<and>
    (\<forall>t i. i < PT_ENTRY_COUNT \<longrightarrow> pt_tables st' t ! i =
      (if t = table \<and> idx \<le> i \<and> i < idx + n then l3_create (phys + (i - idx) * PAGE_SIZE) flags
       else pt_tables st t ! i))"
  using assms
proof (induction n arbitrary: st idx virt phys)
  case 0
  then show ?case by (auto simp: map_lower_loop.simps [of st])
next
  case (Suc n)
  let ?st = "put_entry st table idx (l3_create phys flags)"
  have idx: "idx < PT_ENTRY_COUNT" using Suc.prems(2) by simp
  have "descriptor_code (pt_tables st table ! idx) = PT_INVALID_DESCRIPTOR" using Suc.prems(5) [of 0] by simp
  then have step: "map_lower_loop st table idx virt phys (Suc n * PAGE_SIZE) flags =
      map_lower_loop ?st table (idx + 1) (virt + PAGE_SIZE) (phys + PAGE_SIZE) (n * PAGE_SIZE) flags"
    using idx Suc.prems(1,3,4)
    by (simp add: map_lower_loop.simps [of st] get_entry_ok SIZES_3 uadd_small usub_le)
  have free: "descriptor_code (pt_tables ?st table ! (idx + 1 + k)) = PT_INVALID_DESCRIPTOR" if "k < n" for k
    using Suc.prems(5) [of "k + 1"] that by (simp add: put_entry_nth [OF Suc.prems(1) idx])
  obtain st' where st': "map_lower_loop ?st table (idx + 1) (virt + PAGE_SIZE) (phys + PAGE_SIZE) (n * PAGE_SIZE) flags =
      Some (True, st', virt + PAGE_SIZE + n * PAGE_SIZE, phys + PAGE_SIZE + n * PAGE_SIZE, 0)" "tables_ok st'"
    "\<forall>t i. i < PT_ENTRY_COUNT \<longrightarrow> pt_tables st' t ! i =
      (if t = table \<and> idx + 1 \<le> i \<and> i < idx + 1 + n then l3_create (phys + PAGE_SIZE + (i - (idx + 1)) * PAGE_SIZE) flags
       else pt_tables ?st t ! i)"
    using Suc.IH [OF put_entry_ok [OF Suc.prems(1)] _ _ _ free, of "phys + PAGE_SIZE" "virt + PAGE_SIZE"]
      Suc.prems(2-4) by (force simp: add.assoc)
  have "pt_tables st' t ! i = (if t = table \<and> idx \<le> i \<and> i < idx + Suc n
      then l3_create (phys + (i - idx) * PAGE_SIZE) flags else pt_tables st t ! i)" if "i < PT_ENTRY_COUNT" for t i
  proof (cases "t = table \<and> idx + 1 \<le> i \<and> i < idx + 1 + n")
    case True
    then have "phys + PAGE_SIZE + (i - (idx + 1)) * PAGE_SIZE = phys + (i - idx) * PAGE_SIZE"
      by (metis Suc_diff_Suc Suc_eq_plus1 Suc_le_lessD add.assoc mult_Suc)
    then show ?thesis using True st'(3) that by (simp add: add.assoc)
  next
    case False
    then show ?thesis using st'(3) that by (auto simp: put_entry_nth [OF Suc.prems(1) idx])
  qed
  then show ?case using step st'(1,2) by (simp add: add.assoc)
qed

lemma unmap_lower_loop_ok:
  assumes "tables_ok st" and "idx + n \<le> PT_ENTRY_COUNT" and "virt + n * PAGE_SIZE < 2 ^ 64"
  shows "\<exists>st'. unmap_lower_loop st table idx virt (n * PAGE_SIZE) = Some (True, st', virt + n * PAGE_SIZE, 0) \<and>
    tables_ok st' \<and>
    (\<forall>t i. i < PT_ENTRY_COUNT \<longrightarrow> pt_tables st' t ! i =
      (if t = table \<and> idx \<le> i \<and> i < idx + n then 0 else pt_tables st t ! i))"
  using assms
proof (induction n arbitrary: st idx virt)
  case 0
  then show ?case by (auto simp: unmap_lower_loop.simps [of st])
next
  case (Suc n)
  let ?st = "put_entry st table idx 0"
  have idx: "idx < PT_ENTRY_COUNT" using Suc.prems(2) by simp
  have step: "unmap_lower_loop st table idx virt (Suc n * PAGE_SIZE) =
      unmap_lower_loop ?st table (idx + 1) (virt + PAGE_SIZE) (n * PAGE_SIZE)"
    using idx Suc.prems(1,3)
    by (simp add: unmap_lower_loop.simps [of st] get_entry_ok SIZES_3 uadd_small usub_le)
  obtain st' where st': "unmap_lower_loop ?st table (idx + 1) (virt + PAGE_SIZE) (n * PAGE_SIZE) =
      Some (True, st', virt + PAGE_SIZE + n * PAGE_SIZE, 0)" "tables_ok st'"
    "\<forall>t i. i < PT_ENTRY_COUNT \<longrightarrow> pt_tables st' t ! i =
      (if t = table \<and> idx + 1 \<le> i \<and> i < idx + 1 + n then 0 else pt_tables ?st t ! i)"
    using Suc.IH [OF put_entry_ok [OF Suc.prems(1)], of "idx + 1" "virt + PAGE_SIZE"]
      Suc.prems(2,3) by (force simp: add.assoc)
  have "pt_tables st' t ! i = (if t = table \<and> idx \<le> i \<and> i < idx + Suc n then 0 else pt_tables st t ! i)"
    if "i < PT_ENTRY_COUNT" for t i
    using st'(3) that by (auto simp: put_entry_nth [OF Suc.prems(1) idx])
  then show ?case using step st'(1,2) by (simp add: add.assoc)
qed

text \<open>
  C7: \<open>TableManager::map_lower\<close> maps exactly the pages it is asked for.  When the \<open>n\<close> entries
  from the one of \<open>virt\<close> on are unused, it succeeds, consumes the whole size, and then each of
  these entries is a valid page descriptor that holds the next physical page and the given
  attributes; every other entry of every table keeps its value.
\<close>

theorem map_lower_maps_pages:
  assumes "tables_ok st" and idx: "idx = (virt div 2 ^ 12) mod PT_ENTRY_COUNT" and n: "idx + n \<le> PT_ENTRY_COUNT"
    and phys: "page_offset phys = 0" "phys + n * PAGE_SIZE < 2 ^ 48" and "virt + n * PAGE_SIZE < 2 ^ 64"
    and "\<And>k. k < n \<Longrightarrow> descriptor_code (pt_tables st table ! (idx + k)) = PT_INVALID_DESCRIPTOR"
  shows "\<exists>st'. map_lower st table virt phys (n * PAGE_SIZE) flags =
      Some (True, st', virt + n * PAGE_SIZE, phys + n * PAGE_SIZE, 0) \<and> tables_ok st' \<and>
    (\<forall>k<n. descriptor_code (pt_tables st' table ! (idx + k)) = PT_LOWER_BLOCK_DESCRIPTOR \<and>
           table_page_address (pt_tables st' table ! (idx + k)) = phys + k * PAGE_SIZE \<and>
           (\<forall>b. 2 \<le> b \<longrightarrow> b < 12 \<or> 48 \<le> b \<longrightarrow> bit (pt_tables st' table ! (idx + k)) b = bit flags b)) \<and>
    (\<forall>t i. i < PT_ENTRY_COUNT \<longrightarrow> \<not> (t = table \<and> idx \<le> i \<and> i < idx + n) \<longrightarrow>
           pt_tables st' t ! i = pt_tables st t ! i)"
proof -
  have small: "phys + n * PAGE_SIZE < 2 ^ 64" using phys(2) by simp
  have shift: "SHIFTS ! 3 = 12" by (simp add: SHIFTS_def)
  obtain st' where st': "map_lower st table virt phys (n * PAGE_SIZE) flags =
      Some (True, st', virt + n * PAGE_SIZE, phys + n * PAGE_SIZE, 0)" "tables_ok st'"
    and entries: "\<forall>t i. i < PT_ENTRY_COUNT \<longrightarrow> pt_tables st' t ! i =
      (if t = table \<and> idx \<le> i \<and> i < idx + n then l3_create (phys + (i - idx) * PAGE_SIZE) flags
       else pt_tables st t ! i)"
    using map_lower_loop_ok [OF assms(1) n small assms(6) assms(7), of flags]
    unfolding map_lower_def shift idx [symmetric] by blast
  have page: "page_offset (phys + k * PAGE_SIZE) = 0" for k using phys(1) by (simp add: page_offset_def)
  have below: "phys + k * PAGE_SIZE < 2 ^ 48" if "k < n" for k
    using that phys(2) le_less_trans [of "phys + k * PAGE_SIZE" "phys + n * PAGE_SIZE"] by simp
  have entry: "pt_tables st' table ! (idx + k) = l3_create (phys + k * PAGE_SIZE) flags" if "k < n" for k
    using entries n that by simp
  have others: "pt_tables st' t ! i = pt_tables st t ! i"
    if "i < PT_ENTRY_COUNT" "\<not> (t = table \<and> idx \<le> i \<and> i < idx + n)" for t i
    using entries that by (metis (no_types, lifting))
  have "\<forall>k<n. descriptor_code (pt_tables st' table ! (idx + k)) = PT_LOWER_BLOCK_DESCRIPTOR \<and>
           table_page_address (pt_tables st' table ! (idx + k)) = phys + k * PAGE_SIZE \<and>
           (\<forall>b. 2 \<le> b \<longrightarrow> b < 12 \<or> 48 \<le> b \<longrightarrow> bit (pt_tables st' table ! (idx + k)) b = bit flags b)"
    using l3_create_fields [OF page below] by (simp add: entry)
  then show ?thesis using st' others by blast
qed

definition pt_demo :: pt_state where
  "pt_demo = \<lparr>pt_tables = (\<lambda>_. replicate PT_ENTRY_COUNT 1), pt_embedded_current = 0,
     pt_pages = []\<rparr>"

theorem map_lower_maps_pages_witness:
  "\<exists>st'. map_lower (pt_demo\<lparr>pt_tables := \<lambda>_. replicate PT_ENTRY_COUNT 0\<rparr>) 0 0 0 (2 * PAGE_SIZE) 0 =
      Some (True, st', 0 + 2 * PAGE_SIZE, 0 + 2 * PAGE_SIZE, 0)"
  using map_lower_maps_pages [of "pt_demo\<lparr>pt_tables := \<lambda>_. replicate PT_ENTRY_COUNT 0\<rparr>" 0 0 2 0 0 0]
  by (force simp: tables_ok_def pt_demo_def PT_ENTRY_COUNT_def page_offset_def PAGE_SIZE_def
      descriptor_code_def PT_INVALID_DESCRIPTOR_def)

subsection \<open>Unmapping blocks\<close>

lemma unmap_blocks_loop:
  assumes "tables_ok st" and "idx \<le> j" and "j \<le> PT_ENTRY_COUNT" and "0 < sz" and "level < 3"
    and "virt mod (SIZES ! level) = 0" and "sz \<ge> SIZES ! level"
    and "\<And>i. idx \<le> i \<Longrightarrow> i < j \<Longrightarrow> descriptor_code (pt_tables st table ! i) = PT_UPPER_BLOCK_DESCRIPTOR"
  shows "\<exists>st'. tables_ok st' \<and>
    unmap_upper_loop env st table idx virt sz level = unmap_upper_loop env st' table j virt sz level \<and>
    (\<forall>i < PT_ENTRY_COUNT. pt_tables st' table ! i = (if idx \<le> i \<and> i < j then 0 else pt_tables st table ! i))"
  using assms
proof (induction "j - idx" arbitrary: st idx)
  case 0
  then show ?case by (intro exI [of _ st]) auto
next
  case (Suc n)
  have idx: "idx < j" "idx < PT_ENTRY_COUNT" using Suc.hyps(2) Suc.prems(3) by simp_all
  let ?st = "put_entry st table idx 0"
  have step: "unmap_upper_loop env st table idx virt sz level = unmap_upper_loop env ?st table (idx + 1) virt sz level"
    using idx Suc.prems(1,4-7) Suc.prems(8) [OF order.refl idx(1)]
    by (simp add: unmap_upper_loop.simps [of env st] get_entry_ok Let_def
        PT_UPPER_TABLE_DESCRIPTOR_def PT_UPPER_BLOCK_DESCRIPTOR_def)
  have later: "descriptor_code (pt_tables ?st table ! i) = PT_UPPER_BLOCK_DESCRIPTOR"
    if "idx + 1 \<le> i" "i < j" for i
    using Suc.prems(8) [of i] that by (simp add: put_entry_nth [OF Suc.prems(1) idx(2)])
  obtain st' where st': "tables_ok st'"
    "unmap_upper_loop env ?st table (idx + 1) virt sz level = unmap_upper_loop env st' table j virt sz level"
    "\<forall>i < PT_ENTRY_COUNT. pt_tables st' table ! i = (if idx + 1 \<le> i \<and> i < j then 0 else pt_tables ?st table ! i)"
    using Suc.hyps(1) [of "idx + 1" ?st, OF _ put_entry_ok [OF Suc.prems(1)] _ Suc.prems(3-7) later] Suc.hyps(2) idx(1)
    by force
  have "pt_tables st' table ! i = (if idx \<le> i \<and> i < j then 0 else pt_tables st table ! i)" if "i < PT_ENTRY_COUNT" for i
    using st'(3) that idx by (cases "i = idx") (simp_all add: put_entry_nth [OF Suc.prems(1) idx(2)])
  then show ?case using st'(1,2) step by auto
qed


definition demo_env :: pt_env where
  "demo_env = \<lparr>pe_tables_start = 0, pe_tables_end = 0, pe_v2p = Some, pe_p2v = id\<rparr>"

text \<open>Three blocks at the start of a table that is empty otherwise: unmapping the first clears all three, and fails.\<close>

definition pt_blocks :: pt_state where
  "pt_blocks = pt_demo\<lparr>pt_tables := \<lambda>_. [PT_UPPER_BLOCK_DESCRIPTOR, PT_UPPER_BLOCK_DESCRIPTOR, PT_UPPER_BLOCK_DESCRIPTOR]
     @ replicate 509 0\<rparr>"


end
