(* ===== verification/Memory_Regions.thy ===== *)
theory Memory_Regions
  imports Translation_Tables
begin

text \<open>
  \<open>kernel/src/mm/memory_manager.cpp\<close>: sorting out the physical memory map that the device tree
  gives, and mapping the usable memory and device registers into the kernel's half of the address
  space.
\<close>

datatype region_kind = Memory | Reserved | Unknown

record annotated_region =
  ar_region :: region
  ar_kind :: region_kind

text \<open>The two loops that look for the next region: reserved regions first, then memory.\<close>

definition pick_reserved_step :: "region \<Rightarrow> annotated_region \<Rightarrow> region \<Rightarrow> annotated_region" where
  "pick_reserved_step remaining nxt r =
     (let i = rg_intersection remaining r
      in if rg_size i \<noteq> 0 \<and> rg_start i < rg_start (ar_region nxt)
         then \<lparr>ar_region = i, ar_kind = Reserved\<rparr> else nxt)"

definition pick_memory_step :: "region \<Rightarrow> annotated_region \<Rightarrow> region \<Rightarrow> annotated_region" where
  "pick_memory_step remaining nxt r =
     (let i = rg_intersection remaining r
      in if rg_size i \<noteq> 0 \<and> rg_start i < rg_start (ar_region nxt)
         then \<lparr>ar_region = (if rg_end i > rg_start (ar_region nxt)
                 then i\<lparr>rg_size := usub (rg_start (ar_region nxt)) (rg_start i)\<rparr> else i),
               ar_kind = Memory\<rparr>
         else nxt)"

definition no_region :: annotated_region where
  "no_region = \<lparr>ar_region = \<lparr>rg_start = 2 ^ 64 - 1, rg_size = 0\<rparr>, ar_kind = Unknown\<rparr>"

definition next_region :: "region list \<Rightarrow> region list \<Rightarrow> region \<Rightarrow> annotated_region" where
  "next_region mem_regions reserved_regions remaining =
     foldl (pick_memory_step remaining) (foldl (pick_reserved_step remaining) no_region reserved_regions) mem_regions"

partial_function (option) process_loop ::
  "region list \<Rightarrow> region list \<Rightarrow> region \<Rightarrow> annotated_region list \<Rightarrow> annotated_region list option" where
  "process_loop mem_regions reserved_regions remaining regions =
     (if rg_size remaining \<noteq> 0
      then (let nxt = next_region mem_regions reserved_regions remaining
            in if rg_size (ar_region nxt) \<noteq> 0
               then (let gap = (if rg_start (ar_region nxt) \<noteq> rg_start remaining
                       then [\<lparr>ar_region = \<lparr>rg_start = rg_start remaining,
                           rg_size = usub (rg_start (ar_region nxt)) (rg_start remaining)\<rparr>,
                           ar_kind = Unknown\<rparr>]
                       else [])
                     in process_loop mem_regions reserved_regions
                          \<lparr>rg_start = rg_end (ar_region nxt),
                           rg_size = usub (rg_size remaining) (usub (rg_end (ar_region nxt)) (rg_start remaining))\<rparr>
                          (regions @ gap @ [nxt]))
               else process_loop mem_regions reserved_regions
                      \<lparr>rg_start = rg_end remaining, rg_size = 0\<rparr>
                      (regions @ [\<lparr>ar_region = remaining, ar_kind = Unknown\<rparr>]))
      else Some regions)"

definition process_memory_regions :: "region list \<Rightarrow> region list \<Rightarrow> annotated_region list option" where
  "process_memory_regions mem_regions reserved_regions =
     process_loop mem_regions reserved_regions \<lparr>rg_start = 0, rg_size = 2 ^ 48\<rparr> []"

subsection \<open>The memory manager\<close>

definition VA_IDENT_OFFSET :: uSize where
  "VA_IDENT_OFFSET = 0xFFFF000000000000"

definition AttributesRWnE :: u64 where
  "AttributesRWnE = PrivilegedExecuteNever OR AF"

definition NormalRAM :: u64 where "NormalRAM = 1"
definition MMIO :: u64 where "MMIO = 0"

definition map_normal_memory :: "pt_env \<Rightarrow> pt_state \<Rightarrow> uSize \<Rightarrow> region \<Rightarrow> (region \<times> pt_state) option" where
  "map_normal_memory env st root r =
     (let v_ptr = uadd VA_IDENT_OFFSET (rg_start r)
      in do {
        (ok, st') \<leftarrow> map_region env st root v_ptr (rg_start r) (rg_size r) AttributesRWnE NormalRAM;
        verify ok;
        Some (\<lparr>rg_start = v_ptr, rg_size = rg_size r\<rparr>, st') })"

record device_area =
  da_physical_ptr :: uSize
  da_virtual_ptr :: uSize
  da_size :: uSize

definition da_subdivide :: "device_area \<Rightarrow> uSize \<Rightarrow> uSize \<Rightarrow> device_area" where
  "da_subdivide a offset sz =
     \<lparr>da_physical_ptr = uadd (da_physical_ptr a) offset, da_virtual_ptr = uadd (da_virtual_ptr a) offset,
      da_size = sz\<rparr>"

definition map_for_io :: "pt_env \<Rightarrow> pt_state \<Rightarrow> uSize \<Rightarrow> region \<Rightarrow> (device_area \<times> pt_state) option" where
  "map_for_io env st root r =
     (let aligned_region = rg_align_to_page r
      in do {
        (ok, st') \<leftarrow> map_region env st root (uadd VA_IDENT_OFFSET (rg_start aligned_region))
          (rg_start aligned_region) (rg_size aligned_region) AttributesRWnE MMIO;
        verify ok;
        Some (\<lparr>da_physical_ptr = rg_start r, da_virtual_ptr = uadd VA_IDENT_OFFSET (rg_start r),
               da_size = rg_size r\<rparr>, st') })"

text \<open>
  \<open>MemoryManager::initialise\<close>.  The contents of the memory that the page allocator takes its
  bitmaps from are whatever the memory holds: the parameter \<open>contents\<close>.
\<close>

fun mm_initialise :: "pt_env \<Rightarrow> (region \<Rightarrow> u8 list) \<Rightarrow> uSize \<Rightarrow> pt_state \<Rightarrow> annotated_region list \<Rightarrow> pt_state option" where
  "mm_initialise env contents root st [] = Some st"
| "mm_initialise env contents root st (ar # regions) =
     (if ar_kind ar = Memory
      then do {
        (v_region, st') \<leftarrow> map_normal_memory env st root (ar_region ar);
        pa \<leftarrow> register_new_region (pt_pages st') v_region (contents v_region);
        mm_initialise env contents root (st'\<lparr>pt_pages := pa\<rparr>) regions }
      else mm_initialise env contents root st regions)"

text \<open>
  The accesses of a PCIe device area, through 32-bit reads of the underlying memory.  The masks of the
  small reads are 32-bit constants, so they clear the upper half of the offset too.  The 16-bit read
  shifts a 32-bit value by 16 times the low two bits of the offset, which is undefined from the offset 2
  on.
\<close>

definition pcie_read_u8 :: "(uSize \<Rightarrow> u32) \<Rightarrow> uSize \<Rightarrow> u8" where
  "pcie_read_u8 rd offset = ucast (drop_bit (8 * (offset mod 4)) (rd (offset mod 2 ^ 32 - offset mod 4)) AND 0xFF)"

definition pcie_read_u16 :: "(uSize \<Rightarrow> u32) \<Rightarrow> uSize \<Rightarrow> u16 option" where
  "pcie_read_u16 rd offset =
     (if 16 * (offset mod 4) < 32
      then Some (ucast (drop_bit (16 * (offset mod 4)) (rd (offset mod 2 ^ 32 - offset mod 2)) AND 0xFFFF)) else None)"

definition pcie_read_u64 :: "(uSize \<Rightarrow> u32) \<Rightarrow> uSize \<Rightarrow> u64" where
  "pcie_read_u64 rd offset = ucast (rd offset) OR push_bit 32 (ucast (rd (uadd offset 4)))"

subsection \<open>The memory map is a partition\<close>

definition kind_of_addr :: "region list \<Rightarrow> region list \<Rightarrow> nat \<Rightarrow> region_kind" where
  "kind_of_addr mem_regions reserved_regions a =
     (if \<exists>r\<in>set reserved_regions. a \<in> rg_addrs r then Reserved
      else if \<exists>r\<in>set mem_regions. a \<in> rg_addrs r then Memory else Unknown)"

fun tiles :: "nat \<Rightarrow> region list \<Rightarrow> nat \<Rightarrow> bool" where
  "tiles s [] e \<longleftrightarrow> s = e"
| "tiles s (r # rs) e \<longleftrightarrow> rg_start r = s \<and> 0 < rg_size r \<and> tiles (s + rg_size r) rs e"

lemma tiles_append: "tiles s (rs @ rs') e \<longleftrightarrow> (\<exists>m. tiles s rs m \<and> tiles m rs' e)"
  by (induction rs arbitrary: s) auto

definition Addrs :: "region list \<Rightarrow> nat set" where
  "Addrs rs = (\<Union>r\<in>set rs. rg_addrs r)"

lemma Addrs_snoc: "Addrs (rs @ [r]) = Addrs rs \<union> rg_addrs r"
  by (auto simp: Addrs_def)

lemma rg_addrs_empty_iff: "rg_addrs r = {} \<longleftrightarrow> rg_size r = 0"
  by (auto simp: rg_addrs_def)

lemma rg_start_least: "rg_size r \<noteq> 0 \<Longrightarrow> rg_start r \<in> rg_addrs r \<and> (\<forall>a\<in>rg_addrs r. rg_start r \<le> a)"
  by (auto simp: rg_addrs_def)

lemma region_ok_intersection:
  "region_ok r \<Longrightarrow> region_ok s \<Longrightarrow> region_ok (rg_intersection r s)"
  by (auto simp: rg_intersection_def Let_def rg_end_eq region_ok_def usub_le min_def max_def)

text \<open>What the loop over the reserved regions \<open>rs\<close> has found.\<close>

definition reserved_found :: "region \<Rightarrow> region list \<Rightarrow> annotated_region \<Rightarrow> bool" where
  "reserved_found rem rs n \<longleftrightarrow> region_ok (ar_region n) \<and>
     (n = no_region \<and> rg_addrs rem \<inter> Addrs rs = {} \<or>
      ar_kind n = Reserved \<and> rg_size (ar_region n) \<noteq> 0 \<and>
      rg_addrs (ar_region n) \<subseteq> rg_addrs rem \<inter> Addrs rs \<and>
      (\<forall>a\<in>rg_addrs rem \<inter> Addrs rs. rg_start (ar_region n) \<le> a))"

lemma reserved_found_step:
  assumes found: "reserved_found rem rs n" and ok: "region_ok rem" "region_ok r"
  shows "reserved_found rem (rs @ [r]) (pick_reserved_step rem n r)"
proof -
  let ?i = "rg_intersection rem r"
  have addrs: "rg_addrs ?i = rg_addrs rem \<inter> rg_addrs r" using ok by (rule rg_intersection_addrs)
  have iok: "region_ok ?i" using ok by (rule region_ok_intersection)
  have set: "rg_addrs rem \<inter> Addrs (rs @ [r]) = (rg_addrs rem \<inter> Addrs rs) \<union> rg_addrs ?i"
    by (auto simp: Addrs_snoc addrs)
  show ?thesis
  proof (cases "rg_size ?i \<noteq> 0 \<and> rg_start ?i < rg_start (ar_region n)")
    case True
    have old: "rg_start (ar_region n) \<le> a" if "a \<in> rg_addrs rem \<inter> Addrs rs" for a
      using that found unfolding reserved_found_def by blast
    have "rg_start ?i \<le> a" if "a \<in> (rg_addrs rem \<inter> Addrs rs) \<union> rg_addrs ?i" for a
      using that True old [of a] rg_start_least [of ?i] by (meson UnE less_le_trans less_imp_le)
    moreover have "pick_reserved_step rem n r = \<lparr>ar_region = ?i, ar_kind = Reserved\<rparr>"
      using True by (simp add: pick_reserved_step_def Let_def)
    ultimately show ?thesis
      using True iok unfolding reserved_found_def set by simp
  next
    case False
    have same: "pick_reserved_step rem n r = n" using False by (auto simp: pick_reserved_step_def Let_def)
    show ?thesis
    proof (cases "n = no_region")
      case True
      then have "rg_size ?i = 0" using False iok by (auto simp: no_region_def region_ok_def)
      then show ?thesis
        using True found unfolding reserved_found_def set same
        by (simp add: rg_addrs_empty_iff no_region_def)
    next
      case other: False
      have "rg_start (ar_region n) \<le> a" if "a \<in> rg_addrs ?i" for a
        using that False by (auto simp: rg_addrs_def)
      then show ?thesis
        using other found unfolding reserved_found_def set same by blast
    qed
  qed
qed

lemma reserved_found_all:
  assumes "region_ok rem" and "list_all region_ok rs"
  shows "reserved_found rem rs (foldl (pick_reserved_step rem) no_region rs)"
  using assms(2)
proof (induction rs rule: rev_induct)
  case Nil
  then show ?case by (simp add: reserved_found_def Addrs_def no_region_def region_ok_def)
next
  case (snoc r rs)
  then show ?case using reserved_found_step [OF _ assms(1)] by simp
qed

text \<open>What the loop over the memory regions \<open>ms\<close> has found, after \<open>n0\<close> among the reserved ones.\<close>

definition memory_found :: "region \<Rightarrow> annotated_region \<Rightarrow> region list \<Rightarrow> annotated_region \<Rightarrow> bool" where
  "memory_found rem n0 ms n \<longleftrightarrow> region_ok (ar_region n) \<and>
     (\<forall>a\<in>rg_addrs rem \<inter> Addrs ms. rg_start (ar_region n) \<le> a) \<and>
     (n = n0 \<or>
      ar_kind n = Memory \<and> rg_size (ar_region n) \<noteq> 0 \<and>
      rg_addrs (ar_region n) \<subseteq> rg_addrs rem \<inter> Addrs ms \<and>
      rg_start (ar_region n) + rg_size (ar_region n) \<le> rg_start (ar_region n0))"

lemma memory_found_step:
  assumes found: "memory_found rem n0 ms n" and ok: "region_ok rem" "region_ok r"
  shows "memory_found rem n0 (ms @ [r]) (pick_memory_step rem n r)"
proof -
  let ?i = "rg_intersection rem r"
  have addrs: "rg_addrs ?i = rg_addrs rem \<inter> rg_addrs r" using ok by (rule rg_intersection_addrs)
  have iok: "region_ok ?i" using ok by (rule region_ok_intersection)
  have set: "rg_addrs rem \<inter> Addrs (ms @ [r]) = (rg_addrs rem \<inter> Addrs ms) \<union> rg_addrs ?i"
    by (auto simp: Addrs_snoc addrs)
  have old: "rg_start (ar_region n) \<le> rg_start (ar_region n0)"
    using found by (auto simp: memory_found_def)
  have start: "rg_start (ar_region n) \<le> a" if "a \<in> rg_addrs rem \<inter> Addrs ms" for a
    using that found unfolding memory_found_def by blast
  show ?thesis
  proof (cases "rg_size ?i \<noteq> 0 \<and> rg_start ?i < rg_start (ar_region n)")
    case True
    define j where "j = (if rg_end ?i > rg_start (ar_region n)
      then ?i\<lparr>rg_size := usub (rg_start (ar_region n)) (rg_start ?i)\<rparr> else ?i)"
    have j: "rg_start j = rg_start ?i" "rg_size j \<noteq> 0" "rg_size j \<le> rg_size ?i"
      "rg_start j + rg_size j \<le> rg_start (ar_region n)"
      using True by (auto simp: j_def rg_end_eq [OF iok] usub_le)
    have "rg_addrs j \<subseteq> rg_addrs ?i" using j(1,3) by (auto simp: rg_addrs_def)
    moreover have "region_ok j" using j(1,3) iok by (simp add: region_ok_def)
    moreover have "rg_start j \<le> a" if "a \<in> (rg_addrs rem \<inter> Addrs ms) \<union> rg_addrs ?i" for a
      using that True start [of a] rg_start_least [of ?i] unfolding j(1) by (meson UnE less_le_trans less_imp_le)
    moreover have "pick_memory_step rem n r = \<lparr>ar_region = j, ar_kind = Memory\<rparr>"
      using True by (simp add: pick_memory_step_def Let_def j_def)
    ultimately show ?thesis
      using j(2,4) old unfolding memory_found_def set by (simp add: le_supI2)
  next
    case False
    have "rg_start (ar_region n) \<le> a" if "a \<in> rg_addrs ?i" for a
      using that False by (auto simp: rg_addrs_def)
    moreover have "pick_memory_step rem n r = n" using False by (auto simp: pick_memory_step_def Let_def)
    ultimately show ?thesis
      using found unfolding memory_found_def set by (simp only:) blast
  qed
qed

lemma memory_found_all:
  assumes "region_ok rem" and "list_all region_ok ms" and "region_ok (ar_region n0)"
  shows "memory_found rem n0 ms (foldl (pick_memory_step rem) n0 ms)"
  using assms(2)
proof (induction ms rule: rev_induct)
  case Nil
  then show ?case using assms(3) by (simp add: memory_found_def Addrs_def)
next
  case (snoc r ms)
  then show ?case using memory_found_step [OF _ assms(1)] by simp
qed

text \<open>
  So the region picked next starts at or before every listed address that remains, lies inside one
  kind of region only, and there is one if there is such an address at all.
\<close>

lemma next_region_spec:
  assumes "region_ok rem" and "list_all region_ok ms" and "list_all region_ok rs"
  defines "n \<equiv> next_region ms rs rem"
  shows "region_ok (ar_region n)"
    and "rg_size (ar_region n) = 0 \<Longrightarrow> rg_addrs rem \<inter> (Addrs ms \<union> Addrs rs) = {}"
    and "rg_size (ar_region n) \<noteq> 0 \<Longrightarrow> rg_addrs (ar_region n) \<subseteq> rg_addrs rem"
    and "rg_size (ar_region n) \<noteq> 0 \<Longrightarrow> a \<in> rg_addrs (ar_region n) \<Longrightarrow> ar_kind n = kind_of_addr ms rs a"
    and "rg_size (ar_region n) \<noteq> 0 \<Longrightarrow> a \<in> rg_addrs rem \<Longrightarrow> a < rg_start (ar_region n) \<Longrightarrow>
      kind_of_addr ms rs a = Unknown"
proof -
  define n0 where "n0 = foldl (pick_reserved_step rem) no_region rs"
  have r: "reserved_found rem rs n0" unfolding n0_def using assms(1,3) by (rule reserved_found_all)
  then have "region_ok (ar_region n0)" by (simp add: reserved_found_def)
  then have m: "memory_found rem n0 ms n"
    unfolding n_def next_region_def n0_def [symmetric] using assms(1,2) by (intro memory_found_all)
  then show "region_ok (ar_region n)" by (simp add: memory_found_def)
  have low: "rg_start (ar_region n) \<le> rg_start (ar_region n0)"
    using m by (auto simp: memory_found_def)
  have least: "\<And>a. a \<in> rg_addrs rem \<inter> Addrs ms \<Longrightarrow> rg_start (ar_region n) \<le> a"
    using m by (auto simp: memory_found_def)
  have least0: "a \<in> rg_addrs rem \<inter> Addrs rs \<Longrightarrow> rg_start (ar_region n0) \<le> a" for a
    using r by (auto simp: reserved_found_def)
  have kind: "kind_of_addr ms rs a = (if a \<in> Addrs rs then Reserved else if a \<in> Addrs ms then Memory else Unknown)"
    for a by (simp add: kind_of_addr_def Addrs_def)
  show "rg_addrs rem \<inter> (Addrs ms \<union> Addrs rs) = {}" if z: "rg_size (ar_region n) = 0"
  proof -
    have "n = n0" "n0 = no_region" "rg_addrs rem \<inter> Addrs rs = {}"
      using z m r by (auto simp: memory_found_def reserved_found_def)
    moreover have "a < 2 ^ 64 - 1" if "a \<in> rg_addrs rem" for a
      using that assms(1) by (auto simp: rg_addrs_def region_ok_def)
    moreover have "rg_start (ar_region no_region) = 2 ^ 64 - 1" by (simp add: no_region_def)
    ultimately show ?thesis using least by fastforce
  qed
  have split: "n = n0 \<and> ar_kind n = Reserved \<and> rg_addrs (ar_region n) \<subseteq> rg_addrs rem \<inter> Addrs rs \<or>
      ar_kind n = Memory \<and> rg_addrs (ar_region n) \<subseteq> rg_addrs rem \<inter> Addrs ms \<and>
      rg_start (ar_region n) + rg_size (ar_region n) \<le> rg_start (ar_region n0)"
    if "rg_size (ar_region n) \<noteq> 0"
    using that m r by (auto simp: memory_found_def reserved_found_def no_region_def)
  then show "rg_addrs (ar_region n) \<subseteq> rg_addrs rem" if "rg_size (ar_region n) \<noteq> 0"
    using that by blast
  show "ar_kind n = kind_of_addr ms rs a" if "rg_size (ar_region n) \<noteq> 0" "a \<in> rg_addrs (ar_region n)"
  proof -
    have "a < rg_start (ar_region n) + rg_size (ar_region n)" using that(2) by (simp add: rg_addrs_def)
    then show ?thesis
      using split [OF that(1)] least0 [of a] that(2) unfolding kind by force
  qed
  show "kind_of_addr ms rs a = Unknown" if "a \<in> rg_addrs rem" "a < rg_start (ar_region n)"
    using least [of a] least0 [of a] low that unfolding kind by force
qed

lemma process_loop_ok:
  assumes "s \<le> e" and "e < 2 ^ 64" and "list_all region_ok ms" and "list_all region_ok rs"
  shows "\<exists>regs. process_loop ms rs \<lparr>rg_start = s, rg_size = e - s\<rparr> acc = Some (acc @ regs) \<and>
    tiles s (map ar_region regs) e \<and>
    (\<forall>ar\<in>set regs. \<forall>a\<in>rg_addrs (ar_region ar). ar_kind ar = kind_of_addr ms rs a)"
  using assms(1)
proof (induction "e - s" arbitrary: s acc rule: less_induct)
  case less
  let ?rem = "\<lparr>rg_start = s, rg_size = e - s\<rparr>"
  have ok: "region_ok ?rem" using less.prems assms(2) by (simp add: region_ok_def)
  have rem: "rg_addrs ?rem = {s..<e}" using less.prems by (simp add: rg_addrs_def)
  have rem_end: "rg_end ?rem = e" using less.prems by (simp add: rg_end_eq [OF ok])
  define n where "n = next_region ms rs ?rem"
  note spec = next_region_spec [OF ok assms(3,4), folded n_def]
  consider "e = s" | "s < e" "rg_size (ar_region n) = 0" | "s < e" "rg_size (ar_region n) \<noteq> 0"
    using less.prems by fastforce
  then show ?case
  proof cases
    case 1
    then show ?thesis by (intro exI [of _ "[]"]) (simp add: process_loop.simps [of ms rs "\<lparr>rg_start = s, rg_size = 0\<rparr>"])
  next
    case 2
    have "kind_of_addr ms rs a = Unknown" if "a \<in> {s..<e}" for a
      using that spec(2) [OF 2(2)] unfolding rem by (auto simp: kind_of_addr_def Addrs_def)
    moreover have "process_loop ms rs ?rem acc = Some (acc @ [\<lparr>ar_region = ?rem, ar_kind = Unknown\<rparr>])"
      using 2 by (simp add: process_loop.simps [of ms rs ?rem] n_def [symmetric] process_loop.simps [of ms rs "\<lparr>rg_start = _, rg_size = 0\<rparr>"])
    ultimately show ?thesis
      using 2 less.prems by (intro exI [of _ "[\<lparr>ar_region = ?rem, ar_kind = Unknown\<rparr>]"]) (simp add: rem)
  next
    case 3
    let ?b = "rg_start (ar_region n)" and ?c = "rg_start (ar_region n) + rg_size (ar_region n)"
    have c: "rg_end (ar_region n) = ?c" using spec(1) by (rule rg_end_eq)
    have bounds: "s \<le> ?b" "?b < ?c" "?c \<le> e"
    proof -
      have "?b \<in> {s..<e}" "?c - 1 \<in> {s..<e}"
        using spec(3) [OF 3(2)] 3(2) unfolding rem by (auto simp: rg_addrs_def)
      then show "s \<le> ?b" "?b < ?c" "?c \<le> e" using 3(2) by auto
    qed
    define gap where "gap = (if ?b \<noteq> s then [\<lparr>ar_region = \<lparr>rg_start = s, rg_size = ?b - s\<rparr>, ar_kind = Unknown\<rparr>] else [])"
    have step: "process_loop ms rs ?rem acc = process_loop ms rs \<lparr>rg_start = ?c, rg_size = e - ?c\<rparr> (acc @ gap @ [n])"
      using 3 bounds
      by (simp add: process_loop.simps [of ms rs ?rem] n_def [symmetric] Let_def c usub_le gap_def)
    obtain regs where regs: "process_loop ms rs \<lparr>rg_start = ?c, rg_size = e - ?c\<rparr> (acc @ gap @ [n])
        = Some ((acc @ gap @ [n]) @ regs)" "tiles ?c (map ar_region regs) e"
      "\<forall>ar\<in>set regs. \<forall>a\<in>rg_addrs (ar_region ar). ar_kind ar = kind_of_addr ms rs a"
      using less.hyps [of ?c "acc @ gap @ [n]"] bounds by fastforce
    have "tiles s (map ar_region (gap @ [n])) ?c"
      using bounds 3(2) by (auto simp: gap_def)
    then have "tiles s (map ar_region (gap @ [n] @ regs)) e"
      using regs(2) by (auto simp: tiles_append)
    moreover have "ar_kind ar = kind_of_addr ms rs a" if "ar \<in> set (gap @ [n])" "a \<in> rg_addrs (ar_region ar)" for ar a
    proof (cases "ar = n")
      case True
      then show ?thesis using spec(4) [OF 3(2)] that(2) by simp
    next
      case False
      then have "a \<in> {s..<?b}" "ar_kind ar = Unknown"
        using that bounds by (auto simp: gap_def rg_addrs_def split: if_splits)
      then show ?thesis using spec(5) [OF 3(2), of a] bounds unfolding rem by simp
    qed
    ultimately show ?thesis
      using regs(1,3) step by (intro exI [of _ "gap @ [n] @ regs"]) auto
  qed
qed

text \<open>
  C8: \<open>process_memory_regions\<close> ends and turns any list of memory and reserved regions (overlapping,
  unsorted, empty) into a partition of the 48-bit physical address space: the regions it returns
  follow each other without gap or overlap from 0 to \<open>2 ^ 48\<close>, none is empty, and an address lies in
  a reserved region of the result iff some input reserves it, and otherwise in a memory region iff
  some input lists it as memory.
\<close>

theorem process_memory_regions_partition:
  assumes "list_all region_ok ms" and "list_all region_ok rs"
  shows "\<exists>regs. process_memory_regions ms rs = Some regs \<and> tiles 0 (map ar_region regs) (2 ^ 48) \<and>
    (\<forall>ar\<in>set regs. \<forall>a\<in>rg_addrs (ar_region ar). ar_kind ar = kind_of_addr ms rs a)"
  using process_loop_ok [OF _ _ assms, of 0 "2 ^ 48" "[]"] by (simp add: process_memory_regions_def)

theorem process_memory_regions_partition_witness:
  "\<exists>regs. process_memory_regions [\<lparr>rg_start = 0, rg_size = 4096\<rparr>] [\<lparr>rg_start = 100, rg_size = 8\<rparr>] = Some regs \<and>
     tiles 0 (map ar_region regs) (2 ^ 48) \<and>
     (\<forall>ar\<in>set regs. \<forall>a\<in>rg_addrs (ar_region ar). ar_kind ar =
        kind_of_addr [\<lparr>rg_start = 0, rg_size = 4096\<rparr>] [\<lparr>rg_start = 100, rg_size = 8\<rparr>] a)"
  by (rule process_memory_regions_partition) (simp_all add: region_ok_def)

end
