(* ===== verification/Vector.thy ===== *)
theory Vector
  imports Bek_Utility
begin

text \<open>
  \<open>bek/include/bek/vector.h\<close>.  The storage of a vector is a list of slots, as long as the
  capacity: \<open>Some x\<close> is a constructed element and \<open>None\<close> raw memory.  Reading a slot that
  holds no element, or a slot outside the storage, is undefined in C++ and \<open>None\<close> here.
  \<open>mem::allocate\<close> gives raw memory of the size asked for; an allocation that fails stops the
  kernel in the allocator.
\<close>

record 'a bek_vector =
  vec_size :: uSize
  vec_slots :: "'a option list"

definition vec_capacity :: "'a bek_vector \<Rightarrow> uSize" where
  "vec_capacity v = length (vec_slots v)"

definition vec_empty :: "'a bek_vector" where
  "vec_empty = \<lparr>vec_size = 0, vec_slots = []\<rparr>"

definition slot_get :: "'a option list \<Rightarrow> uSize \<Rightarrow> 'a option" where
  "slot_get slots i = (if i < length slots then slots ! i else None)"

definition slot_put :: "'a option list \<Rightarrow> uSize \<Rightarrow> 'a option \<Rightarrow> 'a option list option" where
  "slot_put slots i x = (if i < length slots then Some (slots[i := x]) else None)"

text \<open>The doubling loop of \<open>ensure_capacity\<close>; the capacity it looks for may not exist.\<close>

partial_function (option) grow_capacity :: "uSize \<Rightarrow> uSize \<Rightarrow> uSize option" where
  "grow_capacity new_capacity capacity =
     (if new_capacity < capacity then grow_capacity (umul new_capacity 2) capacity else Some new_capacity)"

text \<open>
  The element type: its size, and whether it is trivially copyable, in which case new storage is filled by
  \<open>memcopy\<close>, which refuses more than 2 MiB.  The old storage exists when the capacity is not 0.  A size in
  bytes that wraps around gives a block that is too small for the capacity: \<open>None\<close>, as for the storage
  that is written past its end.
\<close>

record elem_type =
  et_size :: uSize
  et_trivial :: bool

definition expand_storage :: "elem_type \<Rightarrow> 'a bek_vector \<Rightarrow> uSize \<Rightarrow> 'a bek_vector option" where
  "expand_storage t v new_capacity = do {
     verify (new_capacity * et_size t < 2 ^ 64);
     verify (vec_slots v = [] \<or> \<not> et_trivial t \<or> vec_size v * et_size t \<le> MAX_MEMCOPY);
     Some (v\<lparr>vec_slots := take (vec_size v) (vec_slots v) @ replicate (new_capacity - vec_size v) None\<rparr>) }"

definition ensure_capacity :: "elem_type \<Rightarrow> 'a bek_vector \<Rightarrow> uSize \<Rightarrow> 'a bek_vector option" where
  "ensure_capacity t v capacity = do {
     new_capacity \<leftarrow> grow_capacity (if vec_capacity v \<noteq> 0 then vec_capacity v else 1) capacity;
     (if new_capacity \<noteq> vec_capacity v then expand_storage t v new_capacity else Some v) }"

definition vec_reserve :: "elem_type \<Rightarrow> 'a bek_vector \<Rightarrow> uSize \<Rightarrow> 'a bek_vector option" where
  "vec_reserve t v n = ensure_capacity t v n"

definition vec_expand :: "elem_type \<Rightarrow> 'a bek_vector \<Rightarrow> uSize \<Rightarrow> 'a bek_vector option" where
  "vec_expand t v n = do {
     v' \<leftarrow> vec_reserve t v (uadd n (vec_size v));
     Some (v'\<lparr>vec_size := uadd n (vec_size v')\<rparr>) }"

definition vec_push_back :: "elem_type \<Rightarrow> 'a bek_vector \<Rightarrow> 'a \<Rightarrow> 'a bek_vector option" where
  "vec_push_back t v item = do {
     v' \<leftarrow> ensure_capacity t v (uadd (vec_size v) 1);
     slots \<leftarrow> slot_put (vec_slots v') (vec_size v') (Some item);
     Some \<lparr>vec_size = uadd (vec_size v') 1, vec_slots = slots\<rparr> }"

text \<open>
  The loop that makes room in \<open>insert\<close>.  Its counter is unsigned: after position 0 it wraps
  around to the largest \<open>uSize\<close>, which still satisfies the loop condition, and the next
  access is outside the storage.
\<close>

fun insert_shift :: "'a option list \<Rightarrow> uSize \<Rightarrow> uSize \<Rightarrow> 'a option list option" where
  "insert_shift slots i idx =
     (if i \<le> idx
      then do {
        x \<leftarrow> slot_get slots idx;
        slots1 \<leftarrow> slot_put slots (idx + 1) (Some x);
        slots2 \<leftarrow> slot_put slots1 idx None;
        (if idx = 0 then None else insert_shift slots2 i (idx - 1)) }
      else Some slots)"

declare insert_shift.simps [simp del]

definition vec_insert :: "elem_type \<Rightarrow> 'a bek_vector \<Rightarrow> uSize \<Rightarrow> 'a \<Rightarrow> 'a bek_vector option" where
  "vec_insert t v i item = do {
     verify (i < vec_size v);
     v' \<leftarrow> ensure_capacity t v (uadd (vec_size v) 1);
     slots \<leftarrow> insert_shift (vec_slots v') i (vec_size v' - 1);
     slots' \<leftarrow> slot_put slots i (Some item);
     Some \<lparr>vec_size = uadd (vec_size v') 1, vec_slots = slots'\<rparr> }"

fun pop_shift :: "'a option list \<Rightarrow> uSize \<Rightarrow> nat \<Rightarrow> 'a option list option" where
  "pop_shift slots idx 0 = Some slots"
| "pop_shift slots idx (Suc n) = do {
     x \<leftarrow> slot_get slots idx;
     slots' \<leftarrow> slot_put slots (idx - 1) (Some x);
     pop_shift slots' (idx + 1) n }"

definition vec_pop :: "'a bek_vector \<Rightarrow> uSize \<Rightarrow> ('a \<times> 'a bek_vector) option" where
  "vec_pop v i = do {
     verify (i < vec_size v);
     x \<leftarrow> slot_get (vec_slots v) i;
     slots \<leftarrow> pop_shift (vec_slots v) (i + 1) (vec_size v - (i + 1));
     slots' \<leftarrow> slot_put slots (vec_size v - 1) None;
     Some (x, \<lparr>vec_size = vec_size v - 1, vec_slots = slots'\<rparr>) }"

definition vec_pop_last :: "'a bek_vector \<Rightarrow> ('a \<times> 'a bek_vector) option" where
  "vec_pop_last v = vec_pop v (usub (vec_size v) 1)"

text \<open>\<open>extract\<close> takes a reference to an element; the reference is its position.\<close>

definition vec_extract :: "'a bek_vector \<Rightarrow> uSize \<Rightarrow> ('a \<times> 'a bek_vector) option" where
  "vec_extract v i = vec_pop v i"

definition vec_at :: "'a bek_vector \<Rightarrow> uSize \<Rightarrow> 'a option" where
  "vec_at v n = slot_get (vec_slots v) n"

definition vec_back :: "'a bek_vector \<Rightarrow> 'a option" where
  "vec_back v = vec_at v (usub (vec_size v) 1)"

definition vec_clear :: "'a bek_vector \<Rightarrow> 'a bek_vector" where
  "vec_clear v = \<lparr>vec_size = 0, vec_slots = replicate (vec_size v) None @ drop (vec_size v) (vec_slots v)\<rparr>"

text \<open>
  The copy assignment clears the vector first, and then copies as many elements as the vector it
  assigns to has left: none.
\<close>

definition vec_assign :: "elem_type \<Rightarrow> 'a bek_vector \<Rightarrow> 'a bek_vector \<Rightarrow> 'a bek_vector option" where
  "vec_assign t v other = do {
     v1 \<leftarrow> vec_reserve t (vec_clear v) (vec_size other);
     (let copied = map (\<lambda>i. slot_get (vec_slots other) i) [0..<vec_size v1]
      in Some \<lparr>vec_size = vec_size other, vec_slots = copied @ drop (vec_size v1) (vec_slots v1)\<rparr>) }"

subsection \<open>Vectors are lists\<close>

definition vec_ok :: "'a bek_vector \<Rightarrow> bool" where
  "vec_ok v \<longleftrightarrow> vec_size v \<le> vec_capacity v \<and> vec_capacity v \<le> 2 ^ 62 \<and>
     (\<forall>i < vec_size v. vec_slots v ! i \<noteq> None)"

definition vec_list :: "'a bek_vector \<Rightarrow> 'a list" where
  "vec_list v = map the (take (vec_size v) (vec_slots v))"

definition vec_rep :: "'a bek_vector \<Rightarrow> 'a list \<Rightarrow> bool" where
  "vec_rep v xs \<longleftrightarrow> vec_size v = length xs \<and> vec_capacity v \<le> 2 ^ 62 \<and>
     (\<exists>rest. vec_slots v = map Some xs @ rest)"

lemma vec_ok_rep: "vec_ok v \<longleftrightarrow> vec_rep v (vec_list v)"
proof
  assume ok: "vec_ok v"
  have "map Some (vec_list v) = take (vec_size v) (vec_slots v)"
    using ok by (intro nth_equalityI) (auto simp: vec_list_def vec_ok_def vec_capacity_def)
  then have "vec_slots v = map Some (vec_list v) @ drop (vec_size v) (vec_slots v)" by simp
  then show "vec_rep v (vec_list v)"
    using ok unfolding vec_rep_def
    by (metis (no_types, lifting) length_map length_take min.absorb2 vec_capacity_def vec_list_def vec_ok_def)
next
  assume "vec_rep v (vec_list v)"
  then obtain rest where r: "vec_slots v = map Some (vec_list v) @ rest" "vec_size v = length (vec_list v)"
    "vec_capacity v \<le> 2 ^ 62" by (auto simp: vec_rep_def)
  then show "vec_ok v" by (auto simp: vec_ok_def vec_capacity_def nth_append)
qed

lemma vec_rep_list: "vec_rep v xs \<Longrightarrow> vec_list v = xs"
  by (auto simp: vec_rep_def vec_list_def)

lemma grow_capacity_spec:
  assumes "0 < c" and "c \<le> 2 ^ 63" and "want \<le> 2 ^ 63"
  shows "\<exists>c'. grow_capacity c want = Some c' \<and> want \<le> c' \<and> c \<le> c' \<and> (c' = c \<or> c' < 2 * want)"
  using assms(1,2)
proof (induction "want - c" arbitrary: c rule: less_induct)
  case less
  show ?case
  proof (cases "c < want")
    case True
    then have double: "umul c 2 = 2 * c" using assms(3) by (simp add: umul_def)
    have "\<exists>c'. grow_capacity (2 * c) want = Some c' \<and> want \<le> c' \<and> 2 * c \<le> c' \<and> (c' = 2 * c \<or> c' < 2 * want)"
    proof (cases "2 * c \<le> 2 ^ 63")
      case fits: True
      show ?thesis by (rule less.hyps) (use True fits less.prems in auto)
    next
      case False
      then show ?thesis using True assms(3) by (auto simp: grow_capacity.simps [of "2 * c"])
    qed
    then show ?thesis using True double by (auto simp: grow_capacity.simps [of c])
  qed (simp add: grow_capacity.simps [of c])
qed

text \<open>New storage can be had for \<open>want\<close> elements: sizes do not wrap, and \<open>memcopy\<close> accepts the old ones.\<close>

definition may_grow :: "elem_type \<Rightarrow> 'a bek_vector \<Rightarrow> uSize \<Rightarrow> bool" where
  "may_grow t v want \<longleftrightarrow> want \<le> vec_capacity v \<or>
     (2 * want * et_size t < 2 ^ 64 \<and> (et_trivial t \<longrightarrow> vec_size v * et_size t \<le> MAX_MEMCOPY))"

lemma ensure_capacity_spec:
  assumes rep: "vec_rep v xs" and want: "0 < want" "want \<le> 2 ^ 61" and may: "may_grow t v want"
  shows "\<exists>v'. ensure_capacity t v want = Some v' \<and> vec_rep v' xs \<and> want \<le> vec_capacity v' \<and>
    vec_capacity v \<le> vec_capacity v' \<and> (vec_capacity v' = vec_capacity v \<or> vec_capacity v' \<le> 2 * want)"
proof -
  define c where "c = (if vec_capacity v \<noteq> 0 then vec_capacity v else 1)"
  have cap: "vec_capacity v \<le> 2 ^ 62" "length xs \<le> vec_capacity v" using rep by (auto simp: vec_rep_def vec_capacity_def)
  have c: "0 < c" "c \<le> 2 ^ 63" "vec_capacity v \<le> c" using cap(1) by (auto simp: c_def)
  then obtain c' where c': "grow_capacity c want = Some c'" "want \<le> c'" "c \<le> c'" "c' = c \<or> c' < 2 * want"
    using grow_capacity_spec [of c want] want by auto
  have "c' \<le> 2 ^ 62" "c' = vec_capacity v \<or> c' \<le> 2 * want" using c' cap(1) want by (auto simp: c_def split: if_splits)
  obtain rest where rest: "vec_slots v = map Some xs @ rest" "vec_size v = length xs"
    using rep by (auto simp: vec_rep_def)
  show ?thesis
  proof (cases "c' = vec_capacity v")
    case True
    then show ?thesis using c' rep unfolding ensure_capacity_def c_def [symmetric] by simp
  next
    case False
    let ?v = "v\<lparr>vec_slots := take (vec_size v) (vec_slots v) @ replicate (c' - vec_size v) None\<rparr>"
    have grows: "\<not> want \<le> vec_capacity v"
      using False c'(1) want(1) by (auto simp: c_def grow_capacity.simps split: if_splits)
    then have "c' \<le> 2 * want" "2 * want * et_size t < 2 ^ 64" "et_trivial t \<longrightarrow> vec_size v * et_size t \<le> MAX_MEMCOPY"
      using may False \<open>c' = vec_capacity v \<or> c' \<le> 2 * want\<close> by (auto simp: may_grow_def)
    moreover from this have "c' * et_size t < 2 ^ 64"
      by (intro le_less_trans [OF mult_le_mono1 [of c' "2 * want" "et_size t"]])
    ultimately have "expand_storage t v c' = Some ?v" by (auto simp: expand_storage_def)
    moreover have "vec_rep ?v xs" "vec_capacity ?v = c'"
      using rest c'(3) c cap(2) \<open>c' \<le> 2 ^ 62\<close> by (simp_all add: vec_rep_def vec_capacity_def)
    ultimately show ?thesis
      using False c' c(3) \<open>c' = vec_capacity v \<or> c' \<le> 2 * want\<close>
      unfolding ensure_capacity_def c_def [symmetric] by simp
  qed
qed

text \<open>A full vector of trivially copyable elements that take more than 2 MiB cannot grow.\<close>

lemma ensure_capacity_panics:
  assumes "vec_capacity v < want" and "want \<le> 2 ^ 63" and "vec_capacity v \<le> 2 ^ 63"
    and "et_trivial t" and "MAX_MEMCOPY < vec_size v * et_size t" and "vec_size v \<le> vec_capacity v"
  shows "ensure_capacity t v want = None"
proof -
  define c where "c = (if vec_capacity v \<noteq> 0 then vec_capacity v else 1)"
  have "0 < c" "c \<le> 2 ^ 63" using assms(3) by (simp_all add: c_def)
  then obtain c' where c': "grow_capacity c want = Some c'" "want \<le> c'"
    using grow_capacity_spec [of c want] assms(2) by blast
  have "vec_slots v \<noteq> []" using assms(5,6) by (auto simp: vec_capacity_def)
  then show ?thesis
    using c' assms(1,4,5) unfolding ensure_capacity_def c_def [symmetric]
    by (simp add: expand_storage_def bind_eq_None_conv)
qed

lemma vec_push_back_rep:
  assumes rep: "vec_rep v xs" and len: "length xs < 2 ^ 60" and may: "may_grow t v (length xs + 1)"
  shows "\<exists>v'. vec_push_back t v x = Some v' \<and> vec_rep v' (xs @ [x])"
proof -
  have size: "vec_size v = length xs" using rep by (simp add: vec_rep_def)
  obtain v1 where v1: "ensure_capacity t v (length xs + 1) = Some v1" "vec_rep v1 xs" "length xs + 1 \<le> vec_capacity v1"
    using ensure_capacity_spec [OF rep _ _ may] len by auto
  obtain rest where rest: "vec_slots v1 = map Some xs @ rest" "vec_size v1 = length xs" "vec_capacity v1 \<le> 2 ^ 62"
    using v1(2) by (auto simp: vec_rep_def)
  obtain y rest' where "rest = y # rest'" using v1(3) rest(1) by (cases rest) (auto simp: vec_capacity_def)
  then show ?thesis
    using v1(1) rest len size
    by (auto simp: vec_push_back_def uadd_small slot_put_def vec_rep_def vec_capacity_def list_update_append)
qed

lemma insert_shift_spec:
  assumes "0 < i" and "slots = map Some (xs @ ys) @ y # rest" and "i = length xs"
  shows "\<exists>h. insert_shift slots i (i + length ys - 1) = Some (map Some xs @ h # map Some ys @ rest)"
  using assms(2)
proof (induction ys arbitrary: slots y rest rule: rev_induct)
  case Nil
  have "\<not> length xs \<le> length xs - Suc 0" using assms(1,3) by linarith
  then show ?case using Nil assms(3) by (simp add: insert_shift.simps [of "map Some xs @ y # rest"])
next
  case (snoc b ys)
  let ?idx = "i + length ys"
  let ?slots = "map Some (xs @ ys) @ None # Some b # rest"
  have "slots = map Some (xs @ ys) @ Some b # y # rest" using snoc.prems by simp
  then have "slot_get slots ?idx = Some b" "slot_put slots (?idx + 1) (Some b) = Some (map Some (xs @ ys) @ Some b # Some b # rest)"
    using assms(3) by (simp_all add: slot_get_def slot_put_def nth_append list_update_append)
  moreover have "slot_put (map Some (xs @ ys) @ Some b # Some b # rest) ?idx None = Some ?slots"
    using assms(3) by (simp add: slot_put_def list_update_append)
  ultimately have "insert_shift slots i ?idx = insert_shift ?slots i (?idx - 1)"
    using assms(1) by (simp add: insert_shift.simps [of slots])
  then show ?case using snoc.IH [of ?slots None "Some b # rest"] by simp
qed

lemma vec_insert_rep:
  assumes rep: "vec_rep v xs" and i: "0 < i" "i < length xs" and len: "length xs < 2 ^ 60"
    and may: "may_grow t v (length xs + 1)"
  shows "\<exists>v'. vec_insert t v i x = Some v' \<and> vec_rep v' (take i xs @ x # drop i xs)"
proof -
  have size: "vec_size v = length xs" using rep by (simp add: vec_rep_def)
  obtain v1 where v1: "ensure_capacity t v (length xs + 1) = Some v1" "vec_rep v1 xs" "length xs + 1 \<le> vec_capacity v1"
    using ensure_capacity_spec [OF rep _ _ may] len by auto
  obtain rest where rest: "vec_slots v1 = map Some xs @ rest" "vec_size v1 = length xs" "vec_capacity v1 \<le> 2 ^ 62"
    using v1(2) by (auto simp: vec_rep_def)
  obtain y rest' where y: "rest = y # rest'" using v1(3) rest(1) by (cases rest) (auto simp: vec_capacity_def)
  have "vec_slots v1 = map Some (take i xs @ drop i xs) @ y # rest'" using rest(1) y by simp
  then obtain h where "insert_shift (vec_slots v1) i (i + length (drop i xs) - 1) =
      Some (map Some (take i xs) @ h # map Some (drop i xs) @ rest')"
    using insert_shift_spec [OF i(1), of "vec_slots v1" "take i xs" "drop i xs" y rest'] i by auto
  moreover have "i + length (drop i xs) = length xs" using i by simp
  moreover have "min (length xs) i = i" using i by simp
  ultimately show ?thesis
    using v1(1) rest y len size i
    by (auto simp: vec_insert_def uadd_small slot_put_def vec_rep_def vec_capacity_def list_update_append)
qed

lemma pop_shift_spec:
  "slots = map Some xs @ h # map Some ys @ rest \<Longrightarrow>
   \<exists>h'. pop_shift slots (length xs + 1) (length ys) = Some (map Some (xs @ ys) @ h' # rest)"
proof (induction ys arbitrary: xs slots h)
  case (Cons y ys)
  have "slot_get slots (length xs + 1) = Some y"
    "slot_put slots (length xs) (Some y) = Some (map Some (xs @ [y]) @ Some y # map Some ys @ rest)"
    using Cons.prems by (simp_all add: slot_get_def slot_put_def nth_append list_update_append)
  then show ?case using Cons.IH [of "map Some (xs @ [y]) @ Some y # map Some ys @ rest" "xs @ [y]" "Some y"] by simp
qed simp

lemma vec_pop_rep:
  assumes rep: "vec_rep v xs" and i: "i < length xs"
  shows "\<exists>v'. vec_pop v i = Some (xs ! i, v') \<and> vec_rep v' (take i xs @ drop (Suc i) xs)"
proof -
  obtain rest where rest: "vec_slots v = map Some xs @ rest" "vec_size v = length xs" "vec_capacity v \<le> 2 ^ 62"
    using rep by (auto simp: vec_rep_def)
  have "vec_slots v = map Some (take i xs) @ Some (xs ! i) # map Some (drop (Suc i) xs) @ rest"
    using rest(1) i by (metis append.assoc append_Cons id_take_nth_drop list.simps(9) map_append)
  then obtain h where h: "pop_shift (vec_slots v) (i + 1) (length xs - Suc i) =
      Some (map Some (take i xs @ drop (Suc i) xs) @ h # rest)"
    using pop_shift_spec [of "vec_slots v" "take i xs" "Some (xs ! i)" "drop (Suc i) xs" rest] i by auto
  have len: "length (take i xs @ drop (Suc i) xs) = length xs - 1" using i by simp
  have "slot_put (map Some (take i xs @ drop (Suc i) xs) @ h # rest) (length xs - 1) None =
      Some (map Some (take i xs @ drop (Suc i) xs) @ None # rest)"
    by (simp only: slot_put_def len [symmetric] list_update_append length_append length_map) simp
  moreover have "slot_get (vec_slots v) i = Some (xs ! i)" using rest(1) i by (simp add: slot_get_def nth_append)
  ultimately show ?thesis
    using h rest i len by (auto simp: vec_pop_def vec_rep_def vec_capacity_def simp del: map_append)
qed

lemma insert_shift_front: "insert_shift slots 0 idx = None"
proof (induction idx arbitrary: slots)
  case 0
  show ?case by (simp add: insert_shift.simps [of slots] bind_eq_None_conv)
next
  case (Suc idx)
  then show ?case by (simp add: insert_shift.simps [of slots] bind_eq_None_conv)
qed



text \<open>
inserting at the front of a vector leaves its storage.  The loop of \<open>vector::insert\<close> counts
  an unsigned index down while \<open>i <= idx\<close>; for \<open>i = 0\<close> that is always true, so after position 0
  the index wraps around and the next element read is outside the array, for every vector and
  every item.
\<close>

theorem vector_insert_front_overruns: "vec_insert t v 0 item = None"
  by (simp add: vec_insert_def insert_shift_front bind_eq_None_conv)

text \<open>
  C26: \<open>ensure_capacity\<close> ends for every capacity up to \<open>2 ^ 63\<close> from a positive one, at a capacity
  that is enough and less than twice what was asked for unless the old one was enough already.
\<close>

theorem grow_capacity_terminates:
  assumes "0 < c" and "c \<le> 2 ^ 63" and "want \<le> 2 ^ 63"
  shows "\<exists>c'. grow_capacity c want = Some c' \<and> want \<le> c' \<and> c \<le> c' \<and> (c' = c \<or> c' < 2 * want)"
  using assms by (rule grow_capacity_spec)

theorem grow_capacity_terminates_witness:
  "\<exists>c'. grow_capacity 1 5 = Some c' \<and> 5 \<le> c' \<and> 1 \<le> c' \<and> (c' = 1 \<or> c' < 2 * 5)"
  by (rule grow_capacity_terminates) simp_all

end
