(* ===== verification/Space_Manager.thy ===== *)
theory Space_Manager
  imports Memory_Regions Vector
begin

text \<open>
  \<open>kernel/src/mm/backing_region.cpp\<close>, \<open>device_backed_region.cpp\<close> and \<open>space_manager.cpp\<close>: the
  regions of a user address space and the reference-counted memory behind them.

  The state \<open>mm_state\<close> holds the page tables and pages, the backing regions by their address
  (\<open>mm_objects\<close>, with the reference counts of \<open>bek::RefCounted\<close>) and the bytes of kernel memory.
  The tables of a user address space never use the embedded tables, so
  \<open>pt_embedded_current (mm_pt s) = 0\<close>.  The vector of regions is the list of its elements, with
  the operations that the theory \<open>Vector\<close> justifies: \<open>region_insert\<close> at position 0 is undefined.
\<close>

datatype backing_region = UserOwnedAllocation region uSize | DeviceBackedRegion region

record backing_object =
  bo_region :: backing_region
  bo_ref_count :: nat

record mm_state =
  mm_pt :: pt_state
  mm_objects :: "nat \<Rightarrow> backing_object option"
  mm_next_object :: nat
  mm_memory :: "uSize \<Rightarrow> u8"

type_synonym memory_operation = u8

definition OpNone :: memory_operation where "OpNone = 0"
definition OpRead :: memory_operation where "OpRead = 1"
definition OpWrite :: memory_operation where "OpWrite = 2"
definition OpExecute :: memory_operation where "OpExecute = 4"

record userspace_region =
  ur_region :: region
  ur_backing :: nat
  ur_name :: string
  ur_permissions :: memory_operation

record space_manager =
  sm_regions :: "userspace_region list"
  sm_root :: uSize

subsection \<open>Reference counts\<close>

definition acquire :: "mm_state \<Rightarrow> nat \<Rightarrow> mm_state option" where
  "acquire s oid = do {
     ob \<leftarrow> mm_objects s oid;
     verify (bo_ref_count ob \<noteq> 0);
     Some (s\<lparr>mm_objects := (mm_objects s)(oid \<mapsto> ob\<lparr>bo_ref_count := bo_ref_count ob + 1\<rparr>)\<rparr>) }"

text \<open>The destructor of an owned allocation gives its pages back.\<close>

definition destroy_backing :: "mm_state \<Rightarrow> backing_region \<Rightarrow> mm_state option" where
  "destroy_backing s b =
     (case b of
        UserOwnedAllocation r phys \<Rightarrow> do {
          pa \<leftarrow> pa_free_region (pt_pages (mm_pt s)) (rg_start r);
          Some (s\<lparr>mm_pt := (mm_pt s)\<lparr>pt_pages := pa\<rparr>\<rparr>) }
      | DeviceBackedRegion _ \<Rightarrow> Some s)"

definition release :: "mm_state \<Rightarrow> nat \<Rightarrow> mm_state option" where
  "release s oid = do {
     ob \<leftarrow> mm_objects s oid;
     verify (bo_ref_count ob > 0);
     (let count = bo_ref_count ob - 1
      in if count = 0 then destroy_backing (s\<lparr>mm_objects := (mm_objects s)(oid := None)\<rparr>) (bo_region ob)
         else Some (s\<lparr>mm_objects := (mm_objects s)(oid \<mapsto> ob\<lparr>bo_ref_count := count\<rparr>)\<rparr>)) }"

subsection \<open>Backing regions\<close>

fun backing_size :: "backing_region \<Rightarrow> uSize" where
  "backing_size (UserOwnedAllocation r phys) = rg_size r"
| "backing_size (DeviceBackedRegion r) = rg_size r"

definition create_contiguous :: "pt_env \<Rightarrow> mm_state \<Rightarrow> uSize \<Rightarrow> (nat expected \<times> mm_state) option" where
  "create_contiguous env s pages = do {
     (allocation, pa) \<leftarrow> allocate_region (pt_pages (mm_pt s)) pages;
     (let s1 = s\<lparr>mm_pt := (mm_pt s)\<lparr>pt_pages := pa\<rparr>\<rparr>
      in case allocation of
           None \<Rightarrow> Some (Err ENOMEM, s1)
         | Some r \<Rightarrow> do {
             phys \<leftarrow> pe_v2p env (rg_start r);
             verify (rg_page_aligned r);
             verify (page_offset phys = 0);
             (let oid = mm_next_object s
              in Some (Value oid, s1\<lparr>mm_next_object := oid + 1,
                   mm_objects := (mm_objects s1)
                     (oid \<mapsto> \<lparr>bo_region = UserOwnedAllocation r phys, bo_ref_count = 1\<rparr>)\<rparr>)) }) }"

fun backing_target :: "backing_region \<Rightarrow> uSize \<times> u64" where
  "backing_target (UserOwnedAllocation r phys) = (phys, NormalRAM)"
| "backing_target (DeviceBackedRegion r) = (rg_start r, MMIO)"

text \<open>\<open>map_into_table\<close>; the offset is checked but the mapping always starts at the first page.\<close>

definition map_into_table :: "pt_env \<Rightarrow> mm_state \<Rightarrow> backing_region \<Rightarrow> uSize \<Rightarrow> region \<Rightarrow> uSize \<Rightarrow>
    bool \<Rightarrow> bool \<Rightarrow> bool \<Rightarrow> (ErrorCode \<times> mm_state) option" where
  "map_into_table env s b root user_region offset readable writeable executable = do {
     verify (rg_page_aligned user_region \<and> offset mod PAGE_SIZE = 0 \<and>
             uadd (rg_size user_region) offset \<le> backing_size b);
     (let (phys, attr) = backing_target b
      in do {
        (ok, pt) \<leftarrow> map_region env (mm_pt s) root (rg_start user_region) phys (rg_size user_region)
          (attributes_for_user readable writeable executable) attr;
        Some (if ok then ESUCCESS else EFAIL, s\<lparr>mm_pt := pt\<rparr>) }) }"

definition unmap_from_table :: "pt_env \<Rightarrow> mm_state \<Rightarrow> backing_region \<Rightarrow> uSize \<Rightarrow> region \<Rightarrow> uSize \<Rightarrow>
    (ErrorCode \<times> mm_state) option" where
  "unmap_from_table env s b root user_region offset = do {
     verify (rg_page_aligned user_region \<and> offset mod PAGE_SIZE = 0 \<and>
             uadd (rg_size user_region) offset \<le> backing_size b);
     (ok, pt) \<leftarrow> unmap_region env (mm_pt s) root (rg_start user_region) (rg_size user_region);
     Some (if ok then ESUCCESS else EFAIL, s\<lparr>mm_pt := pt\<rparr>) }"

text \<open>\<open>bek::memcopy\<close> between two regions of kernel memory.\<close>

definition memcopy_kernel :: "(uSize \<Rightarrow> u8) \<Rightarrow> uSize \<Rightarrow> uSize \<Rightarrow> uSize \<Rightarrow> (uSize \<Rightarrow> u8) option" where
  "memcopy_kernel mem dst src n = do {
     verify (n \<le> MAX_MEMCOPY);
     Some (\<lambda>a. if dst \<le> a \<and> a < dst + n then mem (src + (a - dst)) else mem a) }"

definition backing_clone_for_fork :: "pt_env \<Rightarrow> mm_state \<Rightarrow> nat \<Rightarrow> memory_operation \<Rightarrow> (nat expected \<times> mm_state) option" where
  "backing_clone_for_fork env s oid permissions = do {
     ob \<leftarrow> mm_objects s oid;
     (case bo_region ob of
        DeviceBackedRegion _ \<Rightarrow> do { s' \<leftarrow> acquire s oid; Some (Value oid, s') }
      | UserOwnedAllocation r phys \<Rightarrow>
          if permissions AND OpWrite = 0 then do { s' \<leftarrow> acquire s oid; Some (Value oid, s') }
          else do {
            (new, s1) \<leftarrow> create_contiguous env s (rg_size r div PAGE_SIZE);
            (case new of
               Err e \<Rightarrow> Some (Err e, s1)
             | Value new_id \<Rightarrow> do {
                 ob' \<leftarrow> mm_objects s1 new_id;
                 (case bo_region ob' of
                    UserOwnedAllocation r' _ \<Rightarrow> do {
                      mem \<leftarrow> memcopy_kernel (mm_memory s1) (rg_start r') (rg_start r) (rg_size r);
                      Some (Value new_id, s1\<lparr>mm_memory := mem\<rparr>) }
                  | DeviceBackedRegion _ \<Rightarrow> None) }) }) }"

subsection \<open>Regions of an address space\<close>

definition virt_addr_start :: uSize where "virt_addr_start = 0x500000"
definition USER_ADDR_MAX :: uSize where "USER_ADDR_MAX = 0x0000FFFFFFFFFFFF"

definition space_create :: "mm_state \<Rightarrow> (space_manager \<times> mm_state) option" where
  "space_create s = do {
     (root, pt) \<leftarrow> create_user_manager (mm_pt s);
     Some (\<lparr>sm_regions = [], sm_root = root\<rparr>, s\<lparr>mm_pt := pt\<rparr>) }"

fun check_regions :: "userspace_region list \<Rightarrow> region \<Rightarrow> memory_operation \<Rightarrow> bool" where
  "check_regions [] checked operation = False"
| "check_regions (r # rs) checked operation =
     (if rg_contains (ur_region r) checked then ur_permissions r AND operation = operation
      else check_regions rs checked operation)"

definition check_region :: "space_manager \<Rightarrow> uSize \<Rightarrow> uSize \<Rightarrow> memory_operation \<Rightarrow> bool" where
  "check_region sm location sz operation =
     check_regions (sm_regions sm) \<lparr>rg_start = location, rg_size = sz\<rparr> operation"

definition raw_root_ptr :: "pt_env \<Rightarrow> space_manager \<Rightarrow> uSize option" where
  "raw_root_ptr env sm = do { verify (sm_root sm \<noteq> 0); pe_v2p env (sm_root sm) }"

definition region_insert :: "nat \<Rightarrow> userspace_region \<Rightarrow> userspace_region list \<Rightarrow> userspace_region list option" where
  "region_insert i r rs =
     (if i = length rs then Some (rs @ [r]) else if i = 0 then None else Some (take i rs @ r # drop i rs))"

fun find_place :: "userspace_region list \<Rightarrow> region \<Rightarrow> nat \<Rightarrow> nat expected" where
  "find_place [] desired i = Value i"
| "find_place (r # rs) desired i =
     (if rg_overlaps (ur_region r) desired then Err EADDRINUSE
      else if rg_start (ur_region r) \<ge> rg_end desired then Value i
      else find_place rs desired (i + 1))"

definition place_location :: "space_manager \<Rightarrow> uSize option \<Rightarrow> uSize" where
  "place_location sm location =
     (case location of
        Some l \<Rightarrow> l
      | None \<Rightarrow> if sm_regions sm = [] then virt_addr_start
                else align_up (rg_end (ur_region (last (sm_regions sm)))) PAGE_SIZE)"

definition allows :: "memory_operation \<Rightarrow> memory_operation \<Rightarrow> bool" where
  "allows permissions operation \<longleftrightarrow> permissions AND operation \<noteq> OpNone"

text \<open>\<open>place_region\<close> owns the reference it is given: an error drops it.\<close>

definition place_region :: "pt_env \<Rightarrow> mm_state \<Rightarrow> space_manager \<Rightarrow> uSize option \<Rightarrow> memory_operation \<Rightarrow>
    string \<Rightarrow> nat \<Rightarrow> (region expected \<times> mm_state \<times> space_manager) option" where
  "place_region env s sm location allowed_operations name oid = do {
     ob \<leftarrow> mm_objects s oid;
     (let b = bo_region ob;
          pages = ceil_div (backing_size b) PAGE_SIZE;
          actual_location = place_location sm location;
          failed = (\<lambda>e s. do { s' \<leftarrow> release s oid; Some (Err e, s', sm) })
      in if uadd actual_location (backing_size b) > USER_ADDR_MAX then failed EINVAL s
         else (let desired = \<lparr>rg_start = actual_location, rg_size = umul pages PAGE_SIZE\<rparr>
               in case find_place (sm_regions sm) desired 0 of
                    Err e \<Rightarrow> failed e s
                  | Value i \<Rightarrow> do {
                      (res, s1) \<leftarrow> map_into_table env s b (sm_root sm) desired 0
                        (allows allowed_operations OpRead) (allows allowed_operations OpWrite)
                        (allows allowed_operations OpExecute);
                      (if res \<noteq> ESUCCESS then failed res s1
                       else do {
                         rs \<leftarrow> region_insert i \<lparr>ur_region = desired, ur_backing = oid, ur_name = name,
                           ur_permissions = allowed_operations\<rparr> (sm_regions sm);
                         Some (Value desired, s1, sm\<lparr>sm_regions := rs\<rparr>) }) })) }"

fun dealloc_find :: "userspace_region list \<Rightarrow> uSize \<Rightarrow> uSize \<Rightarrow> nat \<Rightarrow> nat option" where
  "dealloc_find [] location sz i = None"
| "dealloc_find (r # rs) location sz i =
     (if rg_start (ur_region r) = location \<and> rg_size (ur_region r) = sz then Some i
      else dealloc_find rs location sz (i + 1))"

definition deallocate_userspace_region :: "pt_env \<Rightarrow> mm_state \<Rightarrow> space_manager \<Rightarrow> uSize \<Rightarrow> uSize \<Rightarrow>
    (ErrorCode \<times> mm_state \<times> space_manager) option" where
  "deallocate_userspace_region env s sm location sz =
     (case dealloc_find (sm_regions sm) location sz 0 of
        None \<Rightarrow> Some (EINVAL, s, sm)
      | Some i \<Rightarrow> (let r = sm_regions sm ! i
          in do {
            ob \<leftarrow> mm_objects s (ur_backing r);
            (res, s1) \<leftarrow> unmap_from_table env s (bo_region ob) (sm_root sm) (ur_region r) 0;
            (if res \<noteq> ESUCCESS then Some (res, s1, sm)
             else do {
               s2 \<leftarrow> release s1 (ur_backing r);
               Some (ESUCCESS, s2, sm\<lparr>sm_regions := take i (sm_regions sm) @ drop (Suc i) (sm_regions sm)\<rparr>) }) }))"

text \<open>By its backing region: every region with that backing is dropped; nothing is unmapped.\<close>

fun dealloc_backing :: "mm_state \<Rightarrow> nat \<Rightarrow> userspace_region list \<Rightarrow> (mm_state \<times> userspace_region list) option" where
  "dealloc_backing s oid [] = Some (s, [])"
| "dealloc_backing s oid (r # rs) =
     (if ur_backing r = oid then do { s1 \<leftarrow> release s oid; dealloc_backing s1 oid rs }
      else do { (s1, rs') \<leftarrow> dealloc_backing s oid rs; Some (s1, r # rs') })"

definition deallocate_userspace_backing :: "mm_state \<Rightarrow> space_manager \<Rightarrow> nat \<Rightarrow> (ErrorCode \<times> mm_state \<times> space_manager) option" where
  "deallocate_userspace_backing s sm oid = do {
     (s', rs) \<leftarrow> dealloc_backing s oid (sm_regions sm);
     Some (ESUCCESS, s', sm\<lparr>sm_regions := rs\<rparr>) }"

definition allocate_placed_region :: "pt_env \<Rightarrow> mm_state \<Rightarrow> space_manager \<Rightarrow> region \<Rightarrow> memory_operation \<Rightarrow>
    string \<Rightarrow> (nat expected \<times> mm_state \<times> space_manager) option" where
  "allocate_placed_region env s sm r allowed_operations name = do {
     verify (rg_page_aligned r);
     (allocation, s1) \<leftarrow> create_contiguous env s (rg_size r div PAGE_SIZE);
     (case allocation of
        Err e \<Rightarrow> Some (Err e, s1, sm)
      | Value oid \<Rightarrow> do {
          s2 \<leftarrow> acquire s1 oid;
          (placed, s3, sm') \<leftarrow> place_region env s2 sm (Some (rg_start r)) allowed_operations name oid;
          (case placed of
             Err e \<Rightarrow> do { s4 \<leftarrow> release s3 oid; Some (Err e, s4, sm') }
           | Value _ \<Rightarrow> Some (Value oid, s3, sm')) }) }"

fun shareable_find :: "userspace_region list \<Rightarrow> region \<Rightarrow> nat expected" where
  "shareable_find [] u = Err EINVAL"
| "shareable_find (r # rs) u =
     (if rg_contains (ur_region r) u
      then if rg_start (ur_region r) \<noteq> rg_start u \<or> rg_size (ur_region r) \<noteq> rg_size u then Err EINVAL
           else Value (ur_backing r)
      else shareable_find rs u)"

definition get_shareable_region :: "mm_state \<Rightarrow> space_manager \<Rightarrow> region \<Rightarrow> (nat expected \<times> mm_state) option" where
  "get_shareable_region s sm u =
     (case shareable_find (sm_regions sm) u of
        Err e \<Rightarrow> Some (Err e, s)
      | Value oid \<Rightarrow> do { s' \<leftarrow> acquire s oid; Some (Value oid, s') })"

fun allowed_find :: "userspace_region list \<Rightarrow> region \<Rightarrow> memory_operation expected" where
  "allowed_find [] u = Err EINVAL"
| "allowed_find (r # rs) u = (if rg_contains (ur_region r) u then Value (ur_permissions r) else allowed_find rs u)"

definition get_allowed_operations :: "space_manager \<Rightarrow> region \<Rightarrow> memory_operation expected" where
  "get_allowed_operations sm u = allowed_find (sm_regions sm) u"

text \<open>
  \<open>clone_for_fork\<close>: the regions of the copy are collected in \<open>acc\<close>, each mapped as soon as its
  backing is cloned.  An error drops the references of the collected regions.
\<close>

fun release_all :: "mm_state \<Rightarrow> userspace_region list \<Rightarrow> mm_state option" where
  "release_all s [] = Some s"
| "release_all s (r # rs) = do { s' \<leftarrow> release s (ur_backing r); release_all s' rs }"

fun clone_loop :: "pt_env \<Rightarrow> mm_state \<Rightarrow> uSize \<Rightarrow> userspace_region list \<Rightarrow> userspace_region list \<Rightarrow>
    (userspace_region list expected \<times> mm_state) option" where
  "clone_loop env s root [] acc = Some (Value acc, s)"
| "clone_loop env s root (r # rs) acc = do {
     (backing, s1) \<leftarrow> backing_clone_for_fork env s (ur_backing r) (ur_permissions r);
     (case backing of
        Err e \<Rightarrow> do { s2 \<leftarrow> release_all s1 acc; Some (Err e, s2) }
      | Value oid \<Rightarrow> do {
          ob \<leftarrow> mm_objects s1 oid;
          (let acc' = acc @ [r\<lparr>ur_backing := oid\<rparr>]
           in do {
             (res, s2) \<leftarrow> map_into_table env s1 (bo_region ob) root (ur_region r) 0
               (allows (ur_permissions r) OpRead) (allows (ur_permissions r) OpWrite)
               (allows (ur_permissions r) OpExecute);
             (if res \<noteq> ESUCCESS then do { s3 \<leftarrow> release_all s2 acc'; Some (Err res, s3) }
              else clone_loop env s2 root rs acc') }) }) }"

definition space_clone_for_fork :: "pt_env \<Rightarrow> mm_state \<Rightarrow> space_manager \<Rightarrow> (space_manager expected \<times> mm_state) option" where
  "space_clone_for_fork env s sm = do {
     (root, pt) \<leftarrow> create_user_manager (mm_pt s);
     (regions, s') \<leftarrow> clone_loop env (s\<lparr>mm_pt := pt\<rparr>) root (sm_regions sm) [];
     Some (map_value (\<lambda>rs. \<lparr>sm_regions = rs, sm_root = root\<rparr>) regions, s') }"

subsection \<open>The invariant of an address space\<close>

text \<open>Regions are aligned, not empty, below the end of the user half, sorted and disjoint.\<close>

definition ureg_ok :: "region \<Rightarrow> bool" where
  "ureg_ok r \<longleftrightarrow> rg_page_aligned r \<and> 0 < rg_size r \<and> rg_start r + rg_size r \<le> USER_ADDR_MAX"

definition before :: "userspace_region \<Rightarrow> userspace_region \<Rightarrow> bool" where
  "before a b \<longleftrightarrow> rg_start (ur_region a) + rg_size (ur_region a) \<le> rg_start (ur_region b)"

definition regions_ok :: "userspace_region list \<Rightarrow> bool" where
  "regions_ok rs \<longleftrightarrow> (\<forall>r\<in>set rs. ureg_ok (ur_region r)) \<and> sorted_wrt before rs"

definition space_ok :: "space_manager \<Rightarrow> bool" where
  "space_ok sm \<longleftrightarrow> regions_ok (sm_regions sm)"

lemma ureg_ok_region_ok: "ureg_ok r \<Longrightarrow> region_ok r"
  by (simp add: ureg_ok_def region_ok_def USER_ADDR_MAX_def)

text \<open>Where \<open>find_place\<close> puts a region: after those that end before it, ahead of those that start after it.\<close>

lemma find_place_Value:
  assumes "find_place rs d k = Value i" and "\<forall>r\<in>set rs. ureg_ok (ur_region r)" and "region_ok d" and "0 < rg_size d"
    and "sorted_wrt before rs"
  shows "k \<le> i \<and> i \<le> k + length rs \<and>
    (\<forall>r\<in>set (take (i - k) rs). rg_start (ur_region r) + rg_size (ur_region r) \<le> rg_start d) \<and>
    (\<forall>r\<in>set (drop (i - k) rs). rg_start d + rg_size d \<le> rg_start (ur_region r))"
  using assms
proof (induction rs d k rule: find_place.induct)
  case (2 r rs d k)
  have r: "ureg_ok (ur_region r)" "region_ok (ur_region r)" using "2.prems"(2) ureg_ok_region_ok by auto
  have no: "\<not> rg_overlaps (ur_region r) d" using "2.prems"(1) by (auto split: if_splits)
  show ?case
  proof (cases "rg_start (ur_region r) \<ge> rg_end d")
    case True
    then have "rg_start d + rg_size d \<le> rg_start (ur_region x)" if "x \<in> set (r # rs)" for x
      using that "2.prems"(5) r by (auto simp: rg_end_eq [OF "2.prems"(3)] before_def)
    then show ?thesis using True no "2.prems"(1) by simp
  next
    case False
    then have "find_place rs d (k + 1) = Value i" using "2.prems"(1) no by simp
    then have ih: "k + 1 \<le> i \<and> i \<le> k + 1 + length rs \<and>
      (\<forall>r\<in>set (take (i - (k + 1)) rs). rg_start (ur_region r) + rg_size (ur_region r) \<le> rg_start d) \<and>
      (\<forall>r\<in>set (drop (i - (k + 1)) rs). rg_start d + rg_size d \<le> rg_start (ur_region r))"
      using "2.IH" [OF no] False "2.prems" by simp
    have "rg_start (ur_region r) + rg_size (ur_region r) \<le> rg_start d"
      using no False by (auto simp: rg_overlaps_def rg_end_eq [OF r(2)] rg_end_eq [OF "2.prems"(3)])
    moreover have "i - k = Suc (i - (k + 1))" using ih by arith
    ultimately show ?thesis using ih by auto
  qed
qed simp

lemma find_place_Err: "find_place rs d k = Err e \<Longrightarrow> e = EADDRINUSE \<and> (\<exists>r\<in>set rs. rg_overlaps (ur_region r) d)"
  by (induction rs d k rule: find_place.induct) (auto split: if_splits)

lemma regions_ok_insert:
  assumes ok: "regions_ok rs" and new: "ureg_ok (ur_region x)" and i: "i \<le> length rs"
    and low: "\<forall>r\<in>set (take i rs). rg_start (ur_region r) + rg_size (ur_region r) \<le> rg_start (ur_region x)"
    and high: "\<forall>r\<in>set (drop i rs). rg_start (ur_region x) + rg_size (ur_region x) \<le> rg_start (ur_region r)"
  shows "regions_ok (take i rs @ x # drop i rs)"
proof -
  have "sorted_wrt before (take i rs @ drop i rs)" using ok by (simp add: regions_ok_def)
  then have "sorted_wrt before (take i rs @ x # drop i rs)"
    using low high unfolding sorted_wrt_append by (auto simp: before_def)
  moreover have "\<forall>r\<in>set (take i rs @ x # drop i rs). ureg_ok (ur_region r)"
    using ok new by (auto simp: regions_ok_def dest: in_set_takeD in_set_dropD)
  ultimately show ?thesis by (simp add: regions_ok_def)
qed

lemma region_insert_eq:
  "region_insert i x rs = Some rs' \<Longrightarrow> i \<le> length rs \<Longrightarrow> rs' = take i rs @ x # drop i rs"
  by (auto simp: region_insert_def split: if_splits)

lemma regions_ok_remove: "regions_ok rs \<Longrightarrow> regions_ok (take i rs @ drop (Suc i) rs)"
proof (induction rs arbitrary: i)
  case (Cons r rs)
  then show ?case
    by (cases i) (auto simp: regions_ok_def dest: in_set_takeD in_set_dropD)
qed simp

lemma dealloc_backing_regions:
  "dealloc_backing s oid rs = Some (s', rs') \<Longrightarrow> rs' = filter (\<lambda>r. ur_backing r \<noteq> oid) rs"
  by (induction s oid rs arbitrary: s' rs' rule: dealloc_backing.induct) (auto split: if_splits bind_splits)

text \<open>The size that \<open>map_into_table\<close> accepts for a region.\<close>

lemma map_into_table_checks:
  "map_into_table env s b root d 0 rd wr ex = Some (res, s') \<Longrightarrow>
   rg_page_aligned d \<and> uadd (rg_size d) 0 \<le> backing_size b"
  by (auto simp: map_into_table_def)

lemma placed_region_ok:
  assumes size: "0 < backing_size b" and fits: "loc + backing_size b < 2 ^ 64"
    and bound: "\<not> uadd loc (backing_size b) > USER_ADDR_MAX"
    and d: "d = \<lparr>rg_start = loc, rg_size = umul (ceil_div (backing_size b) PAGE_SIZE) PAGE_SIZE\<rparr>"
  shows "region_ok d \<and> 0 < rg_size d \<and>
    (rg_page_aligned d \<and> uadd (rg_size d) 0 \<le> backing_size b \<longrightarrow> ureg_ok d)"
proof -
  have fits: "loc + backing_size b + PAGE_SIZE < 2 ^ 64"
    using fits bound by (simp add: uadd_small USER_ADDR_MAX_def PAGE_SIZE_def)
  have "rg_size d = align_up (backing_size b) PAGE_SIZE" by (simp add: d align_up_def)
  then have "backing_size b \<le> rg_size d" "rg_size d < backing_size b + PAGE_SIZE"
    using align_up_spec [of PAGE_SIZE "backing_size b"] fits by auto
  then show ?thesis
    using assms fits by (auto simp: region_ok_def ureg_ok_def uadd_small)
qed

text \<open>A concrete address space with one shared region, and its copy.\<close>

definition demo_tables :: "uSize \<Rightarrow> u64 list" where
  "demo_tables t = replicate PT_ENTRY_COUNT (if t < 0x103000 then create_table_entry (t + 0x1000) else 0)"

definition fork_mm :: mm_state where
  "fork_mm = \<lparr>mm_pt = \<lparr>pt_tables = demo_tables, pt_embedded_current = 0,
       pt_pages = [Some \<lparr>rpa_region = \<lparr>rg_start = 0x100000, rg_size = 0x8000\<rparr>, rpa_free_bitmap = [0],
         rpa_continuation_bitmap = [0], rpa_last_freed = 0\<rparr>]\<rparr>,
     mm_objects = [0 \<mapsto> \<lparr>bo_region = DeviceBackedRegion \<lparr>rg_start = 0x3000, rg_size = 4096\<rparr>, bo_ref_count = 1\<rparr>],
     mm_next_object = 1, mm_memory = \<lambda>_. 0\<rparr>"

lemma fork_root: "\<exists>pt. create_user_manager (mm_pt fork_mm) = Some (0x100000, pt) \<and> pt_tables pt = demo_tables"
  by (simp add: create_user_manager_def fork_mm_def allocate_pages_def search_for_free_def search_loop.simps mark_as_reserved_index.simps
      bm_test_def bm_set_def mem_byte_def PAGE_SIZE_def MAX_USIZE_def uadd_def umul_def)

lemma demo_walk:
  assumes "t \<in> {0x100000, 0x101000, 0x102000}" and "pt_tables st = demo_tables" and "i < PT_ENTRY_COUNT"
  shows "get_entry st t i = Some (create_table_entry (t + 0x1000)) \<and>
    descriptor_code (create_table_entry (t + 0x1000)) = PT_UPPER_TABLE_DESCRIPTOR \<and>
    pe_p2v demo_env (table_page_address (create_table_entry (t + 0x1000))) = t + 0x1000"
  using assms create_table_entry_fields [of "t + 0x1000"]
  by (auto simp: get_entry_def demo_tables_def page_offset_def PAGE_SIZE_def demo_env_def)

lemma demo_map:
  assumes "pt_tables st = demo_tables" and "page_offset virt = 0"
  shows "\<exists>st'. map_region demo_env st 0x100000 virt 0x3000 4096 a i = Some (True, st')"
proof -
  define n where "n = (\<lambda>l. (virt div 2 ^ (SHIFTS ! l)) mod PT_ENTRY_COUNT)"
  have n: "n l < PT_ENTRY_COUNT" "n l < 512" for l by (simp_all add: n_def PT_ENTRY_COUNT_def)
  have lower: "map_lower st 0x103000 virt 0x3000 4096 f =
      Some (True, put_entry st 0x103000 (n 3) (l3_create 0x3000 f), uadd virt 4096, 0x4000, 0)" for f
    using assms n[of 3] unfolding map_lower_def
    by (subst n_def [THEN fun_cong, symmetric])
       (simp add: map_lower_loop.simps get_entry_def PT_ENTRY_COUNT_def
        demo_tables_def descriptor_code_def PT_INVALID_DESCRIPTOR_def SIZES_def uadd_def usub_def)
  have empty: "map_upper_loop demo_env st' t j v p 0 f l = Some (True, st', v, p, 0)" if "l < 3" for st' t j v p f l
    using that by (simp add: map_upper_loop.simps)
  define out where "out = (\<lambda>f. Some (True, put_entry st 0x103000 (n 3) (l3_create 0x3000 f), uadd virt 4096, 0x4000 :: uSize, 0 :: uSize))"
  have codes: "PT_UPPER_TABLE_DESCRIPTOR \<noteq> PT_INVALID_DESCRIPTOR"
    by (simp add: PT_UPPER_TABLE_DESCRIPTOR_def PT_INVALID_DESCRIPTOR_def)
  have l2: "map_upper_loop demo_env st 0x102000 (n 2) virt 0x3000 4096 f 2 = out f" for f
    using demo_walk [of "0x102000" st "n 2"] assms(1) codes n
    by (subst map_upper_loop.simps) (simp add: lower empty out_def)
  have l1: "map_upper_loop demo_env st 0x101000 (n 1) virt 0x3000 4096 f 1 = out f" for f
    using demo_walk [of "0x101000" st "n 1"] assms(1) codes n l2 [unfolded n_def, simplified]
    by (subst map_upper_loop.simps) (simp add: empty out_def numeral_2_eq_2 n_def)
  have l0: "map_upper_loop demo_env st 0x100000 (n 0) virt 0x3000 4096 f 0 = out f" for f
    using demo_walk [of "0x100000" st "n 0"] assms(1) codes n l1
    by (subst map_upper_loop.simps) (simp add: empty out_def n_def)
  show ?thesis
    using l0 assms(2) by (simp add: map_region_def page_offset_def PAGE_SIZE_def map_upper_def out_def n_def)
qed

text \<open>
  C2: \<open>SpaceManager::place_region\<close> keeps an address space well formed, as long as the location and the
  size of the backing, which the code adds up without a check, do not run past the end of the 64-bit
  address space (\<open>place_region_wraps\<close> below shows what happens then).  Whatever the outcome, the
  regions stay page aligned, inside the user half, sorted and disjoint; an error leaves the
  list of regions unchanged, and a success adds exactly the region that is returned, with the
  permissions, name and backing given, which overlaps none of the others.
\<close>

theorem place_region_keeps_space:
  assumes "space_ok sm" and "mm_objects s oid = Some ob" and "0 < backing_size (bo_region ob)"
    and "place_location sm location + backing_size (bo_region ob) < 2 ^ 64"
    and placed: "place_region env s sm location ops name oid = Some (res, s', sm')"
  shows "space_ok sm' \<and>
    (case res of
       Err e \<Rightarrow> sm' = sm
     | Value d \<Rightarrow> \<exists>i \<le> length (sm_regions sm). sm_regions sm' = take i (sm_regions sm) @
           \<lparr>ur_region = d, ur_backing = oid, ur_name = name, ur_permissions = ops\<rparr> # drop i (sm_regions sm) \<and>
         rg_start d = place_location sm location \<and>
         (\<forall>r\<in>set (sm_regions sm). rg_addrs (ur_region r) \<inter> rg_addrs d = {}))"
proof -
  define b d where "b = bo_region ob" and
    "d = \<lparr>rg_start = place_location sm location, rg_size = umul (ceil_div (backing_size b) PAGE_SIZE) PAGE_SIZE\<rparr>"
  show ?thesis
  proof (cases res)
    case (Err e)
    then have "sm' = sm" using placed assms(2)
      by (auto simp: place_region_def Let_def split: if_splits expected.splits bind_splits)
    then show ?thesis using Err assms(1) by simp
  next
    case (Value d')
    have bound: "\<not> uadd (place_location sm location) (backing_size b) > USER_ADDR_MAX"
      using placed assms(2) Value by (auto simp: place_region_def b_def Let_def split: bind_splits)
    obtain i where find: "find_place (sm_regions sm) d 0 = Value i"
      using placed assms(2) Value bound
      by (cases "find_place (sm_regions sm) d 0") (auto simp: place_region_def b_def d_def Let_def split: bind_splits)
    define x where "x = \<lparr>ur_region = d, ur_backing = oid, ur_name = name, ur_permissions = ops\<rparr>"
    define m where "m = map_into_table env s b (sm_root sm) d 0 (allows ops OpRead) (allows ops OpWrite) (allows ops OpExecute)"
    have "place_region env s sm location ops name oid = do {
        (r, s1) \<leftarrow> m;
        (if r \<noteq> ESUCCESS then do { s' \<leftarrow> release s1 oid; Some (Err r, s', sm) }
         else do { rs \<leftarrow> region_insert i x (sm_regions sm); Some (Value d, s1, sm\<lparr>sm_regions := rs\<rparr>) }) }"
      using bound find assms(2) unfolding m_def x_def by (simp add: place_region_def Let_def flip: b_def d_def)
    then obtain s1 rs where map: "m = Some (ESUCCESS, s1)"
      and ins: "region_insert i x (sm_regions sm) = Some rs" and sm': "sm' = sm\<lparr>sm_regions := rs\<rparr>" and d': "d' = d"
      using placed Value by (auto split: bind_splits if_splits)
    have d: "region_ok d" "0 < rg_size d" "ureg_ok d"
      using placed_region_ok [OF _ _ bound d_def] map_into_table_checks [OF map [unfolded m_def]] assms(3,4) by (auto simp: b_def)
    have ok: "\<forall>r\<in>set (sm_regions sm). ureg_ok (ur_region r)" "sorted_wrt before (sm_regions sm)"
      using assms(1) by (simp_all add: space_ok_def regions_ok_def)
    note pos = find_place_Value [OF find ok(1) d(1,2) ok(2), simplified]
    then have rs: "rs = take i (sm_regions sm) @ x # drop i (sm_regions sm)"
      using region_insert_eq [OF ins] by simp
    have "regions_ok rs"
      unfolding rs using pos assms(1) d(3) by (intro regions_ok_insert) (simp_all add: space_ok_def x_def)
    moreover have "rg_addrs (ur_region r) \<inter> rg_addrs d = {}" if r: "r \<in> set (sm_regions sm)" for r
    proof -
      have "r \<in> set (take i (sm_regions sm)) \<or> r \<in> set (drop i (sm_regions sm))"
        using r by (metis append_take_drop_id Un_iff set_append)
      then show ?thesis using pos by (fastforce simp: rg_addrs_def)
    qed
    moreover have "rg_start d = place_location sm location" by (simp add: d_def)
    ultimately show ?thesis using pos rs sm' Value d' by (auto simp: space_ok_def x_def)
  qed
qed

definition demo_pages :: page_allocator where
  "demo_pages = [Some \<lparr>rpa_region = \<lparr>rg_start = 0x100000, rg_size = 0x80000\<rparr>, rpa_free_bitmap = replicate 16 0,
     rpa_continuation_bitmap = replicate 16 0, rpa_last_freed = 0\<rparr>]"

definition demo_mm :: mm_state where
  "demo_mm = \<lparr>mm_pt = \<lparr>pt_tables = \<lambda>_. replicate PT_ENTRY_COUNT 0, pt_embedded_current = 0, pt_pages = demo_pages\<rparr>,
     mm_objects = [0 \<mapsto> \<lparr>bo_region = DeviceBackedRegion \<lparr>rg_start = 0x3000, rg_size = 4096\<rparr>, bo_ref_count = 1\<rparr>],
     mm_next_object = 1, mm_memory = \<lambda>_. 0\<rparr>"

definition demo_space :: space_manager where
  "demo_space = \<lparr>sm_regions = [\<lparr>ur_region = \<lparr>rg_start = 0x400000, rg_size = 4096\<rparr>, ur_backing = 0, ur_name = [],
     ur_permissions = OpRead\<rparr>], sm_root = 0x200000\<rparr>"

lemma demo_space_ok: "space_ok demo_space"
  by (simp add: space_ok_def demo_space_def regions_ok_def ureg_ok_def rg_page_aligned_def page_offset_def
      PAGE_SIZE_def USER_ADDR_MAX_def)

text \<open>
  A region placed after the one of the example, and one placed at the last page of the address space: the
  sum wraps around to 0, the check passes, and the region lies outside the user half.
\<close>

definition demo_root :: space_manager where "demo_root = demo_space\<lparr>sm_root := 0x100000\<rparr>"

lemma demo_place:
  assumes "page_offset virt = 0" and "uadd virt 4096 \<le> USER_ADDR_MAX"
    and "find_place (sm_regions sm) \<lparr>rg_start = virt, rg_size = 4096\<rparr> 0 = Value (length (sm_regions sm))"
    and "sm_root sm = 0x100000"
  shows "\<exists>s'. place_region demo_env fork_mm sm (Some virt) OpRead [] 0 =
    Some (Value \<lparr>rg_start = virt, rg_size = 4096\<rparr>, s', sm\<lparr>sm_regions := sm_regions sm @
      [\<lparr>ur_region = \<lparr>rg_start = virt, rg_size = 4096\<rparr>, ur_backing = 0, ur_name = [], ur_permissions = OpRead\<rparr>]\<rparr>)"
proof -
  obtain st' where "map_region demo_env (mm_pt fork_mm) 0x100000 virt 0x3000 4096
      (attributes_for_user True False False) MMIO = Some (True, st')"
    using demo_map[OF _ assms(1), of "mm_pt fork_mm"] by (force simp: fork_mm_def)
  moreover have "umul (ceil_div 4096 PAGE_SIZE) PAGE_SIZE = 4096"
    by (simp add: umul_def ceil_div_def uadd_def usub_def PAGE_SIZE_def)
  ultimately show ?thesis
    using assms unfolding place_region_def
    by (simp add: fork_mm_def map_into_table_def place_location_def rg_page_aligned_def page_offset_def
        PAGE_SIZE_def allows_def OpRead_def OpWrite_def OpExecute_def OpNone_def uadd_def Let_def
        region_insert_def)
qed

theorem place_region_keeps_space_witness:
  "\<exists>s' sm'. place_region demo_env fork_mm demo_root (Some 0x500000) OpRead [] 0
      = Some (Value \<lparr>rg_start = 0x500000, rg_size = 4096\<rparr>, s', sm') \<and> space_ok sm' \<and> length (sm_regions sm') = 2"
proof -
  have find: "find_place (sm_regions demo_root) \<lparr>rg_start = 0x500000, rg_size = 4096\<rparr> 0
      = Value (length (sm_regions demo_root))"
    by (simp add: demo_root_def demo_space_def rg_overlaps_def rg_end_def uadd_def)
  obtain s' sm' where placed: "place_region demo_env fork_mm demo_root (Some 0x500000) OpRead [] 0
      = Some (Value \<lparr>rg_start = 0x500000, rg_size = 4096\<rparr>, s', sm')" "length (sm_regions sm') = 2"
    using demo_place[OF _ _ find]
    by (force simp: page_offset_def PAGE_SIZE_def uadd_def USER_ADDR_MAX_def demo_root_def demo_space_def)
  have ok: "space_ok demo_root" using demo_space_ok by (simp add: demo_root_def space_ok_def)
  show ?thesis
    using place_region_keeps_space [OF ok _ _ _ placed(1),
        of "\<lparr>bo_region = DeviceBackedRegion \<lparr>rg_start = 0x3000, rg_size = 4096\<rparr>, bo_ref_count = 1\<rparr>"] placed
    by (simp add: fork_mm_def place_location_def)
qed

lemma place_region_wraps:
  "\<exists>s' sm'. place_region demo_env fork_mm (demo_root\<lparr>sm_regions := []\<rparr>) (Some (2 ^ 64 - 4096)) OpRead [] 0
      = Some (Value \<lparr>rg_start = 2 ^ 64 - 4096, rg_size = 4096\<rparr>, s', sm') \<and> \<not> space_ok sm'"
  using demo_place[of "2 ^ 64 - 4096" "demo_root\<lparr>sm_regions := []\<rparr>"]
  by (force simp: page_offset_def PAGE_SIZE_def uadd_def USER_ADDR_MAX_def demo_root_def demo_space_def
      space_ok_def regions_ok_def ureg_ok_def)

subsection \<open>Checking a range of user memory\<close>

lemma check_regions_spec:
  "check_regions rs c ops \<Longrightarrow> \<exists>r\<in>set rs. rg_contains (ur_region r) c \<and> ur_permissions r AND ops = ops"
  by (induction rs) (auto split: if_splits)

text \<open>
  C6: a range that \<open>SpaceManager::check_region\<close> accepts, and that does not run past the end of the
  address space, lies inside one region of the process whose permissions include every
  operation asked for.
\<close>

theorem check_region_sound:
  assumes "space_ok sm" and "check_region sm location sz ops" and "location + sz < 2 ^ 64"
  shows "\<exists>r\<in>set (sm_regions sm). {location ..< location + sz} \<subseteq> rg_addrs (ur_region r) \<and>
    ur_permissions r AND ops = ops"
proof -
  let ?c = "\<lparr>rg_start = location, rg_size = sz\<rparr>"
  obtain r where r: "r \<in> set (sm_regions sm)" "rg_contains (ur_region r) ?c" "ur_permissions r AND ops = ops"
    using assms(2) check_regions_spec unfolding check_region_def by blast
  have "region_ok (ur_region r)" using assms(1) r(1) ureg_ok_region_ok by (auto simp: space_ok_def regions_ok_def)
  moreover have "region_ok ?c" using assms(3) by (simp add: region_ok_def)
  ultimately have "rg_addrs ?c \<subseteq> rg_addrs (ur_region r)" using r(2) by (rule rg_contains_subset)
  then show ?thesis using r by (auto simp: rg_addrs_def)
qed

theorem check_region_sound_witness:
  "\<exists>r\<in>set (sm_regions demo_space). {0x400010 ..< 0x400010 + 16} \<subseteq> rg_addrs (ur_region r) \<and>
     ur_permissions r AND OpRead = OpRead"
  by (rule check_region_sound [OF demo_space_ok])
    (simp_all add: check_region_def demo_space_def rg_contains_def rg_end_def uadd_def)

text \<open>
without that bound the check is void.  The end of the range is computed modulo \<open>2 ^ 64\<close>, so as
  soon as the first region of a process permits an operation, \<open>check_region\<close> accepts a range that
  starts at \<^emph>\<open>any\<close> higher address, a kernel address included, with the size that reaches
  the end of the address space.
\<close>

theorem check_region_accepts_kernel:
  assumes "sm_regions sm = r # rs" and "ur_permissions r AND ops = ops"
    and "rg_start (ur_region r) \<le> a" and "a < 2 ^ 64"
  shows "check_region sm a (2 ^ 64 - a) ops"
  using assms by (simp add: check_region_def rg_contains_def rg_end_def [of "\<lparr>rg_start = _, rg_size = _\<rparr>"] uadd_def)

theorem check_region_accepts_kernel_witness:
  "check_region demo_space VA_IDENT_OFFSET (2 ^ 64 - VA_IDENT_OFFSET) OpRead"
  using check_region_accepts_kernel [of demo_space "hd (sm_regions demo_space)" "[]" OpRead VA_IDENT_OFFSET]
  by (simp add: demo_space_def VA_IDENT_OFFSET_def)

subsection \<open>Forking\<close>

text \<open>A region of the copy: the same place, name and permissions; what cannot be written is shared.\<close>

definition forked :: "userspace_region \<Rightarrow> userspace_region \<Rightarrow> bool" where
  "forked r r' \<longleftrightarrow> r' = r\<lparr>ur_backing := ur_backing r'\<rparr> \<and>
     (ur_permissions r AND OpWrite = 0 \<longrightarrow> ur_backing r' = ur_backing r)"

lemma clone_backing_shared:
  assumes "backing_clone_for_fork env s oid ops = Some (Value n, s')" and "ops AND OpWrite = 0"
  shows "n = oid"
  using assms by (auto simp: backing_clone_for_fork_def split: backing_region.splits if_splits bind_splits)

lemma clone_loop_forked:
  assumes "clone_loop env s root rs acc = Some (Value out, s')"
  shows "\<exists>new. out = acc @ new \<and> list_all2 forked rs new"
  using assms
proof (induction env s root rs acc arbitrary: out s' rule: clone_loop.induct)
  case (2 env s root r rs acc)
  obtain n s1 where n: "backing_clone_for_fork env s (ur_backing r) (ur_permissions r) = Some (Value n, s1)"
    using "2.prems" by (auto split: bind_splits expected.splits)
  define acc' where "acc' = acc @ [r\<lparr>ur_backing := n\<rparr>]"
  obtain ob s2 where ob: "mm_objects s1 n = Some ob"
    and m: "map_into_table env s1 (bo_region ob) root (ur_region r) 0 (allows (ur_permissions r) OpRead)
      (allows (ur_permissions r) OpWrite) (allows (ur_permissions r) OpExecute) = Some (ESUCCESS, s2)"
    and rest: "clone_loop env s2 root rs acc' = Some (Value out, s')"
    using "2.prems" n by (auto simp: acc'_def Let_def split: bind_splits if_splits)
  obtain new where new: "out = acc' @ new" "list_all2 forked rs new"
    using "2.IH" [OF n refl refl ob acc'_def m refl _ rest] by blast
  have "forked r (r\<lparr>ur_backing := n\<rparr>)"
    using clone_backing_shared [OF n] by (simp add: forked_def)
  then show ?case using new by (auto simp: acc'_def)
qed simp

lemma fork_witness: "\<exists>s'. space_clone_for_fork demo_env fork_mm demo_space =
    Some (Value \<lparr>sm_regions = sm_regions demo_space, sm_root = 0x100000\<rparr>, s')"
proof -
  obtain pt where pt: "create_user_manager (mm_pt fork_mm) = Some (0x100000, pt)" "pt_tables pt = demo_tables"
    using fork_root by blast
  show ?thesis
    unfolding space_clone_for_fork_def pt(1)
    using demo_map [OF pt(2), of "0x400000" "attributes_for_user True False False" MMIO]
    by (auto simp: demo_space_def backing_clone_for_fork_def fork_mm_def acquire_def map_into_table_def
       rg_page_aligned_def page_offset_def PAGE_SIZE_def allows_def OpRead_def OpWrite_def OpExecute_def OpNone_def uadd_def Let_def)
qed

text \<open>
  C19: the address space that \<open>clone_for_fork\<close> returns has the regions of the parent in the same order,
  each at the same addresses with the same name and permissions, and a region that the parent may
  not write shares its backing memory.
\<close>

theorem clone_for_fork_regions:
  assumes "space_clone_for_fork env s sm = Some (Value sm', s')"
  shows "list_all2 forked (sm_regions sm) (sm_regions sm')"
proof -
  obtain root pt out where "clone_loop env (s\<lparr>mm_pt := pt\<rparr>) root (sm_regions sm) [] = Some (out, s')"
    and out: "map_value (\<lambda>rs. \<lparr>sm_regions = rs, sm_root = root\<rparr>) out = Value sm'"
    using assms by (auto simp: space_clone_for_fork_def split: bind_splits)
  then show ?thesis using clone_loop_forked by (cases out) fastforce+
qed

theorem clone_for_fork_regions_witness:
  "list_all2 forked (sm_regions demo_space) (sm_regions \<lparr>sm_regions = sm_regions demo_space, sm_root = 0x100000\<rparr>)"
  using fork_witness clone_for_fork_regions by blast

end
