(* ===== verification/Bek_Time.thy ===== *)
theory Bek_Time
  imports Bek_Utility
begin

text \<open>
  \<open>bek/src/time.cpp\<close>: conversions between Unix timestamps, broken-down times and the packed
  date and time of DOS.  The fields of a broken-down time are \<open>u32\<close> values, written as
  numbers below \<open>2 ^ 32\<close>; 32-bit arithmetic that can wrap around has its \<open>mod\<close>.
\<close>

record DecomposedTime =
  dt_year :: nat
  dt_month :: nat
  dt_day :: nat
  dt_hour :: nat
  dt_minute :: nat
  dt_second :: nat
  dt_nanosecond :: nat

record UnixTimestamp =
  ts_seconds :: nat
  ts_nanoseconds :: nat

definition MONTH_DAYS :: "nat list" where
  "MONTH_DAYS = [0, 31, 59, 90, 120, 151, 181, 212, 243, 273, 304, 334, 365]"

definition SECONDS_IN_YEAR :: nat where "SECONDS_IN_YEAR = 31556952"
definition SECONDS_IN_DAY :: nat where "SECONDS_IN_DAY = 86400"

definition is_leap_year :: "nat \<Rightarrow> bool" where
  "is_leap_year year \<longleftrightarrow> year mod 4 = 0 \<and> (year mod 100 \<noteq> 0 \<or> year mod 400 = 0)"

definition from_decomposed :: "DecomposedTime \<Rightarrow> UnixTimestamp" where
  "from_decomposed time0 =
     (let time = (if dt_year time0 < 1970 then time0\<lparr>dt_year := 1970, dt_month := 1, dt_day := 1\<rparr> else time0);
          year = dt_year time;
          days0 = (365 * (year - 1970)) mod 2 ^ 32;
          days1 = uadd days0 ((year - 1) div 4 - 1969 div 4);
          days2 = usub days1 ((year - 1) div 100 - 1969 div 100);
          days3 = uadd days2 ((year - 1) div 400 - 1969 div 400);
          month = (if dt_month time > 12 \<or> dt_month time < 1 then 1 else dt_month time);
          days4 = uadd days3 (MONTH_DAYS ! (month - 1));
          days5 = (if month \<ge> 3 \<and> year mod 4 = 0 \<and> (year mod 100 \<noteq> 0 \<or> year mod 400 = 0)
                   then uadd days4 1 else days4);
          day = (if dt_day time < 1 \<or> dt_day time > 31 then 1 else dt_day time);
          days = uadd days5 (day - 1)
      in \<lparr>ts_seconds = uadd (uadd (uadd (umul days SECONDS_IN_DAY) ((dt_hour time * 3600) mod 2 ^ 32))
            ((dt_minute time * 60) mod 2 ^ 32)) (dt_second time),
          ts_nanoseconds = dt_nanosecond time\<rparr>)"

text \<open>The loop of \<open>decompose\<close> over the months, from \<open>month\<close> on; it ends at 13 when none fits.\<close>

fun find_month :: "bool \<Rightarrow> nat \<Rightarrow> nat list \<Rightarrow> nat \<Rightarrow> nat" where
  "find_month leap leftover_days [] month = month"
| "find_month leap leftover_days (m # ms) month =
     (if leftover_days < (if leap \<and> month \<ge> 3 then m + 1 else m) then month
      else find_month leap leftover_days ms (month + 1))"

definition decompose :: "UnixTimestamp \<Rightarrow> DecomposedTime" where
  "decompose ts =
     (let years = ts_seconds ts div SECONDS_IN_YEAR;
          leftover = ts_seconds ts mod SECONDS_IN_YEAR;
          leftover_days = leftover div SECONDS_IN_DAY;
          leftover_in_day = leftover mod SECONDS_IN_DAY;
          year = (years + 1970) mod 2 ^ 32;
          leap_year = is_leap_year year;
          month = find_month leap_year leftover_days (tl MONTH_DAYS) 1;
          days0 = leftover_days - MONTH_DAYS ! (month - 1);
          days = (if leap_year \<and> month - 1 \<ge> 3 then days0 - 1 else days0)
      in \<lparr>dt_year = year, dt_month = month, dt_day = days, dt_hour = leftover_in_day div 3600,
          dt_minute = leftover_in_day mod 3600 div 60, dt_second = leftover_in_day mod 60,
          dt_nanosecond = ts_nanoseconds ts\<rparr>)"

subsection \<open>DOS dates and times\<close>

text \<open>The bit fields of \<open>DOSPackedDate\<close> (5, 4 and 7 bits) and \<open>DOSPackedTime\<close> (5, 6 and 5 bits).\<close>

definition dos_date_from :: "DecomposedTime \<Rightarrow> nat" where
  "dos_date_from date =
     (let year = (if dt_year date \<ge> 1980 then dt_year date - 1980 else dt_year date + 2 ^ 32 - 1980)
      in year mod 2 ^ 7 * 2 ^ 9 + dt_month date mod 2 ^ 4 * 2 ^ 5 + dt_day date mod 2 ^ 5)"

definition dos_time_from :: "DecomposedTime \<Rightarrow> nat" where
  "dos_time_from time =
     dt_hour time mod 2 ^ 5 * 2 ^ 11 + dt_minute time mod 2 ^ 6 * 2 ^ 5 + dt_second time div 2 mod 2 ^ 5"

definition datetime_from_dos :: "nat \<Rightarrow> nat \<Rightarrow> DecomposedTime" where
  "datetime_from_dos dos_date dos_time =
     \<lparr>dt_year = dos_date div 2 ^ 9 mod 2 ^ 7 + 1980,
      dt_month = (if dos_date \<noteq> 0 then dos_date div 2 ^ 5 mod 2 ^ 4 else 1),
      dt_day = (if dos_date \<noteq> 0 then dos_date mod 2 ^ 5 else 1),
      dt_hour = dos_time div 2 ^ 11 mod 2 ^ 5, dt_minute = dos_time div 2 ^ 5 mod 2 ^ 6,
      dt_second = (dos_time mod 2 ^ 5) * 2, dt_nanosecond = 0\<rparr>"

subsection \<open>A reference calendar\<close>

definition year_length :: "nat \<Rightarrow> nat" where
  "year_length y = (if is_leap_year y then 366 else 365)"

definition month_length :: "nat \<Rightarrow> nat \<Rightarrow> nat" where
  "month_length y m = (if m = 2 then if is_leap_year y then 29 else 28
     else if m \<in> {4, 6, 9, 11} then 30 else 31)"

text \<open>Days from 1 January 1970, by counting whole years and months.\<close>

definition civil_days :: "nat \<Rightarrow> nat \<Rightarrow> nat \<Rightarrow> nat" where
  "civil_days y m d = (\<Sum>k = 1970..<y. year_length k) + (\<Sum>k = 1..<m. month_length y k) + (d - 1)"

lemma year_sum:
  "1970 \<le> y \<Longrightarrow> (\<Sum>k = 1970..<y. year_length k) + 492 + (y - 1) div 100 + 4 =
     365 * (y - 1970) + (y - 1) div 4 + (y - 1) div 400 + 19"
proof (induction y rule: nat_induct_at_least)
  case base
  then show ?case by simp
next
  case (Suc y)
  obtain z where z: "y = Suc z" using Suc.hyps by (cases y) auto
  define a4 a100 a400 :: nat where "a4 = (if y mod 4 = 0 then 1 else 0)"
    and "a100 = (if y mod 100 = 0 then 1 else 0)" and "a400 = (if y mod 400 = 0 then 1 else 0)"
  have div: "y div 4 = (y - 1) div 4 + a4" "y div 100 = (y - 1) div 100 + a100" "y div 400 = (y - 1) div 400 + a400"
    unfolding z a4_def a100_def a400_def by (simp_all only: div_Suc diff_Suc_1) auto
  have "y mod 400 mod 100 = y mod 100" "y mod 100 mod 4 = y mod 4" by (simp_all add: mod_mod_cancel)
  then have m: "y mod 400 = 0 \<Longrightarrow> y mod 100 = 0" "y mod 100 = 0 \<Longrightarrow> y mod 4 = 0" by auto
  have leap: "year_length y + a100 = 365 + a4 + a400"
    using m unfolding year_length_def is_leap_year_def a4_def a100_def a400_def
    by (cases "y mod 4 = 0"; cases "y mod 100 = 0"; cases "y mod 400 = 0") simp_all
  define S D d4 d100 d400 where defs: "S = (\<Sum>k = 1970..<y. year_length k)" "D = 365 * (y - 1970)"
    "d4 = (y - 1) div 4" "d100 = (y - 1) div 100" "d400 = (y - 1) div 400"
  have "S + 492 + d100 + 4 = D + d4 + d400 + 19" using Suc.IH by (simp only: defs)
  moreover have "(\<Sum>k = 1970..<Suc y. year_length k) = S + year_length y" "365 * (Suc y - 1970) = D + 365"
    using Suc.hyps by (simp_all add: defs)
  moreover have "Suc y - 1 = y" by simp
  moreover have "y div 4 = d4 + a4" "y div 100 = d100 + a100" "y div 400 = d400 + a400"
    by (simp_all only: div defs)
  ultimately show ?case using leap by (simp only:)
qed

lemma month_step:
  assumes "1 \<le> m" and "m < 12"
  shows "MONTH_DAYS ! m + (if 2 \<le> m \<and> is_leap_year y then 1 else 0) =
    MONTH_DAYS ! (m - 1) + (if 3 \<le> m \<and> is_leap_year y then 1 else 0) + month_length y m"
proof -
  have "m \<in> {1, 2, 3, 4, 5, 6, 7, 8, 9, 10, 11}" using assms unfolding insert_iff empty_iff by presburger
  then show ?thesis by (elim insertE emptyE) (simp_all add: MONTH_DAYS_def month_length_def)
qed

lemma month_sum:
  "1 \<le> m \<Longrightarrow> m \<le> 12 \<Longrightarrow>
   (\<Sum>k = 1..<m. month_length y k) = MONTH_DAYS ! (m - 1) + (if 3 \<le> m \<and> is_leap_year y then 1 else 0)"
proof (induction m rule: nat_induct_at_least)
  case base
  show ?case by (simp add: MONTH_DAYS_def)
next
  case (Suc m)
  then show ?case using month_step [of m y] by (auto split: if_splits)
qed

lemma year_sum_bound: "1970 \<le> y \<Longrightarrow> (\<Sum>k = 1970..<y. year_length k) \<le> 366 * (y - 1970)"
proof (induction y rule: nat_induct_at_least)
  case (Suc y)
  moreover have "year_length y \<le> 366" by (simp add: year_length_def)
  ultimately show ?case by simp
qed simp

text \<open>
  C27: \<open>UnixTimestamp::from_decomposed\<close> agrees with the calendar.  For a valid date from 1970 to
  100000 the seconds it returns are those of the days from 1 January 1970, counted year by year
  and month by month with the Gregorian leap rule, plus those of the time of day.
\<close>

theorem from_decomposed_calendar:
  assumes "1970 \<le> dt_year t" and "dt_year t \<le> 100000" and "1 \<le> dt_month t" and "dt_month t \<le> 12"
    and "1 \<le> dt_day t" and "dt_day t \<le> 31"
    and "dt_hour t < 24" and "dt_minute t < 60" and "dt_second t < 60"
  shows "ts_seconds (from_decomposed t) =
    86400 * civil_days (dt_year t) (dt_month t) (dt_day t) + 3600 * dt_hour t + 60 * dt_minute t + dt_second t"
proof -
  define y m d where "y = dt_year t" and "m = dt_month t" and "d = dt_day t"
  define d4 d100 d400 where defs: "d4 = (y - 1) div 4" "d100 = (y - 1) div 100" "d400 = (y - 1) div 400"
  define S where "S = (\<Sum>k = 1970..<y. year_length k)"
  have range: "1970 \<le> y" "y \<le> 100000" "1 \<le> m" "m \<le> 12" "1 \<le> d" "d \<le> 31"
    using assms by (simp_all add: y_def m_def d_def)
  have S: "S + 492 + d100 + 4 = 365 * (y - 1970) + d4 + d400 + 19"
    using year_sum [OF range(1)] by (simp only: S_def defs)
  have "y - 1 \<le> 99999" "1969 \<le> y - 1" using range by simp_all
  then have low: "d4 \<le> 24999" "492 \<le> d4" "d100 \<le> 999" "19 \<le> d100" "d400 \<le> 249" "4 \<le> d400"
    unfolding defs by (auto dest: div_le_mono [of _ _ 4] div_le_mono [of _ _ 100] div_le_mono [of _ _ 400])
  define leap where "leap = (if 3 \<le> m \<and> is_leap_year y then 1 else 0 :: nat)"
  have md: "(\<Sum>k = 1..<m. month_length y k) = MONTH_DAYS ! (m - 1) + leap"
    using month_sum [OF range(3,4), of y] by (simp add: leap_def)
  have "MONTH_DAYS ! (m - 1) \<in> set MONTH_DAYS" by (rule nth_mem) (use range in \<open>simp add: MONTH_DAYS_def\<close>)
  then have mb: "MONTH_DAYS ! (m - 1) \<le> 365" by (auto simp: MONTH_DAYS_def)
  have civil: "civil_days y m d = S + (MONTH_DAYS ! (m - 1) + leap) + (d - 1)"
    by (simp only: civil_days_def S_def md)
  define D where "D = 365 * (y - 1970)"
  have D: "D \<le> 365 * 98030" using range by (simp add: D_def)
  have "d100 * 100 \<le> y - 1" unfolding defs by (rule div_times_less_eq_dividend)
  then have d100: "d100 \<le> 19 + (y - 1970)" using range by linarith
  obtain e4 e100 e400 where e: "d4 = 492 + e4" "d100 = 19 + e100" "d400 = 4 + e400"
    using low by (metis le_Suc_ex)
  have "S + e100 = D + e4 + e400" "e100 \<le> D" using S d100 by (simp_all add: e D_def)
  then have S': "D + (d4 - 492) - (d100 - 19) + (d400 - 4) = S" "d100 - 19 \<le> D + (d4 - 492)"
    by (simp_all add: e)
  have Sb: "S \<le> 366 * 98030" using year_sum_bound [OF range(1)] range by (simp add: S_def)
  have d0: "(365 * (y - 1970)) mod 2 ^ 32 = D" using D unfolding D_def [symmetric] by simp
  have d3: "uadd (usub (uadd D (d4 - 492)) (d100 - 19)) (d400 - 4) = S"
  proof -
    have "uadd D (d4 - 492) = D + (d4 - 492)" using D low by (simp add: uadd_small)
    moreover have "usub (D + (d4 - 492)) (d100 - 19) = D + (d4 - 492) - (d100 - 19)" using S'(2) by (rule usub_le)
    ultimately show ?thesis using S'(1) Sb by (simp add: uadd_small)
  qed
  have d4': "uadd S (MONTH_DAYS ! (m - 1)) = S + MONTH_DAYS ! (m - 1)" using Sb mb by (simp add: uadd_small)
  have d5: "(if m \<ge> 3 \<and> y mod 4 = 0 \<and> (y mod 100 \<noteq> 0 \<or> y mod 400 = 0)
      then uadd (S + MONTH_DAYS ! (m - 1)) 1 else S + MONTH_DAYS ! (m - 1)) = S + MONTH_DAYS ! (m - 1) + leap"
    using Sb mb by (auto simp: leap_def is_leap_year_def uadd_small)
  have lb: "leap \<le> 1" by (simp add: leap_def)
  have d6: "uadd (S + MONTH_DAYS ! (m - 1) + leap) (d - 1) = civil_days y m d"
    unfolding civil using Sb mb lb range by (simp add: uadd_small)
  have cb: "civil_days y m d \<le> 40000000" unfolding civil using Sb mb lb range by simp
  have sizes: "1969 div 4 = (492 :: nat)" "1969 div 100 = (19 :: nat)" "1969 div 400 = (4 :: nat)" by simp_all
  have no: "\<not> y < 1970" "\<not> (m > 12 \<or> m < 1)" "\<not> (d < 1 \<or> d > 31)" using range by auto
  have "ts_seconds (from_decomposed t) = uadd (uadd (uadd (umul (civil_days y m d) SECONDS_IN_DAY)
      ((dt_hour t * 3600) mod 2 ^ 32)) ((dt_minute t * 60) mod 2 ^ 32)) (dt_second t)"
    unfolding from_decomposed_def Let_def y_def [symmetric] m_def [symmetric] d_def [symmetric]
      if_not_P [OF no(1)] if_not_P [OF no(2)] if_not_P [OF no(3)] sizes defs [symmetric] d0 d3 d4' d5 d6
    by simp
  also have "\<dots> = 86400 * civil_days y m d + 3600 * dt_hour t + 60 * dt_minute t + dt_second t"
    using cb assms(7-9) by (simp add: uadd_small umul_small SECONDS_IN_DAY_def)
  finally show ?thesis by (simp add: y_def m_def d_def)
qed

theorem from_decomposed_calendar_witness:
  "ts_seconds (from_decomposed \<lparr>dt_year = 2024, dt_month = 2, dt_day = 29, dt_hour = 12, dt_minute = 30, dt_second = 15,
     dt_nanosecond = 0\<rparr>) = 86400 * civil_days 2024 2 29 + 3600 * 12 + 60 * 30 + 15"
  using from_decomposed_calendar [of "\<lparr>dt_year = 2024, dt_month = 2, dt_day = 29, dt_hour = 12, dt_minute = 30,
     dt_second = 15, dt_nanosecond = 0\<rparr>"] by simp

text \<open>
\<open>decompose\<close> does not invert it.  It counts the days of a month from 0, takes every year to have the
  average length, and can leave the loop over the months at 13.  Midnight of 1 January 1971
  becomes day 0 of month 13 of 1970, and midnight of 1 March 2024 becomes 21:43:12 on day 0.
\<close>

theorem decompose_not_inverse:
  "decompose (from_decomposed \<lparr>dt_year = 1971, dt_month = 1, dt_day = 1, dt_hour = 0, dt_minute = 0, dt_second = 0,
       dt_nanosecond = 0\<rparr>) =
     \<lparr>dt_year = 1970, dt_month = 13, dt_day = 0, dt_hour = 0, dt_minute = 0, dt_second = 0, dt_nanosecond = 0\<rparr> \<and>
   decompose (from_decomposed \<lparr>dt_year = 2024, dt_month = 3, dt_day = 1, dt_hour = 0, dt_minute = 0, dt_second = 0,
       dt_nanosecond = 0\<rparr>) =
     \<lparr>dt_year = 2024, dt_month = 3, dt_day = 0, dt_hour = 21, dt_minute = 43, dt_second = 12, dt_nanosecond = 0\<rparr>"
  (is "decompose (from_decomposed ?t1) = _ \<and> decompose (from_decomposed ?t2) = _")
proof -
  have "from_decomposed ?t1 = \<lparr>ts_seconds = 31536000, ts_nanoseconds = 0\<rparr>"
    unfolding from_decomposed_def Let_def DecomposedTime.simps SECONDS_IN_DAY_def uadd_def usub_def umul_def
    by (simp add: MONTH_DAYS_def)
  moreover have "from_decomposed ?t2 = \<lparr>ts_seconds = 1709251200, ts_nanoseconds = 0\<rparr>"
    unfolding from_decomposed_def Let_def DecomposedTime.simps SECONDS_IN_DAY_def uadd_def usub_def umul_def
    by (simp add: MONTH_DAYS_def)
  ultimately show ?thesis
    unfolding decompose_def Let_def UnixTimestamp.simps SECONDS_IN_DAY_def SECONDS_IN_YEAR_def
    by (simp add: MONTH_DAYS_def is_leap_year_def)
qed

end
