(* ===== verification/Fat_Entries.thy ===== *)
theory Fat_Entries
  imports Bek_Time
begin

text \<open>
  The directory entries of \<open>kernel/src/filesystem/fat.cpp\<close>: 8.3 names, long file names, and the
  32-byte records on disk.  A character is a byte (\<open>char\<close> is unsigned on the target), a string
  and a raw entry are lists of bytes, and the fields of a raw entry are the slices that the packed
  structs lay out.
\<close>

datatype EntryType = Normal | EndOfDirectory | Deleted | LongFileName

type_synonym short_name = "u8 list"
type_synonym raw_entry = "u8 list"

record BasicFATEntry =
  be_name :: "u8 list"
  be_creation_timestamp :: nat
  be_accessed_timestamp :: nat
  be_modified_timestamp :: nat
  be_size :: u32
  be_data_cluster :: u32
  be_raw_attributes :: u8

definition is_directory :: "BasicFATEntry \<Rightarrow> bool" where
  "is_directory e \<longleftrightarrow> be_raw_attributes e AND 0x10 \<noteq> 0"

definition is_read_only :: "BasicFATEntry \<Rightarrow> bool" where
  "is_read_only e \<longleftrightarrow> be_raw_attributes e AND 0x01 \<noteq> 0"

definition is_hidden :: "BasicFATEntry \<Rightarrow> bool" where
  "is_hidden e \<longleftrightarrow> be_raw_attributes e AND 0x02 \<noteq> 0"

subsection \<open>Fields of a raw entry\<close>

definition field16 :: "raw_entry \<Rightarrow> nat \<Rightarrow> u16" where
  "field16 e off = le_word (take 2 (drop off e))"

definition field32 :: "raw_entry \<Rightarrow> nat \<Rightarrow> u32" where
  "field32 e off = le_word (take 4 (drop off e))"

definition re_fatname :: "raw_entry \<Rightarrow> short_name" where "re_fatname e = take 11 e"
definition re_attrib :: "raw_entry \<Rightarrow> u8" where "re_attrib e = e ! 11"
definition re_create_time :: "raw_entry \<Rightarrow> u16" where "re_create_time e = field16 e 14"
definition re_create_date :: "raw_entry \<Rightarrow> u16" where "re_create_date e = field16 e 16"
definition re_access_date :: "raw_entry \<Rightarrow> u16" where "re_access_date e = field16 e 18"
definition re_cluster_high :: "raw_entry \<Rightarrow> u16" where "re_cluster_high e = field16 e 20"
definition re_modify_time :: "raw_entry \<Rightarrow> u16" where "re_modify_time e = field16 e 22"
definition re_modify_date :: "raw_entry \<Rightarrow> u16" where "re_modify_date e = field16 e 24"
definition re_cluster_low :: "raw_entry \<Rightarrow> u16" where "re_cluster_low e = field16 e 26"
definition re_size :: "raw_entry \<Rightarrow> u32" where "re_size e = field32 e 28"

definition lfn_order :: "raw_entry \<Rightarrow> u8" where "lfn_order e = e ! 0"
definition lfn_checksum :: "raw_entry \<Rightarrow> u8" where "lfn_checksum e = e ! 13"

definition lfn_chars :: "raw_entry \<Rightarrow> u16 list" where
  "lfn_chars e = map (field16 e) ([1, 3, 5, 7, 9] @ [14, 16, 18, 20, 22, 24] @ [28, 30])"

definition raw_type :: "raw_entry \<Rightarrow> EntryType" where
  "raw_type e =
     (if e ! 0 = 0 then EndOfDirectory
      else if e ! 0 = 0xE5 then Deleted
      else if (e ! 11) AND 0x0F = 0x0F then LongFileName
      else Normal)"

text \<open>\<open>RawFATItemEntry::from\<close>; the access date is taken from the modification time.\<close>

definition raw_item_from :: "short_name \<Rightarrow> BasicFATEntry \<Rightarrow> raw_entry" where
  "raw_item_from fatname e =
     (let creation_time = decompose \<lparr>ts_seconds = be_creation_timestamp e, ts_nanoseconds = 0\<rparr>;
          modified_time = decompose \<lparr>ts_seconds = be_modified_timestamp e, ts_nanoseconds = 0\<rparr>;
          le16 = (\<lambda>n :: nat. le_bytes 2 (of_nat n :: u16))
      in fatname @ [be_raw_attributes e] @ le16 0 @
         le16 (dos_time_from creation_time) @ le16 (dos_date_from creation_time) @
         le16 (dos_date_from modified_time) @
         le_bytes 2 (ucast (drop_bit 16 (be_data_cluster e)) :: u16) @
         le16 (dos_time_from modified_time) @ le16 (dos_date_from modified_time) @
         le_bytes 2 (ucast (be_data_cluster e) :: u16) @ le_bytes 4 (be_size e))"

subsection \<open>Short names\<close>

definition is_valid_fat_char :: "u8 \<Rightarrow> bool" where
  "is_valid_fat_char c \<longleftrightarrow>
     (65 \<le> c \<and> c \<le> 90) \<or> (48 \<le> c \<and> c \<le> 57) \<or> (128 \<le> c \<and> c \<le> 228) \<or> 230 \<le> c \<or>
     c \<in> {0x20, 0x21, 0x23, 0x24, 0x25, 0x26, 0x27, 0x28, 0x29, 0x2D, 0x60, 0x7B, 0x7D, 0x7E}"

text \<open>The character stored for \<open>c\<close>, when it is not a space.\<close>

definition short_char :: "u8 \<Rightarrow> u8" where
  "short_char c = (if 97 \<le> c \<and> c \<le> 122 then c - 32 else if is_valid_fat_char c then c else 0x5F)"

text \<open>
  The two loops that fill a field of the name: at most \<open>limit\<close> characters, spaces dropped, up to
  a dot when \<open>dot_ends\<close>.  They return the characters and the rest of the name.
\<close>

fun take_chars :: "bool \<Rightarrow> nat \<Rightarrow> u8 list \<Rightarrow> u8 list \<times> u8 list" where
  "take_chars dot_ends limit [] = ([], [])"
| "take_chars dot_ends limit (c # cs) =
     (if limit = 0 \<or> (dot_ends \<and> c = 0x2E) then ([], c # cs)
      else if c = 0x20 then take_chars dot_ends limit cs
      else (let (r, rest) = take_chars dot_ends (limit - 1) cs in (short_char c # r, rest)))"

fun last_dot :: "u8 list \<Rightarrow> nat \<Rightarrow> nat option \<Rightarrow> nat option" where
  "last_dot [] i found = found"
| "last_dot (c # cs) i found = last_dot cs (i + 1) (if c = 0x2E then Some i else found)"

definition pad_to :: "nat \<Rightarrow> u8 list \<Rightarrow> u8 list" where
  "pad_to n cs = cs @ replicate (n - length cs) 0x20"

text \<open>The name before the tail, and the number of characters of its first field.\<close>

definition short_name_base :: "u8 list \<Rightarrow> short_name \<times> nat" where
  "short_name_base full_name =
     (let name = dropWhile (\<lambda>c. c = 0x2E \<or> c = 0x20) full_name;
          (base, rest) = take_chars True 8 name;
          ext = (case last_dot rest 0 None of
                   Some p \<Rightarrow> if p + 1 < length rest then fst (take_chars False 3 (drop (p + 1) rest)) else []
                 | None \<Rightarrow> [])
      in (pad_to 8 base @ pad_to 3 ext, length base))"

text \<open>
  \<open>generate_short_name\<close>.  The loop that numbers a duplicate runs once: its check of the candidate
  against the other names only continues the inner loop, and then \<open>duplicate\<close> is cleared.
\<close>

definition generate_short_name :: "u8 list \<Rightarrow> short_name list \<Rightarrow> short_name option" where
  "generate_short_name full_name short_names = do {
     verify (full_name \<noteq> []);
     (if full_name = [0x2E] then Some (pad_to 11 [0x2E])
      else if full_name = [0x2E, 0x2E] then Some (pad_to 11 [0x2E, 0x2E])
      else (let (r, base_len) = short_name_base full_name;
                n_string = [0x7E, 0x31];
                insertion_posn = min base_len (8 - length n_string)
            in if \<exists>s \<in> set short_names. mem_compare s r = 0
               then Some (take insertion_posn r @ n_string @ drop (insertion_posn + length n_string) r)
               else Some r)) }"

definition checksum_shortname :: "short_name \<Rightarrow> u8" where
  "checksum_shortname name =
     foldl (\<lambda>checksum i. (if checksum AND 1 \<noteq> 0 then 0x80 else 0) + drop_bit 1 checksum + i) 0 name"

definition short_name_to_string :: "short_name \<Rightarrow> u8 list" where
  "short_name_to_string name =
     (let main = takeWhile (\<lambda>c. c \<noteq> 0x20) (take 8 name);
          ext = takeWhile (\<lambda>c. c \<noteq> 0x20) (take 3 (drop 8 name))
      in if ext \<noteq> [] then main @ [0x2E] @ ext else main)"

subsection \<open>Packed entries\<close>

text \<open>The raw entries of one file: its long-name entries and then the entry itself.\<close>

type_synonym packed_entry = "raw_entry list"

text \<open>\<open>StringStream::build_and_clear\<close> makes a string of the characters up to the first null.\<close>

definition build_string :: "u8 list \<Rightarrow> u8 list" where
  "build_string cs = takeWhile (\<lambda>c. c \<noteq> 0) cs"

fun long_name_loop :: "nat \<Rightarrow> u8 \<Rightarrow> raw_entry list \<Rightarrow> u8 list \<Rightarrow> u8 list expected" where
  "long_name_loop n checksum [] built = Value (build_string built)"
| "long_name_loop n checksum (e # es) built =
     (if unat (lfn_order e AND 0x3F) \<noteq> n then Err EINVAL
      else if lfn_checksum e \<noteq> checksum then Err EINVAL
      else if 0 \<in> set (lfn_chars e)
      then Value (build_string (built @ map ucast (takeWhile (\<lambda>c. c \<noteq> 0) (lfn_chars e))))
      else long_name_loop (n - 1) checksum es (built @ map ucast (lfn_chars e)))"

definition extract_long_name :: "packed_entry \<Rightarrow> u8 list expected" where
  "extract_long_name p =
     (let lfns = butlast p
      in if lfns = [] then Err EINVAL
         else if lfn_order (hd lfns) AND 0x40 = 0 then Err EINVAL
         else if unat (lfn_order (hd lfns) AND 0x3F) \<noteq> length lfns then Err EINVAL
         else long_name_loop (length lfns) (checksum_shortname (re_fatname (last p))) lfns [])"

definition extract_name :: "packed_entry \<Rightarrow> u8 list" where
  "extract_name p =
     (case extract_long_name p of Value x \<Rightarrow> x | Err _ \<Rightarrow> short_name_to_string (re_fatname (last p)))"

definition to_basic :: "packed_entry \<Rightarrow> BasicFATEntry" where
  "to_basic p =
     (let e = last p;
          stamp = (\<lambda>d t. ts_seconds (from_decomposed (datetime_from_dos (unat d) (unat t))))
      in \<lparr>be_name = extract_name p,
          be_creation_timestamp = stamp (re_create_date e) (re_create_time e),
          be_accessed_timestamp = stamp (re_access_date e) (0 :: u16),
          be_modified_timestamp = stamp (re_modify_date e) (re_modify_time e),
          be_size = re_size e,
          be_data_cluster = ucast (re_cluster_low e) OR push_bit 16 (ucast (re_cluster_high e)),
          be_raw_attributes = re_attrib e\<rparr>)"

subsection \<open>Properties\<close>

lemma le_word_le_bytes_2: "le_word (le_bytes 2 (w :: u16)) = w"
  by (simp add: le_word_le_bytes_full)

lemma le_word_le_bytes_4: "le_word (le_bytes 4 (w :: u32)) = w"
  by (simp add: le_word_le_bytes_full)

lemma cluster_split: "(ucast (ucast c :: u16) :: u32) OR push_bit 16 (ucast (ucast (drop_bit 16 c) :: u16)) = (c :: u32)"
  by (rule bit_word_eqI) (auto simp: bit_simps dest: bit_imp_le_length)

lemma raw_item_fields:
  assumes "length f = 11"
  shows "length (raw_item_from f e) = 32" "re_fatname (raw_item_from f e) = f"
    "re_attrib (raw_item_from f e) = be_raw_attributes e" "re_size (raw_item_from f e) = be_size e"
    "re_cluster_low (raw_item_from f e) = ucast (be_data_cluster e)"
    "re_cluster_high (raw_item_from f e) = ucast (drop_bit 16 (be_data_cluster e))"
  using assms
  by (simp_all add: raw_item_from_def Let_def re_fatname_def re_attrib_def re_size_def re_cluster_low_def
      re_cluster_high_def field16_def field32_def nth_append le_word_le_bytes_2 le_word_le_bytes_4)

text \<open>
writing a directory entry and reading it back keeps what the file system depends on.  For an
  11-byte name, \<open>to_basic\<close> of the record that \<open>RawFATItemEntry::from\<close> makes has the same size, first
  cluster and attributes, and its name is the short name.
\<close>

theorem raw_item_roundtrip:
  assumes "length f = 11"
  shows "be_size (to_basic [raw_item_from f e]) = be_size e \<and>
    be_data_cluster (to_basic [raw_item_from f e]) = be_data_cluster e \<and>
    be_raw_attributes (to_basic [raw_item_from f e]) = be_raw_attributes e \<and>
    be_name (to_basic [raw_item_from f e]) = short_name_to_string f"
  using raw_item_fields [OF assms, of e]
  by (simp add: to_basic_def Let_def extract_name_def extract_long_name_def cluster_split)

theorem raw_item_roundtrip_witness:
  "be_size (to_basic [raw_item_from (replicate 11 0x41) \<lparr>be_name = [], be_creation_timestamp = 0, be_accessed_timestamp = 0,
     be_modified_timestamp = 0, be_size = 5, be_data_cluster = 0x12345, be_raw_attributes = 0x20\<rparr>]) = 5"
  using raw_item_roundtrip [of "replicate 11 0x41" "\<lparr>be_name = [], be_creation_timestamp = 0, be_accessed_timestamp = 0,
     be_modified_timestamp = 0, be_size = 5, be_data_cluster = 0x12345, be_raw_attributes = 0x20\<rparr>"] by simp

text \<open>
a long file name loses everything but its end.  The records of a long name are stored last part
  first, and \<open>extract_long_name\<close> reads them in that order and stops at the first null character.
  So when the first record on disk, which holds the end of the name, has its terminator, the
  name is what precedes the terminator in that record; the other records, which hold the beginning of
  the name, are never read.
\<close>

theorem long_name_is_tail:
  assumes "lfn_order e AND 0x40 \<noteq> 0" and "unat (lfn_order e AND 0x3F) = length es + 1"
    and "lfn_checksum e = checksum_shortname (re_fatname item)" and "0 \<in> set (lfn_chars e)"
  shows "extract_name (e # es @ [item]) = build_string (map ucast (takeWhile (\<lambda>c. c \<noteq> 0) (lfn_chars e)))"
proof -
  have "butlast (e # es @ [item]) = e # es" by simp
  then show ?thesis using assms by (simp add: extract_name_def extract_long_name_def)
qed

text \<open>Two records of the name \<open>ABCDEFGHIJKLMN\<close>, of which only the \<open>N\<close> is read.\<close>

definition demo_item :: raw_entry where
  "demo_item = [0x41, 0x7E, 0x31] @ replicate 29 0x20"

definition demo_lfn :: "u8 \<Rightarrow> u8 list \<Rightarrow> raw_entry" where
  "demo_lfn order cs = (let c = (\<lambda>i. if i < length cs then [cs ! i, 0] else [0, 0])
     in [order] @ concat (map c [0..<5]) @ [0x0F, 0, checksum_shortname (re_fatname demo_item)] @
        concat (map c [5..<11]) @ [0, 0] @ concat (map c [11..<13]))"

theorem long_name_is_tail_witness:
  "extract_name [demo_lfn 0x42 [0x4E], demo_lfn 0x01 [0x41, 0x42, 0x43, 0x44, 0x45, 0x46, 0x47, 0x48, 0x49, 0x4A, 0x4B, 0x4C, 0x4D],
     demo_item] = [0x4E]"
proof -
  let ?e = "demo_lfn 0x42 [0x4E]"
  have "lfn_order ?e = 0x42" "lfn_checksum ?e = checksum_shortname (re_fatname demo_item)"
    by (simp_all add: demo_lfn_def Let_def lfn_order_def lfn_checksum_def upt_rec)
  moreover have "lfn_chars ?e = 0x4E # replicate 12 0"
    by code_simp
  ultimately show ?thesis
    using long_name_is_tail [of ?e "[demo_lfn 0x01 [0x41, 0x42, 0x43, 0x44, 0x45, 0x46, 0x47, 0x48, 0x49, 0x4A, 0x4B, 0x4C, 0x4D]]"
        demo_item]
    by (simp add: build_string_def)
qed

text \<open>
the numeric tail does not make a name unique.  When a directory holds \<open>A\<close> and \<open>A~1\<close>, the short
  name generated for a third file \<open>a\<close> is \<open>A~1\<close> again.
\<close>

theorem generate_short_name_duplicate:
  "generate_short_name [0x61] [pad_to 11 [0x41], pad_to 11 [0x41, 0x7E, 0x31]] = Some (pad_to 11 [0x41, 0x7E, 0x31])"
  by code_simp

end
