(* ===== verification/Fat.thy ===== *)
theory Fat
  imports Fat_Entries Lru_Cache Transactional_Buffer
begin

text \<open>
  \<open>kernel/src/filesystem/fat.cpp\<close> and \<open>library/block_cache.{h,cpp}\<close>: the allocation table, the two
  block caches in front of the device, file data and directories.

  The device is the list of its bytes.  A cached block is known by its number; what the code does
  through a pointer to it is \<open>cache_modify\<close>.  The blocks that the running operation holds a
  pointer to have a reference count above 1: \<open>held\<close>.  A new block has the contents of fresh
  memory, \<open>fat_junk\<close>, until it is read from the device.
\<close>

subsection \<open>Cached blocks\<close>

record BlockCacheItem =
  bi_key :: nat
  bi_data :: "u8 list"
  bi_dirty_start :: nat
  bi_dirty_end :: nat

definition block_create :: "nat \<Rightarrow> u8 list \<Rightarrow> BlockCacheItem" where
  "block_create key contents = \<lparr>bi_key = key, bi_data = contents, bi_dirty_start = 0, bi_dirty_end = 0\<rparr>"

definition is_dirty :: "BlockCacheItem \<Rightarrow> bool" where
  "is_dirty b \<longleftrightarrow> bi_dirty_end b \<noteq> bi_dirty_start b"

definition mark_dirty :: "nat \<Rightarrow> nat \<Rightarrow> BlockCacheItem \<Rightarrow> BlockCacheItem" where
  "mark_dirty start fin b =
     (if is_dirty b
      then b\<lparr>bi_dirty_start := min start (bi_dirty_start b), bi_dirty_end := max fin (bi_dirty_end b)\<rparr>
      else b\<lparr>bi_dirty_start := start, bi_dirty_end := fin\<rparr>)"

definition add_dirty_region :: "BlockCacheItem \<Rightarrow> nat \<Rightarrow> nat \<Rightarrow> BlockCacheItem option" where
  "add_dirty_region b start fin = do {
     verify (start \<le> fin \<and> fin \<le> length (bi_data b));
     Some (mark_dirty start fin b) }"

definition clear_dirty :: "BlockCacheItem \<Rightarrow> BlockCacheItem" where
  "clear_dirty b = b\<lparr>bi_dirty_start := 0, bi_dirty_end := 0\<rparr>"

definition set_whole_dirty :: "BlockCacheItem \<Rightarrow> BlockCacheItem" where
  "set_whole_dirty b = b\<lparr>bi_dirty_end := length (bi_data b), bi_dirty_start := 0\<rparr>"

text \<open>The destructor insists that nothing is lost.\<close>

definition block_destroy :: "BlockCacheItem \<Rightarrow> unit option" where
  "block_destroy b = verify (\<not> is_dirty b)"

type_synonym block_cache = "(nat, BlockCacheItem) lru_cache"

definition block_hash :: "nat \<Rightarrow> u64" where
  "block_hash key = hash_u64 (of_nat key)"

definition cache_modify :: "block_cache \<Rightarrow> nat \<Rightarrow> (BlockCacheItem \<Rightarrow> BlockCacheItem) \<Rightarrow> block_cache" where
  "cache_modify c key f =
     c\<lparr>lru_table := (lru_table c)\<lparr>ht_slots := map (\<lambda>s. case s of
         SFilled k item \<Rightarrow> if k = key then SFilled k (item\<lparr>li_v := f (li_v item)\<rparr>) else s
       | _ \<Rightarrow> s) (ht_slots (lru_table c))\<rparr>\<rparr>"

definition block_refs :: "nat list \<Rightarrow> BlockCacheItem \<Rightarrow> nat" where
  "block_refs held b = (if bi_key b \<in> set held then 2 else 1)"

subsection \<open>State\<close>

datatype FatType = FAT12 | FAT16 | FAT32 | ExFAT

datatype RootAttrs = RootCluster nat | RootDir nat nat

record FATInfo =
  fi_fat_type :: FatType
  fi_sector_size :: nat
  fi_sectors_per_cluster :: nat
  fi_fat_begin_sector :: nat
  fi_fat_sectors :: nat
  fi_root_info :: RootAttrs
  fi_data_begin_sector :: nat

record fat =
  fat_info :: FATInfo
  fat_device :: "u8 list"
  fat_cluster_cache :: block_cache
  fat_sector_cache :: block_cache
  fat_free_cluster_hint :: nat
  fat_junk :: "u8 list"

definition CLUSTER_CACHE_MAX :: nat where "CLUSTER_CACHE_MAX = 10"
definition FAT_SECTOR_CACHE_MAX :: nat where "FAT_SECTOR_CACHE_MAX = 10"

definition fat_new :: "FATInfo \<Rightarrow> u8 list \<Rightarrow> u8 list \<Rightarrow> fat" where
  "fat_new info device junk =
     \<lparr>fat_info = info, fat_device = device, fat_cluster_cache = lru_cache_new CLUSTER_CACHE_MAX,
      fat_sector_cache = lru_cache_new FAT_SECTOR_CACHE_MAX, fat_free_cluster_hint = 0, fat_junk = junk\<rparr>"

definition cluster_size :: "fat \<Rightarrow> uSize" where
  "cluster_size st = umul (fi_sectors_per_cluster (fat_info st)) (fi_sector_size (fat_info st))"

subsection \<open>Cluster numbers and table entries\<close>

definition CLUSTER_EOC :: nat where "CLUSTER_EOC = 0x0FFFFFFF"
definition METADATA_MASK :: u32 where "METADATA_MASK = 0xF0000000"

datatype ClusterType = NextPointer | EndOfChain | Free | Corrupt | Reserved

definition cluster_index :: "u32 \<Rightarrow> u32" where
  "cluster_index cluster = cluster AND NOT METADATA_MASK"

definition get_cluster_type :: "nat \<Rightarrow> ClusterType" where
  "get_cluster_type n =
     (let cluster_n = n mod 2 ^ 28
      in if cluster_n \<le> 0xFFFFFEF \<and> cluster_n > 1 then NextPointer
         else if cluster_n = 0 then Free
         else if cluster_n \<ge> 0xFFFFFF8 then EndOfChain
         else if cluster_n = 0xFFFFFF7 then Corrupt
         else Reserved)"

definition entry_bytes :: "FATInfo \<Rightarrow> nat" where
  "entry_bytes info = (if fi_fat_type info = FAT16 then 2 else 4)"

definition fat_sector_index_and_offset_for :: "FATInfo \<Rightarrow> nat \<Rightarrow> nat \<times> nat" where
  "fat_sector_index_and_offset_for info cluster =
     (let total_byte_offset = (cluster * entry_bytes info) mod 2 ^ 32
      in (total_byte_offset div fi_sector_size info, total_byte_offset mod fi_sector_size info))"

definition extract_fat_value :: "FATInfo \<Rightarrow> nat \<Rightarrow> u8 list \<Rightarrow> nat option" where
  "extract_fat_value info byte_offset sector =
     (if fi_fat_type info = FAT16
      then do {
        w \<leftarrow> readLE16 sector byte_offset;
        (let x = ucast w :: u32 in Some (unat (if x < 0xFFF7 then x else x OR 0x0FFF0000))) }
      else do { w \<leftarrow> readLE32 sector byte_offset; Some (unat (cluster_index w)) })"

definition set_fat_value :: "FATInfo \<Rightarrow> nat \<Rightarrow> u8 list \<Rightarrow> nat \<Rightarrow> u8 list option" where
  "set_fat_value info byte_offset sector val =
     (if fi_fat_type info = FAT16 then writeLE16 (of_nat val) sector byte_offset
      else do {
        old \<leftarrow> readLE32 sector byte_offset;
        writeLE32 ((old AND METADATA_MASK) OR (of_nat val AND NOT METADATA_MASK)) sector byte_offset })"

definition get_fat_entry_count :: "FATInfo \<Rightarrow> nat" where
  "get_fat_entry_count info = (fi_fat_sectors info * fi_sector_size info) mod 2 ^ 32 div entry_bytes info"

definition cluster_byte_addr :: "FATInfo \<Rightarrow> nat \<Rightarrow> uSize option" where
  "cluster_byte_addr info cluster_i = do {
     verify (cluster_i \<ge> 2);
     Some (umul ((fi_data_begin_sector info + fi_sectors_per_cluster info * (cluster_i - 2)) mod 2 ^ 32)
             (fi_sector_size info)) }"

definition fat_sector_byte_addr :: "FATInfo \<Rightarrow> nat \<Rightarrow> uSize" where
  "fat_sector_byte_addr info sector_n = umul (uadd (fi_fat_begin_sector info) sector_n) (fi_sector_size info)"

subsection \<open>Writing back\<close>

text \<open>The result of \<open>blocking_write\<close> is not looked at: a write outside the device does nothing.\<close>

definition device_write :: "u8 list \<Rightarrow> uSize \<Rightarrow> u8 list \<Rightarrow> u8 list" where
  "device_write device off bs = (case mem_write device off bs of Some d \<Rightarrow> d | None \<Rightarrow> device)"

definition purge_cluster :: "FATInfo \<Rightarrow> u8 list \<Rightarrow> nat \<Rightarrow> BlockCacheItem \<Rightarrow> u8 list option" where
  "purge_cluster info device cluster_n c =
     (if is_dirty c
      then do {
        addr \<leftarrow> cluster_byte_addr info cluster_n;
        (let start = bi_dirty_start c; fin = bi_dirty_end c
         in Some (device_write device (uadd addr start) (take (fin - start) (drop start (bi_data c))))) }
      else Some device)"

definition purge_fat_sector :: "FATInfo \<Rightarrow> u8 list \<Rightarrow> nat \<Rightarrow> BlockCacheItem \<Rightarrow> u8 list" where
  "purge_fat_sector info device fat_sector c =
     (if is_dirty c then device_write device (fat_sector_byte_addr info fat_sector) (bi_data c) else device)"

fun purge_clusters :: "FATInfo \<Rightarrow> u8 list \<Rightarrow> (nat \<times> BlockCacheItem) list \<Rightarrow> u8 list option" where
  "purge_clusters info device [] = Some device"
| "purge_clusters info device ((k, c) # rest) = do { d \<leftarrow> purge_cluster info device k c; purge_clusters info d rest }"

definition purge_fat_sectors :: "FATInfo \<Rightarrow> u8 list \<Rightarrow> (nat \<times> BlockCacheItem) list \<Rightarrow> u8 list" where
  "purge_fat_sectors info device purged = foldl (\<lambda>d (k, c). purge_fat_sector info d k c) device purged"

subsection \<open>Fetching\<close>

text \<open>
  The loop of \<open>fetch_fat_sector\<close> and \<open>fetch_cluster\<close>: find the block, or make one with the given
  contents and insert it.  With one thread, an insertion that finds the key taken is followed by
  a successful find.
\<close>

definition cache_fetch :: "nat list \<Rightarrow> block_cache \<Rightarrow> nat \<Rightarrow> u8 list option \<Rightarrow>
    (u8 list \<times> (nat \<times> BlockCacheItem) list \<times> block_cache) option" where
  "cache_fetch held c key contents = do {
     (p, c1) \<leftarrow> lru_find block_hash c key;
     (case p of
        Some b \<Rightarrow> Some (bi_data b, [], c1)
      | None \<Rightarrow> do {
          loaded \<leftarrow> contents;
          (success, purged, c2) \<leftarrow> lru_set block_hash (block_refs (key # held)) c1 key (block_create key loaded);
          (if success then Some (loaded, purged, c2)
           else do { (p', c3) \<leftarrow> lru_find block_hash c2 key; b \<leftarrow> p'; Some (bi_data b, purged, c3) }) }) }"

definition fetch_fat_sector :: "nat list \<Rightarrow> fat \<Rightarrow> nat \<Rightarrow> (u8 list \<times> fat) option" where
  "fetch_fat_sector held st sector_n =
     (let info = fat_info st
      in do {
        verify (sector_n < fi_fat_sectors info);
        (data, purged, c) \<leftarrow> cache_fetch held (fat_sector_cache st) sector_n
          (mem_read (fat_device st)
             (((fi_fat_begin_sector info + sector_n) * fi_sector_size info) mod 2 ^ 32) (fi_sector_size info));
        Some (data, st\<lparr>fat_sector_cache := c, fat_device := purge_fat_sectors info (fat_device st) purged\<rparr>) })"

definition fetch_cluster :: "fat \<Rightarrow> nat \<Rightarrow> bool \<Rightarrow> (u8 list \<times> fat) option" where
  "fetch_cluster st cluster_n needs_content =
     (let info = fat_info st;
          contents = (if needs_content
            then do { addr \<leftarrow> cluster_byte_addr info cluster_n; mem_read (fat_device st) addr (cluster_size st) }
            else Some (take (cluster_size st) (fat_junk st)))
      in do {
        (data, purged, c) \<leftarrow> cache_fetch [] (fat_cluster_cache st) cluster_n contents;
        device \<leftarrow> purge_clusters info (fat_device st) purged;
        Some (data, st\<lparr>fat_cluster_cache := c, fat_device := device\<rparr>) })"

text \<open>Storing a table entry through a sector pointer.\<close>

definition store_fat_value :: "fat \<Rightarrow> nat \<Rightarrow> nat \<Rightarrow> u8 list \<Rightarrow> nat \<Rightarrow> fat option" where
  "store_fat_value st sector_i offset data val = do {
     data' \<leftarrow> set_fat_value (fat_info st) offset data val;
     Some (st\<lparr>fat_sector_cache := cache_modify (fat_sector_cache st) sector_i
       (\<lambda>b. set_whole_dirty (b\<lparr>bi_data := data'\<rparr>))\<rparr>) }"

subsection \<open>The allocation table\<close>

definition getNextCluster :: "fat \<Rightarrow> nat \<Rightarrow> (nat \<times> fat) option" where
  "getNextCluster st current_cluster =
     (let (sector_i, offset) = fat_sector_index_and_offset_for (fat_info st) current_cluster
      in do {
        (data, st') \<leftarrow> fetch_fat_sector [] st sector_i;
        v \<leftarrow> extract_fat_value (fat_info st) offset data;
        Some (v, st') })"

text \<open>The search, at \<open>candidate\<close> and holding the sector \<open>current_i\<close> with contents \<open>current\<close>.\<close>

function allocate_search :: "fat \<Rightarrow> nat \<Rightarrow> nat \<Rightarrow> nat \<Rightarrow> u8 list \<Rightarrow> nat \<Rightarrow> (nat \<times> fat) option" where
  "allocate_search st current_cluster candidate current_i current total_clusters =
     (if candidate < total_clusters
      then (let info = fat_info st; (sector_i, offset) = fat_sector_index_and_offset_for info candidate
            in do {
              (data, st1) \<leftarrow> (if sector_i \<noteq> current_i then fetch_fat_sector [current_i] st sector_i
                               else Some (current, st));
              next_cluster \<leftarrow> extract_fat_value info offset data;
              (if get_cluster_type next_cluster \<noteq> Free
               then allocate_search st1 current_cluster (candidate + 1) sector_i data total_clusters
               else do {
                 st2 \<leftarrow> store_fat_value st1 sector_i offset data CLUSTER_EOC;
                 (let hint = candidate + 1;
                      st3 = st2\<lparr>fat_free_cluster_hint := (if hint \<ge> total_clusters then 2 else hint)\<rparr>;
                      (orig_i, orig_offset) = fat_sector_index_and_offset_for info current_cluster
                  in do {
                    (orig, st4) \<leftarrow> fetch_fat_sector [sector_i] st3 orig_i;
                    st5 \<leftarrow> store_fat_value st4 orig_i orig_offset orig candidate;
                    Some (candidate, st5) }) }) })
      else Some (0, st))"
  by pat_completeness auto

termination allocate_search
  by (relation "measure (\<lambda>(st, cc, candidate, i, d, total_clusters). total_clusters - candidate)") auto

declare allocate_search.simps [simp del]

definition allocateNextCluster :: "fat \<Rightarrow> nat \<Rightarrow> (nat \<times> fat) option" where
  "allocateNextCluster st current_cluster =
     (let first_checked_entry = max 2 (fat_free_cluster_hint st);
          total_clusters = get_fat_entry_count (fat_info st);
          current_sector_i = fst (fat_sector_index_and_offset_for (fat_info st) first_checked_entry)
      in do {
        (data, st1) \<leftarrow> fetch_fat_sector [] st current_sector_i;
        allocate_search st1 current_cluster first_checked_entry current_sector_i data total_clusters })"

partial_function (option) extend_loop :: "fat \<Rightarrow> uSize \<Rightarrow> nat \<Rightarrow> uSize \<Rightarrow> uSize \<Rightarrow> (bool \<times> fat) option" where
  "extend_loop st current_size current_cluster sz bytes_per_cluster =
     (if current_size < sz
      then do {
        (next_cluster, st1) \<leftarrow> getNextCluster st current_cluster;
        (if get_cluster_type next_cluster \<noteq> NextPointer
         then do {
           (new_cluster, st2) \<leftarrow> allocateNextCluster st1 current_cluster;
           (if new_cluster = 0 then Some (False, st2)
            else extend_loop st2 (uadd current_size bytes_per_cluster) new_cluster sz bytes_per_cluster) }
         else extend_loop st1 (uadd current_size bytes_per_cluster) next_cluster sz bytes_per_cluster) }
      else Some (True, st))"

definition extendFile :: "fat \<Rightarrow> nat \<Rightarrow> uSize \<Rightarrow> (bool \<times> fat) option" where
  "extendFile st start_cluster sz =
     (let bytes_per_cluster = (fi_sector_size (fat_info st) * fi_sectors_per_cluster (fat_info st)) mod 2 ^ 32
      in extend_loop st bytes_per_cluster start_cluster sz bytes_per_cluster)"

subsection \<open>File data\<close>

fun skip_clusters :: "fat \<Rightarrow> nat \<Rightarrow> nat \<Rightarrow> (nat option \<times> fat) option" where
  "skip_clusters st cluster 0 = Some (Some cluster, st)"
| "skip_clusters st cluster (Suc n) = do {
     (next_cluster, st1) \<leftarrow> getNextCluster st cluster;
     (if get_cluster_type next_cluster \<noteq> NextPointer then Some (None, st1)
      else skip_clusters st1 next_cluster n) }"

text \<open>
  One cluster of the transfer.  The contents of the cluster are read first unless \<open>write\<close> is set
  and the transfer does \<^emph>\<open>not\<close> cover the cluster whole.
\<close>

definition interchange_cluster :: "fat \<Rightarrow> TransactionalBuffer \<Rightarrow> nat \<Rightarrow> uSize \<Rightarrow> uSize \<Rightarrow> uSize \<Rightarrow> bool \<Rightarrow>
    (TransactionalBuffer \<times> fat) option" where
  "interchange_cluster st buffer cluster byte_offset len completed wr =
     (let needs_content = (\<not> wr \<or> (byte_offset = 0 \<and> len = cluster_size st))
      in do {
        (data, st1) \<leftarrow> fetch_cluster st cluster needs_content;
        (if wr
         then do {
           (_, bs) \<leftarrow> tb_read_to buffer len completed;
           data' \<leftarrow> mem_write data byte_offset bs;
           verify (byte_offset + len \<le> length data');
           Some (buffer, st1\<lparr>fat_cluster_cache := cache_modify (fat_cluster_cache st1) cluster
             (\<lambda>b. mark_dirty byte_offset (byte_offset + len) (b\<lparr>bi_data := data'\<rparr>))\<rparr>) }
         else do {
           bs \<leftarrow> mem_read data byte_offset len;
           (_, buffer') \<leftarrow> tb_write_from buffer bs completed;
           Some (buffer', st1) }) })"

function interchange_loop :: "fat \<Rightarrow> TransactionalBuffer \<Rightarrow> nat \<Rightarrow> uSize \<Rightarrow> uSize \<Rightarrow> uSize \<Rightarrow> bool \<Rightarrow>
    (bool \<times> TransactionalBuffer \<times> fat) option" where
  "interchange_loop st buffer cluster within completed sz wr =
     (if completed < sz
      then (let byte_offset = (if completed = 0 then within else 0);
                len = min (sz - completed) (cluster_size st - byte_offset)
            in if len = 0 then None
               else do {
                 (buffer', st1) \<leftarrow> interchange_cluster st buffer cluster byte_offset len completed wr;
                 (if completed + len = sz then Some (True, buffer', st1)
                  else do {
                    (next_cluster, st2) \<leftarrow> getNextCluster st1 cluster;
                    (if get_cluster_type next_cluster \<noteq> NextPointer then Some (False, buffer', st2)
                     else interchange_loop st2 buffer' next_cluster within (completed + len) sz wr) }) })
      else Some (True, buffer, st))"
  by pat_completeness auto

termination interchange_loop
  by (relation "measure (\<lambda>(st, b, c, w, completed, sz, wr). sz - completed)") auto

declare interchange_loop.simps [simp del]

definition doDataInterchange :: "fat \<Rightarrow> TransactionalBuffer \<Rightarrow> nat \<Rightarrow> uSize \<Rightarrow> uSize \<Rightarrow> bool \<Rightarrow>
    (bool \<times> TransactionalBuffer \<times> fat) option" where
  "doDataInterchange st buffer start_cluster offset sz wr = do {
     verify (cluster_size st \<noteq> 0);
     (start, st1) \<leftarrow> skip_clusters st start_cluster (offset div cluster_size st);
     (case start of
        None \<Rightarrow> Some (False, buffer, st1)
      | Some c \<Rightarrow> interchange_loop st1 buffer c (offset mod cluster_size st) 0 sz wr) }"

subsection \<open>The table entry\<close>

lemma metadata_mask: "METADATA_MASK = NOT (mask 28)"
  by (simp add: METADATA_MASK_def mask_eq_exp_minus_1)

lemma cluster_index_take_bit: "cluster_index w = take_bit 28 w"
  by (simp add: cluster_index_def metadata_mask take_bit_eq_mask)

lemma cluster_index_merge:
  "cluster_index ((old AND METADATA_MASK) OR (v AND NOT METADATA_MASK)) = take_bit 28 v"
  unfolding cluster_index_take_bit metadata_mask by (rule bit_word_eqI) (auto simp: bit_simps)

lemma metadata_merge:
  "((old AND METADATA_MASK) OR (v AND NOT METADATA_MASK)) AND METADATA_MASK = old AND METADATA_MASK"
  unfolding metadata_mask by (rule bit_word_eqI) (auto simp: bit_simps)

lemma unat_cluster_bits: "v < 2 ^ 28 \<Longrightarrow> unat (take_bit 28 (of_nat v :: u32)) = v"
  by (simp add: unsigned_take_bit_eq unsigned_of_nat take_bit_nat_eq_self min_def)

lemma fat16_value:
  assumes "v < 0xFFF7 \<or> v = CLUSTER_EOC"
  shows "(let x = ucast (of_nat v :: u16) :: u32 in unat (if x < 0xFFF7 then x else x OR 0x0FFF0000)) = v"
proof (cases "v < 0xFFF7")
  case True
  then have "(ucast (of_nat v :: u16) :: u32) = of_nat v"
    by (simp add: word_unat_eq_iff unsigned_ucast_eq unsigned_of_nat take_bit_nat_eq_self)
  with True show ?thesis
    by (simp add: word_less_nat_alt unsigned_of_nat take_bit_nat_eq_self)
next
  case False
  then show ?thesis using assms by (simp add: CLUSTER_EOC_def Let_def)
qed

text \<open> C18: Writing an entry of the file allocation table and reading it back returns the value written:
  any 28-bit value on FAT32, and on FAT16 any value below the reserved ones and the end-of-chain
  mark, which loses its upper bits on disk and is given them back.  The sector keeps its length, no
  byte outside the entry changes, and a FAT32 entry keeps the four bits that are not its own.\<close>

theorem fat_value_roundtrip:
  assumes "set_fat_value info off sector v = Some sector'" and "v < 2 ^ 28"
    and "fi_fat_type info = FAT16 \<Longrightarrow> v < 0xFFF7 \<or> v = CLUSTER_EOC"
  shows "extract_fat_value info off sector' = Some v \<and> length sector' = length sector
     \<and> (\<forall>i < length sector. (i < off \<or> off + entry_bytes info \<le> i) \<longrightarrow> sector' ! i = sector ! i)
     \<and> (fi_fat_type info \<noteq> FAT16 \<longrightarrow>
          map_option (\<lambda>w. w AND METADATA_MASK) (readLE32 sector' off)
            = map_option (\<lambda>w. w AND METADATA_MASK) (readLE32 sector off))"
proof (cases "fi_fat_type info = FAT16")
  case True
  then have w: "writeLE16 (of_nat v) sector off = Some sector'"
    using assms by (simp add: set_fat_value_def)
  then have "mem_write sector off (le_bytes 2 (of_nat v :: u16)) = Some sector'"
    by (simp add: writeLE16_def)
  note m = length_mem_write [OF this] mem_write_nth [OF this]
  show ?thesis
    using True m fat16_value [OF assms(3) [OF True]] readLE16_writeLE16 [OF w]
    by (auto simp: extract_fat_value_def entry_bytes_def Let_def)
next
  case False
  then obtain old where old: "readLE32 sector off = Some old"
      and w: "writeLE32 ((old AND METADATA_MASK) OR (of_nat v AND NOT METADATA_MASK)) sector off = Some sector'"
    using assms by (auto simp: set_fat_value_def split: Option.bind_splits)
  from w have "mem_write sector off
      (le_bytes 4 ((old AND METADATA_MASK) OR (of_nat v AND NOT METADATA_MASK) :: u32)) = Some sector'"
    by (simp add: writeLE32_def)
  note m = length_mem_write [OF this] mem_write_nth [OF this]
  show ?thesis
    using False m old readLE32_writeLE32 [OF w] unat_cluster_bits [OF assms(2)]
    by (auto simp: extract_fat_value_def entry_bytes_def cluster_index_merge metadata_merge)
qed

theorem fat_value_roundtrip_witness:
  "\<exists>sector'. set_fat_value \<lparr>fi_fat_type = FAT32, fi_sector_size = 8, fi_sectors_per_cluster = 1,
      fi_fat_begin_sector = 1, fi_fat_sectors = 1, fi_root_info = RootCluster 2, fi_data_begin_sector = 2\<rparr>
      4 [0, 0, 0, 0, 1, 2, 3, 0xF4] 0xABCDEF1 = Some sector'
    \<and> extract_fat_value \<lparr>fi_fat_type = FAT32, fi_sector_size = 8, fi_sectors_per_cluster = 1,
      fi_fat_begin_sector = 1, fi_fat_sectors = 1, fi_root_info = RootCluster 2, fi_data_begin_sector = 2\<rparr>
      4 sector' = Some 0xABCDEF1"
proof -
  let ?info = "\<lparr>fi_fat_type = FAT32, fi_sector_size = 8, fi_sectors_per_cluster = 1,
      fi_fat_begin_sector = 1, fi_fat_sectors = 1, fi_root_info = RootCluster 2, fi_data_begin_sector = 2\<rparr>"
  have "\<exists>s'. set_fat_value ?info 4 [0, 0, 0, 0, 1, 2, 3, 0xF4] 0xABCDEF1 = Some s'"
    by (simp add: set_fat_value_def readLE32_def writeLE32_def mem_read_def mem_write_def)
  then obtain s' where s: "set_fat_value ?info 4 [0, 0, 0, 0, 1, 2, 3, 0xF4] 0xABCDEF1 = Some s'" ..
  from fat_value_roundtrip [OF s] s show ?thesis by simp
qed

end
