(* ===== verification/Fat_Directory.thy ===== *)
theory Fat_Directory
  imports Fat
begin

text \<open>
  Directories of \<open>kernel/src/filesystem/fat.cpp\<close>, and the file system on top of them
  (\<open>fatfs.{h,cpp}\<close>, \<open>entry.{h,cpp}\<close>).

  A directory is iterated by \<open>FATRawEntryList\<close>, which reads each raw entry through
  \<open>doDataInterchange\<close> and so changes the caches; a range-based loop over it is \<open>for_entries\<close>, whose
  body returns a result (\<open>Inl\<close>) or goes on (\<open>Inr\<close>).  Reading past the vector of clusters is
  undefined and \<open>None\<close>.
\<close>

record FATEntryLocation =
  fl_directory_start_cluster :: nat
  fl_index_in_directory :: nat

record LocatedFATEntry =
  le_entry :: BasicFATEntry
  le_location :: FATEntryLocation

record raw_entry_list =
  el_chain :: "nat list"
  el_cluster_count :: nat
  el_entries_per_cluster :: nat
  el_start_index :: nat

text \<open>A chain with a cycle is followed for ever.\<close>

partial_function (option) chain_loop :: "fat \<Rightarrow> nat \<Rightarrow> nat list \<Rightarrow> (nat list \<times> fat) option" where
  "chain_loop st next_cluster chain =
     (if get_cluster_type next_cluster = NextPointer
      then do { (n, st') \<leftarrow> getNextCluster st next_cluster; chain_loop st' n (chain @ [next_cluster]) }
      else Some (chain, st))"

definition entry_list_create :: "fat \<Rightarrow> nat \<Rightarrow> nat \<Rightarrow> (raw_entry_list \<times> fat) option" where
  "entry_list_create st start_cluster start_index = do {
     (n, st1) \<leftarrow> getNextCluster st start_cluster;
     (chain, st2) \<leftarrow> chain_loop st1 n [start_cluster];
     verify (start_index < length chain * cluster_size st div 32);
     Some (\<lparr>el_chain = chain, el_cluster_count = length chain, el_entries_per_cluster = cluster_size st div 32,
            el_start_index = start_index\<rparr>, st2) }"

definition list_get_entry :: "fat \<Rightarrow> raw_entry_list \<Rightarrow> nat \<Rightarrow> nat \<Rightarrow> (raw_entry \<times> fat) option" where
  "list_get_entry st el chain_index entry_index = do {
     verify (chain_index < length (el_chain el));
     (_, buffer, st') \<leftarrow> doDataInterchange st (BitwiseObjectBuffer (replicate 32 0)) (el_chain el ! chain_index)
       (32 * entry_index) 32 False;
     (case buffer of BitwiseObjectBuffer m \<Rightarrow> Some (m, st') | _ \<Rightarrow> None) }"

definition list_set_entry :: "fat \<Rightarrow> raw_entry_list \<Rightarrow> nat \<Rightarrow> raw_entry \<Rightarrow> fat option" where
  "list_set_entry st el directory_index e =
     (let chain_index = directory_index div el_entries_per_cluster el;
          entry_index = directory_index mod el_entries_per_cluster el
      in do {
        verify (chain_index < length (el_chain el));
        (_, _, st') \<leftarrow> doDataInterchange st (BitwiseObjectBuffer e) (el_chain el ! chain_index) (32 * entry_index) 32 True;
        Some st' })"

text \<open>\<open>operator++\<close> of the iterator: the next position, its entry and the state.\<close>

definition iterator_next :: "fat \<Rightarrow> raw_entry_list \<Rightarrow> nat \<Rightarrow> nat \<Rightarrow> raw_entry \<Rightarrow>
    (nat \<times> nat \<times> raw_entry \<times> fat) option" where
  "iterator_next st el chain_index in_cluster_index current = do {
     verify (chain_index < el_cluster_count el);
     (let i = in_cluster_index + 1;
          (ci, ii) = (if i = el_entries_per_cluster el then (chain_index + 1, 0) else (chain_index, i))
      in do {
        (e, st') \<leftarrow> (if ci \<noteq> el_cluster_count el then list_get_entry st el ci ii else Some (current, st));
        Some (if raw_type e = EndOfDirectory then (el_cluster_count el, 0, e, st') else (ci, ii, e, st')) }) }"

partial_function (option) iterate ::
  "(raw_entry \<Rightarrow> nat \<Rightarrow> 'a \<Rightarrow> fat \<Rightarrow> (('r + 'a) \<times> fat) option) \<Rightarrow> raw_entry_list \<Rightarrow> fat \<Rightarrow> nat \<Rightarrow> nat \<Rightarrow> raw_entry \<Rightarrow> 'a \<Rightarrow>
   (('r + 'a) \<times> fat) option" where
  "iterate body el st ci ii current acc =
     (if ci \<noteq> length (el_chain el) \<or> ii \<noteq> 0
      then do {
        (r, st1) \<leftarrow> body current (el_entries_per_cluster el * ci + ii) acc st;
        (case r of
           Inl x \<Rightarrow> Some (Inl x, st1)
         | Inr acc' \<Rightarrow> do {
             (ci', ii', e, st2) \<leftarrow> iterator_next st1 el ci ii current;
             iterate body el st2 ci' ii' e acc' }) }
      else Some (Inr acc, st))"

text \<open>\<open>begin()\<close> reads the first entry, and \<open>end()\<close> reads entry 0 of the chain.\<close>

definition for_entries ::
  "(raw_entry \<Rightarrow> nat \<Rightarrow> 'a \<Rightarrow> fat \<Rightarrow> (('r + 'a) \<times> fat) option) \<Rightarrow> fat \<Rightarrow> raw_entry_list \<Rightarrow> 'a \<Rightarrow> (('r + 'a) \<times> fat) option" where
  "for_entries body st el acc =
     (let ci = el_start_index el div el_entries_per_cluster el; ii = el_start_index el mod el_entries_per_cluster el
      in do {
        (first, st1) \<leftarrow> list_get_entry st el ci ii;
        (_, st2) \<leftarrow> list_get_entry st1 el 0 0;
        iterate body el st2 ci ii first acc })"

definition list_short_names :: "fat \<Rightarrow> nat \<Rightarrow> (short_name list \<times> fat) option" where
  "list_short_names st start_cluster = do {
     (el, st1) \<leftarrow> entry_list_create st start_cluster 0;
     (r, st2) \<leftarrow> for_entries (\<lambda>e i names st. Some (Inr (if raw_type e = Normal then names @ [re_fatname e] else names), st) ::
       ((unit + short_name list) \<times> fat) option) st1 el [];
     (case r of Inl _ \<Rightarrow> None | Inr names \<Rightarrow> Some (names, st2)) }"

subsection \<open>Enumerating a directory\<close>

text \<open>
  What the loops collect: the raw entries of the file being read, its location, and the files so
  far.  The iteration over a cluster chain knows each entry's index; the loop over a FAT16 root
  directory counts for itself, and a record that it skips with \<open>continue\<close> is not counted.
\<close>

record working =
  wk_entry :: packed_entry
  wk_location :: FATEntryLocation
  wk_found :: "LocatedFATEntry list"

definition stray_lfn :: "packed_entry \<Rightarrow> raw_entry \<Rightarrow> bool" where
  "stray_lfn w e \<longleftrightarrow> w = [] \<and> lfn_order e AND 0x40 = 0"

definition collect :: "raw_entry \<Rightarrow> nat \<Rightarrow> working \<Rightarrow> working" where
  "collect e i w =
     (let loc = (if wk_entry w = [] then (wk_location w)\<lparr>fl_index_in_directory := i\<rparr> else wk_location w)
      in case raw_type e of
           LongFileName \<Rightarrow> if stray_lfn (wk_entry w) e then w
             else w\<lparr>wk_location := loc, wk_entry := wk_entry w @ [e]\<rparr>
         | Normal \<Rightarrow> w\<lparr>wk_location := loc, wk_entry := [],
             wk_found := wk_found w @ [\<lparr>le_entry = to_basic (wk_entry w @ [e]), le_location = loc\<rparr>]\<rparr>
         | _ \<Rightarrow> w)"

definition get_entries :: "fat \<Rightarrow> nat \<Rightarrow> (LocatedFATEntry list \<times> fat) option" where
  "get_entries st start_cluster = do {
     (el, st1) \<leftarrow> entry_list_create st start_cluster 0;
     (r, st2) \<leftarrow> for_entries (\<lambda>e i w st. Some (Inr (collect e i w), st) :: ((unit + working) \<times> fat) option) st1 el
       \<lparr>wk_entry = [], wk_location = \<lparr>fl_directory_start_cluster = start_cluster, fl_index_in_directory = 0\<rparr>, wk_found = []\<rparr>;
     (case r of Inl _ \<Rightarrow> None | Inr w \<Rightarrow> Some (wk_found w, st2)) }"

fun root_loop :: "raw_entry list \<Rightarrow> nat \<Rightarrow> working \<Rightarrow> working" where
  "root_loop [] i w = w"
| "root_loop (e # es) i w =
     (if raw_type e = EndOfDirectory then w
      else if raw_type e = LongFileName \<and> stray_lfn (wk_entry w) e then root_loop es i w
      else root_loop es (i + 1) (collect e i w))"

fun raw_records :: "nat \<Rightarrow> u8 list \<Rightarrow> raw_entry list" where
  "raw_records 0 bs = []"
| "raw_records (Suc n) bs = take 32 bs # raw_records n (drop 32 bs)"

definition get_root_entries :: "fat \<Rightarrow> (LocatedFATEntry list \<times> fat) option" where
  "get_root_entries st =
     (case fi_root_info (fat_info st) of
        RootDir start_sector entry_count \<Rightarrow>
          (let bs = (case mem_read (fat_device st) (start_sector * fi_sector_size (fat_info st)) (32 * entry_count) of
                       Some bs \<Rightarrow> bs | None \<Rightarrow> replicate (32 * entry_count) 0)
           in Some (wk_found (root_loop (raw_records entry_count bs) 0
                \<lparr>wk_entry = [], wk_location = \<lparr>fl_directory_start_cluster = 0, fl_index_in_directory = 0\<rparr>, wk_found = []\<rparr>), st))
      | RootCluster c \<Rightarrow> get_entries st c)"

subsection \<open>One entry\<close>

definition get_entry_step :: "raw_entry \<Rightarrow> nat \<Rightarrow> packed_entry \<Rightarrow> fat \<Rightarrow> ((BasicFATEntry expected + packed_entry) \<times> fat) option" where
  "get_entry_step e i w st =
     Some (case raw_type e of
         LongFileName \<Rightarrow> if stray_lfn w e then Inl (Err EINVAL) else Inr (w @ [e])
       | Normal \<Rightarrow> Inl (Value (to_basic (w @ [e])))
       | _ \<Rightarrow> Inr w, st)"

definition get_entry_at :: "fat \<Rightarrow> FATEntryLocation \<Rightarrow> (BasicFATEntry expected \<times> fat) option" where
  "get_entry_at st location = do {
     (el, st1) \<leftarrow> entry_list_create st (fl_directory_start_cluster location) (fl_index_in_directory location);
     (r, st2) \<leftarrow> for_entries get_entry_step st1 el [];
     Some (case r of Inl x \<Rightarrow> x | Inr _ \<Rightarrow> Err EINVAL, st2) }"

definition update_entry_step :: "raw_entry_list \<Rightarrow> FATEntryLocation \<Rightarrow> BasicFATEntry \<Rightarrow>
    raw_entry \<Rightarrow> nat \<Rightarrow> unit \<Rightarrow> fat \<Rightarrow> ((FATEntryLocation + unit) \<times> fat) option" where
  "update_entry_step el location entry e i u st =
     (if raw_type e = Normal
      then do { st' \<leftarrow> list_set_entry st el i (raw_item_from (re_fatname e) entry); Some (Inl location, st') }
      else Some (Inr (), st))"

definition update_entry :: "fat \<Rightarrow> FATEntryLocation \<Rightarrow> BasicFATEntry \<Rightarrow> bool \<Rightarrow> (FATEntryLocation expected \<times> fat) option" where
  "update_entry st location entry update_name = do {
     verify (\<not> update_name);
     (el, st1) \<leftarrow> entry_list_create st (fl_directory_start_cluster location) (fl_index_in_directory location);
     (r, st2) \<leftarrow> for_entries (update_entry_step el location entry) st1 el ();
     Some (case r of Inl l \<Rightarrow> Value l | Inr _ \<Rightarrow> Err EIO, st2) }"

subsection \<open>Mounting\<close>

text \<open>\<open>fromBootSector\<close>; when the read fails the buffer is uninitialised, which is \<open>junk\<close>.\<close>

definition fromBootSector :: "u8 list \<Rightarrow> u8 list \<Rightarrow> FATInfo option option" where
  "fromBootSector device junk =
     (let buffer = (case mem_read device 0 512 of Some bs \<Rightarrow> bs | None \<Rightarrow> take 512 junk)
      in do {
        magic \<leftarrow> readLE16 buffer 0x1FE;
        w_sector_size \<leftarrow> readLE16 buffer 11;
        w_reserved \<leftarrow> readLE16 buffer 14;
        w_root_entries \<leftarrow> readLE16 buffer 17;
        w_total_16 \<leftarrow> readLE16 buffer 19;
        w_spf_16 \<leftarrow> readLE16 buffer 22;
        w_total_32 \<leftarrow> readLE32 buffer 32;
        w_spf_32 \<leftarrow> readLE32 buffer 36;
        w_root_cluster \<leftarrow> readLE32 buffer 44;
        (let sector_size = unat w_sector_size;
             sectors_per_cluster = unat (buffer ! 13);
             reserved_sectors = unat w_reserved;
             fat_count = unat (buffer ! 16);
             root_entries_16 = unat w_root_entries;
             total_sectors = (if w_total_16 = 0 then unat w_total_32 else unat w_total_16);
             sectors_per_fat = (if w_spf_16 = 0 then unat w_spf_32 else unat w_spf_16)
         in if magic \<noteq> 0xAA55 then Some None
            else if w_sector_size AND (w_sector_size - 1) \<noteq> 0 \<or> sector_size < 512 \<or> sector_size > 4096 then Some None
            else if sectors_per_cluster = 0 then None
            else (let root_dir_sectors = (root_entries_16 * 32 + sector_size - 1) div sector_size;
                      root_start = (reserved_sectors + fat_count * sectors_per_fat) mod 2 ^ 32;
                      data_begin_sector = (root_start + root_dir_sectors) mod 2 ^ 32;
                      total_clusters = total_sectors div sectors_per_cluster;
                      fat_type = (if sector_size = 0 then ExFAT else if total_clusters < 4085 then FAT12
                        else if total_clusters < 65525 then FAT16 else FAT32)
                  in if fat_type = ExFAT \<or> fat_type = FAT12 then Some None
                     else Some (Some \<lparr>fi_fat_type = fat_type, fi_sector_size = sector_size,
                       fi_sectors_per_cluster = sectors_per_cluster, fi_fat_begin_sector = reserved_sectors,
                       fi_fat_sectors = sectors_per_fat,
                       fi_root_info = (if fat_type = FAT32 then RootCluster (unat w_root_cluster)
                         else RootDir (root_start mod 2 ^ 16) root_entries_16),
                       fi_data_begin_sector = data_begin_sector\<rparr>))) })"

end
