(* ===== verification/Bek_String.thy ===== *)
theory Bek_String
  imports Bek_Utility
begin

text \<open>
  \<open>bek/src/string.cpp\<close>: strings with a short form inside the object and a long form on the heap,
  and string views.  A view is the list of its characters; memory is a list of bytes, and reading
  outside it is \<open>None\<close>.  \<open>bek::memcopy\<close> panics above \<open>MAX_MEMCOPY\<close>.

  The first byte of the object holds the form: bit 0 is set for a long string, whose capacity is in
  the other 31 bits of the first word, and clear for a short one, whose length is in the other 7
  bits.  \<open>allocated\<close> is what the allocator returns for the size asked for.
\<close>

datatype bek_string =
    ShortString u8 "u8 list"
  | LongString u32 nat "u8 list"

definition short_max_length :: nat where "short_max_length = 14"

definition string_empty :: bek_string where
  "string_empty = ShortString 0 (replicate 15 0)"

definition encode_short_length :: "nat \<Rightarrow> u8 option" where
  "encode_short_length len = do { verify (len \<le> 14); Some (push_bit 1 (of_nat len)) }"

definition encode_long_capacity :: "nat \<Rightarrow> u32 option" where
  "encode_long_capacity capacity = do { verify (capacity < 2 ^ 31 - 1); Some (push_bit 1 (of_nat capacity) OR 1) }"

fun get_long_capacity :: "bek_string \<Rightarrow> nat" where
  "get_long_capacity (LongString c l d) = unat (drop_bit 1 c)"
| "get_long_capacity (ShortString l d) = 0"

fun string_is_long :: "bek_string \<Rightarrow> bool" where
  "string_is_long (LongString c l d) = bit c 0"
| "string_is_long (ShortString l d) = bit l 0"

fun string_size :: "bek_string \<Rightarrow> nat" where
  "string_size (LongString c l d) = l"
| "string_size (ShortString l d) = unat (drop_bit 1 l)"

fun string_data :: "bek_string \<Rightarrow> u8 list" where
  "string_data (LongString c l d) = d"
| "string_data (ShortString l d) = d"

definition string_view :: "bek_string \<Rightarrow> u8 list" where
  "string_view s = take (string_size s) (string_data s)"

text \<open>A string of the \<open>len\<close> characters \<open>cs\<close> with its terminator, in memory of \<open>capacity\<close> bytes.\<close>

definition make_long :: "nat \<Rightarrow> u8 list \<Rightarrow> bek_string option" where
  "make_long capacity cs = do {
     c \<leftarrow> encode_long_capacity capacity;
     d \<leftarrow> memcopy (replicate capacity 0) 0 (cs @ [0]);
     Some (LongString c (length cs) d) }"

definition make_short :: "u8 list \<Rightarrow> bek_string option" where
  "make_short cs = do {
     l \<leftarrow> encode_short_length (length cs);
     d \<leftarrow> memcopy (replicate 15 0) 0 (cs @ [0]);
     Some (ShortString l d) }"

definition string_from_source :: "(nat \<Rightarrow> nat) \<Rightarrow> u8 list \<Rightarrow> bek_string option" where
  "string_from_source allocated source = do {
     len \<leftarrow> strlen source;
     (if len > short_max_length then make_long (allocated (len + 1)) (take len source)
      else make_short (take len source)) }"

definition string_filled :: "(nat \<Rightarrow> nat) \<Rightarrow> nat \<Rightarrow> u8 \<Rightarrow> bek_string option" where
  "string_filled allocated len init =
     (if len > short_max_length
      then do {
        c \<leftarrow> encode_long_capacity (allocated (len + 1));
        d \<leftarrow> mem_write (replicate (allocated (len + 1)) 0) 0 (memset_stored 0 init len @ [0]);
        Some (LongString c len d) }
      else do {
        l \<leftarrow> encode_short_length len;
        d \<leftarrow> mem_write (replicate 15 0) 0 (memset_stored 1 init len @ [0]);
        Some (ShortString l d) })"

definition string_from_view :: "u8 list \<Rightarrow> bek_string option" where
  "string_from_view str =
     (let len = length str
      in if len > short_max_length
         then do {
           c \<leftarrow> encode_long_capacity (len + 1);
           d \<leftarrow> memcopy (replicate (len + 1) 0) 0 str;
           d' \<leftarrow> mem_write d len [0];
           Some (LongString c len d') }
         else do {
           l \<leftarrow> encode_short_length len;
           d \<leftarrow> memcopy (replicate 15 0) 0 str;
           d' \<leftarrow> mem_write d len [0];
           Some (ShortString l d') })"

definition string_copy :: "bek_string \<Rightarrow> bek_string option" where
  "string_copy s =
     (case s of
        LongString c l d \<Rightarrow> do {
          bs \<leftarrow> mem_read d 0 (l + 1);
          d' \<leftarrow> memcopy (replicate (unat (drop_bit 1 c)) 0) 0 bs;
          Some (LongString c l d') }
      | ShortString l d \<Rightarrow> Some (ShortString l d))"

definition string_swap :: "bek_string \<Rightarrow> bek_string \<Rightarrow> bek_string \<times> bek_string" where
  "string_swap s t = (t, s)"

fun equal_from :: "u8 list \<Rightarrow> u8 list \<Rightarrow> nat \<Rightarrow> bool" where
  "equal_from as bs 0 = True"
| "equal_from as bs (Suc n) = (if hd as \<noteq> hd bs then False else equal_from (tl as) (tl bs) n)"

definition string_equal :: "bek_string \<Rightarrow> bek_string \<Rightarrow> bool" where
  "string_equal a b =
     (if string_size a \<noteq> string_size b then False else equal_from (string_data a) (string_data b) (string_size a))"

definition string_hash :: "bek_string \<Rightarrow> u64" where
  "string_hash s = hash_bytes (string_view s)"

subsection \<open>Views\<close>

definition sv_substr :: "u8 list \<Rightarrow> uSize \<Rightarrow> uSize \<Rightarrow> u8 list option" where
  "sv_substr v pos len = do { verify (pos \<le> length v); Some (take (min len (length v - pos)) (drop pos v)) }"

definition sv_remove_prefix :: "u8 list \<Rightarrow> uSize \<Rightarrow> u8 list option" where
  "sv_remove_prefix v n = do { verify (n \<le> length v); Some (drop n v) }"

definition sv_remove_suffix :: "u8 list \<Rightarrow> uSize \<Rightarrow> u8 list option" where
  "sv_remove_suffix v n = do { verify (n \<le> length v); Some (take (length v - n) v) }"

definition sv_equal :: "u8 list \<Rightarrow> u8 list \<Rightarrow> bool" where
  "sv_equal a b = (if length a \<noteq> length b then False else equal_from a b (length a))"

subsection \<open>Strings hold their characters\<close>

definition string_ok :: "bek_string \<Rightarrow> bool" where
  "string_ok s \<longleftrightarrow> string_size s < length (string_data s) \<and>
     (case s of LongString c l d \<Rightarrow> bit c 0 \<and> length d = get_long_capacity s \<and> short_max_length < l
      | ShortString l d \<Rightarrow> \<not> bit l 0 \<and> length d = 15)"

lemma drop_push_bit: "drop_bit k (push_bit k (x :: 'a::len word)) = take_bit (LENGTH('a) - k) x"
  by (rule bit_word_eqI) (auto simp: bit_simps)

lemma drop_push_bit_odd: "drop_bit k (push_bit k (x :: 'a::len word) OR mask k) = take_bit (LENGTH('a) - k) x"
  by (rule bit_word_eqI) (auto simp: bit_simps)

lemma unat_take_bit_of_nat: "n < 2 ^ k \<Longrightarrow> k \<le> LENGTH('a) \<Longrightarrow> unat (take_bit k (of_nat n) :: 'a::len word) = n"
  by (simp add: unsigned_take_bit_eq unsigned_of_nat take_bit_nat_eq_self min_def)

lemma short_length: "n \<le> 14 \<Longrightarrow> \<not> bit (push_bit 1 (of_nat n) :: u8) 0 \<and> unat (drop_bit 1 (push_bit 1 (of_nat n)) :: u8) = n"
  unfolding drop_push_bit bit_push_bit_iff by (simp add: unat_take_bit_of_nat)

lemma long_capacity: "n < 2 ^ 31 \<Longrightarrow>
   bit (push_bit 1 (of_nat n) OR 1 :: u32) 0 \<and> unat (drop_bit 1 (push_bit 1 (of_nat n) OR 1) :: u32) = n"
  using drop_push_bit_odd [of 1 "of_nat n :: u32"] by (auto simp: unat_take_bit_of_nat bit_simps)

lemma equal_from_iff: "n \<le> length as \<Longrightarrow> n \<le> length bs \<Longrightarrow> equal_from as bs n \<longleftrightarrow> take n as = take n bs"
proof (induction as bs n rule: equal_from.induct)
  case (2 as bs n)
  then show ?case by (cases as; cases bs) auto
qed simp

lemma sv_equal_iff: "sv_equal a b \<longleftrightarrow> a = b"
  using equal_from_iff [of "length a" a b] by (auto simp: sv_equal_def)

lemma string_equal_iff: "string_ok a \<Longrightarrow> string_ok b \<Longrightarrow> string_equal a b \<longleftrightarrow> string_view a = string_view b"
  using equal_from_iff [of "string_size a" "string_data a" "string_data b"]
  by (auto simp: string_equal_def string_view_def string_ok_def dest: arg_cong [where f = length])

lemma string_from_view_ok:
  assumes "length str < MAX_MEMCOPY"
  shows "\<exists>s. string_from_view str = Some s \<and> string_ok s \<and> string_view s = str"
proof (cases "length str > short_max_length")
  case True
  have "length str + 1 < 2 ^ 31 - 1" using assms by (simp add: MAX_MEMCOPY_def)
  then show ?thesis
    using True assms long_capacity [of "length str + 1"]
    by (auto simp: string_from_view_def Let_def encode_long_capacity_def memcopy_ok mem_write_def string_ok_def string_view_def)
next
  case False
  then show ?thesis
    using short_length [of "length str"] assms
    by (auto simp: string_from_view_def Let_def encode_short_length_def memcopy_ok mem_write_def string_ok_def
        string_view_def short_max_length_def)
qed

lemma string_copy_ok:
  assumes "string_ok s" and "string_size s < MAX_MEMCOPY"
  shows "\<exists>t. string_copy s = Some t \<and> string_ok t \<and> string_view t = string_view s"
proof (cases s)
  case (LongString c l d)
  then show ?thesis
    using assms by (auto simp: string_copy_def string_ok_def mem_read_def memcopy_ok string_view_def min_def)
next
  case (ShortString l d)
  then show ?thesis using assms by (simp add: string_copy_def)
qed

end
