(* ===== verification/Filesystem.thy ===== *)
theory Filesystem
  imports Fat_Directory Bek_String
begin

text \<open>
  \<open>kernel/src/filesystem\<close>: FAT files and directories as entries (\<open>fatfs.{h,cpp}\<close>, \<open>entry.{h,cpp}\<close>),
  paths (\<open>path.h\<close>), lookup and the registry of file systems (\<open>filesystem.{h,cpp}\<close>), file handles, and
  partitions (\<open>partition.{h,cpp}\<close>, \<open>mbr.h\<close>).

  The only implementation of the virtual class \<open>Entry\<close> is \<open>FATEntry\<close>, so an entry is that class's
  state.  An entry of a mounted file system works on the file system's \<open>fat\<close> state.
\<close>

subsection \<open>Entries\<close>

record EntryTimestamps =
  et_created :: "nat option"
  et_modified :: "nat option"
  et_accessed :: "nat option"

datatype FATEntryKind = Root | RootMember | NormalEntry

record fat_entry =
  fe_hash :: u64
  fe_name :: "u8 list"
  fe_timestamps :: EntryTimestamps
  fe_size :: uSize
  fe_dirty :: bool
  fe_is_directory :: bool
  fe_root_cluster :: nat
  fe_kind :: FATEntryKind
  fe_location :: FATEntryLocation

text \<open>The constructor stores neither its \<open>parent\<close> argument nor anything else in \<open>m_parent\<close>.\<close>

definition entry_parent :: "fat_entry \<Rightarrow> fat_entry option" where
  "entry_parent e = None"

definition fat_entry_new :: "bool \<Rightarrow> u8 list \<Rightarrow> EntryTimestamps \<Rightarrow> uSize \<Rightarrow> fat_entry option \<Rightarrow> nat \<Rightarrow> FATEntryLocation \<Rightarrow> fat_entry" where
  "fat_entry_new directory name timestamps sz parent root_cluster location =
     \<lparr>fe_hash = 0, fe_name = name, fe_timestamps = timestamps, fe_size = sz, fe_dirty = False,
      fe_is_directory = directory, fe_root_cluster = root_cluster,
      fe_kind = (case parent of Some p \<Rightarrow> if entry_parent p \<noteq> None then NormalEntry else RootMember | None \<Rightarrow> Root),
      fe_location = location\<rparr>"

definition set_timestamps :: "fat_entry \<Rightarrow> EntryTimestamps \<Rightarrow> fat_entry" where
  "set_timestamps e t =
     (let cur = fe_timestamps e;
          a = (et_accessed t \<noteq> None \<and> et_accessed t \<noteq> et_accessed cur);
          m = (et_modified t \<noteq> None \<and> et_modified t \<noteq> et_modified cur);
          c = (et_created t \<noteq> None \<and> et_created t \<noteq> et_created cur)
      in e\<lparr>fe_timestamps := \<lparr>et_created = (if c then et_created t else et_created cur),
             et_modified = (if m then et_modified t else et_modified cur),
             et_accessed = (if a then et_accessed t else et_accessed cur)\<rparr>,
           fe_dirty := fe_dirty e \<or> a \<or> m \<or> c\<rparr>)"

definition get_hash :: "fat_entry \<Rightarrow> u64 \<times> fat_entry" where
  "get_hash e =
     (if fe_hash e = 0
      then (let h = hash_bytes (fe_name e) in (h, e\<lparr>fe_hash := h\<rparr>))
      else (fe_hash e, e))"

definition make_ref :: "LocatedFATEntry \<Rightarrow> fat_entry \<Rightarrow> fat_entry" where
  "make_ref located parent =
     (let e = le_entry located
      in fat_entry_new (is_directory e) (be_name e)
           \<lparr>et_created = Some (be_creation_timestamp e), et_modified = Some (be_modified_timestamp e),
            et_accessed = Some (be_accessed_timestamp e)\<rparr>
           (unat (be_size e)) (Some parent) (unat (be_data_cluster e)) (le_location located))"

definition root_entry :: fat_entry where
  "root_entry = fat_entry_new True (map (\<lambda>c. of_nat (of_char c)) ''root'')
     \<lparr>et_created = None, et_modified = None, et_accessed = None\<rparr> 0 None 0
     \<lparr>fl_directory_start_cluster = 0, fl_index_in_directory = 0\<rparr>"

definition entry_flush :: "fat \<Rightarrow> fat_entry \<Rightarrow> (ErrorCode \<times> fat_entry \<times> fat) option" where
  "entry_flush st e =
     (if fe_kind e = Root then Some (ESUCCESS, e, st)
      else do {
        (raw, st1) \<leftarrow> get_entry_at st (fe_location e);
        (case raw of
           Err c \<Rightarrow> Some (c, e, st1)
         | Value r \<Rightarrow>
             (let t = fe_timestamps e;
                  r' = r\<lparr>be_size := of_nat (fe_size e),
                         be_accessed_timestamp := (case et_accessed t of Some x \<Rightarrow> x | None \<Rightarrow> be_accessed_timestamp r),
                         be_modified_timestamp := (case et_modified t of Some x \<Rightarrow> x | None \<Rightarrow> be_modified_timestamp r),
                         be_creation_timestamp := (case et_created t of Some x \<Rightarrow> x | None \<Rightarrow> be_creation_timestamp r)\<rparr>
              in do {
                (loc, st2) \<leftarrow> update_entry st1 (fe_location e) r' False;
                (case loc of Err c \<Rightarrow> Some (c, e, st2)
                 | Value l \<Rightarrow> Some (ESUCCESS, e\<lparr>fe_location := l\<rparr>, st2)) })) })"

definition fat_read_data :: "fat \<Rightarrow> fat_entry \<Rightarrow> TransactionalBuffer \<Rightarrow> uSize \<Rightarrow> uSize \<Rightarrow>
    (uSize expected \<times> TransactionalBuffer \<times> fat) option" where
  "fat_read_data st e buffer offset len = do {
     (ok, buffer', st') \<leftarrow> doDataInterchange st buffer (fe_root_cluster e) offset len False;
     Some (if ok then Value len else Err EIO, buffer', st') }"

definition fat_write_data :: "fat \<Rightarrow> fat_entry \<Rightarrow> TransactionalBuffer \<Rightarrow> uSize \<Rightarrow> uSize \<Rightarrow>
    (uSize expected \<times> TransactionalBuffer \<times> fat) option" where
  "fat_write_data st e buffer offset len = do {
     (ok, buffer', st') \<leftarrow> doDataInterchange st buffer (fe_root_cluster e) offset len True;
     Some (if ok then Value len else Err EIO, buffer', st') }"

definition fat_resize :: "fat \<Rightarrow> fat_entry \<Rightarrow> uSize \<Rightarrow> (uSize expected \<times> fat_entry \<times> fat) option" where
  "fat_resize st e new_size = do {
     (ok, st') \<leftarrow> (if new_size > fe_size e then extendFile st (fe_root_cluster e) new_size else Some (True, st));
     Some (if ok then (Value new_size, e\<lparr>fe_size := new_size, fe_dirty := True\<rparr>, st') else (Err EIO, e, st')) }"

text \<open>Only a file overrides the access operations, and only a directory the lookups.\<close>

definition read_bytes :: "fat \<Rightarrow> fat_entry \<Rightarrow> TransactionalBuffer \<Rightarrow> uSize \<Rightarrow> uSize \<Rightarrow>
    (uSize expected \<times> TransactionalBuffer \<times> fat) option" where
  "read_bytes st e buffer offset len =
     (if fe_is_directory e then Some (Err ENOTSUP, buffer, st) else fat_read_data st e buffer offset len)"

definition write_bytes :: "fat \<Rightarrow> fat_entry \<Rightarrow> TransactionalBuffer \<Rightarrow> uSize \<Rightarrow> uSize \<Rightarrow>
    (uSize expected \<times> TransactionalBuffer \<times> fat) option" where
  "write_bytes st e buffer offset len =
     (if fe_is_directory e then Some (Err ENOTSUP, buffer, st) else fat_write_data st e buffer offset len)"

definition entry_resize :: "fat \<Rightarrow> fat_entry \<Rightarrow> uSize \<Rightarrow> (uSize expected \<times> fat_entry \<times> fat) option" where
  "entry_resize st e new_size =
     (if fe_is_directory e then Some (Err ENOTSUP, e, st) else fat_resize st e new_size)"

definition directory_entries :: "fat \<Rightarrow> fat_entry \<Rightarrow> (LocatedFATEntry list \<times> fat) option" where
  "directory_entries st e = (if fe_kind e = Root then get_root_entries st else get_entries st (fe_root_cluster e))"

definition entry_lookup :: "fat \<Rightarrow> fat_entry \<Rightarrow> u8 list \<Rightarrow> (fat_entry expected \<times> fat) option" where
  "entry_lookup st e name =
     (if \<not> fe_is_directory e then Some (Err ENOTSUP, st)
      else do {
        (entries, st') \<leftarrow> directory_entries st e;
        Some (case filter (\<lambda>x. sv_equal (be_name (le_entry x)) name) entries of
                [] \<Rightarrow> Err ENOENT | x # _ \<Rightarrow> Value (make_ref x e), st') })"

definition all_children :: "fat \<Rightarrow> fat_entry \<Rightarrow> (fat_entry list expected \<times> fat) option" where
  "all_children st e =
     (if \<not> fe_is_directory e then Some (Err ENOTSUP, st)
      else do { (entries, st') \<leftarrow> directory_entries st e; Some (Value (map (\<lambda>x. make_ref x e) entries), st') })"

text \<open>Renaming asserts a parent, which no entry has.\<close>

definition entry_rename :: "fat_entry \<Rightarrow> u8 list \<Rightarrow> (bool expected \<times> fat_entry) option" where
  "entry_rename e new_name =
     (if fe_kind e = Root then Some (Value True, e\<lparr>fe_name := new_name\<rparr>)
      else do { verify (entry_parent e \<noteq> None); Some (Err ENOTSUP, e) })"

subsection \<open>Paths\<close>

record path =
  path_string :: "u8 list"
  path_segments :: "u8 list list"
  path_disk_specifier :: "u8 list option"

text \<open>The loop over the characters, with the segment read so far.\<close>

fun segments_loop :: "u8 list \<Rightarrow> u8 list \<Rightarrow> u8 list list" where
  "segments_loop segment [] = (if segment \<noteq> [] then [segment] else [])"
| "segments_loop segment (c # cs) =
     (if c = 0x2F
      then if segment \<noteq> [] then segment # segments_loop [] cs else segments_loop [] cs
      else segments_loop (segment @ [c]) cs)"

text \<open>Reading at the end of the string gives its terminator.\<close>

definition peek :: "u8 list \<Rightarrow> u8" where
  "peek cs = (case cs of [] \<Rightarrow> 0 | c # _ \<Rightarrow> c)"

definition parse_path :: "u8 list \<Rightarrow> path expected" where
  "parse_path s =
     (let plain = (\<lambda>disk rest. Value \<lparr>path_string = s, path_segments = segments_loop [] rest, path_disk_specifier = disk\<rparr>)
      in if peek s = 0x2F
         then (let s1 = tl s
               in if peek s1 = 0x28
                  then (let disk = takeWhile (\<lambda>c. c \<noteq> 0x29) (tl s1);
                            s2 = dropWhile (\<lambda>c. c \<noteq> 0x29) (tl s1)
                        in if peek s2 \<noteq> 0x29 then Err EINVAL
                           else if peek (tl s2) \<noteq> 0x2F then Err EINVAL
                           else plain (Some disk) (tl (tl s2)))
                  else plain None s1)
         else plain None s)"

definition is_absolute :: "path \<Rightarrow> bool" where
  "is_absolute p \<longleftrightarrow> peek (path_string p) = 0x2F"

subsection \<open>Mounted file systems and lookup\<close>

text \<open>
  The registry: the file systems by name, each with its \<open>fat\<close> state, and the name of the root.  A
  registered file system keeps its position in the list.
\<close>

record fs_registry =
  reg_root :: nat
  reg_filesystems :: "(u8 list \<times> fat) list"

definition register_filesystem :: "fs_registry option \<Rightarrow> u8 list \<Rightarrow> fat \<Rightarrow> fs_registry" where
  "register_filesystem g name st =
     (case g of
        None \<Rightarrow> \<lparr>reg_root = 0, reg_filesystems = [(name, st)]\<rparr>
      | Some r \<Rightarrow> r\<lparr>reg_filesystems := reg_filesystems r @ [(name, st)]\<rparr>)"

fun find_filesystem :: "(u8 list \<times> fat) list \<Rightarrow> u8 list \<Rightarrow> nat \<Rightarrow> nat option" where
  "find_filesystem [] name i = None"
| "find_filesystem ((n, st) # rest) name i = (if sv_equal n name then Some i else find_filesystem rest name (i + 1))"

text \<open>An entry reference: the file system it belongs to, and the entry.\<close>

type_synonym entry_ref = "nat \<times> fat_entry"

definition lookup_root :: "fs_registry \<Rightarrow> path \<Rightarrow> entry_ref expected" where
  "lookup_root g p =
     (if \<not> is_absolute p then Err EINVAL
      else case path_disk_specifier p of
             Some spec \<Rightarrow> (case find_filesystem (reg_filesystems g) spec 0 of
                 Some i \<Rightarrow> Value (i, root_entry) | None \<Rightarrow> Err ENOENT)
           | None \<Rightarrow> Value (reg_root g, root_entry))"

definition ref_lookup :: "fs_registry \<Rightarrow> entry_ref \<Rightarrow> u8 list \<Rightarrow> (entry_ref expected \<times> fs_registry) option" where
  "ref_lookup g r name =
     (let (i, e) = r
      in do {
        verify (i < length (reg_filesystems g));
        (res, st) \<leftarrow> entry_lookup (snd (reg_filesystems g ! i)) e name;
        Some (map_value (\<lambda>e'. (i, e')) res,
              g\<lparr>reg_filesystems := (reg_filesystems g)[i := (fst (reg_filesystems g ! i), st)]\<rparr>) })"

text \<open>
  The loop of \<open>fullPathLookup\<close>; the second result is what \<open>out_parent\<close> receives, when it is set.
\<close>

fun lookup_loop :: "fs_registry \<Rightarrow> entry_ref \<Rightarrow> u8 list list \<Rightarrow>
    (entry_ref expected \<times> entry_ref option \<times> fs_registry) option" where
  "lookup_loop g root [] = Some (Value root, None, g)"
| "lookup_loop g root (segment # segments) =
     (if \<not> fe_is_directory (snd root) then Some (Err ENOTDIR, None, g)
      else if sv_equal segment [0x2E] then lookup_loop g root segments
      else if sv_equal segment [0x2E, 0x2E]
      then lookup_loop g (case entry_parent (snd root) of Some p \<Rightarrow> (fst root, p) | None \<Rightarrow> root) segments
      else do {
        (res, g') \<leftarrow> ref_lookup g root segment;
        (case res of
           Err c \<Rightarrow> Some (Err c, if segments = [] then Some root else None, g')
         | Value r \<Rightarrow> lookup_loop g' r segments) })"

definition full_path_lookup :: "fs_registry \<Rightarrow> entry_ref option \<Rightarrow> path \<Rightarrow>
    (entry_ref expected \<times> entry_ref option \<times> fs_registry) option" where
  "full_path_lookup g root p =
     (case (if is_absolute p \<or> root = None then lookup_root g p else Value (the root)) of
        Err c \<Rightarrow> Some (Err c, None, g)
      | Value r \<Rightarrow> lookup_loop g r (path_segments p))"

definition full_path_lookup_string :: "fs_registry \<Rightarrow> entry_ref option \<Rightarrow> u8 list \<Rightarrow>
    (entry_ref expected \<times> entry_ref option \<times> fs_registry) option" where
  "full_path_lookup_string g root s =
     (case parse_path s of Err c \<Rightarrow> Some (Err c, None, g) | Value p \<Rightarrow> full_path_lookup g root p)"

subsection \<open>File handles\<close>

datatype SeekLocation = Start | Current | End

definition INVALID_OFFSET_VAL :: uSize where "INVALID_OFFSET_VAL = 2 ^ 64 - 1"

record FileHandle =
  fh_entry :: fat_entry
  fh_offset :: uSize

definition file_read :: "fat \<Rightarrow> FileHandle \<Rightarrow> uSize \<Rightarrow> TransactionalBuffer \<Rightarrow>
    (uSize expected \<times> TransactionalBuffer \<times> FileHandle \<times> fat) option" where
  "file_read st h offset buffer =
     (let actual_offset = (if offset = INVALID_OFFSET_VAL then fh_offset h else offset)
      in do {
        (r, buffer', st') \<leftarrow> read_bytes st (fh_entry h) buffer actual_offset (tb_size buffer);
        Some (r, buffer', (case r of Value n \<Rightarrow> h\<lparr>fh_offset := uadd actual_offset n\<rparr> | Err _ \<Rightarrow> h), st') })"

definition file_write :: "fat \<Rightarrow> FileHandle \<Rightarrow> uSize \<Rightarrow> TransactionalBuffer \<Rightarrow>
    (uSize expected \<times> TransactionalBuffer \<times> FileHandle \<times> fat) option" where
  "file_write st h offset buffer =
     (let actual_offset = (if offset = INVALID_OFFSET_VAL then fh_offset h else offset)
      in do {
        (r, buffer', st') \<leftarrow> write_bytes st (fh_entry h) buffer actual_offset (tb_size buffer);
        Some (r, buffer', (case r of Value n \<Rightarrow> h\<lparr>fh_offset := uadd actual_offset n\<rparr> | Err _ \<Rightarrow> h), st') })"

text \<open>\<open>seek\<close>; the offset is an \<open>i64\<close>, sizes are compared as \<open>u64\<close>, and signed arithmetic
  is that of the machine.\<close>

definition as_u64 :: "int \<Rightarrow> uSize" where
  "as_u64 x = nat (x mod 2 ^ 64)"

definition as_i64 :: "uSize \<Rightarrow> int" where
  "as_i64 x = (if x < 2 ^ 63 then int x else int x - 2 ^ 64)"

definition file_seek :: "FileHandle \<Rightarrow> SeekLocation \<Rightarrow> int \<Rightarrow> uSize expected \<times> FileHandle" where
  "file_seek h position offset =
     (let start_point = (case position of Start \<Rightarrow> 0 | Current \<Rightarrow> fh_offset h | End \<Rightarrow> fe_size (fh_entry h));
          target = uadd start_point (as_u64 offset)
      in if offset < 0 \<and> as_u64 (- offset) > start_point then (Err EINVAL, h)
         else if offset > 0 \<and> (as_i64 target < 0 \<or> target > fe_size (fh_entry h)) then (Err EINVAL, h)
         else (Value target, h\<lparr>fh_offset := target\<rparr>))"

subsection \<open>Partitions\<close>

datatype PartitionFsKind = PartNone | PartUndetermined | PartUnrecognised | PartFat

definition SECTOR_SIZE :: uSize where "SECTOR_SIZE = 512"
definition MBR_OFFSET :: uSize where "MBR_OFFSET = 0x1BE"

record PartitionInfo =
  pi_sector_index :: uSize
  pi_size_sectors :: uSize
  pi_kind :: PartitionFsKind

definition kind_from_code :: "u8 \<Rightarrow> PartitionFsKind" where
  "kind_from_code type_code = (if type_code = 0xB \<or> type_code = 0xC then PartFat else PartUnrecognised)"

definition mbr_partition :: "u8 list \<Rightarrow> nat \<Rightarrow> PartitionInfo list option" where
  "mbr_partition buffer i =
     (let off = MBR_OFFSET + i * 16
      in do {
        lba_begin \<leftarrow> readLE32 buffer (off + 8);
        sector_count \<leftarrow> readLE32 buffer (off + 12);
        Some (if sector_count \<noteq> 0
          then [\<lparr>pi_sector_index = unat lba_begin, pi_size_sectors = unat sector_count,
                 pi_kind = kind_from_code (buffer ! (off + 4))\<rparr>]
          else []) })"

definition probe_block_device :: "u8 list option \<Rightarrow> PartitionInfo list option" where
  "probe_block_device first_sector =
     (case first_sector of
        None \<Rightarrow> Some []
      | Some buffer \<Rightarrow> do {
          p0 \<leftarrow> mbr_partition buffer 0; p1 \<leftarrow> mbr_partition buffer 1;
          p2 \<leftarrow> mbr_partition buffer 2; p3 \<leftarrow> mbr_partition buffer 3;
          Some (p0 @ p1 @ p2 @ p3) })"

text \<open>Where a partition's transfer goes on the whole device.\<close>

definition partition_schedule :: "uSize \<Rightarrow> uSize \<Rightarrow> uSize \<Rightarrow> uSize \<Rightarrow> uSize option" where
  "partition_schedule sec_off sec_count byte_offset sz =
     (if uadd byte_offset sz > umul sec_count SECTOR_SIZE then None
      else Some (uadd byte_offset (umul sec_off SECTOR_SIZE)))"

end
