(* ===== verification/Elf.thy ===== *)
theory Elf
  imports Filesystem Space_Manager
begin

text \<open>
  \<open>kernel/src/process/elf.cpp\<close> and \<open>elf.h\<close>: parsing an executable and loading it into an address
  space.  The packed headers are decoded from their bytes; kernel memory is \<open>mm_memory\<close>.
\<close>

subsection \<open>Kernel memory\<close>

definition mem_load :: "(uSize \<Rightarrow> u8) \<Rightarrow> uSize \<Rightarrow> nat \<Rightarrow> u8 list" where
  "mem_load mem a n = map (\<lambda>i. mem (a + i)) [0..<n]"

definition mem_store :: "(uSize \<Rightarrow> u8) \<Rightarrow> uSize \<Rightarrow> u8 list \<Rightarrow> uSize \<Rightarrow> u8" where
  "mem_store mem a bs = (\<lambda>x. if a \<le> x \<and> x < a + length bs then bs ! (x - a) else mem x)"

lemma length_mem_load [simp]: "length (mem_load mem a n) = n"
  by (simp add: mem_load_def)

lemma mem_load_store: "mem_load (mem_store mem a bs) a (length bs) = bs"
  by (rule nth_equalityI) (simp_all add: mem_load_def mem_store_def)

text \<open>Consecutive stores are one store.\<close>

lemma mem_store_append:
  "mem_store (mem_store mem a bs) (a + length bs) cs = mem_store mem a (bs @ cs)"
  by (rule ext) (auto simp: mem_store_def nth_append)

lemma mem_store_Nil [simp]: "mem_store mem a [] = mem"
  by (auto simp: mem_store_def fun_eq_iff)

definition kernel_mapped_region :: "backing_region \<Rightarrow> region option" where
  "kernel_mapped_region b = (case b of UserOwnedAllocation r _ \<Rightarrow> Some r | DeviceBackedRegion _ \<Rightarrow> None)"

definition ref_read :: "fs_registry \<Rightarrow> entry_ref \<Rightarrow> TransactionalBuffer \<Rightarrow> uSize \<Rightarrow> uSize \<Rightarrow>
    (uSize expected \<times> TransactionalBuffer \<times> fs_registry) option" where
  "ref_read g r buffer offset len =
     (let (i, e) = r
      in do {
        verify (i < length (reg_filesystems g));
        (res, buffer', st) \<leftarrow> read_bytes (snd (reg_filesystems g ! i)) e buffer offset len;
        Some (res, buffer', g\<lparr>reg_filesystems := (reg_filesystems g)[i := (fst (reg_filesystems g ! i), st)]\<rparr>) })"

subsection \<open>Headers\<close>

record elf_file_header =
  eh_magic_number :: "u8 list"
  eh_word_width :: u8
  eh_endianness :: u8
  eh_obj_type :: u16
  eh_machine :: u16
  eh_entry_point :: uSize
  eh_program_header_offset :: uSize
  eh_program_header_entry_size :: uSize
  eh_program_header_entry_count :: nat

record elf_program_header =
  ph_type :: u32
  ph_flags :: u32
  ph_offset :: uSize
  ph_virtual_address :: uSize
  ph_physical_address :: uSize
  ph_file_size :: uSize
  ph_memory_size :: uSize
  ph_align :: uSize

definition field16 :: "u8 list \<Rightarrow> nat \<Rightarrow> u16" where "field16 bs off = le_word (take 2 (drop off bs))"
definition field32 :: "u8 list \<Rightarrow> nat \<Rightarrow> u32" where "field32 bs off = le_word (take 4 (drop off bs))"
definition field64 :: "u8 list \<Rightarrow> nat \<Rightarrow> uSize" where "field64 bs off = unat (le_word (take 8 (drop off bs)) :: u64)"

definition FILE_HEADER_SIZE :: nat where "FILE_HEADER_SIZE = 64"
definition PROGRAM_HEADER_SIZE :: nat where "PROGRAM_HEADER_SIZE = 56"

definition decode_file_header :: "u8 list \<Rightarrow> elf_file_header" where
  "decode_file_header bs =
     \<lparr>eh_magic_number = take 4 bs, eh_word_width = bs ! 4, eh_endianness = bs ! 5,
      eh_obj_type = field16 bs 16, eh_machine = field16 bs 18, eh_entry_point = field64 bs 24,
      eh_program_header_offset = field64 bs 32, eh_program_header_entry_size = unat (field16 bs 54),
      eh_program_header_entry_count = unat (field16 bs 56)\<rparr>"

definition decode_program_header :: "u8 list \<Rightarrow> elf_program_header" where
  "decode_program_header bs =
     \<lparr>ph_type = field32 bs 0, ph_flags = field32 bs 4, ph_offset = field64 bs 8,
      ph_virtual_address = field64 bs 16, ph_physical_address = field64 bs 24, ph_file_size = field64 bs 32,
      ph_memory_size = field64 bs 40, ph_align = field64 bs 48\<rparr>"

fun decode_program_headers :: "nat \<Rightarrow> u8 list \<Rightarrow> elf_program_header list" where
  "decode_program_headers 0 bs = []"
| "decode_program_headers (Suc n) bs =
     decode_program_header bs # decode_program_headers n (drop PROGRAM_HEADER_SIZE bs)"

definition ELF_MAGIC :: "u8 list" where "ELF_MAGIC = [0x7F, 0x45, 0x4C, 0x46]"
definition W64BIT :: u8 where "W64BIT = 2"
definition LITTLE_ENDIAN :: u8 where "LITTLE_ENDIAN = 1"
definition ET_EXEC :: u16 where "ET_EXEC = 2"
definition ELF_MACHINE_AARCH64 :: u16 where "ELF_MACHINE_AARCH64 = 0xB7"
definition PT_LOAD :: u32 where "PT_LOAD = 1"
definition PT_INTERP :: u32 where "PT_INTERP = 3"
definition ELF_PROG_EXEC :: u32 where "ELF_PROG_EXEC = 1"
definition ELF_PROG_WRITE :: u32 where "ELF_PROG_WRITE = 2"
definition ELF_PROG_READ :: u32 where "ELF_PROG_READ = 4"

record ElfFile =
  elf_file :: entry_ref
  elf_program_headers :: "elf_program_header list"
  elf_entry_point :: uSize
  elf_program_range :: region

text \<open>How one more segment changes \<open>maximal_region\<close>: a lower start keeps the size.\<close>

definition extend_range :: "region option \<Rightarrow> region \<Rightarrow> region" where
  "extend_range maximal r =
     (case maximal of
        None \<Rightarrow> r
      | Some m \<Rightarrow>
          (let m1 = (if rg_start m > rg_start r then m\<lparr>rg_start := rg_start r\<rparr> else m)
           in if rg_end m1 < rg_end r then m1\<lparr>rg_size := usub (rg_end r) (rg_start m1)\<rparr> else m1))"

text \<open>The loop over the program headers.\<close>

fun scan_headers :: "uSize \<Rightarrow> elf_program_header list \<Rightarrow> region option \<Rightarrow> region option expected" where
  "scan_headers file_size [] maximal = Value maximal"
| "scan_headers file_size (h # hs) maximal =
     (if ph_type h = PT_LOAD
      then if ph_virtual_address h \<ge> USER_ADDR_MAX \<or> ph_memory_size h \<ge> USER_ADDR_MAX \<or>
              uadd (ph_virtual_address h) (ph_memory_size h) \<ge> USER_ADDR_MAX then Err ENOTSUP
           else if uadd (ph_offset h) (ph_file_size h) > file_size then Err ENOEXEC
           else if ph_memory_size h < ph_file_size h then Err ENOEXEC
           else scan_headers file_size hs
                  (Some (extend_range maximal \<lparr>rg_start = ph_virtual_address h, rg_size = ph_memory_size h\<rparr>))
      else if ph_type h = PT_INTERP then Err ENOTSUP
      else scan_headers file_size hs maximal)"

definition parse_file :: "fs_registry \<Rightarrow> entry_ref \<Rightarrow> (ElfFile expected \<times> fs_registry) option" where
  "parse_file g file = do {
     (n, header_buffer, g1) \<leftarrow> ref_read g file (BitwiseObjectBuffer (replicate FILE_HEADER_SIZE 0)) 0 FILE_HEADER_SIZE;
     (let header = decode_file_header (tb_bytes header_buffer)
      in case n of
        Err e \<Rightarrow> Some (Err e, g1)
      | Value len \<Rightarrow>
        if len < FILE_HEADER_SIZE then Some (Err ENOEXEC, g1)
        else if mem_compare (eh_magic_number header) ELF_MAGIC \<noteq> 0 then Some (Err ENOEXEC, g1)
        else if eh_endianness header \<noteq> LITTLE_ENDIAN \<or> eh_word_width header \<noteq> W64BIT then Some (Err ENOTSUP, g1)
        else if eh_machine header \<noteq> ELF_MACHINE_AARCH64 then Some (Err ENOTSUP, g1)
        else if eh_obj_type header \<noteq> ET_EXEC then Some (Err ENOEXEC, g1)
        else if eh_program_header_entry_size header \<noteq> PROGRAM_HEADER_SIZE then Some (Err ENOTSUP, g1)
        else (let headers_size = eh_program_header_entry_count header * PROGRAM_HEADER_SIZE
          in do {
            (n2, headers_buf, g2) \<leftarrow> ref_read g1 file (KernelBuffer (replicate headers_size 0))
              (eh_program_header_offset header) headers_size;
            (case n2 of
               Err e \<Rightarrow> Some (Err e, g2)
             | Value len2 \<Rightarrow>
                if len2 < headers_size then Some (Err ENOEXEC, g2)
                else (let headers = decode_program_headers (eh_program_header_entry_count header) (tb_bytes headers_buf)
                  in case scan_headers (fe_size (snd file)) headers None of
                       Err e \<Rightarrow> Some (Err e, g2)
                     | Value None \<Rightarrow> Some (Err ENOEXEC, g2)
                     | Value (Some prange) \<Rightarrow>
                         if eh_entry_point header \<ge> USER_ADDR_MAX then Some (Err ENOTSUP, g2)
                         else Some (Value \<lparr>elf_file = file, elf_program_headers = headers,
                                elf_entry_point = eh_entry_point header, elf_program_range = prange\<rparr>, g2))) })) }"

subsection \<open>Loading\<close>

definition segment_operations :: "elf_program_header \<Rightarrow> memory_operation" where
  "segment_operations h =
     (if ph_flags h AND ELF_PROG_READ \<noteq> 0 then OpRead else OpNone) OR
     (if ph_flags h AND ELF_PROG_WRITE \<noteq> 0 then OpWrite else OpNone) OR
     (if ph_flags h AND ELF_PROG_EXEC \<noteq> 0 then OpExecute else OpNone)"

definition create_region_name :: "u8 list \<Rightarrow> memory_operation \<Rightarrow> string" where
  "create_region_name fname operations =
     ''['' @ map (\<lambda>c. char_of (unat c)) fname @ '']('' @
     (if operations AND OpRead \<noteq> OpNone then ''r'' else ''-'') @
     (if operations AND OpWrite \<noteq> OpNone then ''w'' else ''-'') @
     (if operations AND OpExecute \<noteq> OpNone then ''x'' else ''-'') @ '')''"

text \<open>
  The part of \<open>load_into\<close> that fills the new memory \<open>kr\<close> of a segment: zeros, the data from the
  file, zeros.  \<open>read_entry\<close> is the virtual method \<open>read_bytes\<close> of the file's entry, which may report fewer bytes
  than it is asked for; \<open>load_segment\<close> passes that of the entry it is given.
\<close>

type_synonym 'g entry_reader = "TransactionalBuffer \<Rightarrow> uSize \<Rightarrow> uSize \<Rightarrow> (uSize expected \<times> TransactionalBuffer \<times> 'g) option"

definition populate_segment :: "'g entry_reader \<Rightarrow> (uSize \<Rightarrow> u8) \<Rightarrow> elf_program_header \<Rightarrow> region \<Rightarrow> uSize \<Rightarrow>
    (unit expected \<times> (uSize \<Rightarrow> u8) \<times> 'g) option" where
  "populate_segment read_entry m h kr start_offset =
     (let m1 = (if start_offset \<noteq> 0
                then mem_store m (rg_start kr) (memset_stored (of_nat (rg_start kr)) 0 start_offset) else m);
          data_start = rg_start kr + start_offset
      in do {
        (n, data, g1) \<leftarrow> read_entry (KernelBuffer (mem_load m1 data_start (ph_file_size h)))
          (ph_offset h) (ph_file_size h);
        (let m2 = mem_store m1 data_start (tb_bytes data);
             fin = start_offset + ph_file_size h
         in case n of
              Err e \<Rightarrow> Some (Err e, m2, g1)
            | Value len \<Rightarrow>
                if len < ph_file_size h then Some (Err EIO, m2, g1)
                else if fin < rg_size kr
                then Some (Value (), mem_store m2 (rg_start kr + fin)
                       (memset_stored (of_nat (rg_start kr + fin)) 0 (rg_size kr - fin)), g1)
                else Some (Value (), m2, g1)) })"

text \<open>
  One turn of the loop of \<open>load_into\<close>.  The turn holds a reference to the new memory and drops it
  at its end, also when it returns with an error.
\<close>

definition load_segment :: "pt_env \<Rightarrow> mm_state \<Rightarrow> fs_registry \<Rightarrow> space_manager \<Rightarrow> entry_ref \<Rightarrow> elf_program_header \<Rightarrow>
    (unit expected \<times> mm_state \<times> fs_registry \<times> space_manager) option" where
  "load_segment env s g sm file h =
     (let target_region = \<lparr>rg_start = ph_virtual_address h, rg_size = ph_memory_size h\<rparr>;
          aligned_region = rg_align_to_page target_region;
          start_offset = usub (rg_start target_region) (rg_start aligned_region);
          operations = segment_operations h
      in do {
        verify (as_i64 start_offset \<ge> 0);
        (placed, s1, sm1) \<leftarrow> allocate_placed_region env s sm aligned_region operations
          (create_region_name (fe_name (snd file)) operations);
        (case placed of
           Err e \<Rightarrow> Some (Err e, s1, g, sm1)
         | Value oid \<Rightarrow> do {
             ob \<leftarrow> mm_objects s1 oid;
             kr \<leftarrow> kernel_mapped_region (bo_region ob);
             (r, m, g1) \<leftarrow> populate_segment (ref_read g file) (mm_memory s1) h kr start_offset;
             s2 \<leftarrow> release (s1\<lparr>mm_memory := m\<rparr>) oid;
             Some (r, s2, g1, sm1) }) })"

fun load_headers :: "pt_env \<Rightarrow> mm_state \<Rightarrow> fs_registry \<Rightarrow> space_manager \<Rightarrow> entry_ref \<Rightarrow> elf_program_header list \<Rightarrow>
    (uSize expected \<times> mm_state \<times> fs_registry \<times> space_manager) option" where
  "load_headers env s g sm file [] = Some (Value 0, s, g, sm)"
| "load_headers env s g sm file (h # hs) =
     (if ph_type h = PT_LOAD \<and> ph_memory_size h \<noteq> 0
      then do {
        (r, s1, g1, sm1) \<leftarrow> load_segment env s g sm file h;
        (case r of Err e \<Rightarrow> Some (Err e, s1, g1, sm1) | Value _ \<Rightarrow> load_headers env s1 g1 sm1 file hs) }
      else load_headers env s g sm file hs)"

definition load_into :: "pt_env \<Rightarrow> mm_state \<Rightarrow> fs_registry \<Rightarrow> space_manager \<Rightarrow> ElfFile \<Rightarrow>
    (uSize expected \<times> mm_state \<times> fs_registry \<times> space_manager) option" where
  "load_into env s g sm elf = load_headers env s g sm (elf_file elf) (elf_program_headers elf)"

definition get_sensible_stack_region :: "ElfFile \<Rightarrow> uSize \<Rightarrow> region" where
  "get_sensible_stack_region elf maximum_size =
     (let desirable_null_buffer = 16 * PAGE_SIZE;
          desirable_region_space = 2 * PAGE_SIZE;
          aligned_program_range = rg_align_to_page (elf_program_range elf);
          top = uadd desirable_null_buffer maximum_size
      in if uadd top desirable_region_space \<le> rg_start aligned_program_range
         then \<lparr>rg_start = usub top maximum_size, rg_size = maximum_size\<rparr>
         else \<lparr>rg_start = uadd (rg_end aligned_program_range) desirable_region_space, rg_size = maximum_size\<rparr>)"

subsection \<open>The program range\<close>

definition is_load :: "elf_program_header \<Rightarrow> bool" where
  "is_load h \<longleftrightarrow> ph_type h = PT_LOAD"

definition segment_checked :: "elf_program_header \<Rightarrow> bool" where
  "segment_checked h \<longleftrightarrow> ph_virtual_address h + ph_memory_size h < USER_ADDR_MAX \<and> ph_file_size h \<le> ph_memory_size h"

definition segment_within :: "elf_program_header \<Rightarrow> region \<Rightarrow> bool" where
  "segment_within h r \<longleftrightarrow>
     rg_start r \<le> ph_virtual_address h \<and> ph_virtual_address h + ph_memory_size h \<le> rg_start r + rg_size r"

lemma user_sum_small:
  "a < USER_ADDR_MAX \<Longrightarrow> b < USER_ADDR_MAX \<Longrightarrow> uadd a b = a + b"
  by (simp add: uadd_def USER_ADDR_MAX_def)

lemma extend_range_ascending:
  assumes "rg_start m \<le> rg_start r" and "rg_start m + rg_size m < USER_ADDR_MAX"
    and "rg_start r + rg_size r < USER_ADDR_MAX"
  shows "extend_range (Some m) r =
    \<lparr>rg_start = rg_start m, rg_size = max (rg_start m + rg_size m) (rg_start r + rg_size r) - rg_start m\<rparr>"
proof -
  have "region_ok m" "region_ok r"
    using assms by (simp_all add: region_ok_def USER_ADDR_MAX_def)
  then show ?thesis
    using assms by (auto simp: extend_range_def Let_def rg_end_eq usub_le max_def)
qed

lemma scan_headers_covers:
  assumes "scan_headers file_size hs (Some m) = Value r"
    and "sorted_wrt (\<lambda>a b. ph_virtual_address a \<le> ph_virtual_address b) (filter is_load hs)"
    and "\<forall>h\<in>set hs. is_load h \<longrightarrow> rg_start m \<le> ph_virtual_address h"
    and "rg_start m + rg_size m < USER_ADDR_MAX"
  shows "\<exists>r'. r = Some r' \<and> rg_start r' = rg_start m \<and> rg_start m + rg_size m \<le> rg_start r' + rg_size r' \<and>
    rg_start r' + rg_size r' < USER_ADDR_MAX \<and>
    (\<forall>h\<in>set hs. is_load h \<longrightarrow> segment_checked h \<and> segment_within h r')"
  using assms
proof (induction hs arbitrary: m)
  case Nil
  then show ?case by auto
next
  case (Cons h hs)
  show ?case
  proof (cases "is_load h")
    case False
    then show ?thesis using Cons by (auto simp: is_load_def split: if_splits)
  next
    case True
    let ?r = "\<lparr>rg_start = ph_virtual_address h, rg_size = ph_memory_size h\<rparr>"
    let ?m = "extend_range (Some m) ?r"
    have chk: "ph_virtual_address h + ph_memory_size h < USER_ADDR_MAX" "ph_file_size h \<le> ph_memory_size h"
      and rec: "scan_headers file_size hs (Some ?m) = Value r"
      using Cons.prems(1) True by (auto simp: is_load_def user_sum_small split: if_splits)
    have m: "?m = \<lparr>rg_start = rg_start m,
        rg_size = max (rg_start m + rg_size m) (ph_virtual_address h + ph_memory_size h) - rg_start m\<rparr>"
      using extend_range_ascending [of m ?r] Cons.prems(3,4) True chk by simp
    have "\<exists>r'. r = Some r' \<and> rg_start r' = rg_start ?m \<and> rg_start ?m + rg_size ?m \<le> rg_start r' + rg_size r' \<and>
        rg_start r' + rg_size r' < USER_ADDR_MAX \<and>
        (\<forall>h\<in>set hs. is_load h \<longrightarrow> segment_checked h \<and> segment_within h r')"
      by (rule Cons.IH [OF rec]) (use Cons.prems True chk m in auto)
    then show ?thesis
      using True chk m Cons.prems(3) by (auto simp: segment_checked_def segment_within_def)
  qed
qed

text \<open>An accepted file went through the scan.\<close>

lemma parse_file_scanned:
  assumes "parse_file g file = Some (Value elf, g')"
  shows "scan_headers (fe_size (snd file)) (elf_program_headers elf) None = Value (Some (elf_program_range elf))"
    and "elf_entry_point elf < USER_ADDR_MAX"
  using assms by (auto simp: parse_file_def Let_def split: Option.bind_splits expected.splits option.splits if_splits)

definition demo_header :: "uSize \<Rightarrow> uSize \<Rightarrow> elf_program_header" where
  "demo_header vaddr sz = \<lparr>ph_type = PT_LOAD, ph_flags = 5, ph_offset = 0, ph_virtual_address = vaddr,
     ph_physical_address = 0, ph_file_size = 16, ph_memory_size = sz, ph_align = 4096\<rparr>"

lemma demo_scan:
  "scan_headers 4096 [demo_header 0x1000 0x100, demo_header 0x3000 0x200] None
     = Value (Some \<lparr>rg_start = 0x1000, rg_size = 0x2200\<rparr>)"
  by (simp add: demo_header_def PT_LOAD_def USER_ADDR_MAX_def uadd_def usub_def extend_range_def rg_end_def)

text \<open>What the scan of the program headers accepts.  When the loadable segments are in ascending
  order, as the format asks for, every one of them ends below the end of the user half, has no
  more data in the file than memory, and lies within the program range, next to which the stack is
  put; the range itself ends below the end of the user half.\<close>

theorem scanned_segments_within_range:
  assumes "scan_headers file_size hs None = Value (Some r)"
    and "sorted_wrt (\<lambda>a b. ph_virtual_address a \<le> ph_virtual_address b) (filter is_load hs)"
  shows "rg_start r + rg_size r < USER_ADDR_MAX \<and>
    (\<forall>h\<in>set hs. is_load h \<longrightarrow> segment_checked h \<and> segment_within h r)"
  using assms
proof (induction hs)
  case Nil
  then show ?case by simp
next
  case (Cons h hs)
  show ?case
  proof (cases "is_load h")
    case False
    then show ?thesis using Cons by (auto simp: is_load_def split: if_splits)
  next
    case True
    let ?r = "\<lparr>rg_start = ph_virtual_address h, rg_size = ph_memory_size h\<rparr>"
    have chk: "ph_virtual_address h + ph_memory_size h < USER_ADDR_MAX" "ph_file_size h \<le> ph_memory_size h"
      and rec: "scan_headers file_size hs (Some ?r) = Value (Some r)"
      using Cons.prems(1) True by (auto simp: is_load_def user_sum_small extend_range_def split: if_splits)
    have "\<exists>r'. Some r = Some r' \<and> rg_start r' = rg_start ?r \<and> rg_start ?r + rg_size ?r \<le> rg_start r' + rg_size r' \<and>
        rg_start r' + rg_size r' < USER_ADDR_MAX \<and>
        (\<forall>h\<in>set hs. is_load h \<longrightarrow> segment_checked h \<and> segment_within h r')"
      by (rule scan_headers_covers [OF rec]) (use Cons.prems True chk in auto)
    then show ?thesis using True chk by (auto simp: segment_checked_def segment_within_def)
  qed
qed

theorem scanned_segments_within_range_witness:
  "segment_checked (demo_header 0x3000 0x200) \<and>
   segment_within (demo_header 0x3000 0x200) \<lparr>rg_start = 0x1000, rg_size = 0x2200\<rparr>"
  using scanned_segments_within_range [OF demo_scan]
  by (simp add: demo_header_def is_load_def)

text \<open>Segments in another order are accepted too, and then the program range misses some of them:
  a segment below the range moves the start of the range and keeps its size.  The stack that
  \<open>get_sensible_stack_region\<close> suggests can then lie inside the program.\<close>

theorem descending_segments_outside_range:
  "scan_headers 4096 [demo_header 0x6000 0x1000, demo_header 0x2000 0x100] None
     = Value (Some \<lparr>rg_start = 0x2000, rg_size = 0x1000\<rparr>) \<and>
   \<not> segment_within (demo_header 0x6000 0x1000) \<lparr>rg_start = 0x2000, rg_size = 0x1000\<rparr> \<and>
   rg_overlaps
     (get_sensible_stack_region \<lparr>elf_file = file, elf_program_headers = hs, elf_entry_point = 0,
        elf_program_range = \<lparr>rg_start = 0x2000, rg_size = 0x1000\<rparr>\<rparr> 0x400000)
     \<lparr>rg_start = 0x6000, rg_size = 0x1000\<rparr>"
  by (simp add: demo_header_def PT_LOAD_def USER_ADDR_MAX_def uadd_def usub_def umul_def extend_range_def rg_end_def
    segment_within_def get_sensible_stack_region_def rg_align_to_page_def align_up_def align_down_def ceil_div_def
    PAGE_SIZE_def rg_overlaps_def Let_def)

subsection \<open>The contents of a segment\<close>

definition kernel_buffer :: "nat \<Rightarrow> TransactionalBuffer \<Rightarrow> bool" where
  "kernel_buffer n b \<longleftrightarrow> (\<exists>m. b = KernelBuffer m \<and> length m = n)"

lemma interchange_cluster_buffer:
  assumes "interchange_cluster st buffer cluster off len completed wr = Some (buffer', st')"
    and "kernel_buffer n buffer"
  shows "kernel_buffer n buffer'"
  using assms
  by (auto simp: interchange_cluster_def Let_def memcopy_def kernel_buffer_def split: bind_splits if_splits
      dest!: length_mem_write)

lemma interchange_loop_buffer:
  "interchange_loop st buffer cluster within completed sz wr = Some (ok, buffer', st') \<Longrightarrow>
   kernel_buffer n buffer \<Longrightarrow> kernel_buffer n buffer'"
proof (induction st buffer cluster within completed sz wr rule: interchange_loop.induct)
  case (1 st buffer cluster within completed sz wr)
  define off where "off = (if completed = 0 then within else 0)"
  define len where "len = min (sz - completed) (cluster_size st - off)"
  note unfolded = "1.prems"(1) [unfolded interchange_loop.simps [of st buffer cluster within completed sz wr],
    folded off_def, unfolded Let_def, folded len_def]
  show ?case
  proof (cases "completed < sz")
    case False
    then show ?thesis using unfolded "1.prems"(2) by simp
  next
    case True
    then obtain b1 st1 where b1: "len \<noteq> 0" "interchange_cluster st buffer cluster off len completed wr = Some (b1, st1)"
      using unfolded by (auto split: bind_splits if_splits)
    then have kb: "kernel_buffer n b1" using interchange_cluster_buffer "1.prems"(2) by blast
    show ?thesis
    proof (cases "completed + len = sz")
      case True
      then show ?thesis using unfolded b1 kb \<open>completed < sz\<close> by simp
    next
      case False
      then obtain nc st2 where nc: "getNextCluster st1 cluster = Some (nc, st2)"
        using unfolded b1 True by (auto split: bind_splits)
      show ?thesis
      proof (cases "get_cluster_type nc = NextPointer")
        case np: True
        then have "interchange_loop st2 b1 nc within (completed + len) sz wr = Some (ok, buffer', st')"
          using unfolded b1 nc True False by simp
        then show ?thesis
          using "1.IH" [OF True off_def len_def b1 refl False nc refl] np kb by simp
      qed (use unfolded b1 nc True False kb in simp)
    qed
  qed
qed

lemma ref_read_buffer:
  assumes "ref_read g r buffer offset len = Some (res, buffer', g')" and "kernel_buffer n buffer"
  shows "kernel_buffer n buffer'"
  using assms interchange_loop_buffer
  by (auto simp: ref_read_def read_bytes_def fat_read_data_def doDataInterchange_def split: bind_splits if_splits option.splits prod.splits)

subsection \<open>A concrete volume\<close>

text \<open>A volume of five blocks of 8 bytes: a table of three and two clusters, 2 and 3, with the bytes 1 to 16.\<close>

definition demo_volume :: fat where
  "demo_volume = fat_new \<lparr>fi_fat_type = FAT32, fi_sector_size = 8, fi_sectors_per_cluster = 1,
      fi_fat_begin_sector = 0, fi_fat_sectors = 3, fi_root_info = RootCluster 2, fi_data_begin_sector = 3\<rparr>
     (replicate 24 0 @ [1, 2, 3, 4, 5, 6, 7, 8, 9, 10, 11, 12, 13, 14, 15, 16]) (replicate 8 0)"

definition demo_file :: fat_entry where
  "demo_file = root_entry\<lparr>fe_is_directory := False, fe_root_cluster := 3, fe_size := 8\<rparr>"

definition demo_registry :: fs_registry where
  "demo_registry = \<lparr>reg_root = 0, reg_filesystems = [([], demo_volume)]\<rparr>"

lemma lookup_fresh:
  "0 < cap \<Longrightarrow> unchecked_lookup hash (hashtable_new cap) key inserting = Some (unat (hash key) mod cap)"
  by (simp add: unchecked_lookup_def hashtable_new_def probes_def upt_conv_Cons)

lemma cache_fetch_fresh: "\<exists>c. cache_fetch held (lru_cache_new 10) key (Some d) = Some (d, [], c)"
proof -
  have "lru_find block_hash (lru_cache_new 10) key = Some (None :: BlockCacheItem option, lru_cache_new 10)"
    by (simp add: lru_find_def lru_cache_new_def lookup_fresh) (simp add: hashtable_new_def)
  moreover have "check_size block_hash (hashtable_new 20) = Some (hashtable_new 20 :: (nat, BlockCacheItem lru_item) hashtable)"
    by (simp add: check_size_def hashtable_new_def)
  moreover obtain t where "unchecked_set block_hash (hashtable_new 20) key
      \<lparr>li_last_use_counter = 0, li_v = block_create key d\<rparr> False = Some (unat (block_hash key) mod 20, True, t)"
      "ht_load t = 1"
    by (simp add: unchecked_set_def lookup_fresh) (simp add: hashtable_new_def uadd_def)
  ultimately show ?thesis
    by (simp add: cache_fetch_def lru_set_def ht_insert_def try_purge_def lru_cache_new_def)
qed

lemma demo_read:
  "\<exists>g. ref_read demo_registry (0, demo_file) (KernelBuffer [a, b, c, d]) 2 4 =
     Some (Value 4, KernelBuffer [11, 12, 13, 14], g)"
proof -
  obtain k where k: "cache_fetch [] (lru_cache_new 10) 3 (Some [9, 10, 11, 12, 13, 14, 15, 16]) = Some ([9, 10, 11, 12, 13, 14, 15, 16], [], k)"
    using cache_fetch_fresh by blast
  show ?thesis
    using k
    by (simp add: ref_read_def demo_registry_def demo_file_def root_entry_def fat_entry_new_def read_bytes_def fat_read_data_def
      doDataInterchange_def cluster_size_def demo_volume_def fat_new_def umul_def interchange_loop.simps
      interchange_cluster_def fetch_cluster_def cluster_byte_addr_def CLUSTER_CACHE_MAX_def uadd_def usub_def mem_read_def Let_def
      memcopy_def mem_write_def MAX_MEMCOPY_def)
qed
text \<open>
  What is relied on of \<open>read_bytes\<close>, for one call: it fills the buffer it is given, and the bytes it
  reports are those of the file.
\<close>

definition read_delivers :: "'g entry_reader \<Rightarrow> u8 list \<Rightarrow> uSize \<Rightarrow> uSize \<Rightarrow> bool" where
  "read_delivers read_entry contents offset len \<longleftrightarrow>
     (\<forall>old res b g. length old = len \<and> read_entry (KernelBuffer old) offset len = Some (res, b, g) \<longrightarrow>
        kernel_buffer len b \<and> (\<forall>n. res = Value n \<longrightarrow> take n (tb_bytes b) = take n (drop offset contents)))"

lemma ref_read_delivers:
  assumes "\<And>old n b g'. ref_read g file (KernelBuffer old) offset len = Some (Value n, b, g') \<Longrightarrow> length old = len \<Longrightarrow>
    take n (tb_bytes b) = take n (drop offset contents)"
  shows "read_delivers (ref_read g file) contents offset len"
  unfolding read_delivers_def
proof (intro allI impI conjI)
  fix old res b g'
  assume *: "length old = len \<and> ref_read g file (KernelBuffer old) offset len = Some (res, b, g')"
  then show "kernel_buffer len b" using ref_read_buffer by (fastforce simp: kernel_buffer_def)
  show "take n (tb_bytes b) = take n (drop offset contents)" if "res = Value n" for n
    using assms * that by blast
qed

text \<open>
  C17: the memory of a loaded segment, for a file whose \<open>read_bytes\<close> may also fall short.  When loading
  succeeds, all the bytes that the header asks for are in the file, and the region is filled with
  zeros up to the segment's first address in the page, then exactly those bytes of the file, then zeros to
  the end of the region: nothing of what was in the memory before is left.  Whatever the outcome, no other
  byte of kernel memory changes.  The file data has to fit in the region.
\<close>

theorem populate_segment_contents:
  assumes "populate_segment read_entry m h kr start_offset = Some (r, m', g')"
    and "read_delivers read_entry contents (ph_offset h) (ph_file_size h)"
    and "start_offset + ph_file_size h \<le> rg_size kr"
  shows "(\<forall>a. a < rg_start kr \<or> rg_start kr + rg_size kr \<le> a \<longrightarrow> m' a = m a) \<and>
    (r = Value () \<longrightarrow> length (take (ph_file_size h) (drop (ph_offset h) contents)) = ph_file_size h \<and>
      mem_load m' (rg_start kr) (rg_size kr) = replicate start_offset 0 @
        take (ph_file_size h) (drop (ph_offset h) contents) @ replicate (rg_size kr - (start_offset + ph_file_size h)) 0)"
proof -
  define m1 where "m1 = mem_store m (rg_start kr) (replicate start_offset 0)"
  define fin where "fin = start_offset + ph_file_size h"
  have m1: "(if start_offset \<noteq> 0 then mem_store m (rg_start kr) (replicate start_offset 0) else m) = m1"
    by (simp add: m1_def)
  let ?old = "mem_load m1 (rg_start kr + start_offset) (ph_file_size h)"
  obtain res b where read: "read_entry (KernelBuffer ?old) (ph_offset h) (ph_file_size h) = Some (res, b, g')"
    and tail: "(case res of
              Err e \<Rightarrow> Some (Err e, mem_store m1 (rg_start kr + start_offset) (tb_bytes b), g')
            | Value len \<Rightarrow>
                if len < ph_file_size h then Some (Err EIO, mem_store m1 (rg_start kr + start_offset) (tb_bytes b), g')
                else if fin < rg_size kr
                then Some (Value (), mem_store (mem_store m1 (rg_start kr + start_offset) (tb_bytes b)) (rg_start kr + fin)
                       (replicate (rg_size kr - fin) 0), g')
                else Some (Value (), mem_store m1 (rg_start kr + start_offset) (tb_bytes b), g')) = Some (r, m', g')"
  proof -
    obtain x where x: "read_entry (KernelBuffer ?old) (ph_offset h) (ph_file_size h) = Some x"
      using assms(1) unfolding populate_segment_def memset_stored_eq Let_def m1 by (cases "read_entry (KernelBuffer ?old) (ph_offset h) (ph_file_size h)") simp_all
    obtain res b g1 where "x = (res, b, g1)" by (cases x) 
    then show thesis
      using assms(1) x that[of res b] unfolding populate_segment_def memset_stored_eq Let_def m1 fin_def [symmetric]
      by (cases res) (simp_all split: if_splits)
  qed
  have m': "m' = (if r = Value () \<and> fin < rg_size kr
      then mem_store (mem_store m1 (rg_start kr + start_offset) (tb_bytes b)) (rg_start kr + fin) (replicate (rg_size kr - fin) 0)
      else mem_store m1 (rg_start kr + start_offset) (tb_bytes b))"
    and enough: "r = Value () \<longrightarrow> (\<exists>n \<ge> ph_file_size h. res = Value n)"
    using tail by (cases res; auto split: if_splits)+
  have got: "kernel_buffer (ph_file_size h) b" "\<And>n. res = Value n \<Longrightarrow> take n (tb_bytes b) = take n (drop (ph_offset h) contents)"
    using assms(2) read unfolding read_delivers_def by (metis length_mem_load)+
  define data where "data = tb_bytes b"
  have data: "length data = ph_file_size h" using got(1) by (auto simp: kernel_buffer_def data_def)
  define whole where "whole = replicate start_offset 0 @ data @ replicate (if r = Value () then rg_size kr - fin else 0) 0"
  have store: "m' = mem_store m (rg_start kr) whole"
    using mem_store_append [of m "rg_start kr" "replicate start_offset 0" data]
      mem_store_append [of m "rg_start kr" "replicate start_offset 0 @ data"] data m'
    by (auto simp: m1_def whole_def fin_def add.assoc data_def)
  have len: "length whole \<le> rg_size kr" using assms(3) data by (simp add: whole_def fin_def)
  have frame: "\<forall>a. a < rg_start kr \<or> rg_start kr + rg_size kr \<le> a \<longrightarrow> m' a = m a"
    using len by (auto simp: store mem_store_def)
  have "take (ph_file_size h) (drop (ph_offset h) contents) = data" if "r = Value ()"
  proof -
    obtain n where n: "ph_file_size h \<le> n" "res = Value n" using enough \<open>r = Value ()\<close> by blast
    have same: "take n data = take n (drop (ph_offset h) contents)" using got(2)[OF n(2)] by (simp add: data_def)
    have "take (ph_file_size h) (take n data) = data" using data n(1) by simp
    then have got_all: "take (ph_file_size h) (take n (drop (ph_offset h) contents)) = data" unfolding same .
    have "take (ph_file_size h) (drop (ph_offset h) contents) = take (ph_file_size h) (take n (drop (ph_offset h) contents))"
      using n(1) by (simp only: take_take min_absorb1)
    also note got_all
    finally show ?thesis .
  qed
  moreover have "length whole = rg_size kr" if "r = Value ()"
    using that assms(3) data by (simp add: whole_def fin_def)
  ultimately show ?thesis
    using frame mem_load_store [of m "rg_start kr" whole] data by (auto simp: store whole_def fin_def)
qed

theorem populate_segment_contents_witness:
  "\<exists>m' g'. populate_segment (ref_read demo_registry (0, demo_file)) (\<lambda>_. 0xFF)
       (demo_header 0x400002 6\<lparr>ph_offset := 2, ph_file_size := 4\<rparr>) \<lparr>rg_start = 0x5000, rg_size = 8\<rparr> 2
       = Some (Value (), m', g') \<and>
     mem_load m' 0x5000 8 = [0, 0, 11, 12, 13, 14, 0, 0] \<and> m' 0x5008 = 0xFF"
proof -
  let ?h = "demo_header 0x400002 6\<lparr>ph_offset := 2, ph_file_size := 4\<rparr>"
  let ?kr = "\<lparr>rg_start = 0x5000, rg_size = 8\<rparr>"
  have four: "\<exists>a b c d. old = [a, b, c, d]" if "length old = 4" for old :: "u8 list"
    using that by (auto simp: length_Suc_conv eval_nat_numeral)
  have read: "\<exists>g'. ref_read demo_registry (0, demo_file) (KernelBuffer old) 2 4
      = Some (Value 4, KernelBuffer [11, 12, 13, 14], g')" if "length old = 4" for old
    using demo_read four[OF that] by blast
  obtain m' g' where p: "populate_segment (ref_read demo_registry (0, demo_file)) (\<lambda>_. 0xFF) ?h ?kr 2 = Some (Value (), m', g')"
    using read[of "mem_load (mem_store (\<lambda>_. 0xFF) 0x5000 (memset_stored (of_nat 0x5000) 0 2)) 0x5002 4"]
    by (force simp: populate_segment_def demo_header_def)
  have "read_delivers (ref_read demo_registry (0, demo_file)) [9, 10, 11, 12, 13, 14, 15, 16] 2 4"
    using read by (intro ref_read_delivers) force
  then have all: "read_delivers (ref_read demo_registry (0, demo_file)) [9, 10, 11, 12, 13, 14, 15, 16] (ph_offset ?h) (ph_file_size ?h)"
    by simp
  have "2 + ph_file_size ?h \<le> rg_size ?kr" by simp
  note result = populate_segment_contents [OF p all this]
  have "mem_load m' 0x5000 8 = replicate 2 0 @ [11, 12, 13, 14] @ replicate 2 0"
    using result by simp
  then have "mem_load m' 0x5000 8 = [0, 0, 11, 12, 13, 14, 0, 0]" by (simp only: numeral_2_eq_2 replicate.simps append.simps)
  moreover have "m' 0x5008 = 0xFF" using result by simp
  ultimately show ?thesis using p by blast
qed

end
