(* ===== verification/Scheduler.thy ===== *)
theory Scheduler
  imports Addresses
begin

text \<open>
  \<open>ProcessManager\<close> of \<open>kernel/src/process/process.cpp\<close> and \<open>process.h\<close>: the process table, critical
  sections and the scheduler.

  A registered process is known by its slot in the table, which is its pid; \<open>'u\<close> is the user part
  of a process.  \<open>do_context_switch\<close> and \<open>do_switch_user_address_space\<close> are assembly: of the saved
  registers the model keeps where the process goes on, at its entry or inside the \<open>schedule\<close> that
  suspended it, and \<open>pm_space\<close> is the process whose address space is loaded.  The tick counters are
  unbounded; the code's would overflow after \<open>2 ^ 63\<close> rounds.
\<close>

datatype ProcessState = Unready | Stopped | Running | Waiting | AwaitingDeath

datatype SavedRegisters = AtEntry | InSwitch

record 'u Process =
  pr_name :: "u8 list"
  pr_pid :: int
  pr_parent :: "nat option"
  pr_children :: "nat list"
  pr_saved :: SavedRegisters
  pr_kernel_stack :: region
  pr_userspace :: "'u option"
  pr_counter :: int
  pr_preempt :: int
  pr_state :: ProcessState
  pr_exit_code :: "int option"
  pr_ref_count :: nat

record 'u ProcessManager =
  pm_processes :: "'u Process option list"
  pm_current :: nat
  pm_last_nanoseconds :: nat
  pm_space :: "nat option"

definition process_new :: "u8 list \<Rightarrow> nat option \<Rightarrow> region \<Rightarrow> 'u Process" where
  "process_new name parent kernel_stack =
     \<lparr>pr_name = name, pr_pid = -1, pr_parent = parent, pr_children = [], pr_saved = AtEntry,
      pr_kernel_stack = kernel_stack, pr_userspace = None, pr_counter = 1, pr_preempt = 0, pr_state = Unready, pr_exit_code = None,
      pr_ref_count = 1\<rparr>"

definition has_userspace :: "'u Process \<Rightarrow> bool" where
  "has_userspace p \<longleftrightarrow> pr_userspace p \<noteq> None"

definition set_state :: "'u Process \<Rightarrow> ProcessState \<Rightarrow> ProcessState \<times> 'u Process" where
  "set_state p new_state = (pr_state p, p\<lparr>pr_state := new_state\<rparr>)"

definition initialise_and_adopt :: "u8 list \<Rightarrow> region \<Rightarrow> nat \<Rightarrow> 'u ProcessManager" where
  "initialise_and_adopt name kernel_stack now =
     \<lparr>pm_processes = [Some ((process_new name None kernel_stack)\<lparr>pr_pid := 0, pr_state := Running\<rparr>)],
      pm_current = 0, pm_last_nanoseconds = now, pm_space = None\<rparr>"

definition process_at :: "'u ProcessManager \<Rightarrow> nat \<Rightarrow> 'u Process option" where
  "process_at s i = (if i < length (pm_processes s) then pm_processes s ! i else None)"

definition current_process :: "'u ProcessManager \<Rightarrow> 'u Process option" where
  "current_process s = process_at s (pm_current s)"

definition update_process :: "'u ProcessManager \<Rightarrow> nat \<Rightarrow> ('u Process \<Rightarrow> 'u Process) \<Rightarrow> 'u ProcessManager option" where
  "update_process s i f = do {
     p \<leftarrow> process_at s i;
     Some (s\<lparr>pm_processes := (pm_processes s)[i := Some (f p)]\<rparr>) }"

subsection \<open>Critical sections\<close>

definition enter_critical :: "'u ProcessManager \<Rightarrow> 'u ProcessManager option" where
  "enter_critical s = update_process s (pm_current s) (\<lambda>p. p\<lparr>pr_preempt := pr_preempt p + 1\<rparr>)"

definition exit_critical :: "'u ProcessManager \<Rightarrow> 'u ProcessManager option" where
  "exit_critical s = update_process s (pm_current s) (\<lambda>p. p\<lparr>pr_preempt := pr_preempt p - 1\<rparr>)"

definition count_critical :: "'u ProcessManager \<Rightarrow> int option" where
  "count_critical s = map_option pr_preempt (current_process s)"

definition is_critical :: "'u ProcessManager \<Rightarrow> bool option" where
  "is_critical s = map_option (\<lambda>p. pr_preempt p \<noteq> 0) (current_process s)"

subsection \<open>The process table\<close>

fun first_free :: "'u Process option list \<Rightarrow> nat \<Rightarrow> nat \<Rightarrow> nat" where
  "first_free [] i candidate = candidate"
| "first_free (p # ps) i candidate = (if p = None then i else first_free ps (i + 1) candidate)"

definition LONG_MAX :: nat where "LONG_MAX = 2 ^ 63 - 1"

text \<open>\<open>register_process\<close>.  The two errors return inside the critical section.\<close>

definition register_process :: "'u ProcessManager \<Rightarrow> 'u Process \<Rightarrow> (ErrorCode \<times> 'u ProcessManager) option" where
  "register_process s proc = do {
     s1 \<leftarrow> enter_critical s;
     (let ps = pm_processes s1;
          insert_at = (\<lambda>pid. do {
            s2 \<leftarrow> (if pid < length ps then Some (s1\<lparr>pm_processes := ps[pid := Some (proc\<lparr>pr_pid := int pid\<rparr>)]\<rparr>)
                   else do { verify (pid = length ps);
                             Some (s1\<lparr>pm_processes := ps @ [Some (proc\<lparr>pr_pid := int pid\<rparr>)]\<rparr>) });
            s3 \<leftarrow> exit_critical s2;
            s4 \<leftarrow> (if pr_state proc = Unready then update_process s3 pid (\<lambda>p. p\<lparr>pr_state := Stopped\<rparr>) else Some s3);
            Some (ESUCCESS, s4) })
      in if pr_pid proc \<ge> 0
         then (let pid = nat (pr_pid proc)
               in if (pid < length ps \<and> ps ! pid \<noteq> None) \<or> pid > length ps then Some (EINVAL, s1)
                  else insert_at pid)
         else (let candidate = first_free ps 0 (length ps)
               in if candidate \<ge> LONG_MAX then Some (ENOMEM, s1) else insert_at candidate)) }"

definition reap_process :: "'u ProcessManager \<Rightarrow> nat \<Rightarrow> (ErrorCode \<times> 'u ProcessManager) option" where
  "reap_process s pid = do {
     p \<leftarrow> process_at s pid;
     verify (pr_children p = []);
     verify (pr_ref_count p = 1);
     Some (ESUCCESS, s\<lparr>pm_processes := (pm_processes s)[pid := None]\<rparr>) }"

subsection \<open>The scheduler\<close>

text \<open>The scan for the running process with the largest counter; the first one wins.\<close>

fun best_scan :: "'u Process option list \<Rightarrow> nat \<Rightarrow> int \<Rightarrow> nat option \<Rightarrow> int \<times> nat option" where
  "best_scan [] i max_counter best = (max_counter, best)"
| "best_scan (None # ps) i max_counter best = best_scan ps (i + 1) max_counter best"
| "best_scan (Some p # ps) i max_counter best =
     (if pr_state p = Running \<and> pr_counter p > max_counter
      then best_scan ps (i + 1) (pr_counter p) (Some i)
      else best_scan ps (i + 1) max_counter best)"

definition increment_ticks :: "'u Process option list \<Rightarrow> 'u Process option list" where
  "increment_ticks ps = map (map_option (\<lambda>p. p\<lparr>pr_counter := pr_counter p + 1\<rparr>)) ps"

text \<open>The \<open>while (true)\<close> loop; \<open>None\<close> is not returning.\<close>

partial_function (option) choose_loop :: "'u Process option list \<Rightarrow> ('u Process option list \<times> nat) option" where
  "choose_loop ps =
     (case best_scan ps 0 (-1) None of
        (max_counter, best) \<Rightarrow>
          if max_counter > 0
          then (case best of None \<Rightarrow> None | Some b \<Rightarrow> Some (ps, b))
          else choose_loop (increment_ticks ps))"

text \<open>
  \<open>switch_context\<close>.  The result tells whether what runs afterwards is code after a call of
  \<open>switch_context\<close>, the caller's or that of the process switched to.
\<close>

definition switch_context :: "'u ProcessManager \<Rightarrow> nat \<Rightarrow> (bool \<times> 'u ProcessManager) option" where
  "switch_context s target = do {
     c \<leftarrow> count_critical s;
     verify (c = 1);
     (if target = pm_current s then Some (True, s)
      else do {
        p \<leftarrow> process_at s target;
        s1 \<leftarrow> update_process s (pm_current s) (\<lambda>q. q\<lparr>pr_saved := InSwitch\<rparr>);
        Some (pr_saved p = InSwitch,
              s1\<lparr>pm_current := target, pm_space := (if has_userspace p then Some target else pm_space s)\<rparr>) }) }"

definition schedule :: "nat \<Rightarrow> 'u ProcessManager \<Rightarrow> (bool \<times> 'u ProcessManager) option" where
  "schedule now s = do {
     s1 \<leftarrow> enter_critical s;
     c \<leftarrow> count_critical s1;
     (if c \<noteq> 1 then do { s2 \<leftarrow> exit_critical s1; Some (False, s2) }
      else do {
        s2 \<leftarrow> update_process s1 (pm_current s1) (\<lambda>p. p\<lparr>pr_counter := 0\<rparr>);
        (ps, best) \<leftarrow> choose_loop (pm_processes s2);
        (resumed, s3) \<leftarrow> switch_context (s2\<lparr>pm_processes := ps, pm_last_nanoseconds := now\<rparr>) best;
        s4 \<leftarrow> (if resumed then exit_critical s3 else Some s3);
        Some (True, s4) }) }"

definition quit_process :: "nat \<Rightarrow> 'u ProcessManager \<Rightarrow> int \<Rightarrow> (bool \<times> 'u ProcessManager) option" where
  "quit_process now s exit_code = do {
     s1 \<leftarrow> update_process s (pm_current s) (\<lambda>p. p\<lparr>pr_state := AwaitingDeath, pr_exit_code := Some exit_code\<rparr>);
     schedule now s1 }"

subsection \<open>What the scan finds\<close>

definition runs :: "'u Process option list \<Rightarrow> nat \<Rightarrow> bool" where
  "runs ps i \<longleftrightarrow> i < length ps \<and> (\<exists>p. ps ! i = Some p \<and> pr_state p = Running)"

definition ticks :: "'u Process option list \<Rightarrow> nat \<Rightarrow> int" where
  "ticks ps i = pr_counter (the (ps ! i))"

text \<open>\<open>b\<close> is the first running process with the largest counter.\<close>

definition first_best :: "'u Process option list \<Rightarrow> nat \<Rightarrow> bool" where
  "first_best ps b \<longleftrightarrow> runs ps b \<and>
     (\<forall>j. runs ps j \<longrightarrow> ticks ps j \<le> ticks ps b \<and> (j < b \<longrightarrow> ticks ps j < ticks ps b))"

lemma runs_snoc: "runs (ps @ [p]) i \<longleftrightarrow> runs ps i \<or> (i = length ps \<and> (\<exists>q. p = Some q \<and> pr_state q = Running))"
  by (auto simp: runs_def nth_append less_Suc_eq)

lemma ticks_snoc:
  "runs ps j \<Longrightarrow> ticks (ps @ [p]) j = ticks ps j"
  "ticks (ps @ [p]) (length ps) = pr_counter (the p)"
  by (simp_all add: runs_def ticks_def nth_append)

lemma best_scan_append:
  "best_scan (ps @ qs) i m b = (case best_scan ps i m b of (m', b') \<Rightarrow> best_scan qs (i + length ps) m' b')"
  by (induction ps i m b rule: best_scan.induct) auto

lemma best_scan_spec:
  "case best_scan ps 0 m None of
     (m', None) \<Rightarrow> m' = m \<and> (\<forall>j. runs ps j \<longrightarrow> ticks ps j \<le> m)
   | (m', Some b) \<Rightarrow> m' = ticks ps b \<and> m < m' \<and> first_best ps b"
proof (induction ps rule: rev_induct)
  case Nil
  then show ?case by (simp add: runs_def)
next
  case (snoc p ps)
  obtain m' b where eq: "best_scan ps 0 m None = (m', b)" by fastforce
  have below: "runs ps j \<Longrightarrow> j < length ps" for j by (simp add: runs_def)
  show ?case
  proof (cases "\<exists>q. p = Some q \<and> pr_state q = Running \<and> pr_counter q > m'")
    case True
    then obtain q where q: "p = Some q" "pr_state q = Running" "pr_counter q > m'" by blast
    have "first_best (ps @ [p]) (length ps) \<and> m < pr_counter q"
      using snoc eq q
      by (auto simp: first_best_def runs_snoc ticks_snoc split: option.splits dest: below)
    then show ?thesis using eq q by (simp add: best_scan_append ticks_snoc)
  next
    case False
    then have "best_scan (ps @ [p]) 0 m None = (m', b)"
      using eq by (cases p) (auto simp: best_scan_append)
    then show ?thesis
      using snoc eq False
      by (auto simp: first_best_def runs_snoc ticks_snoc split: option.splits dest: below)
  qed
qed

lemma length_increment_ticks [simp]: "length (increment_ticks ps) = length ps"
  by (simp add: increment_ticks_def)

lemma runs_increment [simp]: "runs (increment_ticks ps) i \<longleftrightarrow> runs ps i"
  by (auto simp: runs_def increment_ticks_def)

lemma ticks_increment [simp]: "runs ps i \<Longrightarrow> ticks (increment_ticks ps) i = ticks ps i + 1"
  by (auto simp: runs_def ticks_def increment_ticks_def)

definition ticks_ok :: "'u Process option list \<Rightarrow> bool" where
  "ticks_ok ps \<longleftrightarrow> (\<forall>p. Some p \<in> set ps \<longrightarrow> 0 \<le> pr_counter p)"

lemma ticks_ok_runs: "ticks_ok ps \<Longrightarrow> runs ps i \<Longrightarrow> 0 \<le> ticks ps i"
  unfolding ticks_ok_def runs_def ticks_def by (metis nth_mem option.sel)

lemma first_best_exists:
  assumes "runs ps i" and "m < ticks ps i"
  obtains b where "best_scan ps 0 m None = (ticks ps b, Some b)" and "first_best ps b"
  using best_scan_spec [where ps = ps and m = m] assms by (fastforce split: prod.splits option.splits)

text \<open>With a running process the loop ends, in the first or in the second round.\<close>

definition advance :: "'u Process option list \<Rightarrow> 'u Process option list" where
  "advance ps = (if \<forall>j. runs ps j \<longrightarrow> ticks ps j = 0 then increment_ticks ps else ps)"

lemma choose_loop_spec:
  assumes "ticks_ok ps" and "runs ps i"
  obtains b where "choose_loop ps = Some (advance ps, b)" and "first_best (advance ps) b"
proof -
  have "-1 < ticks ps i" using ticks_ok_runs [OF assms] by simp
  then obtain b where b: "best_scan ps 0 (-1) None = (ticks ps b, Some b)" and best: "first_best ps b"
    using first_best_exists [OF assms(2)] by metis
  show thesis
  proof (cases "ticks ps b > 0")
    case True
    then have "advance ps = ps" using best by (auto simp: first_best_def advance_def)
    moreover have "choose_loop ps = Some (ps, b)" using b True by (simp add: choose_loop.simps)
    ultimately show thesis using that best by simp
  next
    case False
    let ?qs = "increment_ticks ps"
    have zero: "\<forall>j. runs ps j \<longrightarrow> ticks ps j = 0"
      using False best ticks_ok_runs [OF assms(1)] by (fastforce simp: first_best_def)
    have "runs ?qs i" and "-1 < ticks ?qs i" using assms zero by simp_all
    then obtain c where c: "best_scan ?qs 0 (-1) None = (ticks ?qs c, Some c)" and bc: "first_best ?qs c"
      using first_best_exists by metis
    have "ticks ?qs c > 0" using bc zero by (simp add: first_best_def)
    then have "choose_loop ?qs = Some (?qs, c)" using c by (simp add: choose_loop.simps)
    then have "choose_loop ps = Some (?qs, c)" using b False by (subst choose_loop.simps) simp
    then show thesis using that bc zero by (simp add: advance_def)
  qed
qed

lemma runs_update:
  "i < length ps \<Longrightarrow> ps ! i = Some p \<Longrightarrow> pr_state q = pr_state p \<Longrightarrow> runs (ps[i := Some q]) j \<longleftrightarrow> runs ps j"
  by (auto simp: runs_def nth_list_update)

lemma ticks_update:
  "i < length ps \<Longrightarrow> ps ! i = Some p \<Longrightarrow> pr_counter q = pr_counter p \<Longrightarrow> ticks (ps[i := Some q]) j = ticks ps j"
  by (auto simp: ticks_def nth_list_update)

lemma first_best_update:
  assumes "i < length ps" and "ps ! i = Some p" and "pr_state q = pr_state p" and "pr_counter q = pr_counter p"
  shows "first_best (ps[i := Some q]) b \<longleftrightarrow> first_best ps b"
  by (simp add: first_best_def runs_update [OF assms(1-3)] ticks_update [OF assms(1,2,4)])

subsection \<open>The invariant of the scheduler\<close>

text \<open>
  Between two calls: the current process is in the table and outside every critical section; every
  other process that was suspended by the scheduler is inside exactly the section of its suspended
  \<open>schedule\<close>; counters are not negative and the pid of a process is its slot.
\<close>

definition process_ok :: "nat \<Rightarrow> nat \<Rightarrow> 'u Process \<Rightarrow> bool" where
  "process_ok cur i p \<longleftrightarrow> pr_pid p = int i \<and> 0 \<le> pr_counter p \<and>
     pr_preempt p = (if i \<noteq> cur \<and> pr_saved p = InSwitch then 1 else 0)"

definition sched_ok :: "'u ProcessManager \<Rightarrow> bool" where
  "sched_ok s \<longleftrightarrow> current_process s \<noteq> None \<and>
     (\<forall>i p. i < length (pm_processes s) \<and> pm_processes s ! i = Some p \<longrightarrow> process_ok (pm_current s) i p)"

definition ticks_after_reset :: "'u ProcessManager \<Rightarrow> nat \<Rightarrow> int" where
  "ticks_after_reset s j = (if j = pm_current s then 0 else ticks (pm_processes s) j)"

definition round_over :: "'u ProcessManager \<Rightarrow> bool" where
  "round_over s \<longleftrightarrow> (\<forall>j. runs (pm_processes s) j \<longrightarrow> ticks_after_reset s j = 0)"

lemma sched_ok_ticks: "sched_ok s \<Longrightarrow> ticks_ok (pm_processes s)"
  unfolding sched_ok_def ticks_ok_def process_ok_def by (metis in_set_conv_nth)

lemma schedule_step:
  assumes ok: "sched_ok s" and run: "runs (pm_processes s) i"
  obtains s' where "schedule now s = Some (True, s')" and "sched_ok s'"
    and "length (pm_processes s') = length (pm_processes s)"
    and "\<And>j. runs (pm_processes s') j \<longleftrightarrow> runs (pm_processes s) j"
    and "\<And>j. runs (pm_processes s) j \<Longrightarrow>
           ticks (pm_processes s') j = ticks_after_reset s j + (if round_over s then 1 else 0)"
    and "first_best (pm_processes s') (pm_current s')"
proof -
  let ?ps = "pm_processes s" and ?cur = "pm_current s"
  obtain p where p: "?cur < length ?ps" "?ps ! ?cur = Some p"
    using ok by (auto simp: sched_ok_def current_process_def process_at_def split: if_splits)
  have pok: "process_ok ?cur ?cur p" using ok p by (simp add: sched_ok_def)
  define q where "q = p\<lparr>pr_preempt := 1, pr_counter := 0\<rparr>"
  define qs where "qs = ?ps[?cur := Some q]"
  have runs_qs: "runs qs j \<longleftrightarrow> runs ?ps j" for j
    using p by (auto simp: runs_def qs_def q_def nth_list_update)
  have ticks_qs: "ticks qs j = ticks_after_reset s j" for j
    using p by (auto simp: ticks_def ticks_after_reset_def qs_def q_def nth_list_update)
  have "ticks_ok qs"
    using sched_ok_ticks [OF ok] p by (auto simp: ticks_ok_def qs_def q_def dest!: set_update_subset_insert [THEN subsetD])
  define rs where "rs = advance qs"
  have rs: "rs = (if round_over s then increment_ticks qs else qs)"
    by (simp add: rs_def advance_def round_over_def runs_qs ticks_qs)
  have "runs qs i" using run by (simp add: runs_qs)
  then obtain b where b: "choose_loop qs = Some (rs, b)" "first_best rs b"
    using choose_loop_spec [OF \<open>ticks_ok qs\<close>] unfolding rs_def by blast
  have len: "length rs = length ?ps" by (simp add: rs qs_def)
  define q' where "q' = (if round_over s then q\<lparr>pr_counter := 1\<rparr> else q)"
  have rcur: "rs ! ?cur = Some q'"
    using p by (simp add: rs qs_def increment_ticks_def q'_def q_def)
  have runs_rs: "runs rs j \<longleftrightarrow> runs ?ps j" for j
    by (simp add: rs runs_qs)
  have ticks_rs: "runs ?ps j \<Longrightarrow> ticks rs j = ticks_after_reset s j + (if round_over s then 1 else 0)" for j
    by (simp add: rs runs_qs ticks_qs)
  have others: "process_ok ?cur j t" if "j < length ?ps" "j \<noteq> ?cur" "rs ! j = Some t" for j t
  proof -
    note j = that
    obtain t0 where "?ps ! j = Some t0" "t = t0 \<or> t = t0\<lparr>pr_counter := pr_counter t0 + 1\<rparr>"
      using j p by (auto simp: rs qs_def increment_ticks_def split: if_splits)
    then show ?thesis using ok j(1) by (fastforce simp: sched_ok_def process_ok_def)
  qed
  have q': "pr_preempt q' = 1" "pr_pid q' = int ?cur" "0 \<le> pr_counter q'"
    using pok by (auto simp: q'_def q_def process_ok_def)
  have sched: "schedule now s = do {
      (resumed, s3) \<leftarrow> switch_context (s\<lparr>pm_processes := rs, pm_last_nanoseconds := now\<rparr>) b;
      s4 \<leftarrow> (if resumed then exit_critical s3 else Some s3);
      Some (True, s4) }"
    using p pok b(1)
    by (simp add: schedule_def enter_critical_def count_critical_def current_process_def update_process_def
      process_at_def process_ok_def qs_def q_def)
  have bl: "b < length ?ps" using b(2) len by (simp add: first_best_def runs_def)
  obtain t where t: "rs ! b = Some t" using b(2) by (auto simp: first_best_def runs_def)
  show thesis
  proof (cases "b = ?cur")
    case True
    let ?rs = "rs[?cur := Some (q'\<lparr>pr_preempt := 0\<rparr>)]"
    let ?s = "s\<lparr>pm_processes := ?rs, pm_last_nanoseconds := now\<rparr>"
    have upd: "?cur < length rs" "rs ! ?cur = Some q'" using p len rcur by simp_all
    show thesis
    proof (rule that [of ?s])
      show "schedule now s = Some (True, ?s)"
        using True p len rcur q'
        by (simp add: sched switch_context_def count_critical_def current_process_def process_at_def
          exit_critical_def update_process_def)
      show "sched_ok ?s"
        using p len others q'
        by (auto simp: sched_ok_def current_process_def process_at_def nth_list_update process_ok_def)
    qed (use b True len in \<open>simp_all add: runs_update [OF upd] ticks_update [OF upd] first_best_update [OF upd] runs_rs ticks_rs\<close>)
  next
    case False
    define t' where "t' = (if pr_saved t = InSwitch then t\<lparr>pr_preempt := 0\<rparr> else t)"
    let ?rs = "rs[?cur := Some (q'\<lparr>pr_saved := InSwitch\<rparr>)]"
    let ?s = "s\<lparr>pm_processes := ?rs[b := Some t'], pm_last_nanoseconds := now, pm_current := b,
      pm_space := (if has_userspace t then Some b else pm_space s)\<rparr>"
    have upd: "?cur < length rs" "rs ! ?cur = Some q'" using p len rcur by simp_all
    have upd': "b < length ?rs" "?rs ! b = Some t" using bl len t False by simp_all
    have same: "?rs[b := Some t] = ?rs" using upd' by (metis list_update_id)
    have tok: "process_ok ?cur b t" using others bl False t by simp
    have t': "pr_state t' = pr_state t" "pr_counter t' = pr_counter t" by (simp_all add: t'_def)
    show thesis
    proof (rule that [of ?s])
      show "schedule now s = Some (True, ?s)"
        using False p len rcur q' bl t tok
        by (simp add: sched switch_context_def count_critical_def current_process_def process_at_def
          exit_critical_def update_process_def t'_def process_ok_def same)
      show "sched_ok ?s"
        using p len others q' bl False tok
        by (auto simp: sched_ok_def current_process_def process_at_def nth_list_update process_ok_def t'_def)
    qed (use b False len t' in \<open>simp_all add: runs_update [OF upd'] ticks_update [OF upd'] first_best_update [OF upd']
      runs_update [OF upd] ticks_update [OF upd] first_best_update [OF upd] runs_rs ticks_rs\<close>)
  qed
qed

subsection \<open>No process starves\<close>

text \<open>A sequence of calls at the times \<open>nows\<close>, and the states after each of them.\<close>

fun schedules :: "nat list \<Rightarrow> 'u ProcessManager \<Rightarrow> 'u ProcessManager list option" where
  "schedules [] s = Some []"
| "schedules (now # nows) s = do {
     (_, s') \<leftarrow> schedule now s;
     ss \<leftarrow> schedules nows s';
     Some (s' # ss) }"

text \<open>The processes that go before \<open>i\<close>, and those that still have ticks.\<close>

definition ahead :: "'u ProcessManager \<Rightarrow> nat \<Rightarrow> nat set" where
  "ahead s i = {j. runs (pm_processes s) j \<and> j \<noteq> i \<and> (ticks_after_reset s i < ticks_after_reset s j \<or>
     (ticks_after_reset s j = ticks_after_reset s i \<and> j < i))}"

definition owed :: "'u ProcessManager \<Rightarrow> nat set" where
  "owed s = {j. runs (pm_processes s) j \<and> 0 < ticks_after_reset s j}"

definition turns :: "'u ProcessManager \<Rightarrow> nat \<Rightarrow> nat" where
  "turns s i =
     (if 0 < ticks_after_reset s i then card (ahead s i) + 1
      else card (owed s) + 1 + length (pm_processes s))"

lemma card_below:
  assumes "A \<subseteq> {..<n} - {i}" and "i < n"
  shows "card A < (n :: nat)"
proof -
  have "card A \<le> card ({..<n} - {i})" using assms(1) by (intro card_mono) simp_all
  then show ?thesis using assms(2) by simp
qed

lemma ahead_bound: "runs (pm_processes s) i \<Longrightarrow> card (ahead s i) < length (pm_processes s)"
  by (rule card_below [where i = i]) (auto simp: ahead_def runs_def)

lemma owed_bound:
  "runs (pm_processes s) i \<Longrightarrow> ticks_after_reset s i \<le> 0 \<Longrightarrow> card (owed s) < length (pm_processes s)"
  by (rule card_below [where i = i]) (auto simp: owed_def runs_def)

lemma turns_bound: "runs (pm_processes s) i \<Longrightarrow> turns s i \<le> 2 * length (pm_processes s)"
  using ahead_bound [of s i] owed_bound [of s i] by (auto simp: turns_def)

lemma finite_owed: "finite (owed s)"
  by (rule finite_subset [of _ "{..<length (pm_processes s)}"]) (auto simp: owed_def runs_def)

lemma finite_ahead: "finite (ahead s i)"
  by (rule finite_subset [of _ "{..<length (pm_processes s)}"]) (auto simp: ahead_def runs_def)

lemma ticks_after_reset_nonneg: "sched_ok s \<Longrightarrow> runs (pm_processes s) j \<Longrightarrow> 0 \<le> ticks_after_reset s j"
  using sched_ok_ticks ticks_ok_runs by (fastforce simp: ticks_after_reset_def)

lemma turns_decrease:
  assumes ok: "sched_ok s" and run: "runs (pm_processes s) i"
    and same: "\<And>j. runs (pm_processes s') j \<longleftrightarrow> runs (pm_processes s) j"
    and len: "length (pm_processes s') = length (pm_processes s)"
    and tick: "\<And>j. runs (pm_processes s) j \<Longrightarrow>
           ticks (pm_processes s') j = ticks_after_reset s j + (if round_over s then 1 else 0)"
    and best: "first_best (pm_processes s') (pm_current s')"
    and other: "pm_current s' \<noteq> i"
  shows "turns s' i < turns s i"
proof -
  let ?b = "pm_current s'"
  have b: "runs (pm_processes s) ?b" using best same by (simp add: first_best_def)
  have after: "ticks_after_reset s' j = (if j = ?b then 0 else ticks_after_reset s j + (if round_over s then 1 else 0))"
    if "runs (pm_processes s) j" for j
    using tick [OF that] by (simp add: ticks_after_reset_def)
  have max: "ticks_after_reset s j \<le> ticks_after_reset s ?b \<and>
      (j < ?b \<longrightarrow> ticks_after_reset s j < ticks_after_reset s ?b)" if "runs (pm_processes s) j" for j
    using best that tick [OF that] tick [OF b] same by (fastforce simp: first_best_def)
  show ?thesis
  proof (cases "0 < ticks_after_reset s i")
    case True
    then have "\<not> round_over s" using run by (auto simp: round_over_def)
    then have after: "ticks_after_reset s' j = (if j = ?b then 0 else ticks_after_reset s j)"
      if "runs (pm_processes s) j" for j using after [OF that] by simp
    have "ahead s' i = ahead s i - {?b}"
      using True after [OF run] other max run by (auto simp: ahead_def same after split: if_splits)
    moreover have "?b \<in> ahead s i" using max [OF run] b other by (auto simp: ahead_def)
    ultimately have "card (ahead s' i) < card (ahead s i)"
      using finite_ahead by (metis card_Diff1_less)
    then show ?thesis using True after [OF run] other by (simp add: turns_def)
  next
    case False
    then have zero: "ticks_after_reset s i = 0" using ticks_after_reset_nonneg [OF ok run] by simp
    show ?thesis
    proof (cases "round_over s")
      case True
      then have "0 < ticks_after_reset s' i" using after [OF run] other zero by simp
      then show ?thesis using ahead_bound [of s' i] run same len zero by (simp add: turns_def)
    next
      case over: False
      then have after: "ticks_after_reset s' j = (if j = ?b then 0 else ticks_after_reset s j)"
        if "runs (pm_processes s) j" for j using after [OF that] by simp
      obtain j where "runs (pm_processes s) j" "0 < ticks_after_reset s j"
        using over ticks_after_reset_nonneg [OF ok] by (fastforce simp: round_over_def)
      then have "?b \<in> owed s" using max b by (fastforce simp: owed_def)
      moreover have "owed s' = owed s - {?b}" by (auto simp: owed_def same after split: if_splits)
      ultimately have "card (owed s') < card (owed s)"
        using finite_owed by (metis card_Diff1_less)
      then show ?thesis using after [OF run] other zero len by (simp add: turns_def)
    qed
  qed
qed

lemma schedules_total:
  "sched_ok s \<Longrightarrow> runs (pm_processes s) i \<Longrightarrow> \<exists>ss. schedules nows s = Some ss"
proof (induction nows arbitrary: s)
  case Nil
  then show ?case by simp
next
  case (Cons now nows)
  obtain s' where "schedule now s = Some (True, s')" "sched_ok s'" "runs (pm_processes s') i"
    using schedule_step [OF Cons.prems] Cons.prems(2) by metis
  with Cons.IH show ?case by fastforce
qed

lemma scheduled_within_turns:
  "sched_ok s \<Longrightarrow> runs (pm_processes s) i \<Longrightarrow> turns s i \<le> length nows \<Longrightarrow>
   \<exists>ss. schedules nows s = Some ss \<and> i \<in> pm_current ` set ss"
proof (induction nows arbitrary: s)
  case Nil
  then show ?case by (simp add: turns_def split: if_splits)
next
  case (Cons now nows)
  obtain s' where s': "schedule now s = Some (True, s')" "sched_ok s'" "runs (pm_processes s') i"
      and dec: "pm_current s' \<noteq> i \<Longrightarrow> turns s' i < turns s i"
    using schedule_step [OF Cons.prems(1,2)] turns_decrease [OF Cons.prems(1,2)] Cons.prems(2) by metis
  obtain ss where ss: "schedules nows s' = Some ss" using schedules_total [OF s'(2,3)] by blast
  show ?case
  proof (cases "pm_current s' = i")
    case True
    then show ?thesis using s' ss by simp
  next
    case False
    then have "turns s' i \<le> length nows" using dec Cons.prems(3) by simp
    then have "i \<in> pm_current ` set ss" using Cons.IH [OF s'(2,3)] ss by auto
    then show ?thesis using s' ss by simp
  qed
qed

subsection \<open>Properties\<close>

definition demo_process :: "int \<Rightarrow> unit Process" where
  "demo_process i = (process_new [] None \<lparr>rg_start = 0, rg_size = 0\<rparr>)\<lparr>pr_pid := i, pr_state := Running\<rparr>"

definition demo_manager :: "unit ProcessManager" where
  "demo_manager = \<lparr>pm_processes = [Some (demo_process 0), Some (demo_process 1)], pm_current = 0,
     pm_last_nanoseconds = 0, pm_space = None\<rparr>"

lemma demo_manager_ok: "sched_ok demo_manager"
  by (auto simp: sched_ok_def demo_manager_def demo_process_def process_new_def current_process_def
    process_at_def process_ok_def less_Suc_eq)

lemma demo_manager_runs: "runs (pm_processes demo_manager) 1"
  by (simp add: runs_def demo_manager_def demo_process_def process_new_def)

text \<open> C14: The scheduler always finds a process when one is running: \<open>schedule\<close> returns, the process it
  switches to is running and no running process has more ticks, and the invariant of the
  scheduler holds again, so that every suspended process is in exactly one critical section.\<close>

theorem schedule_chooses_running:
  assumes "sched_ok s" and "runs (pm_processes s) i"
  shows "\<exists>s'. schedule now s = Some (True, s') \<and> sched_ok s' \<and> runs (pm_processes s') (pm_current s') \<and>
    (\<forall>j. runs (pm_processes s') j \<longrightarrow> ticks (pm_processes s') j \<le> ticks (pm_processes s') (pm_current s')) \<and>
    (\<forall>j. runs (pm_processes s') j \<longleftrightarrow> runs (pm_processes s) j)"
  using schedule_step [OF assms] unfolding first_best_def by metis

theorem schedule_chooses_running_witness:
  "\<exists>s'. schedule 5 demo_manager = Some (True, s') \<and> sched_ok s' \<and> runs (pm_processes s') (pm_current s')"
  using schedule_chooses_running [OF demo_manager_ok demo_manager_runs, of 5] by blast

text \<open> C4: No process starves.  While only the scheduler acts on a table of \<open>n\<close> slots, every running
  process becomes the current one within \<open>2 * n\<close> calls of \<open>schedule\<close>, whatever the ticks are.\<close>

theorem schedule_no_starvation:
  assumes "sched_ok s" and "runs (pm_processes s) i" and "2 * length (pm_processes s) \<le> length nows"
  shows "\<exists>ss. schedules nows s = Some ss \<and> i \<in> pm_current ` set ss"
  using scheduled_within_turns [OF assms(1,2)] turns_bound [OF assms(2)] assms(3) by simp

theorem schedule_no_starvation_witness:
  "\<exists>ss. schedules [1, 2, 3, 4] demo_manager = Some ss \<and> 1 \<in> pm_current ` set ss"
  by (rule schedule_no_starvation [OF demo_manager_ok demo_manager_runs]) (simp add: demo_manager_def)

lemma first_free_spec:
  "case first_free ps i c of k \<Rightarrow> (k = c \<and> None \<notin> set ps) \<or> (i \<le> k \<and> k < i + length ps \<and> ps ! (k - i) = None)"
  by (induction ps i c rule: first_free.induct) (auto simp: nth_Cons' Suc_diff_le)

lemma first_free_le: "first_free ps 0 (length ps) \<le> length ps"
  using first_free_spec [of ps 0 "length ps"] by auto

lemma update_restore: "i \<noteq> j \<Longrightarrow> xs ! i = x \<Longrightarrow> xs[i := a, j := b, i := x, j := c] = xs[j := c]"
  by (metis list_update_id list_update_overwrite list_update_swap)

text \<open> C28: Registering a new process gives it a slot that was free and makes its pid the
  slot; it is \<open>Stopped\<close> until it is started, no other process changes, and the invariant holds
  again.\<close>

theorem register_process_slot:
  assumes "sched_ok s" and "pr_pid proc < 0" and "pr_preempt proc = 0" and "pr_saved proc = AtEntry"
    and "0 \<le> pr_counter proc" and "pr_state proc = Unready" and "length (pm_processes s) < LONG_MAX"
  shows "\<exists>s' pid. register_process s proc = Some (ESUCCESS, s') \<and> sched_ok s' \<and>
    process_at s pid = None \<and> pid \<le> length (pm_processes s) \<and>
    process_at s' pid = Some (proc\<lparr>pr_pid := int pid, pr_state := Stopped\<rparr>) \<and>
    (\<forall>j. j \<noteq> pid \<longrightarrow> process_at s' j = process_at s j) \<and> pm_current s' = pm_current s"
proof -
  let ?ps = "pm_processes s" and ?cur = "pm_current s"
  obtain p where p: "?cur < length ?ps" "?ps ! ?cur = Some p"
    using assms(1) by (auto simp: sched_ok_def current_process_def process_at_def split: if_splits)
  define p1 where "p1 = p\<lparr>pr_preempt := pr_preempt p + 1\<rparr>"
  define qs where "qs = ?ps[?cur := Some p1]"
  define pid where "pid = first_free qs 0 (length qs)"
  have restored: "p1\<lparr>pr_preempt := pr_preempt p1 - 1\<rparr> = p" by (simp add: p1_def)
  have le: "pid \<le> length ?ps" using first_free_le [of qs] by (simp add: pid_def qs_def)
  have "(pid = length qs \<and> None \<notin> set qs) \<or> (pid < length qs \<and> qs ! pid = None)"
    using first_free_spec [of qs 0 "length qs"] unfolding pid_def by simp
  then have free: "pid < length ?ps \<Longrightarrow> ?ps ! pid = None" and ne: "pid \<noteq> ?cur"
    using p by (auto simp: qs_def nth_list_update split: if_splits)
  let ?new = "proc\<lparr>pr_pid := int pid, pr_state := Stopped\<rparr>"
  let ?ps' = "if pid < length ?ps then ?ps[pid := Some ?new] else ?ps @ [Some ?new]"
  have bound: "pid < LONG_MAX" using le assms(7) by simp
  have reg: "register_process s proc = Some (ESUCCESS, s\<lparr>pm_processes := ?ps'\<rparr>)"
  proof (cases "pid < length ?ps")
    case True
    have "?ps[?cur := Some p1, pid := Some (proc\<lparr>pr_pid := int pid\<rparr>), ?cur := Some p, pid := Some ?new]
        = ?ps[pid := Some ?new]"
      using p ne by (intro update_restore) simp_all
    then show ?thesis using True assms(2,6) p ne bound
      by (simp add: register_process_def enter_critical_def exit_critical_def update_process_def
        process_at_def p1_def [symmetric] qs_def [symmetric] pid_def [symmetric])
        (simp add: qs_def restored)
  next
    case False
    then have len: "pid = length ?ps" using le by simp
    have "?ps[?cur := Some p1] @ [Some (proc\<lparr>pr_pid := int pid\<rparr>)] = (?ps @ [Some (proc\<lparr>pr_pid := int pid\<rparr>)])[?cur := Some p1]"
      using p by (simp add: list_update_append)
    moreover have "(?ps @ [Some (proc\<lparr>pr_pid := int pid\<rparr>)])[?cur := Some p1, ?cur := Some p, pid := Some ?new] = ?ps @ [Some ?new]"
      using p len update_restore [of ?cur pid "?ps @ [Some (proc\<lparr>pr_pid := int pid\<rparr>)]" "Some p" "Some p1" "Some (proc\<lparr>pr_pid := int pid\<rparr>)"]
      by (simp add: nth_append list_update_append)
    ultimately show ?thesis using assms(2,6) p ne bound len
      by (simp add: register_process_def enter_critical_def exit_critical_def update_process_def
        process_at_def p1_def [symmetric] qs_def [symmetric] pid_def [symmetric])
        (simp add: qs_def restored nth_append list_update_append)
  qed
  show ?thesis
  proof (intro exI conjI)
    show "sched_ok (s\<lparr>pm_processes := ?ps'\<rparr>)"
      using assms p ne le
      by (auto simp: sched_ok_def current_process_def process_at_def process_ok_def nth_list_update nth_append
        split: if_splits)
  qed (use reg le free p in \<open>auto simp: process_at_def nth_append nth_list_update\<close>)
qed

theorem register_process_slot_witness:
  "\<exists>s' pid. register_process demo_manager (process_new [] None \<lparr>rg_start = 0x8000, rg_size = 0x3000\<rparr>) = Some (ESUCCESS, s') \<and> sched_ok s' \<and>
    process_at demo_manager pid = None"
proof -
  define stack where "stack = \<lparr>rg_start = 0x8000, rg_size = 0x3000\<rparr>"
  have "length (pm_processes demo_manager) < LONG_MAX" by (simp add: demo_manager_def LONG_MAX_def)
  moreover have "pr_pid (process_new [] None stack) < 0" "pr_preempt (process_new [] None stack) = 0"
      "pr_saved (process_new [] None stack) = AtEntry" "0 \<le> pr_counter (process_new [] None stack)"
      "pr_state (process_new [] None stack) = Unready"
    by (simp_all add: process_new_def)
  ultimately show ?thesis
    using register_process_slot [OF demo_manager_ok, of "process_new [] None stack"]
    unfolding stack_def by blast
qed

text \<open>A failed registration stops multitasking.  \<open>register_process\<close> returns \<open>EINVAL\<close> for a pid that
  is in use without leaving its critical section, and from then on \<open>schedule\<close> returns at once and
  the current process keeps the processor.\<close>

theorem register_process_error_blocks_schedule:
  assumes "sched_ok s" and "process_at s pid \<noteq> None" and "pr_pid proc = int pid"
  shows "\<exists>s1. register_process s proc = Some (EINVAL, s1) \<and> (\<forall>now. schedule now s1 = Some (False, s1)) \<and>
    pm_current s1 = pm_current s"
proof -
  let ?ps = "pm_processes s" and ?cur = "pm_current s"
  obtain p where p: "?cur < length ?ps" "?ps ! ?cur = Some p" "pr_preempt p = 0"
    using assms(1) by (auto simp: sched_ok_def process_ok_def current_process_def process_at_def split: if_splits)
  let ?s1 = "s\<lparr>pm_processes := ?ps[?cur := Some (p\<lparr>pr_preempt := 1\<rparr>)]\<rparr>"
  have "register_process s proc = Some (EINVAL, ?s1)"
    using assms(2,3) p
    by (auto simp: register_process_def enter_critical_def update_process_def process_at_def nth_list_update
      split: if_splits)
  moreover have "schedule now ?s1 = Some (False, ?s1)" for now
    using p by (simp add: schedule_def enter_critical_def exit_critical_def update_process_def process_at_def
      count_critical_def current_process_def)
  ultimately show ?thesis by auto
qed

theorem register_process_error_blocks_schedule_witness:
  "\<exists>s1. register_process demo_manager (demo_process 1) = Some (EINVAL, s1) \<and> schedule 7 s1 = Some (False, s1)"
  using register_process_error_blocks_schedule [OF demo_manager_ok, of 1 "demo_process 1"]
  by (auto simp: demo_manager_def demo_process_def process_at_def)

end
