(* ===== verification/Kernel_State.thy ===== *)
theory Kernel_State
  imports Elf Pipe Scheduler
begin

text \<open>
  What the system calls work on: the user part of a process (\<open>Process::UserspaceState\<close> of
  \<open>process.h\<close>), entities and their operations (\<open>entity.h\<close>, \<open>tty.cpp\<close>, \<open>device.h\<close>), buffers in user
  memory (\<open>user_buffer.cpp\<close>) and the entity table of a process (\<open>process.cpp\<close>).

  Entities, pipes, servers and connections are shared objects: \<open>kernel\<close> holds them by their
  address.  Outside the sources are the translation of user addresses by the processor, \<open>ke_mmu\<close>
  (it gives the kernel address of the byte, or faults), and the device drivers, \<open>ke_message\<close>.  A
  buffer in user memory is read when it is made and stored back after the operation that fills it;
  a fault stops the kernel.
\<close>

record kernel_env =
  ke_pt :: pt_env
  ke_mmu :: "pt_state \<Rightarrow> uSize \<Rightarrow> uSize \<Rightarrow> uSize option"
  ke_message :: "nat \<Rightarrow> u64 \<Rightarrow> TransactionalBuffer \<Rightarrow> (int expected \<times> TransactionalBuffer) option"

record UserspaceState =
  us_stack_top :: uSize
  us_cwd :: entry_ref
  us_space :: space_manager
  us_open :: "(nat option \<times> u8) list"

datatype Side = CLIENT | SERVER

datatype entity =
    FileEntity nat FileHandle
  | NullEntity
  | SerialEntity
  | PipeEntity pipe_handle nat
  | DeviceEntity nat
  | ServerEntity nat
  | ConnectionEntity nat Side

record entity_object =
  eo_entity :: entity
  eo_ref_count :: nat

datatype QueuedMessage =
    QueuedData bool u32 uSize
  | QueuedEntity bool u32 nat
  | QueuedMemory bool u32 nat memory_operation

record connection =
  cn_server :: nat
  cn_client_queue :: "QueuedMessage list"
  cn_server_queue :: "QueuedMessage list"
  cn_client_ring :: ring_buffer
  cn_server_ring :: ring_buffer
  cn_ref_count :: nat

record server =
  sv_address :: "u8 list"
  sv_handle :: "nat option"
  sv_pending :: "nat list"

record kernel =
  k_mm :: mm_state
  k_fs :: fs_registry
  k_sched :: "UserspaceState ProcessManager"
  k_entities :: "nat \<Rightarrow> entity_object option"
  k_pipes :: "nat \<Rightarrow> pipe option"
  k_servers :: "nat \<Rightarrow> server option"
  k_addresses :: "(u8 list, nat) hashtable"
  k_connections :: "nat \<Rightarrow> connection option"
  k_devices :: "(u8 list, nat \<times> nat option) hashtable"
  k_next :: nat

text \<open>\<open>EXPECTED_TRY\<close> on a step that changes the kernel: go on with the value, or return the error.\<close>

fun and_then :: "('a expected \<times> kernel) option \<Rightarrow> ('a \<Rightarrow> kernel \<Rightarrow> ('b expected \<times> kernel) option) \<Rightarrow>
    ('b expected \<times> kernel) option" where
  "and_then None f = None"
| "and_then (Some (Err e, k)) f = Some (Err e, k)"
| "and_then (Some (Value v, k)) f = f v k"

lemma and_then_Value:
  "and_then r f = Some (Value v, k') \<longleftrightarrow> (\<exists>x k1. r = Some (Value x, k1) \<and> f x k1 = Some (Value v, k'))"
  by (cases "(r, f)" rule: and_then.cases) auto

subsection \<open>The current process\<close>

definition current_user :: "kernel \<Rightarrow> UserspaceState option" where
  "current_user k = do { p \<leftarrow> current_process (k_sched k); pr_userspace p }"

definition update_user :: "kernel \<Rightarrow> (UserspaceState \<Rightarrow> UserspaceState) \<Rightarrow> kernel option" where
  "update_user k f = do {
     _ \<leftarrow> current_user k;
     s \<leftarrow> update_process (k_sched k) (pm_current (k_sched k)) (\<lambda>p. p\<lparr>pr_userspace := map_option f (pr_userspace p)\<rparr>);
     Some (k\<lparr>k_sched := s\<rparr>) }"

definition get_open_entity :: "kernel \<Rightarrow> int \<Rightarrow> (nat expected \<times> kernel) option" where
  "get_open_entity k entity_id = do {
     u \<leftarrow> current_user k;
     Some (if entity_id < 0 then Err EBADF
           else if length (us_open u) \<le> nat entity_id then Err EBADF
           else case fst (us_open u ! nat entity_id) of None \<Rightarrow> Err EBADF | Some eid \<Rightarrow> Value eid, k) }"

definition new_entity :: "kernel \<Rightarrow> entity \<Rightarrow> nat \<times> kernel" where
  "new_entity k e =
     (k_next k, k\<lparr>k_entities := (k_entities k)(k_next k \<mapsto> \<lparr>eo_entity = e, eo_ref_count = 1\<rparr>), k_next := k_next k + 1\<rparr>)"

text \<open>\<open>allocate_entity_handle_slot\<close>; it takes over the reference it is given.\<close>

definition allocate_entity_handle_slot :: "kernel \<Rightarrow> nat \<Rightarrow> u8 \<Rightarrow> (int \<times> kernel) option" where
  "allocate_entity_handle_slot k eid grp = do {
     u \<leftarrow> current_user k;
     k' \<leftarrow> update_user k (\<lambda>u. u\<lparr>us_open := us_open u @ [(Some eid, grp)]\<rparr>);
     Some (int (length (us_open u)), k') }"

definition allocate_new_entity :: "kernel \<Rightarrow> entity \<Rightarrow> u8 \<Rightarrow> (int expected \<times> kernel) option" where
  "allocate_new_entity k e grp =
     (let (eid, k1) = new_entity k e
      in do { (slot, k2) \<leftarrow> allocate_entity_handle_slot k1 eid grp; Some (Value slot, k2) })"

subsection \<open>Reference counts of entities\<close>

definition acquire_entity :: "kernel \<Rightarrow> nat \<Rightarrow> kernel option" where
  "acquire_entity k eid = do {
     eo \<leftarrow> k_entities k eid;
     verify (eo_ref_count eo \<noteq> 0);
     Some (k\<lparr>k_entities := (k_entities k)(eid \<mapsto> eo\<lparr>eo_ref_count := eo_ref_count eo + 1\<rparr>)\<rparr>) }"

text \<open>\<open>Server::detach_handle\<close>: the server loses its handle and is no longer advertised.\<close>

definition detach_handle :: "kernel \<Rightarrow> nat \<Rightarrow> nat \<Rightarrow> kernel option" where
  "detach_handle k sid eid = do {
     sv \<leftarrow> k_servers k sid;
     verify (sv_handle sv = Some eid);
     (_, t) \<leftarrow> ht_extract hash_bytes (k_addresses k) (sv_address sv);
     Some (k\<lparr>k_servers := (k_servers k)(sid \<mapsto> sv\<lparr>sv_handle := None\<rparr>), k_addresses := t\<rparr>) }"

text \<open>
  The last reference to a connection destroys it: the server forgets it, and its queues are
  destroyed; the destructor of a queued message insists that it holds data.
\<close>

definition message_is_data :: "QueuedMessage \<Rightarrow> bool" where
  "message_is_data m = (case m of QueuedData _ _ _ \<Rightarrow> True | _ \<Rightarrow> False)"

definition message_destroy :: "QueuedMessage \<Rightarrow> unit option" where
  "message_destroy m = verify (message_is_data m)"

definition detach_connection :: "server \<Rightarrow> nat \<Rightarrow> server" where
  "detach_connection sv cid = sv\<lparr>sv_pending := remove1 cid (sv_pending sv)\<rparr>"

definition release_connection :: "kernel \<Rightarrow> nat \<Rightarrow> kernel option" where
  "release_connection k cid = do {
     cn \<leftarrow> k_connections k cid;
     verify (cn_ref_count cn > 0);
     (if cn_ref_count cn = 1
      then do {
        sv \<leftarrow> k_servers k (cn_server cn);
        verify (list_all message_is_data (cn_client_queue cn @ cn_server_queue cn));
        Some (k\<lparr>k_connections := (k_connections k)(cid := None),
               k_servers := (k_servers k)(cn_server cn \<mapsto> detach_connection sv cid)\<rparr>) }
      else Some (k\<lparr>k_connections := (k_connections k)(cid \<mapsto> cn\<lparr>cn_ref_count := cn_ref_count cn - 1\<rparr>)\<rparr>)) }"

definition destroy_entity :: "kernel \<Rightarrow> nat \<Rightarrow> entity \<Rightarrow> kernel option" where
  "destroy_entity k eid e =
     (case e of
        ServerEntity sid \<Rightarrow> detach_handle k sid eid
      | ConnectionEntity cid _ \<Rightarrow> release_connection k cid
      | _ \<Rightarrow> Some k)"

definition release_entity :: "kernel \<Rightarrow> nat \<Rightarrow> kernel option" where
  "release_entity k eid = do {
     eo \<leftarrow> k_entities k eid;
     verify (eo_ref_count eo > 0);
     (if eo_ref_count eo = 1
      then destroy_entity (k\<lparr>k_entities := (k_entities k)(eid := None)\<rparr>) eid (eo_entity eo)
      else Some (k\<lparr>k_entities := (k_entities k)(eid \<mapsto> eo\<lparr>eo_ref_count := eo_ref_count eo - 1\<rparr>)\<rparr>)) }"

subsection \<open>User memory\<close>

definition VA_START :: uSize where "VA_START = 0xFFFF000000000000"

definition user_address :: "kernel_env \<Rightarrow> kernel \<Rightarrow> uSize \<Rightarrow> uSize option" where
  "user_address env k a = do {
     u \<leftarrow> current_user k;
     ke_mmu env (mm_pt (k_mm k)) (sm_root (us_space u)) a }"

fun user_load :: "kernel_env \<Rightarrow> kernel \<Rightarrow> uSize \<Rightarrow> nat \<Rightarrow> u8 list option" where
  "user_load env k a 0 = Some []"
| "user_load env k a (Suc n) = do {
     p \<leftarrow> user_address env k a;
     bs \<leftarrow> user_load env k (uadd a 1) n;
     Some (mm_memory (k_mm k) p # bs) }"

fun user_store :: "kernel_env \<Rightarrow> kernel \<Rightarrow> uSize \<Rightarrow> u8 list \<Rightarrow> kernel option" where
  "user_store env k a [] = Some k"
| "user_store env k a (b # bs) = do {
     p \<leftarrow> user_address env k a;
     user_store env (k\<lparr>k_mm := (k_mm k)\<lparr>mm_memory := (mm_memory (k_mm k))(p := b)\<rparr>\<rparr>) (uadd a 1) bs }"

text \<open>A buffer in user memory: its address and size.\<close>

type_synonym user_buffer = "uSize \<times> uSize"

definition user_buffer_new :: "uSize \<Rightarrow> uSize \<Rightarrow> user_buffer option" where
  "user_buffer_new ptr sz = do { verify (ptr < VA_START); Some (ptr, sz) }"

definition create_user_buffer :: "kernel \<Rightarrow> uSize \<Rightarrow> uSize \<Rightarrow> bool \<Rightarrow> (user_buffer expected \<times> kernel) option" where
  "create_user_buffer k ptr sz for_writing = do {
     u \<leftarrow> current_user k;
     (if \<not> check_region (us_space u) ptr sz (if for_writing then OpWrite else OpRead) then Some (Err EFAULT, k)
      else do { b \<leftarrow> user_buffer_new ptr sz; Some (Value b, k) }) }"

definition load_buffer :: "kernel_env \<Rightarrow> kernel \<Rightarrow> user_buffer \<Rightarrow> TransactionalBuffer option" where
  "load_buffer env k b = map_option UserBuffer (user_load env k (fst b) (snd b))"

definition store_buffer :: "kernel_env \<Rightarrow> kernel \<Rightarrow> user_buffer \<Rightarrow> TransactionalBuffer \<Rightarrow> kernel option" where
  "store_buffer env k b t = user_store env k (fst b) (tb_bytes t)"

text \<open>\<open>UserBuffer::write_from\<close> and \<open>write_object\<close> at an offset.\<close>

definition user_write_from :: "kernel_env \<Rightarrow> kernel \<Rightarrow> user_buffer \<Rightarrow> u8 list \<Rightarrow> uSize \<Rightarrow> (uSize expected \<times> kernel) option" where
  "user_write_from env k b bs offset =
     (if uadd (length bs) offset > snd b then Some (Err EINVAL, k)
      else do {
        verify (length bs \<le> MAX_MEMCOPY);
        k' \<leftarrow> user_store env k (uadd (fst b) offset) bs;
        Some (Value (length bs), k') })"

definition user_clear :: "kernel_env \<Rightarrow> kernel \<Rightarrow> user_buffer \<Rightarrow> kernel option" where
  "user_clear env k b = user_store env k (fst b) (memset_stored (of_nat (fst b)) 0 (snd b))"

definition user_string_max_length :: nat where "user_string_max_length = 1024"

text \<open>\<open>read_string_from_user\<close> does not check the range, and a kernel address panics.\<close>

definition read_string_from_user :: "kernel_env \<Rightarrow> kernel \<Rightarrow> uSize \<Rightarrow> uSize \<Rightarrow> (u8 list expected \<times> kernel) option" where
  "read_string_from_user env k str len =
     (if len > user_string_max_length then Some (Err EINVAL, k)
      else do {
        b \<leftarrow> user_buffer_new str len;
        bs \<leftarrow> user_load env k (fst b) (snd b);
        Some (Value bs, k) })"

subsection \<open>Operations of entities\<close>

definition EntRead :: u8 where "EntRead = 1"
definition EntWrite :: u8 where "EntWrite = 2"
definition EntSeek :: u8 where "EntSeek = 4"
definition EntMessage :: u8 where "EntMessage = 8"

fun get_supported_operations :: "entity \<Rightarrow> u8" where
  "get_supported_operations (FileEntity i h) =
     (if fe_is_directory (fh_entry h) then 0 else EntRead OR EntWrite OR EntSeek)"
| "get_supported_operations NullEntity = EntRead OR EntWrite"
| "get_supported_operations SerialEntity = EntWrite"
| "get_supported_operations (PipeEntity h p) = (if ph_is_reader h then EntRead else EntWrite)"
| "get_supported_operations (DeviceEntity d) = EntMessage"
| "get_supported_operations (ServerEntity s) = 0"
| "get_supported_operations (ConnectionEntity c s) = 0"

definition set_entity :: "kernel \<Rightarrow> nat \<Rightarrow> entity \<Rightarrow> kernel" where
  "set_entity k eid e = k\<lparr>k_entities := (k_entities k)(eid := map_option (\<lambda>eo. eo\<lparr>eo_entity := e\<rparr>) (k_entities k eid))\<rparr>"

definition set_fs :: "kernel \<Rightarrow> nat \<Rightarrow> fat \<Rightarrow> kernel" where
  "set_fs k i st = k\<lparr>k_fs := (k_fs k)\<lparr>reg_filesystems := (reg_filesystems (k_fs k))[i := (fst (reg_filesystems (k_fs k) ! i), st)]\<rparr>\<rparr>"

definition entity_read :: "kernel \<Rightarrow> nat \<Rightarrow> uSize \<Rightarrow> TransactionalBuffer \<Rightarrow>
    (uSize expected \<times> TransactionalBuffer \<times> kernel) option" where
  "entity_read k eid offset buffer = do {
     eo \<leftarrow> k_entities k eid;
     (case eo_entity eo of
        FileEntity i h \<Rightarrow> do {
          verify (i < length (reg_filesystems (k_fs k)));
          (r, b, h', st) \<leftarrow> file_read (snd (reg_filesystems (k_fs k) ! i)) h offset buffer;
          Some (r, b, set_entity (set_fs k i st) eid (FileEntity i h')) }
      | NullEntity \<Rightarrow> Some (Value 0, buffer, k)
      | PipeEntity h pid \<Rightarrow> do {
          p \<leftarrow> k_pipes k pid;
          (r, p', b) \<leftarrow> pipe_handle_read h p buffer;
          Some (r, b, k\<lparr>k_pipes := (k_pipes k)(pid \<mapsto> p')\<rparr>) }
      | _ \<Rightarrow> Some (Err ENOTSUP, buffer, k)) }"

text \<open>
  \<open>ProcessDebugSerial::write\<close>; what is printed is the log and no part of the state.  The last
  character is looked at even when there is none.
\<close>

definition serial_write :: "uSize \<Rightarrow> TransactionalBuffer \<Rightarrow> uSize expected option" where
  "serial_write offset buffer =
     (if offset \<noteq> 0 \<and> offset \<noteq> INVALID_OFFSET_VAL then Some (Err ESPIPE)
      else if tb_size buffer > 1024 then Some (Err EFBIG)
      else do {
        (r, bs) \<leftarrow> tb_read_to buffer (tb_size buffer) 0;
        (case r of Err e \<Rightarrow> Some (Err e)
         | Value _ \<Rightarrow> do { verify (bs \<noteq> []); Some (Value (tb_size buffer)) }) })"

definition entity_write :: "kernel \<Rightarrow> nat \<Rightarrow> uSize \<Rightarrow> TransactionalBuffer \<Rightarrow>
    (uSize expected \<times> TransactionalBuffer \<times> kernel) option" where
  "entity_write k eid offset buffer = do {
     eo \<leftarrow> k_entities k eid;
     (case eo_entity eo of
        FileEntity i h \<Rightarrow> do {
          verify (i < length (reg_filesystems (k_fs k)));
          (r, b, h', st) \<leftarrow> file_write (snd (reg_filesystems (k_fs k) ! i)) h offset buffer;
          Some (r, b, set_entity (set_fs k i st) eid (FileEntity i h')) }
      | NullEntity \<Rightarrow> Some (Value (tb_size buffer), buffer, k)
      | SerialEntity \<Rightarrow> do { r \<leftarrow> serial_write offset buffer; Some (r, buffer, k) }
      | PipeEntity h pid \<Rightarrow> do {
          p \<leftarrow> k_pipes k pid;
          (r, p') \<leftarrow> pipe_handle_write h p buffer;
          Some (r, buffer, k\<lparr>k_pipes := (k_pipes k)(pid \<mapsto> p')\<rparr>) }
      | _ \<Rightarrow> Some (Err ENOTSUP, buffer, k)) }"

definition entity_seek :: "kernel \<Rightarrow> nat \<Rightarrow> SeekLocation \<Rightarrow> int \<Rightarrow> (uSize expected \<times> kernel) option" where
  "entity_seek k eid position offset = do {
     eo \<leftarrow> k_entities k eid;
     Some (case eo_entity eo of
        FileEntity i h \<Rightarrow> (let (r, h') = file_seek h position offset in (r, set_entity k eid (FileEntity i h')))
      | _ \<Rightarrow> (Err ENOTSUP, k)) }"

definition entity_message :: "kernel_env \<Rightarrow> kernel \<Rightarrow> nat \<Rightarrow> u64 \<Rightarrow> TransactionalBuffer \<Rightarrow>
    (int expected \<times> TransactionalBuffer) option" where
  "entity_message env k eid msg buffer = do {
     eo \<leftarrow> k_entities k eid;
     (case eo_entity eo of
        DeviceEntity d \<Rightarrow> ke_message env d msg buffer
      | _ \<Rightarrow> Some (Err ENOTSUP, buffer)) }"

end
