(* ===== verification/Exec.thy ===== *)
theory Exec
  imports Kernel_State
begin

text \<open>
  Making user processes: \<open>Process::execute_executable\<close>, \<open>spawn_kernel_process\<close> and
  \<open>spawn_user_process\<close> of \<open>kernel/src/process/process.cpp\<close>, and the end of a process.

  \<open>build_user_state\<close> is the part of \<open>execute_executable\<close> up to the assignment of the new state.  It
  returns the state by value, because the process may not be registered yet.  When it fails, the
  pages of the new address space are given back; their contents are not tracked.
\<close>

definition KERNEL_STACK_PAGES :: nat where "KERNEL_STACK_PAGES = 3"
definition DEFAULT_USER_STACK :: uSize where "DEFAULT_USER_STACK = 4 * PAGE_SIZE"
definition MAX_USER_STACK :: uSize where "MAX_USER_STACK = 1024 * PAGE_SIZE"

subsection \<open>The initial stack\<close>

text \<open>
  The stack under construction: its bytes, the offset of the last byte in use, and the pointers
  that go into the array.  A string is stored with its terminator.
\<close>

record init_stack =
  is_bytes :: "u8 list"
  is_offset :: nat
  is_pointers :: "u64 list"

definition put_string_on_stack :: "init_stack \<Rightarrow> u8 list \<Rightarrow> init_stack expected option" where
  "put_string_on_stack st str =
     (let needed_size = length str + 1
      in if is_offset st < needed_size then Some (Err ENOMEM)
         else do {
           m \<leftarrow> memcopy (is_bytes st) (is_offset st - needed_size) (str @ [0]);
           Some (Value (st\<lparr>is_bytes := m, is_offset := is_offset st - needed_size\<rparr>)) })"

definition push_pointer :: "init_stack \<Rightarrow> uSize \<Rightarrow> init_stack" where
  "push_pointer st p = st\<lparr>is_pointers := is_pointers st @ [of_nat p]\<rparr>"

fun put_strings :: "uSize \<Rightarrow> init_stack \<Rightarrow> u8 list list \<Rightarrow> init_stack expected option" where
  "put_strings base st [] = Some (Value st)"
| "put_strings base st (s # ss) = do {
     r \<leftarrow> put_string_on_stack st s;
     (case r of
        Err e \<Rightarrow> Some (Err e)
      | Value st1 \<Rightarrow> put_strings base (push_pointer st1 (uadd base (is_offset st1))) ss) }"

text \<open>The array of pointers goes below the strings.\<close>

definition put_pointers :: "init_stack \<Rightarrow> init_stack expected option" where
  "put_pointers st =
     (let needed_size = length (is_pointers st) * 8 + is_offset st mod 16
      in if is_offset st < needed_size then Some (Err ENOMEM)
         else do {
           m \<leftarrow> memcopy (is_bytes st) (is_offset st - needed_size) (concat (map (le_bytes 8) (is_pointers st)));
           Some (Value (st\<lparr>is_bytes := m, is_offset := is_offset st - needed_size\<rparr>)) })"

definition init_stack_new :: "nat \<Rightarrow> init_stack" where
  "init_stack_new sz = \<lparr>is_bytes = memset_stored 0 0 sz, is_offset = sz, is_pointers = []\<rparr>"

definition build_stack :: "uSize \<Rightarrow> nat \<Rightarrow> u8 list list \<Rightarrow> u8 list list \<Rightarrow> init_stack expected option" where
  "build_stack base sz arguments environ = do {
     r1 \<leftarrow> put_strings base (init_stack_new sz) arguments;
     (case r1 of
        Err e \<Rightarrow> Some (Err e)
      | Value st1 \<Rightarrow> do {
          r2 \<leftarrow> put_strings base (push_pointer st1 0) environ;
          (case r2 of
             Err e \<Rightarrow> Some (Err e)
           | Value st2 \<Rightarrow> put_pointers (push_pointer st2 0)) }) }"

subsection \<open>Executing\<close>

text \<open>The destructors of the values that an early return leaves behind.\<close>

definition drop_space :: "kernel \<Rightarrow> space_manager \<Rightarrow> kernel option" where
  "drop_space k sm = do { s \<leftarrow> release_all (k_mm k) (sm_regions sm); Some (k\<lparr>k_mm := s\<rparr>) }"

fun drop_handles :: "kernel \<Rightarrow> (nat option \<times> u8) list \<Rightarrow> kernel option" where
  "drop_handles k [] = Some k"
| "drop_handles k ((h, g) # hs) = do {
     k' \<leftarrow> (case h of None \<Rightarrow> Some k | Some eid \<Rightarrow> release_entity k eid);
     drop_handles k' hs }"

definition drop_user_state :: "kernel \<Rightarrow> UserspaceState \<Rightarrow> kernel option" where
  "drop_user_state k u = do { k1 \<leftarrow> drop_handles k (us_open u); drop_space k1 (us_space u) }"

definition build_user_state :: "kernel_env \<Rightarrow> kernel \<Rightarrow> entry_ref \<Rightarrow> entry_ref \<Rightarrow> (nat option \<times> u8) list \<Rightarrow>
    u8 list list \<Rightarrow> u8 list list \<Rightarrow> ((u8 list \<times> UserspaceState) expected \<times> kernel) option" where
  "build_user_state env k executable cwd handles arguments environ =
     (let failed = (\<lambda>e k1. do { k2 \<leftarrow> drop_handles k1 handles; Some (Err e, k2) })
      in do {
        (parsed, g1) \<leftarrow> parse_file (k_fs k) executable;
        (let k1 = k\<lparr>k_fs := g1\<rparr>
         in case parsed of
              Err e \<Rightarrow> failed e k1
            | Value elf \<Rightarrow> do {
                (space, s2) \<leftarrow> space_create (k_mm k1);
                (loaded, s3, g3, space3) \<leftarrow> load_into (ke_pt env) s2 (k_fs k1) space elf;
                (let k3 = k1\<lparr>k_mm := s3, k_fs := g3\<rparr>;
                     failed_with = (\<lambda>e k4 sm. do { k5 \<leftarrow> drop_space k4 sm; failed e k5 })
                 in case loaded of
                      Err e \<Rightarrow> failed_with e k3 space3
                    | Value _ \<Rightarrow>
                       (let suggestion = get_sensible_stack_region elf MAX_USER_STACK;
                            stack_region = \<lparr>rg_start = usub (rg_end suggestion) DEFAULT_USER_STACK, rg_size = DEFAULT_USER_STACK\<rparr>
                        in do {
                          (stack, s4, space4) \<leftarrow> allocate_placed_region (ke_pt env) (k_mm k3) space3 stack_region
                            (OpRead OR OpWrite) ''stack'';
                          (let k4 = k3\<lparr>k_mm := s4\<rparr>
                           in case stack of
                                Err e \<Rightarrow> failed_with e k4 space4
                              | Value oid \<Rightarrow> do {
                                  ob \<leftarrow> mm_objects s4 oid;
                                  kr \<leftarrow> kernel_mapped_region (bo_region ob);
                                  built \<leftarrow> build_stack (rg_start stack_region) (rg_size kr) arguments environ;
                                  (case built of
                                     Err e \<Rightarrow> do {
                                       s5 \<leftarrow> release s4 oid;
                                       failed_with e (k4\<lparr>k_mm := s5\<rparr>) space4 }
                                   | Value st \<Rightarrow> do {
                                       s5 \<leftarrow> release (s4\<lparr>mm_memory := mem_store (mm_memory s4) (rg_start kr) (is_bytes st)\<rparr>) oid;
                                       Some (Value (fe_name (snd executable),
                                               \<lparr>us_stack_top = uadd (rg_start stack_region) (is_offset st), us_cwd = cwd,
                                                us_space = space4, us_open = handles\<rparr>),
                                             k4\<lparr>k_mm := s5\<rparr>) }) }) })) }) })"

text \<open>
  \<open>execute_executable\<close> on the current process.  It enters a critical section at its end; the new
  user state replaces the old one, which is destroyed.
\<close>

definition execute_current :: "kernel_env \<Rightarrow> kernel \<Rightarrow> entry_ref \<Rightarrow> entry_ref \<Rightarrow> (nat option \<times> u8) list \<Rightarrow>
    u8 list list \<Rightarrow> u8 list list \<Rightarrow> (ErrorCode \<times> kernel) option" where
  "execute_current env k executable cwd handles arguments environ = do {
     (r, k1) \<leftarrow> build_user_state env k executable cwd handles arguments environ;
     (case r of
        Err e \<Rightarrow> Some (e, k1)
      | Value (name, u) \<Rightarrow> do {
          old \<leftarrow> current_user k1;
          k2 \<leftarrow> drop_user_state k1 old;
          s3 \<leftarrow> update_process (k_sched k2) (pm_current (k_sched k2)) (\<lambda>p. p\<lparr>pr_userspace := Some u, pr_name := name\<rparr>);
          s4 \<leftarrow> enter_critical s3;
          s5 \<leftarrow> update_process s4 (pm_current s4) (\<lambda>p. p\<lparr>pr_saved := AtEntry\<rparr>);
          Some (ESUCCESS, k2\<lparr>k_sched := s5\<rparr>) }) }"

subsection \<open>New processes\<close>

definition allocate_kernel_stack :: "kernel \<Rightarrow> nat \<Rightarrow> (region option \<times> kernel) option" where
  "allocate_kernel_stack k pages = do {
     (r, pa) \<leftarrow> allocate_region (pt_pages (mm_pt (k_mm k))) pages;
     Some (r, k\<lparr>k_mm := (k_mm k)\<lparr>mm_pt := (mm_pt (k_mm k))\<lparr>pt_pages := pa\<rparr>\<rparr>\<rparr>) }"

text \<open>
  The result is the slot of the process.  A process that fails to register is destroyed, without its
  kernel stack.
\<close>

definition register_new :: "kernel \<Rightarrow> UserspaceState Process \<Rightarrow> (nat expected \<times> kernel) option" where
  "register_new k proc = do {
     (r, s) \<leftarrow> register_process (k_sched k) proc;
     (let k1 = k\<lparr>k_sched := s\<rparr>
      in if r \<noteq> ESUCCESS
         then do {
           k2 \<leftarrow> (case pr_userspace proc of None \<Rightarrow> Some k1 | Some u \<Rightarrow> drop_user_state k1 u);
           Some (Err r, k2) }
         else Some (Value (first_free (pm_processes (k_sched k)) 0 (length (pm_processes (k_sched k)))), k1)) }"

definition spawn_kernel_process :: "kernel \<Rightarrow> u8 list \<Rightarrow> (nat expected \<times> kernel) option" where
  "spawn_kernel_process k name = do {
     (stack, k1) \<leftarrow> allocate_kernel_stack k KERNEL_STACK_PAGES;
     (case stack of
        None \<Rightarrow> Some (Err ENOMEM, k1)
      | Some r \<Rightarrow> register_new k1 (process_new name None r)) }"

definition spawn_user_process :: "kernel_env \<Rightarrow> kernel \<Rightarrow> u8 list \<Rightarrow> entry_ref \<Rightarrow> entry_ref \<Rightarrow> (nat option \<times> u8) list \<Rightarrow>
    (nat expected \<times> kernel) option" where
  "spawn_user_process env k name executable cwd handles = do {
     (stack, k1) \<leftarrow> allocate_kernel_stack k KERNEL_STACK_PAGES;
     (case stack of
        None \<Rightarrow> do { k2 \<leftarrow> drop_handles k1 handles; Some (Err ENOMEM, k2) }
      | Some r \<Rightarrow> do {
          (built, k2) \<leftarrow> build_user_state env k1 executable cwd handles [] [];
          (case built of
             Err e \<Rightarrow> Some (Err e, k2)
           | Value (new_name, u) \<Rightarrow>
               register_new k2 ((process_new name None r)\<lparr>pr_name := new_name, pr_userspace := Some u\<rparr>)) }) }"

text \<open>Reaping destroys the process with its user state; its kernel stack is not given back.\<close>

definition reap :: "kernel \<Rightarrow> nat \<Rightarrow> kernel option" where
  "reap k pid = do {
     p \<leftarrow> process_at (k_sched k) pid;
     (_, s) \<leftarrow> reap_process (k_sched k) pid;
     (let k1 = k\<lparr>k_sched := s\<rparr>
      in case pr_userspace p of None \<Rightarrow> Some k1 | Some u \<Rightarrow> drop_user_state k1 u) }"

subsection \<open>The layout of the initial stack\<close>

definition string_at :: "u8 list \<Rightarrow> nat \<Rightarrow> u8 list \<Rightarrow> bool" where
  "string_at m o' str \<longleftrightarrow> take (length str + 1) (drop o' m) = str @ [0]"

definition stack_pointer :: "uSize \<Rightarrow> nat \<Rightarrow> u64" where
  "stack_pointer base o' = of_nat (uadd base o')"

lemma string_at_kept:
  assumes "string_at m o' str" and "i \<le> o'" and "drop i m' = drop i m"
  shows "string_at m' o' str"
proof -
  have "drop o' m' = drop (o' - i) (drop i m')" "drop o' m = drop (o' - i) (drop i m)"
    using assms(2) by simp_all
  then show ?thesis using assms(1,3) by (simp add: string_at_def)
qed

lemma put_string_spec:
  assumes "put_string_on_stack st str = Some (Value st')" and "is_offset st \<le> length (is_bytes st)"
  shows "length (is_bytes st') = length (is_bytes st)" and "is_offset st' + length str + 1 = is_offset st"
    and "drop (is_offset st) (is_bytes st') = drop (is_offset st) (is_bytes st)"
    and "string_at (is_bytes st') (is_offset st') str" and "is_pointers st' = is_pointers st"
  using assms
  by (auto simp: put_string_on_stack_def memcopy_def mem_write_def string_at_def Let_def
      split: if_splits bind_splits)

lemma put_strings_spec:
  assumes "put_strings base st ss = Some (Value st')" and "is_offset st \<le> length (is_bytes st)"
  shows "length (is_bytes st') = length (is_bytes st) \<and> is_offset st' \<le> is_offset st \<and>
    drop (is_offset st) (is_bytes st') = drop (is_offset st) (is_bytes st) \<and>
    (\<exists>os. is_pointers st' = is_pointers st @ map (stack_pointer base) os \<and>
       list_all2 (\<lambda>o' str. is_offset st' \<le> o' \<and> string_at (is_bytes st') o' str) os ss)"
  using assms
proof (induction base st ss rule: put_strings.induct)
  case (1 base st)
  then show ?case by simp
next
  case (2 base st str ss)
  obtain st1 where st1: "put_string_on_stack st str = Some (Value st1)"
    and rest: "put_strings base (push_pointer st1 (uadd base (is_offset st1))) ss = Some (Value st')"
    using "2.prems"(1) by (auto split: bind_splits expected.splits)
  note one = put_string_spec [OF st1 "2.prems"(2)]
  let ?st2 = "push_pointer st1 (uadd base (is_offset st1))"
  have f: "is_bytes ?st2 = is_bytes st1" "is_offset ?st2 = is_offset st1"
      "is_pointers ?st2 = is_pointers st @ [stack_pointer base (is_offset st1)]"
    using one(5) by (simp_all add: push_pointer_def stack_pointer_def)
  obtain os where os: "length (is_bytes st') = length (is_bytes st1)" "is_offset st' \<le> is_offset st1"
      "drop (is_offset st1) (is_bytes st') = drop (is_offset st1) (is_bytes st1)"
      "is_pointers st' = is_pointers st @ [stack_pointer base (is_offset st1)] @ map (stack_pointer base) os"
      "list_all2 (\<lambda>o' str. is_offset st' \<le> o' \<and> string_at (is_bytes st') o' str) os ss"
    using "2.IH" [OF st1 refl rest] one(1,2) "2.prems"(2) unfolding f by auto
  have "drop (is_offset st) (is_bytes st') = drop (is_offset st - is_offset st1) (drop (is_offset st1) (is_bytes st'))"
    using one(2) by simp
  also have "\<dots> = drop (is_offset st) (is_bytes st)"
    using one(2,3) by (simp add: os(3))
  finally have "drop (is_offset st) (is_bytes st') = drop (is_offset st) (is_bytes st)" .
  moreover have "string_at (is_bytes st') (is_offset st1) str"
    using string_at_kept [OF one(4) order.refl os(3)] .
  ultimately show ?case
    using os one(1,2) by (auto intro!: exI [of _ "is_offset st1 # os"])
qed

lemma length_pointer_bytes: "length (concat (map (le_bytes 8) ps)) = 8 * length ps"
  by (induction ps) simp_all

lemma aligned_below:
  assumes "8 * n + x mod 16 \<le> (x :: nat)"
  shows "(x - (8 * n + x mod 16)) mod 16 = 8 * (n mod 2)"
proof -
  define q y where "q = x div 16" and "y = x mod 16"
  have x: "x = 16 * q + y" by (simp add: q_def y_def)
  have le: "8 * n \<le> 16 * q" using assms x unfolding y_def by linarith
  have "x - (8 * n + y) = 16 * q - 8 * n" using x by simp
  also have "(16 * q - 8 * n) mod 16 = 8 * (n mod 2)"
  proof (cases "even n")
    case True
    then obtain m where "n = 2 * m" by blast
    then have "16 * q - 8 * n = 16 * (q - m)" by simp
    then show ?thesis using True by simp
  next
    case False
    then obtain m where m: "n = 2 * m + 1" by (elim oddE)
    then have "16 * q - 8 * n = 16 * (q - m - 1) + 8" using le by simp
    then show ?thesis using m by simp
  qed
  finally show ?thesis unfolding y_def .
qed

lemma put_pointers_spec:
  assumes "put_pointers st = Some (Value st')" and "is_offset st \<le> length (is_bytes st)"
  shows "length (is_bytes st') = length (is_bytes st) \<and>
    is_offset st' + 8 * length (is_pointers st) \<le> is_offset st \<and>
    drop (is_offset st) (is_bytes st') = drop (is_offset st) (is_bytes st) \<and>
    is_offset st' mod 16 = 8 * (length (is_pointers st) mod 2) \<and> is_pointers st' = is_pointers st \<and>
    take (8 * length (is_pointers st)) (drop (is_offset st') (is_bytes st')) = concat (map (le_bytes 8) (is_pointers st))"
proof -
  define n where "n = length (is_pointers st)"
  define off where "off = is_offset st - (8 * n + is_offset st mod 16)"
  have le: "8 * n + is_offset st mod 16 \<le> is_offset st"
    and m: "memcopy (is_bytes st) off (concat (map (le_bytes 8) (is_pointers st))) = Some (is_bytes st')"
    and st': "is_offset st' = off" "is_pointers st' = is_pointers st"
    using assms(1) by (auto simp: put_pointers_def Let_def n_def off_def mult.commute split: if_splits bind_splits)
  have bound: "off + 8 * n \<le> is_offset st" using le by (simp add: off_def)
  have "off mod 16 = 8 * (n mod 2)" unfolding off_def by (rule aligned_below [OF le])
  moreover define c where "c = concat (map (le_bytes 8) (is_pointers st))"
  moreover have c: "length c = 8 * n" unfolding c_def n_def by (rule length_pointer_bytes)
  moreover have m': "is_bytes st' = take off (is_bytes st) @ c @ drop (off + 8 * n) (is_bytes st)"
    using m c by (auto simp: memcopy_def mem_write_def c_def [symmetric] split: if_splits)
  moreover have "drop (is_offset st) (is_bytes st') = drop (is_offset st) (is_bytes st)"
    using bound assms(2) c by (simp add: m')
  moreover have "take (8 * n) (drop off (is_bytes st')) = c"
    using bound assms(2) c by (simp add: m')
  ultimately show ?thesis
    using bound assms(2) st' by (simp add: n_def [symmetric])
qed

text \<open> C16: The stack a program starts on.  Every argument and environment string is on it with its
  terminator, and at the stack pointer is the array of pointers to them, arguments first, each list
  ended by a null pointer.  The stack pointer, relative to the start of the stack, is a multiple of
  16, as the architecture demands, exactly when the number of strings is even; otherwise it is 8
  off.\<close>

theorem build_stack_layout:
  assumes "build_stack base sz arguments environ = Some (Value st)"
  shows "length (is_bytes st) = sz \<and>
    is_offset st mod 16 = 8 * ((length arguments + length environ) mod 2) \<and>
    (\<exists>arg_at env_at.
       list_all2 (string_at (is_bytes st)) arg_at arguments \<and> list_all2 (string_at (is_bytes st)) env_at environ \<and>
       take (8 * (length arguments + length environ + 2)) (drop (is_offset st) (is_bytes st)) =
         concat (map (le_bytes 8) (map (stack_pointer base) arg_at @ [0] @ map (stack_pointer base) env_at @ [0])))"
proof -
  let ?new = "init_stack_new sz"
  have new: "length (is_bytes ?new) = sz" "is_offset ?new = sz" "is_pointers ?new = []"
    by (simp_all add: init_stack_new_def memset_stored_eq)
  obtain st1 st2 where s1: "put_strings base ?new arguments = Some (Value st1)"
    and s2: "put_strings base (push_pointer st1 0) environ = Some (Value st2)"
    and s3: "put_pointers (push_pointer st2 0) = Some (Value st)"
    using assms by (auto simp: build_stack_def split: bind_splits expected.splits)
  have push: "is_bytes (push_pointer x v) = is_bytes x" "is_offset (push_pointer x v) = is_offset x"
      "is_pointers (push_pointer x v) = is_pointers x @ [of_nat v]" for x v
    by (simp_all add: push_pointer_def)
  obtain as where a: "length (is_bytes st1) = sz" "is_offset st1 \<le> sz" "is_pointers st1 = map (stack_pointer base) as"
      "list_all2 (\<lambda>o' str. is_offset st1 \<le> o' \<and> string_at (is_bytes st1) o' str) as arguments"
    using put_strings_spec [OF s1] by (auto simp: new)
  obtain es where e: "length (is_bytes st2) = sz" "is_offset st2 \<le> is_offset st1"
      "drop (is_offset st1) (is_bytes st2) = drop (is_offset st1) (is_bytes st1)"
      "is_pointers st2 = map (stack_pointer base) as @ [0] @ map (stack_pointer base) es"
      "list_all2 (\<lambda>o' str. is_offset st2 \<le> o' \<and> string_at (is_bytes st2) o' str) es environ"
    using put_strings_spec [OF s2] a by (auto simp: push)
  define ps where "ps = map (stack_pointer base) as @ [0] @ map (stack_pointer base) es @ [0]"
  have len: "length ps = length arguments + length environ + 2"
    using a(4) e(5) by (simp add: ps_def list_all2_lengthD)
  have p: "length (is_bytes st) = sz" "is_offset st mod 16 = 8 * (length ps mod 2)"
      "drop (is_offset st2) (is_bytes st) = drop (is_offset st2) (is_bytes st2)"
      "take (8 * length ps) (drop (is_offset st) (is_bytes st)) = concat (map (le_bytes 8) ps)"
    using put_pointers_spec [OF s3] e a(2) by (simp_all add: push ps_def)
  have "drop (is_offset st1) (is_bytes st) = drop (is_offset st1 - is_offset st2) (drop (is_offset st2) (is_bytes st))"
    using e(2) by simp
  also have "\<dots> = drop (is_offset st1) (is_bytes st1)" using e(2,3) by (simp add: p(3))
  finally have kept: "drop (is_offset st1) (is_bytes st) = drop (is_offset st1) (is_bytes st1)" .
  have "list_all2 (string_at (is_bytes st)) as arguments"
    using a(4) by (rule list_all2_mono) (auto intro: string_at_kept [OF _ _ kept])
  moreover have "list_all2 (string_at (is_bytes st)) es environ"
    using e(5) by (rule list_all2_mono) (auto intro: string_at_kept [OF _ _ p(3)])
  moreover have "length ps mod 2 = (length arguments + length environ) mod 2" by (simp add: len)
  ultimately show ?thesis using p unfolding len by (auto simp: ps_def)
qed

theorem build_stack_layout_witness:
  "\<exists>st. build_stack 0x7000 128 [[0x6C, 0x73]] [] = Some (Value st) \<and> is_offset st mod 16 = 8"
proof -
  have "\<exists>st. build_stack 0x7000 128 [[0x6C, 0x73]] [] = Some (Value st)"
    by (simp add: build_stack_def put_string_on_stack_def init_stack_new_def memset_stored_eq memcopy_def
      MAX_MEMCOPY_def mem_write_def push_pointer_def put_pointers_def Let_def)
  then obtain st where st: "build_stack 0x7000 128 [[0x6C, 0x73]] [] = Some (Value st)" ..
  then show ?thesis using build_stack_layout [OF st] by auto
qed

end
