(* ===== verification/Interlink.thy ===== *)
theory Interlink
  imports Kernel_State
begin

text \<open>
  \<open>kernel/src/process/interlink.cpp\<close>, \<open>interlink.h\<close> and \<open>api/interlink.h\<close>: named servers,
  connections, and messages of data, entities and memory.

  The data of a message goes through the ring buffer of its direction, the rest through a queue of
  messages.  A \<open>PayloadItem\<close> has 32 bytes: its kind, and from byte 8 on the union.  The padding of
  what the kernel writes is unspecified and 0 here.
\<close>

definition INTERLINK_DEFAULT_RINGBUFFER_SIZE :: nat where "INTERLINK_DEFAULT_RINGBUFFER_SIZE = 1024"

subsection \<open>Encodings\<close>

definition HEADER_SIZE :: nat where "HEADER_SIZE = 16"
definition ITEM_SIZE :: nat where "ITEM_SIZE = 32"

record MessageHeader =
  mh_total_size :: uSize
  mh_payload_item_count :: nat
  mh_message_id :: u32

datatype PayloadItem =
    PayloadData uSize uSize
  | PayloadFd int
  | PayloadMemory uSize uSize bool bool
  | PayloadOther u32

definition decode_header :: "u8 list \<Rightarrow> MessageHeader" where
  "decode_header bs = \<lparr>mh_total_size = field64 bs 0, mh_payload_item_count = unat (field32 bs 8), mh_message_id = field32 bs 12\<rparr>"

definition encode_header :: "MessageHeader \<Rightarrow> u8 list" where
  "encode_header h = le_bytes 8 (of_nat (mh_total_size h) :: u64) @
     le_bytes 4 (of_nat (mh_payload_item_count h) :: u32) @ le_bytes 4 (mh_message_id h)"

definition decode_item :: "u8 list \<Rightarrow> PayloadItem" where
  "decode_item bs =
     (let kind = field32 bs 0
      in if kind = 0 then PayloadData (field64 bs 8) (field64 bs 16)
         else if kind = 1 then PayloadFd (as_i64 (field64 bs 8))
         else if kind = 2 then PayloadMemory (field64 bs 8) (field64 bs 16) (bs ! 24 \<noteq> 0) (bs ! 25 \<noteq> 0)
         else PayloadOther kind)"

fun encode_item :: "PayloadItem \<Rightarrow> u8 list" where
  "encode_item (PayloadData offset len) =
     le_bytes 8 (0 :: u64) @ le_bytes 8 (of_nat offset :: u64) @ le_bytes 8 (of_nat len :: u64) @ replicate 8 0"
| "encode_item (PayloadFd fd) = le_bytes 8 (1 :: u64) @ le_bytes 8 (of_int fd :: u64) @ replicate 16 0"
| "encode_item (PayloadMemory ptr sz r w) =
     le_bytes 8 (2 :: u64) @ le_bytes 8 (of_nat ptr :: u64) @ le_bytes 8 (of_nat sz :: u64) @
     [if r then 1 else 0, if w then 1 else 0] @ replicate 6 0"
| "encode_item (PayloadOther kind) = le_bytes 4 kind @ replicate 28 0"

definition read_header :: "TransactionalBuffer \<Rightarrow> MessageHeader expected option" where
  "read_header buffer = map_option (map_value decode_header) (tb_read_object buffer HEADER_SIZE 0)"

definition item_offset :: "nat \<Rightarrow> uSize" where
  "item_offset i = HEADER_SIZE + i * ITEM_SIZE"

definition read_item :: "TransactionalBuffer \<Rightarrow> nat \<Rightarrow> PayloadItem expected option" where
  "read_item buffer i = map_option (map_value decode_item) (tb_read_object buffer ITEM_SIZE (item_offset i))"

subsection \<open>Sending\<close>

text \<open>The first loop of \<open>write_to_queue\<close>: the data items must lie in the buffer; their total size.\<close>

fun check_items :: "TransactionalBuffer \<Rightarrow> nat \<Rightarrow> nat \<Rightarrow> uSize \<Rightarrow> uSize expected option" where
  "check_items buffer i 0 data_total = Some (Value data_total)"
| "check_items buffer i (Suc n) data_total = do {
     r \<leftarrow> read_item buffer i;
     (case r of
        Err e \<Rightarrow> Some (Err e)
      | Value (PayloadData offset len) \<Rightarrow>
          if offset \<ge> tb_size buffer \<or> uadd len offset > tb_size buffer then Some (Err EINVAL)
          else check_items buffer (i + 1) n (uadd data_total len)
      | Value _ \<Rightarrow> check_items buffer (i + 1) n data_total) }"

text \<open>The queue of one direction: its ring buffer and its messages.\<close>

type_synonym link_queue = "ring_buffer \<times> QueuedMessage list"

definition send_item :: "kernel \<Rightarrow> TransactionalBuffer \<Rightarrow> link_queue \<Rightarrow> bool \<Rightarrow> bool \<Rightarrow> u32 \<Rightarrow> PayloadItem \<Rightarrow>
    (unit expected \<times> link_queue \<times> kernel) option" where
  "send_item k buffer q blocking is_final message_id item =
     (let (ring, queue) = q
      in case item of
           PayloadData offset len \<Rightarrow> do {
             to_write \<leftarrow> make_subset buffer offset len;
             (res, ring1) \<leftarrow> rb_write_to ring to_write False;
             (case res of
                Err e \<Rightarrow> if e = EAGAIN \<and> blocking then None else Some (Err e, (ring1, queue), k)
              | Value n \<Rightarrow> Some (Value (), (ring1, queue @ [QueuedData is_final message_id n]), k)) }
         | PayloadFd fd \<Rightarrow> do {
             (r, _) \<leftarrow> get_open_entity k fd;
             (case r of
                Err e \<Rightarrow> Some (Err e, q, k)
              | Value eid \<Rightarrow> do {
                  k1 \<leftarrow> acquire_entity k eid;
                  Some (Value (), (ring, queue @ [QueuedEntity is_final message_id eid]), k1) }) }
         | PayloadMemory ptr sz can_read can_write \<Rightarrow> do {
             u \<leftarrow> current_user k;
             (let ops = (if can_read then OpRead else OpNone) OR (if can_write then OpWrite else OpNone)
              in if \<not> check_region (us_space u) ptr sz ops then Some (Err EPERM, q, k)
                 else do {
                   (r, s) \<leftarrow> get_shareable_region (k_mm k) (us_space u) \<lparr>rg_start = ptr, rg_size = sz\<rparr>;
                   (case r of
                      Err e \<Rightarrow> Some (Err e, q, k\<lparr>k_mm := s\<rparr>)
                    | Value oid \<Rightarrow>
                        Some (Value (), (ring, queue @ [QueuedMemory is_final message_id oid ops]), k\<lparr>k_mm := s\<rparr>)) }) }
         | PayloadOther _ \<Rightarrow> Some (Value (), q, k))"

text \<open>The second loop, for the items from \<open>i\<close> on; what was queued before an error stays queued.\<close>

fun send_items :: "kernel \<Rightarrow> TransactionalBuffer \<Rightarrow> link_queue \<Rightarrow> bool \<Rightarrow> u32 \<Rightarrow> nat \<Rightarrow> nat \<Rightarrow>
    (unit expected \<times> link_queue \<times> kernel) option" where
  "send_items k buffer q blocking message_id i 0 = Some (Value (), q, k)"
| "send_items k buffer q blocking message_id i (Suc n) = do {
     r \<leftarrow> read_item buffer i;
     (case r of
        Err e \<Rightarrow> Some (Err e, q, k)
      | Value item \<Rightarrow> do {
          (res, q1, k1) \<leftarrow> send_item k buffer q blocking (n = 0) message_id item;
          (case res of
             Err e \<Rightarrow> Some (Err e, q1, k1)
           | Value _ \<Rightarrow> send_items k1 buffer q1 blocking message_id (i + 1) n) }) }"

definition write_to_queue :: "kernel \<Rightarrow> TransactionalBuffer \<Rightarrow> link_queue \<Rightarrow> bool \<Rightarrow>
    (uSize expected \<times> link_queue \<times> kernel) option" where
  "write_to_queue k buffer q blocking = do {
     h \<leftarrow> read_header buffer;
     (case h of
        Err e \<Rightarrow> Some (Err e, q, k)
      | Value header \<Rightarrow>
         (let n = mh_payload_item_count header
          in if mh_total_size header > tb_size buffer then Some (Err EINVAL, q, k)
             else if n * ITEM_SIZE > tb_size buffer then Some (Err EINVAL, q, k)
             else do {
               t \<leftarrow> check_items buffer 0 n 0;
               (case t of
                  Err e \<Rightarrow> Some (Err e, q, k)
                | Value data_total \<Rightarrow>
                    if rb_capacity (fst q) < data_total then Some (Err EOVERFLOW, q, k)
                    else if free_bytes (fst q) < data_total \<and> \<not> blocking then Some (Err EAGAIN, q, k)
                    else do {
                      (res, q1, k1) \<leftarrow> send_items k buffer q blocking (mh_message_id header) 0 n;
                      Some (map_value (\<lambda>_. data_total) res, q1, k1) }) })) }"

subsection \<open>Receiving\<close>

text \<open>The items of the first message in the queue: their number, their data size and the id.\<close>

fun is_final_message :: "QueuedMessage \<Rightarrow> bool" where
  "is_final_message (QueuedData f i n) = f"
| "is_final_message (QueuedEntity f i e) = f"
| "is_final_message (QueuedMemory f i r p) = f"

fun queued_id :: "QueuedMessage \<Rightarrow> u32" where
  "queued_id (QueuedData f i n) = i"
| "queued_id (QueuedEntity f i e) = i"
| "queued_id (QueuedMemory f i r p) = i"

fun queued_size :: "QueuedMessage \<Rightarrow> uSize" where
  "queued_size (QueuedData f i n) = n"
| "queued_size _ = 0"

fun first_message :: "QueuedMessage list \<Rightarrow> nat \<Rightarrow> uSize \<Rightarrow> u32 \<Rightarrow> nat \<times> uSize \<times> u32" where
  "first_message [] items data_total message_id = (items, data_total, message_id)"
| "first_message (m # ms) items data_total message_id =
     (if is_final_message m then (items + 1, uadd data_total (queued_size m), queued_id m)
      else first_message ms (items + 1) (uadd data_total (queued_size m)) (queued_id m))"

text \<open>The buffer behind a subset, after an operation on the subset.\<close>

fun subset_base :: "TransactionalBuffer \<Rightarrow> TransactionalBuffer" where
  "subset_base (TransactionalBufferSubset b off len) = b"
| "subset_base b = b"

text \<open>
  One turn of the loop: the item leaves the queue, and is destroyed at the end of the turn.  The
  result is the offset for the next data.
\<close>

definition receive_item :: "kernel_env \<Rightarrow> kernel \<Rightarrow> TransactionalBuffer \<Rightarrow> ring_buffer \<Rightarrow> QueuedMessage \<Rightarrow> nat \<Rightarrow> uSize \<Rightarrow>
    (uSize expected \<times> TransactionalBuffer \<times> ring_buffer \<times> kernel) option" where
  "receive_item env k buffer ring item i current_data_offset =
     (case item of
        QueuedData _ _ n \<Rightarrow> do {
          target \<leftarrow> make_subset buffer current_data_offset n;
          (_, ring1, target1) \<leftarrow> rb_read_to ring target False;
          (w, buffer1) \<leftarrow> tb_write_object (subset_base target1) (encode_item (PayloadData current_data_offset n)) (item_offset i);
          message_destroy item;
          Some (map_value (\<lambda>_. uadd current_data_offset n) w, buffer1, ring1, k) }
      | QueuedEntity _ _ eid \<Rightarrow> do {
          (slot, k1) \<leftarrow> allocate_entity_handle_slot k eid 0;
          (w, buffer1) \<leftarrow> tb_write_object buffer (encode_item (PayloadFd slot)) (item_offset i);
          message_destroy item;
          Some (map_value (\<lambda>_. current_data_offset) w, buffer1, ring, k1) }
      | QueuedMemory _ _ oid ops \<Rightarrow> do {
          u \<leftarrow> current_user k;
          (placed, s, sm) \<leftarrow> place_region (ke_pt env) (k_mm k) (us_space u) None ops ''interlinked'' oid;
          k1 \<leftarrow> update_user (k\<lparr>k_mm := s\<rparr>) (\<lambda>u. u\<lparr>us_space := sm\<rparr>);
          (case placed of
             Err e \<Rightarrow> do { message_destroy item; Some (Err e, buffer, ring, k1) }
           | Value r \<Rightarrow> do {
               (w, buffer1) \<leftarrow> tb_write_object buffer
                 (encode_item (PayloadMemory (rg_start r) (rg_size r) (allows ops OpRead) (allows ops OpWrite))) (item_offset i);
               message_destroy item;
               Some (map_value (\<lambda>_. current_data_offset) w, buffer1, ring, k1) }) })"

fun receive_items :: "kernel_env \<Rightarrow> kernel \<Rightarrow> TransactionalBuffer \<Rightarrow> link_queue \<Rightarrow> nat \<Rightarrow> nat \<Rightarrow> uSize \<Rightarrow>
    (uSize expected \<times> TransactionalBuffer \<times> link_queue \<times> kernel) option" where
  "receive_items env k buffer q i 0 offset = Some (Value offset, buffer, q, k)"
| "receive_items env k buffer (ring, queue) i (Suc n) offset =
     (case queue of
        [] \<Rightarrow> None
      | item # rest \<Rightarrow> do {
          (res, buffer1, ring1, k1) \<leftarrow> receive_item env k buffer ring item i offset;
          (case res of
             Err e \<Rightarrow> Some (Err e, buffer1, (ring1, rest), k1)
           | Value offset1 \<Rightarrow> receive_items env k1 buffer1 (ring1, rest) (i + 1) n offset1) })"

text \<open>With \<open>blocking\<close> and an empty queue the code waits for another process: \<open>None\<close>.\<close>

definition read_from_queue :: "kernel_env \<Rightarrow> kernel \<Rightarrow> TransactionalBuffer \<Rightarrow> link_queue \<Rightarrow> bool \<Rightarrow>
    (uSize expected \<times> TransactionalBuffer \<times> link_queue \<times> kernel) option" where
  "read_from_queue env k buffer q blocking =
     (if snd q = [] then if blocking then None else Some (Err EAGAIN, buffer, q, k)
      else (let (items, data_total, message_id) = first_message (snd q) 0 0 0;
                required = uadd (HEADER_SIZE + items * ITEM_SIZE) data_total
            in if tb_size buffer < required then Some (Err EOVERFLOW, buffer, q, k)
               else do {
                 (w, buffer1) \<leftarrow> tb_write_object buffer (encode_header
                   \<lparr>mh_total_size = required, mh_payload_item_count = items, mh_message_id = message_id\<rparr>) 0;
                 (case w of
                    Err e \<Rightarrow> Some (Err e, buffer1, q, k)
                  | Value _ \<Rightarrow> receive_items env k buffer1 q 0 items (item_offset items)) }))"

subsection \<open>Connections\<close>

definition connection_queue :: "connection \<Rightarrow> Side \<Rightarrow> link_queue" where
  "connection_queue cn to = (if to = CLIENT then (cn_client_ring cn, cn_client_queue cn) else (cn_server_ring cn, cn_server_queue cn))"

definition set_connection_queue :: "connection \<Rightarrow> Side \<Rightarrow> link_queue \<Rightarrow> connection" where
  "set_connection_queue cn to q =
     (if to = CLIENT then cn\<lparr>cn_client_ring := fst q, cn_client_queue := snd q\<rparr>
      else cn\<lparr>cn_server_ring := fst q, cn_server_queue := snd q\<rparr>)"

definition other_side :: "Side \<Rightarrow> Side" where
  "other_side side = (if side = CLIENT then SERVER else CLIENT)"

definition connection_receive :: "kernel_env \<Rightarrow> kernel \<Rightarrow> nat \<Rightarrow> Side \<Rightarrow> TransactionalBuffer \<Rightarrow> bool \<Rightarrow>
    (uSize expected \<times> TransactionalBuffer \<times> kernel) option" where
  "connection_receive env k cid side buffer blocking = do {
     cn \<leftarrow> k_connections k cid;
     (r, buffer1, q, k1) \<leftarrow> read_from_queue env k buffer (connection_queue cn side) blocking;
     Some (r, buffer1, k1\<lparr>k_connections := (k_connections k1)(cid \<mapsto> set_connection_queue cn side q)\<rparr>) }"

definition connection_send :: "kernel \<Rightarrow> nat \<Rightarrow> Side \<Rightarrow> TransactionalBuffer \<Rightarrow> bool \<Rightarrow> (uSize expected \<times> kernel) option" where
  "connection_send k cid side buffer blocking = do {
     cn \<leftarrow> k_connections k cid;
     (r, q, k1) \<leftarrow> write_to_queue k buffer (connection_queue cn (other_side side)) blocking;
     Some (r, k1\<lparr>k_connections := (k_connections k1)(cid \<mapsto> set_connection_queue cn (other_side side) q)\<rparr>) }"

subsection \<open>Servers\<close>

definition interlink_lookup :: "kernel \<Rightarrow> u8 list \<Rightarrow> (nat expected \<times> kernel) option" where
  "interlink_lookup k address = do {
     r \<leftarrow> ht_find hash_bytes (k_addresses k) address;
     Some (case r of None \<Rightarrow> Err ENOENT | Some sid \<Rightarrow> Value sid, k) }"

definition advertise :: "kernel \<Rightarrow> u8 list \<Rightarrow> (nat expected \<times> kernel) option" where
  "advertise k address =
     (let sid = k_next k
      in do {
        (_, inserted, t) \<leftarrow> ht_insert hash_bytes (k_addresses k) address sid;
        Some (if inserted
              then (Value sid, k\<lparr>k_addresses := t, k_next := sid + 1,
                      k_servers := (k_servers k)(sid \<mapsto> \<lparr>sv_address = address, sv_handle = None, sv_pending = []\<rparr>)\<rparr>)
              else (Err EADDRINUSE, k\<lparr>k_addresses := t\<rparr>)) })"

text \<open>A connection starts with the references of the list of pending connections and of the caller.\<close>

definition server_connect :: "kernel \<Rightarrow> nat \<Rightarrow> (nat expected \<times> kernel) option" where
  "server_connect k sid = do {
     sv \<leftarrow> k_servers k sid;
     (let cid = k_next k; ring = ring_buffer_new INTERLINK_DEFAULT_RINGBUFFER_SIZE
      in Some (Value cid, k\<lparr>k_next := cid + 1,
           k_connections := (k_connections k)(cid \<mapsto>
             \<lparr>cn_server = sid, cn_client_queue = [], cn_server_queue = [], cn_client_ring = ring,
              cn_server_ring = ring, cn_ref_count = 2\<rparr>),
           k_servers := (k_servers k)(sid \<mapsto> sv\<lparr>sv_pending := sv_pending sv @ [cid]\<rparr>)\<rparr>)) }"

text \<open>\<open>accept\<close> pops the last of the pending connections.\<close>

definition server_accept :: "kernel \<Rightarrow> nat \<Rightarrow> (nat expected \<times> kernel) option" where
  "server_accept k sid = do {
     sv \<leftarrow> k_servers k sid;
     Some (if sv_pending sv = [] then (Err EAGAIN, k)
           else (Value (last (sv_pending sv)),
                 k\<lparr>k_servers := (k_servers k)(sid \<mapsto> sv\<lparr>sv_pending := butlast (sv_pending sv)\<rparr>)\<rparr>)) }"

definition take_handle :: "kernel \<Rightarrow> nat \<Rightarrow> (nat \<times> kernel) option" where
  "take_handle k sid = do {
     sv \<leftarrow> k_servers k sid;
     (case sv_handle sv of
        Some eid \<Rightarrow> do { k1 \<leftarrow> acquire_entity k eid; Some (eid, k1) }
      | None \<Rightarrow> (let (eid, k1) = new_entity k (ServerEntity sid)
          in Some (eid, k1\<lparr>k_servers := (k_servers k1)(sid \<mapsto> sv\<lparr>sv_handle := Some eid\<rparr>)\<rparr>))) }"

end
