(* ===== verification/Syscalls.thy ===== *)
theory Syscalls
  imports Exec Interlink
begin

text \<open>
  \<open>kernel/src/process/syscalls.cpp\<close>: the system calls of the current process, and their dispatch.

  A call runs without interruption: one that would wait for another process, for a child to end, for
  data or for a connection, is \<open>None\<close>, like a panic.  A call that does not return to its caller
  (\<open>Exec\<close> on success, \<open>Exit\<close>) gives the value 0, which is not delivered.
\<close>

definition INVALID_ENTITY_ID :: int where "INVALID_ENTITY_ID = 0x7FFFFFFF"
definition INVALID_ADDRESS_VAL :: uSize where "INVALID_ADDRESS_VAL = 2 ^ 64 - 1"

definition FlagCreateIfMissing :: u32 where "FlagCreateIfMissing = 4"
definition FlagCreateOnly :: u32 where "FlagCreateOnly = 8"

definition set_registry :: "kernel \<Rightarrow> fs_registry \<Rightarrow> kernel" where
  "set_registry k g = k\<lparr>k_fs := g\<rparr>"

text \<open>A step on values only.\<close>

definition pure_step :: "'a expected \<Rightarrow> kernel \<Rightarrow> ('a expected \<times> kernel) option" where
  "pure_step r k = Some (r, k)"

definition lookup_step :: "kernel \<Rightarrow> entry_ref \<Rightarrow> path \<Rightarrow> (entry_ref expected \<times> kernel) option" where
  "lookup_step k root p = do {
     (r, _, g) \<leftarrow> full_path_lookup (k_fs k) (Some root) p;
     Some (r, set_registry k g) }"

definition cwd_step :: "kernel \<Rightarrow> (entry_ref expected \<times> kernel) option" where
  "cwd_step k = do { u \<leftarrow> current_user k; Some (Value (us_cwd u), k) }"

definition entity_step :: "kernel \<Rightarrow> nat \<Rightarrow> (entity expected \<times> kernel) option" where
  "entity_step k eid = do { eo \<leftarrow> k_entities k eid; Some (Value (eo_entity eo), k) }"

definition discard :: "(uSize expected \<times> kernel) option \<Rightarrow> (int expected \<times> kernel) option" where
  "discard r = map_option (\<lambda>(v, k). (map_value int v, k)) r"

subsection \<open>Files\<close>

definition stat_bytes :: "fat_entry \<Rightarrow> u8 list" where
  "stat_bytes e = le_bytes 8 (of_nat (fe_size e) :: u64) @ [if fe_is_directory e then 1 else 0] @ replicate 7 0"

definition write_stat :: "kernel_env \<Rightarrow> kernel \<Rightarrow> uSize \<Rightarrow> fat_entry \<Rightarrow> (uSize expected \<times> kernel) option" where
  "write_stat env k stat_struct e =
     and_then (create_user_buffer k stat_struct 16 True) (\<lambda>b k1. user_write_from env k1 b (stat_bytes e) 0)"

text \<open>Where a relative path starts: the working directory, or a directory that is open.\<close>

definition open_root :: "kernel \<Rightarrow> int \<Rightarrow> (entry_ref expected \<times> kernel) option" where
  "open_root k parent =
     (if parent = INVALID_ENTITY_ID then cwd_step k
      else and_then (get_open_entity k parent) (\<lambda>eid k1.
           and_then (entity_step k1 eid) (\<lambda>e k2.
             pure_step (case e of FileEntity i h \<Rightarrow> Value (i, fh_entry h) | _ \<Rightarrow> Err ENOTDIR) k2)))"

text \<open>
  \<open>sys_open\<close>.  When the file is missing and is to be made, the name is taken from beyond the end
  of the list of segments, which is undefined.
\<close>

definition sys_open :: "kernel_env \<Rightarrow> kernel \<Rightarrow> uSize \<Rightarrow> uSize \<Rightarrow> u32 \<Rightarrow> int \<Rightarrow> uSize \<Rightarrow> (int expected \<times> kernel) option" where
  "sys_open env k path_str path_len flags parent stat_struct =
     and_then (read_string_from_user env k path_str path_len) (\<lambda>str k1.
     and_then (pure_step (parse_path str) k1) (\<lambda>p k2.
     and_then (open_root k2 parent) (\<lambda>root k3. do {
       (result, parent_holder, g) \<leftarrow> full_path_lookup (k_fs k3) (Some root) p;
       (let k4 = set_registry k3 g
        in case result of
             Err e \<Rightarrow>
               if parent_holder \<noteq> None \<and> flags AND (FlagCreateIfMissing OR FlagCreateOnly) \<noteq> 0 then None
               else Some (Err e, k4)
           | Value (i, entry) \<Rightarrow>
               if flags AND FlagCreateOnly = FlagCreateOnly then Some (Err EEXIST, k4)
               else and_then (if stat_struct \<noteq> 0 then write_stat env k4 stat_struct entry else Some (Value 0, k4)) (\<lambda>_ k5.
                    allocate_new_entity k5 (FileEntity i \<lparr>fh_entry = entry, fh_offset = 0\<rparr>) 0)) })))"

text \<open>\<open>sys_read\<close> asks for a region the process may read, and writes to it; \<open>sys_write\<close> the other way round.\<close>

definition sys_read :: "kernel_env \<Rightarrow> kernel \<Rightarrow> int \<Rightarrow> uSize \<Rightarrow> uSize \<Rightarrow> uSize \<Rightarrow> (int expected \<times> kernel) option" where
  "sys_read env k entity_handle offset ptr len =
     and_then (get_open_entity k entity_handle) (\<lambda>eid k1.
     and_then (entity_step k1 eid) (\<lambda>e k2.
       if get_supported_operations e AND EntRead = 0 then Some (Err ENOTSUP, k2)
       else and_then (create_user_buffer k2 ptr len False) (\<lambda>ub k3. do {
         buffer \<leftarrow> load_buffer env k3 ub;
         (r, buffer1, k4) \<leftarrow> entity_read k3 eid offset buffer;
         k5 \<leftarrow> store_buffer env k4 ub buffer1;
         Some (map_value int r, k5) })))"

definition sys_write :: "kernel_env \<Rightarrow> kernel \<Rightarrow> int \<Rightarrow> uSize \<Rightarrow> uSize \<Rightarrow> uSize \<Rightarrow> (int expected \<times> kernel) option" where
  "sys_write env k entity_handle offset ptr len =
     and_then (get_open_entity k entity_handle) (\<lambda>eid k1.
     and_then (entity_step k1 eid) (\<lambda>e k2.
       if get_supported_operations e AND EntWrite = 0 then Some (Err ENOTSUP, k2)
       else and_then (create_user_buffer k2 ptr len True) (\<lambda>ub k3. do {
         buffer \<leftarrow> load_buffer env k3 ub;
         (r, _, k4) \<leftarrow> entity_write k3 eid offset buffer;
         Some (map_value int r, k4) })))"

definition sys_close :: "kernel \<Rightarrow> int \<Rightarrow> (int expected \<times> kernel) option" where
  "sys_close k entity_handle = do {
     u \<leftarrow> current_user k;
     (if entity_handle < 0 \<or> length (us_open u) \<le> nat entity_handle then Some (Err EBADF, k)
      else (let i = nat entity_handle; (h, g) = us_open u ! i
            in case h of
                 None \<Rightarrow> Some (Err EBADF, k)
               | Some eid \<Rightarrow> do {
                   k1 \<leftarrow> update_user k (\<lambda>u. u\<lparr>us_open := (us_open u)[i := (None, g)]\<rparr>);
                   k2 \<leftarrow> release_entity k1 eid;
                   Some (Value 0, k2) })) }"

definition sys_seek :: "kernel \<Rightarrow> int \<Rightarrow> SeekLocation \<Rightarrow> int \<Rightarrow> (int expected \<times> kernel) option" where
  "sys_seek k entity_handle location offset =
     and_then (get_open_entity k entity_handle) (\<lambda>eid k1.
     and_then (entity_step k1 eid) (\<lambda>e k2.
       if get_supported_operations e AND EntSeek = 0 then Some (Err ENOTSUP, k2)
       else do { (r, k3) \<leftarrow> entity_seek k2 eid location offset; Some (map_value as_i64 r, k3) }))"

definition sys_stat :: "kernel_env \<Rightarrow> kernel \<Rightarrow> int \<Rightarrow> uSize \<Rightarrow> uSize \<Rightarrow> uSize \<Rightarrow> (int expected \<times> kernel) option" where
  "sys_stat env k entity_handle path_str path_len stat_struct =
     and_then (create_user_buffer k stat_struct 16 True) (\<lambda>b k1.
     and_then
       (if entity_handle \<noteq> INVALID_ENTITY_ID
        then and_then (get_open_entity k1 entity_handle) (\<lambda>eid k2.
             and_then (entity_step k2 eid) (\<lambda>e k3.
               pure_step (case e of FileEntity i h \<Rightarrow> Value (i, fh_entry h) | _ \<Rightarrow> Err EBADF) k3))
        else and_then (read_string_from_user env k1 path_str path_len) (\<lambda>str k2.
             and_then (pure_step (parse_path str) k2) (\<lambda>p k3.
             and_then (cwd_step k3) (\<lambda>cwd k4. lookup_step k4 cwd p))))
       (\<lambda>(i, entry) k2.
          and_then (user_write_from env k2 b (stat_bytes entry) 0) (\<lambda>_ k3. Some (Value 0, k3))))"

subsection \<open>Directory listings\<close>

definition FILE_ITEM_NAME_OFFSET :: nat where "FILE_ITEM_NAME_OFFSET = 17"

definition file_item_whole_size :: "nat \<Rightarrow> nat" where
  "file_item_whole_size name_len = 24 - 7 + name_len + 1"

definition file_item_bytes :: "uSize \<Rightarrow> fat_entry \<Rightarrow> u8 list" where
  "file_item_bytes next_offset e =
     le_bytes 8 (of_nat next_offset :: u64) @ le_bytes 8 (of_nat (fe_size e) :: u64) @
     [if fe_is_directory e then 1 else 0] @ replicate 7 0"

text \<open>The loop over the entries from \<open>offset\<close> on; \<open>at\<close> is the byte offset in the buffer.\<close>

function list_entries :: "kernel_env \<Rightarrow> kernel \<Rightarrow> user_buffer \<Rightarrow> fat_entry list \<Rightarrow> nat \<Rightarrow> nat \<Rightarrow> (int expected \<times> kernel) option" where
  "list_entries env k b entries offset at =
     (if offset < length entries
      then (let e = entries ! offset;
                entry_size = file_item_whole_size (length (fe_name e));
                aligned = align_up entry_size 8
            in if at + entry_size > snd b then Some (Value (int offset), k)
               else (let offset_to_next =
                           (if offset + 1 = length entries then 0
                            else if at + aligned + file_item_whole_size (length (fe_name (entries ! (offset + 1)))) > snd b
                            then snd b - at else aligned)
                     in and_then (user_write_from env k b (file_item_bytes offset_to_next e) at) (\<lambda>_ k1. do {
                          (_, k2) \<leftarrow> user_write_from env k1 b (fe_name e) (at + FILE_ITEM_NAME_OFFSET);
                          list_entries env k2 b entries (offset + 1) (at + offset_to_next) })))
      else Some (Value (int offset), k))"
  by pat_completeness auto

termination list_entries
  by (relation "measure (\<lambda>(env, k, b, entries, offset, at). length entries - offset)") auto

declare list_entries.simps [simp del]

definition children_step :: "kernel \<Rightarrow> entity \<Rightarrow> (fat_entry list expected \<times> kernel) option" where
  "children_step k e =
     (case e of
        FileEntity i h \<Rightarrow> do {
          verify (i < length (reg_filesystems (k_fs k)));
          (r, st) \<leftarrow> all_children (snd (reg_filesystems (k_fs k) ! i)) (fh_entry h);
          Some (r, set_fs k i st) }
      | _ \<Rightarrow> Some (Err ENOTDIR, k))"

definition is_directory_handle :: "entity \<Rightarrow> bool" where
  "is_directory_handle e = (case e of FileEntity i h \<Rightarrow> fe_is_directory (fh_entry h) | _ \<Rightarrow> False)"

definition sys_get_directory_entries :: "kernel_env \<Rightarrow> kernel \<Rightarrow> int \<Rightarrow> uSize \<Rightarrow> uSize \<Rightarrow> uSize \<Rightarrow> (int expected \<times> kernel) option" where
  "sys_get_directory_entries env k entity_handle offset ptr len =
     and_then (get_open_entity k entity_handle) (\<lambda>eid k1.
     and_then (entity_step k1 eid) (\<lambda>e k2.
       if \<not> is_directory_handle e then Some (Err ENOTDIR, k2)
       else and_then (create_user_buffer k2 ptr len True) (\<lambda>b k3. do {
         k4 \<leftarrow> user_clear env k3 b;
         and_then (children_step k4 e) (\<lambda>entries k5. list_entries env k5 b entries offset 0) })))"

subsection \<open>Memory\<close>

definition sys_allocate :: "kernel_env \<Rightarrow> kernel \<Rightarrow> uSize \<Rightarrow> uSize \<Rightarrow> (int expected \<times> kernel) option" where
  "sys_allocate env k address sz =
     (if sz > 64 * 1024 * 1024 then Some (Err ENOMEM, k)
      else if sz mod PAGE_SIZE \<noteq> 0 then Some (Err EINVAL, k)
      else if address \<noteq> INVALID_ADDRESS_VAL \<and> (of_nat address AND of_nat PAGE_SIZE :: u64) \<noteq> 0 then Some (Err EINVAL, k)
      else do {
        (space, s1) \<leftarrow> create_contiguous (ke_pt env) (k_mm k) (sz div PAGE_SIZE);
        (case space of
           Err e \<Rightarrow> Some (Err e, k\<lparr>k_mm := s1\<rparr>)
         | Value oid \<Rightarrow> do {
             u \<leftarrow> current_user k;
             (placed, s2, sm) \<leftarrow> place_region (ke_pt env) s1 (us_space u)
               (if address = INVALID_ADDRESS_VAL then None else Some address) (OpRead OR OpWrite) ''Allocate'' oid;
             k1 \<leftarrow> update_user (k\<lparr>k_mm := s2\<rparr>) (\<lambda>u. u\<lparr>us_space := sm\<rparr>);
             Some (map_value (\<lambda>r. as_i64 (rg_start r)) placed, k1) }) })"

definition sys_deallocate :: "kernel_env \<Rightarrow> kernel \<Rightarrow> uSize \<Rightarrow> uSize \<Rightarrow> (int expected \<times> kernel) option" where
  "sys_deallocate env k address sz = do {
     u \<leftarrow> current_user k;
     (e, s, sm) \<leftarrow> deallocate_userspace_region (ke_pt env) (k_mm k) (us_space u) address sz;
     k1 \<leftarrow> update_user (k\<lparr>k_mm := s\<rparr>) (\<lambda>u. u\<lparr>us_space := sm\<rparr>);
     Some (if e = ESUCCESS then Value 0 else Err e, k1) }"

subsection \<open>Devices\<close>

definition DEVICE_ITEM_NAME_OFFSET :: nat where "DEVICE_ITEM_NAME_OFFSET = 12"

definition device_item_whole_size :: "nat \<Rightarrow> nat" where
  "device_item_whole_size name_len = 16 - 4 + name_len + 1"

text \<open>The devices that a process can open, of one protocol unless it is 0.\<close>

definition listed_devices :: "kernel \<Rightarrow> nat \<Rightarrow> (u8 list \<times> nat) list" where
  "listed_devices k protocol_filter =
     List.map_filter (\<lambda>(name, d, proto). case proto of
         None \<Rightarrow> None
       | Some p \<Rightarrow> if protocol_filter \<noteq> 0 \<and> protocol_filter \<noteq> p then None else Some (name, p))
       (ht_items (k_devices k))"

definition provisional_size :: "(u8 list \<times> nat) list \<Rightarrow> nat" where
  "provisional_size devices = foldl (\<lambda>sum (name, p). align_up sum 8 + device_item_whole_size (length name)) 0 devices"

definition device_item_bytes :: "uSize \<Rightarrow> nat \<Rightarrow> u8 list" where
  "device_item_bytes next_offset p = le_bytes 8 (of_nat next_offset :: u64) @ le_bytes 4 (of_nat p :: u32) @ replicate 4 0"

text \<open>The walk over the devices: the error status, and the byte offset of the last item written.\<close>

fun list_devices :: "kernel_env \<Rightarrow> kernel \<Rightarrow> user_buffer \<Rightarrow> (u8 list \<times> nat) list \<Rightarrow> nat \<Rightarrow> nat \<Rightarrow>
    (ErrorCode \<times> nat \<times> kernel) option" where
  "list_devices env k b [] at to_next = Some (ESUCCESS, at, k)"
| "list_devices env k b ((name, p) # ds) at to_next =
     (let next_at = at + to_next;
          entry_size = device_item_whole_size (length name);
          to_next' = align_up entry_size 8
      in if next_at + entry_size > snd b then Some (EOVERFLOW, at, k)
         else do {
           (r, k1) \<leftarrow> user_write_from env k b (device_item_bytes to_next' p) next_at;
           (case r of
              Err e \<Rightarrow> Some (e, next_at, k1)
            | Value _ \<Rightarrow> do {
                (r2, k2) \<leftarrow> user_write_from env k1 b name (next_at + DEVICE_ITEM_NAME_OFFSET);
                (case r2 of Err e \<Rightarrow> Some (e, next_at, k2) | Value _ \<Rightarrow> list_devices env k2 b ds next_at to_next') }) })"

definition sys_list_devices :: "kernel_env \<Rightarrow> kernel \<Rightarrow> uSize \<Rightarrow> uSize \<Rightarrow> nat \<Rightarrow> (int expected \<times> kernel) option" where
  "sys_list_devices env k ptr len protocol_filter =
     (if len = 0 then Some (Value (int (provisional_size (listed_devices k protocol_filter))), k)
      else and_then (create_user_buffer k ptr len True) (\<lambda>b k1. do {
        k2 \<leftarrow> user_clear env k1 b;
        (status, at, k3) \<leftarrow> list_devices env k2 b (listed_devices k2 protocol_filter) 0 0;
        (if status = ESUCCESS
         then and_then (user_write_from env k3 b (replicate 8 0) at) (\<lambda>_ k4. Some (Value 0, k4))
         else if status = EOVERFLOW
         then and_then (user_write_from env k3 b (le_bytes 8 (of_nat (snd b - at) :: u64)) at) (\<lambda>_ k4. Some (Err EOVERFLOW, k4))
         else Some (Err status, k3)) }))"

definition sys_open_device :: "kernel_env \<Rightarrow> kernel \<Rightarrow> uSize \<Rightarrow> uSize \<Rightarrow> (int expected \<times> kernel) option" where
  "sys_open_device env k path_str path_len =
     and_then (read_string_from_user env k path_str path_len) (\<lambda>name k1. do {
       d \<leftarrow> ht_find hash_bytes (k_devices k1) name;
       (case d of
          None \<Rightarrow> Some (Err ENOENT, k1)
        | Some (dev, _) \<Rightarrow> allocate_new_entity k1 (DeviceEntity dev) 0) })"

definition sys_message_device :: "kernel_env \<Rightarrow> kernel \<Rightarrow> int \<Rightarrow> u64 \<Rightarrow> uSize \<Rightarrow> uSize \<Rightarrow> (int expected \<times> kernel) option" where
  "sys_message_device env k entity_handle msg ptr sz =
     and_then (create_user_buffer k ptr sz True) (\<lambda>ub k1.
     and_then (get_open_entity k1 entity_handle) (\<lambda>eid k2.
     and_then (entity_step k2 eid) (\<lambda>e k3.
       if get_supported_operations e AND EntMessage = 0 then Some (Err ENOTSUP, k3)
       else do {
         buffer \<leftarrow> load_buffer env k3 ub;
         (r, buffer1) \<leftarrow> entity_message env k3 eid msg buffer;
         k4 \<leftarrow> store_buffer env k3 ub buffer1;
         Some (r, k4) })))"

end
