(* ===== verification/Process_Syscalls.thy ===== *)
theory Process_Syscalls
  imports Syscalls
begin

text \<open>
  \<open>kernel/src/process/syscalls.cpp\<close>: the system calls on processes, pipes and interlink, and
  \<open>handle_syscall\<close>, which converts the 64-bit arguments to the parameter types.
\<close>

subsection \<open>Processes\<close>

text \<open>The copy of the handles that a fork makes.\<close>

fun copy_handles :: "kernel \<Rightarrow> (nat option \<times> u8) list \<Rightarrow> kernel option" where
  "copy_handles k [] = Some k"
| "copy_handles k ((h, g) # hs) = do {
     k1 \<leftarrow> (case h of None \<Rightarrow> Some k | Some eid \<Rightarrow> acquire_entity k eid);
     copy_handles k1 hs }"

text \<open>\<open>sys_fork\<close>; a fork that fails after the kernel stack is allocated does not give it back.\<close>

definition sys_fork :: "kernel_env \<Rightarrow> kernel \<Rightarrow> (int expected \<times> kernel) option" where
  "sys_fork env k = do {
     p \<leftarrow> current_process (k_sched k);
     u \<leftarrow> pr_userspace p;
     (stack, k1) \<leftarrow> allocate_kernel_stack k (rg_size (pr_kernel_stack p) div PAGE_SIZE);
     (case stack of
        None \<Rightarrow> Some (Err ENOMEM, k1)
      | Some r \<Rightarrow> do {
          (space, s) \<leftarrow> space_clone_for_fork (ke_pt env) (k_mm k1) (us_space u);
          (case space of
             Err e \<Rightarrow> Some (Err e, k1\<lparr>k_mm := s\<rparr>)
           | Value sm \<Rightarrow> do {
               k2 \<leftarrow> copy_handles (k1\<lparr>k_mm := s\<rparr>) (us_open u);
               and_then
                 (register_new k2 ((process_new (pr_name p) (Some (pm_current (k_sched k))) r)
                    \<lparr>pr_userspace := Some (u\<lparr>us_space := sm\<rparr>)\<rparr>))
                 (\<lambda>pid k3. do {
                    s1 \<leftarrow> update_process (k_sched k3) (pm_current (k_sched k3)) (\<lambda>q. q\<lparr>pr_children := pr_children q @ [pid]\<rparr>);
                    s2 \<leftarrow> update_process s1 pid (\<lambda>q. q\<lparr>pr_state := Running\<rparr>);
                    Some (Value (int pid), k3\<lparr>k_sched := s2\<rparr>) }) }) }) }"

text \<open>The strings of an argument array: pairs of a pointer and a length.\<close>

fun read_strings :: "kernel_env \<Rightarrow> kernel \<Rightarrow> (uSize \<times> uSize) list \<Rightarrow> (u8 list list expected \<times> kernel) option" where
  "read_strings env k [] = Some (Value [], k)"
| "read_strings env k ((ptr, len) # ps) =
     and_then (read_string_from_user env k ptr len) (\<lambda>s k1.
     and_then (read_strings env k1 ps) (\<lambda>ss k2. Some (Value (s # ss), k2)))"

fun decode_pairs :: "nat \<Rightarrow> u8 list \<Rightarrow> (uSize \<times> uSize) list" where
  "decode_pairs 0 bs = []"
| "decode_pairs (Suc n) bs = (field64 bs 0, field64 bs 8) # decode_pairs n (drop 16 bs)"

definition read_string_array :: "kernel_env \<Rightarrow> kernel \<Rightarrow> uSize \<Rightarrow> uSize \<Rightarrow> (u8 list list expected \<times> kernel) option" where
  "read_string_array env k ptr n =
     (if ptr = 0 \<or> n = 0 then Some (Value [], k)
      else and_then (create_user_buffer k ptr (umul n 16) False) (\<lambda>ub k1. do {
        buffer \<leftarrow> load_buffer env k1 ub;
        (r, bs) \<leftarrow> tb_read_to buffer (snd ub) 0;
        (case r of
           Err e \<Rightarrow> Some (Err e, k1)
         | Value _ \<Rightarrow> do { verify (length bs = 16 * n); read_strings env k1 (decode_pairs n bs) }) }))"

text \<open>The first part of \<open>sys_execute\<close>: the file, and the strings copied from user memory.\<close>

definition exec_arguments :: "kernel_env \<Rightarrow> kernel \<Rightarrow> uSize \<Rightarrow> uSize \<Rightarrow> uSize \<Rightarrow> uSize \<Rightarrow> uSize \<Rightarrow> uSize \<Rightarrow>
    ((entry_ref \<times> u8 list list \<times> u8 list list) expected \<times> kernel) option" where
  "exec_arguments env k executable_path path_len args_array args_n env_array env_n =
     and_then (read_string_from_user env k executable_path path_len) (\<lambda>str k1.
     and_then (pure_step (parse_path str) k1) (\<lambda>p k2.
     and_then (cwd_step k2) (\<lambda>cwd k3.
     and_then (lookup_step k3 cwd p) (\<lambda>entry k4.
     and_then (read_string_array env k4 args_array args_n) (\<lambda>arguments k5.
     and_then (read_string_array env k5 env_array env_n) (\<lambda>environ k6.
       Some (Value (entry, arguments, environ), k6)))))))"

text \<open>
  \<open>sys_execute\<close>.  The handles of the process move into the argument of \<open>execute_executable\<close>, so they are
  gone when it fails.  On failure, too, the code insists on being in a critical section.
\<close>

definition sys_execute :: "kernel_env \<Rightarrow> kernel \<Rightarrow> uSize \<Rightarrow> uSize \<Rightarrow> uSize \<Rightarrow> uSize \<Rightarrow> uSize \<Rightarrow> uSize \<Rightarrow>
    (int expected \<times> kernel) option" where
  "sys_execute env k executable_path path_len args_array args_n env_array env_n =
     and_then (exec_arguments env k executable_path path_len args_array args_n env_array env_n)
       (\<lambda>(entry, arguments, environ) k6. do {
          u \<leftarrow> current_user k6;
          k7 \<leftarrow> update_user k6 (\<lambda>u. u\<lparr>us_open := []\<rparr>);
          (result, k8) \<leftarrow> execute_current env k7 entry (us_cwd u) (us_open u) arguments environ;
          critical \<leftarrow> is_critical (k_sched k8);
          verify critical;
          s \<leftarrow> exit_critical (k_sched k8);
          (if result \<noteq> ESUCCESS then Some (Err result, k8\<lparr>k_sched := s\<rparr>)
           else do {
             still \<leftarrow> is_critical s;
             verify (\<not> still);
             Some (Value 0, k8\<lparr>k_sched := s\<lparr>pm_space := Some (pm_current s)\<rparr>\<rparr>) }) })"

definition sys_get_pid :: "kernel \<Rightarrow> (int expected \<times> kernel) option" where
  "sys_get_pid k = do { p \<leftarrow> current_process (k_sched k); Some (Value (pr_pid p), k) }"

definition write_exit_code :: "kernel_env \<Rightarrow> kernel \<Rightarrow> user_buffer option \<Rightarrow> UserspaceState Process \<Rightarrow> kernel option" where
  "write_exit_code env k b child =
     (case b of
        None \<Rightarrow> Some k
      | Some ub \<Rightarrow>
          map_option snd (user_write_from env k ub
            (le_bytes 4 (of_int (case pr_exit_code child of Some c \<Rightarrow> c | None \<Rightarrow> -1) :: u32)) 0))"

text \<open>
  The child \<open>pid\<close> leaves the list of children, and the process \<open>reaped\<close> is reaped.  The two are not
  always the same: in the loop for any child, \<open>child\<close> is a reference to an element of the vector, and
  \<open>extract\<close> moves the next child into that place before \<open>*child\<close> is reaped.  Only behind the last
  child nothing is moved, and the pointer in the place is still the old one.
\<close>

definition child_after_extract :: "nat list \<Rightarrow> nat \<Rightarrow> nat" where
  "child_after_extract children pid =
     (case dropWhile (\<lambda>c. c \<noteq> pid) children of _ # next_child # _ \<Rightarrow> next_child | _ \<Rightarrow> pid)"

definition collect_child :: "kernel_env \<Rightarrow> kernel \<Rightarrow> user_buffer option \<Rightarrow> nat \<Rightarrow> nat \<Rightarrow> (int expected \<times> kernel) option" where
  "collect_child env k b pid reaped = do {
     child \<leftarrow> process_at (k_sched k) pid;
     k1 \<leftarrow> write_exit_code env k b child;
     s \<leftarrow> update_process (k_sched k1) (pm_current (k_sched k1)) (\<lambda>p. p\<lparr>pr_children := remove1 pid (pr_children p)\<rparr>);
     k2 \<leftarrow> reap (k1\<lparr>k_sched := s\<rparr>) reaped;
     Some (Value (int pid), k2) }"

definition awaits_death :: "kernel \<Rightarrow> nat \<Rightarrow> bool" where
  "awaits_death k pid = (case process_at (k_sched k) pid of None \<Rightarrow> False | Some c \<Rightarrow> pr_state c = AwaitingDeath)"

definition sys_wait :: "kernel_env \<Rightarrow> kernel \<Rightarrow> int \<Rightarrow> uSize \<Rightarrow> (int expected \<times> kernel) option" where
  "sys_wait env k pid status_ptr =
     and_then (if status_ptr = 0 then Some (Value None, k)
               else and_then (create_user_buffer k status_ptr 4 True) (\<lambda>b k1. Some (Value (Some b), k1)))
       (\<lambda>b k1. do {
          p \<leftarrow> current_process (k_sched k1);
          (if pid > 0
           then if nat pid \<in> set (pr_children p)
                then if awaits_death k1 (nat pid) then collect_child env k1 b (nat pid) (nat pid) else None
                else Some (Err ECHILD, k1)
           else if pid = -1
           then if pr_children p = [] then Some (Err ECHILD, k1)
                else (case filter (awaits_death k1) (pr_children p) of
                        [] \<Rightarrow> None
                      | c # _ \<Rightarrow> collect_child env k1 b c (child_after_extract (pr_children p) c))
           else Some (Err EINVAL, k1)) })"

definition sys_chdir :: "kernel_env \<Rightarrow> kernel \<Rightarrow> uSize \<Rightarrow> uSize \<Rightarrow> (int expected \<times> kernel) option" where
  "sys_chdir env k path_str path_len =
     and_then (read_string_from_user env k path_str path_len) (\<lambda>str k1.
     and_then (pure_step (parse_path str) k1) (\<lambda>p k2.
     and_then (cwd_step k2) (\<lambda>cwd k3.
     and_then (lookup_step k3 cwd p) (\<lambda>entry k4. do {
       k5 \<leftarrow> update_user k4 (\<lambda>u. u\<lparr>us_cwd := entry\<rparr>);
       Some (Err ESUCCESS, k5) }))))"

subsection \<open>Handles and pipes\<close>

record CreatePipeHandleFlags =
  cp_read_group :: u8
  cp_write_group :: u8
  cp_read_blocking :: bool
  cp_write_blocking :: bool

definition pipe_flags :: "u64 \<Rightarrow> CreatePipeHandleFlags" where
  "pipe_flags v = (let bs = le_bytes 4 (ucast v :: u32)
     in \<lparr>cp_read_group = bs ! 0, cp_write_group = bs ! 1, cp_read_blocking = bs ! 2 \<noteq> 0, cp_write_blocking = bs ! 3 \<noteq> 0\<rparr>)"

definition sys_create_pipe :: "kernel_env \<Rightarrow> kernel \<Rightarrow> uSize \<Rightarrow> u64 \<Rightarrow> (int expected \<times> kernel) option" where
  "sys_create_pipe env k handles_struct raw_flags =
     (let flags = pipe_flags raw_flags
      in and_then (create_user_buffer k handles_struct 16 True) (\<lambda>b k1.
         (let pid = k_next k1;
              k2 = k1\<lparr>k_pipes := (k_pipes k1)(pid \<mapsto> pipe_new), k_next := pid + 1\<rparr>
          in and_then (allocate_new_entity k2 (PipeEntity \<lparr>ph_is_reader = True, ph_is_blocking = cp_read_blocking flags\<rparr> pid)
               (cp_read_group flags)) (\<lambda>read_slot k3.
             and_then (allocate_new_entity k3 (PipeEntity \<lparr>ph_is_reader = False, ph_is_blocking = cp_write_blocking flags\<rparr> pid)
               (cp_write_group flags)) (\<lambda>write_slot k4.
             and_then (user_write_from env k4 b (le_bytes 8 (of_int read_slot :: u64) @ le_bytes 8 (of_int write_slot :: u64)) 0)
               (\<lambda>_ k5. Some (Value 0, k5)))))))"

definition sys_duplicate :: "kernel \<Rightarrow> int \<Rightarrow> int \<Rightarrow> u8 \<Rightarrow> (int expected \<times> kernel) option" where
  "sys_duplicate k handle_slot new_handle_slot grp =
     and_then (get_open_entity k handle_slot) (\<lambda>eid k1. do {
       k2 \<leftarrow> acquire_entity k1 eid;
       u \<leftarrow> current_user k2;
       (if new_handle_slot = INVALID_ENTITY_ID
        then do { (slot, k3) \<leftarrow> allocate_entity_handle_slot k2 eid grp; Some (Value slot, k3) }
        else if new_handle_slot < 0 \<or> nat new_handle_slot \<ge> length (us_open u)
        then do { k3 \<leftarrow> release_entity k2 eid; Some (Err EINVAL, k3) }
        else do {
          k3 \<leftarrow> update_user k2 (\<lambda>u. u\<lparr>us_open := (us_open u)[nat new_handle_slot := (Some eid, grp)]\<rparr>);
          k4 \<leftarrow> (case fst (us_open u ! nat new_handle_slot) of None \<Rightarrow> Some k3 | Some old \<Rightarrow> release_entity k3 old);
          Some (Value new_handle_slot, k4) }) })"

subsection \<open>Interlink\<close>

definition sys_interlink_advertise :: "kernel_env \<Rightarrow> kernel \<Rightarrow> uSize \<Rightarrow> uSize \<Rightarrow> u8 \<Rightarrow> (int expected \<times> kernel) option" where
  "sys_interlink_advertise env k address_str address_len grp =
     and_then (read_string_from_user env k address_str address_len) (\<lambda>address k1.
     and_then (advertise k1 address) (\<lambda>sid k2. do {
       (eid, k3) \<leftarrow> take_handle k2 sid;
       (slot, k4) \<leftarrow> allocate_entity_handle_slot k3 eid grp;
       Some (Value slot, k4) }))"

definition sys_interlink_connect :: "kernel_env \<Rightarrow> kernel \<Rightarrow> uSize \<Rightarrow> uSize \<Rightarrow> u8 \<Rightarrow> (int expected \<times> kernel) option" where
  "sys_interlink_connect env k address_str address_len grp =
     and_then (read_string_from_user env k address_str address_len) (\<lambda>address k1.
     and_then (interlink_lookup k1 address) (\<lambda>sid k2.
     and_then (server_connect k2 sid) (\<lambda>cid k3. allocate_new_entity k3 (ConnectionEntity cid CLIENT) grp)))"

definition sys_interlink_accept :: "kernel \<Rightarrow> int \<Rightarrow> u8 \<Rightarrow> bool \<Rightarrow> (int expected \<times> kernel) option" where
  "sys_interlink_accept k interlink_ed grp blocking =
     and_then (get_open_entity k interlink_ed) (\<lambda>eid k1.
     and_then (entity_step k1 eid) (\<lambda>e k2.
       case e of
         ServerEntity sid \<Rightarrow> do {
           (r, k3) \<leftarrow> server_accept k2 sid;
           (if blocking \<and> r = Err EAGAIN then None
            else and_then (Some (r, k3)) (\<lambda>cid k4. allocate_new_entity k4 (ConnectionEntity cid SERVER) grp)) }
       | _ \<Rightarrow> Some (Err ENOTSUP, k2)))"

definition sys_interlink_send :: "kernel_env \<Rightarrow> kernel \<Rightarrow> int \<Rightarrow> uSize \<Rightarrow> uSize \<Rightarrow> (int expected \<times> kernel) option" where
  "sys_interlink_send env k pipe_ed packet_ptr packet_len =
     and_then (get_open_entity k pipe_ed) (\<lambda>eid k1.
     and_then (entity_step k1 eid) (\<lambda>e k2.
       case e of
         ConnectionEntity cid side \<Rightarrow>
           and_then (create_user_buffer k2 packet_ptr packet_len False) (\<lambda>ub k3. do {
             buffer \<leftarrow> load_buffer env k3 ub;
             discard (connection_send k3 cid side buffer False) })
       | _ \<Rightarrow> Some (Err ENOTSUP, k2)))"

definition sys_interlink_receive :: "kernel_env \<Rightarrow> kernel \<Rightarrow> int \<Rightarrow> uSize \<Rightarrow> uSize \<Rightarrow> (int expected \<times> kernel) option" where
  "sys_interlink_receive env k pipe_ed buffer_ptr buffer_len =
     and_then (get_open_entity k pipe_ed) (\<lambda>eid k1.
     and_then (entity_step k1 eid) (\<lambda>e k2.
       case e of
         ConnectionEntity cid side \<Rightarrow>
           and_then (create_user_buffer k2 buffer_ptr buffer_len True) (\<lambda>ub k3. do {
             buffer \<leftarrow> load_buffer env k3 ub;
             (r, buffer1, k4) \<leftarrow> connection_receive env k3 cid side buffer False;
             k5 \<leftarrow> store_buffer env k4 ub buffer1;
             Some (map_value int r, k5) })
       | _ \<Rightarrow> Some (Err ENOTSUP, k2)))"

subsection \<open>Dispatch\<close>

datatype SysCall = Open | Close | Read | Write | Seek | Stat | GetDirEntries | Duplicate | ListDevices
  | OpenDevice | CommandDevice | Allocate | Deallocate | CreatePipe | GetPid | Fork | Exec | Exit | Wait
  | ChangeWorkingDirectory | InterlinkAdvertise | InterlinkConnect | InterlinkAccept | InterlinkSend
  | InterlinkReceive | Sleep | GetTicks

definition syscall_numbers :: "SysCall list" where
  "syscall_numbers = [Open, Close, Read, Write, Seek, Stat, GetDirEntries, Duplicate, ListDevices, OpenDevice,
     CommandDevice, Allocate, Deallocate, CreatePipe, GetPid, Fork, Exec, Exit, Wait, ChangeWorkingDirectory,
     InterlinkAdvertise, InterlinkConnect, InterlinkAccept, InterlinkSend, InterlinkReceive, Sleep, GetTicks]"

definition as_i32 :: "u64 \<Rightarrow> int" where
  "as_i32 x = sint (ucast x :: u32)"

definition seek_location :: "u64 \<Rightarrow> SeekLocation" where
  "seek_location x = (let l = ucast x :: u32 in if l = 1 then Current else if l = 2 then End else Start)"

text \<open>The arguments \<open>a 1\<close> to \<open>a 7\<close>, and the time in nanoseconds.\<close>

definition run_syscall :: "kernel_env \<Rightarrow> kernel \<Rightarrow> nat \<Rightarrow> SysCall \<Rightarrow> (nat \<Rightarrow> u64) \<Rightarrow> (int expected \<times> kernel) option" where
  "run_syscall env k now syscall a =
     (let n = (\<lambda>i. unat (a i)); i32 = (\<lambda>i. as_i32 (a i)); i64 = (\<lambda>i. sint (a i)); u8 = (\<lambda>i. ucast (a i) :: u8)
      in case syscall of
        Open \<Rightarrow> sys_open env k (n 1) (n 2) (ucast (a 3)) (i32 4) (n 5)
      | Close \<Rightarrow> sys_close k (i32 1)
      | Read \<Rightarrow> sys_read env k (i32 1) (n 2) (n 3) (n 4)
      | Write \<Rightarrow> sys_write env k (i32 1) (n 2) (n 3) (n 4)
      | Seek \<Rightarrow> sys_seek k (i32 1) (seek_location (a 2)) (i64 3)
      | GetDirEntries \<Rightarrow> sys_get_directory_entries env k (i32 1) (n 2) (n 3) (n 4)
      | Stat \<Rightarrow> sys_stat env k (i32 1) (n 2) (n 3) (n 5)
      | ListDevices \<Rightarrow> sys_list_devices env k (n 1) (n 2) (n 3)
      | OpenDevice \<Rightarrow> sys_open_device env k (n 1) (n 2)
      | CommandDevice \<Rightarrow> sys_message_device env k (i32 1) (a 2) (n 3) (n 4)
      | Allocate \<Rightarrow> sys_allocate env k (n 1) (n 2)
      | Deallocate \<Rightarrow> sys_deallocate env k (n 1) (n 2)
      | GetPid \<Rightarrow> sys_get_pid k
      | Fork \<Rightarrow> sys_fork env k
      | Sleep \<Rightarrow> Some (Value 0, k)
      | Exec \<Rightarrow> sys_execute env k (n 1) (n 2) (n 3) (n 4) (n 5) (n 6)
      | CreatePipe \<Rightarrow> sys_create_pipe env k (n 1) (a 2)
      | Duplicate \<Rightarrow> sys_duplicate k (i64 1) (i64 2) (u8 3)
      | Wait \<Rightarrow> sys_wait env k (i64 1) (n 2)
      | ChangeWorkingDirectory \<Rightarrow> sys_chdir env k (n 1) (n 2)
      | Exit \<Rightarrow> do {
          (switched, s) \<leftarrow> quit_process now (k_sched k) (i32 1);
          verify switched;
          Some (Value 0, k\<lparr>k_sched := s\<rparr>) }
      | InterlinkAdvertise \<Rightarrow> sys_interlink_advertise env k (n 1) (n 2) (u8 3)
      | InterlinkConnect \<Rightarrow> sys_interlink_connect env k (n 1) (n 2) (u8 3)
      | InterlinkAccept \<Rightarrow> sys_interlink_accept k (i64 1) (u8 2) (a 3 \<noteq> 0)
      | InterlinkSend \<Rightarrow> sys_interlink_send env k (i64 1) (n 2) (n 3)
      | InterlinkReceive \<Rightarrow> sys_interlink_receive env k (i64 1) (n 2) (n 3)
      | GetTicks \<Rightarrow> Some (Value (as_i64 (now mod 2 ^ 64)), k))"

definition handle_syscall :: "kernel_env \<Rightarrow> kernel \<Rightarrow> nat \<Rightarrow> u64 \<Rightarrow> (nat \<Rightarrow> u64) \<Rightarrow> (int expected \<times> kernel) option" where
  "handle_syscall env k now syscall_no a = do {
     _ \<leftarrow> current_user k;
     (if unat syscall_no < length syscall_numbers then run_syscall env k now (syscall_numbers ! unat syscall_no) a
      else Some (Err ENOTSUP, k)) }"

text \<open>\<open>handle_syscall_a64\<close>: the value that ends up in the first register.\<close>

fun error_number :: "ErrorCode \<Rightarrow> int" where
  "error_number ESUCCESS = 0"
| "error_number EACCES = 1"
| "error_number EADDRINUSE = 2"
| "error_number EAGAIN = 3"
| "error_number EBADF = 4"
| "error_number ECHILD = 5"
| "error_number EEXIST = 6"
| "error_number EFAIL = 7"
| "error_number EFAULT = 8"
| "error_number EFBIG = 9"
| "error_number EINVAL = 10"
| "error_number EIO = 11"
| "error_number ENODEV = 12"
| "error_number ENOENT = 13"
| "error_number ENOEXEC = 14"
| "error_number ENOMEM = 15"
| "error_number ENOTDIR = 16"
| "error_number ENOTSUP = 17"
| "error_number EOVERFLOW = 18"
| "error_number EPERM = 19"
| "error_number ERANGE = 20"
| "error_number ESPIPE = 21"

definition handle_syscall_a64 :: "kernel_env \<Rightarrow> kernel \<Rightarrow> nat \<Rightarrow> (nat \<Rightarrow> u64) \<Rightarrow> (u64 \<times> kernel) option" where
  "handle_syscall_a64 env k now x = do {
     (r, k1) \<leftarrow> handle_syscall env k now (x 0) x;
     Some (case r of Value v \<Rightarrow> of_int v | Err e \<Rightarrow> of_int (- error_number e), k1) }"

end
