(* ===== verification/Syscall_Safety.thy ===== *)
theory Syscall_Safety
  imports Process_Syscalls
begin

text \<open>
  What the system calls of a process do to the other processes, and what a process can do to the
  kernel.  \<open>keeps k r\<close> says that a step that started in \<open>k\<close> and has the result \<open>r\<close> leaves the
  other processes alone; its rules follow the steps that the calls are made of.
\<close>

named_theorems keeps_intros \<open>steps that leave the other processes alone\<close>

definition others_same :: "kernel \<Rightarrow> kernel \<Rightarrow> bool" where
  "others_same k k' \<longleftrightarrow> pm_current (k_sched k') = pm_current (k_sched k) \<and>
     (\<forall>j. j \<noteq> pm_current (k_sched k) \<longrightarrow> process_at (k_sched k') j = process_at (k_sched k) j)"

definition keeps :: "kernel \<Rightarrow> ('a \<times> kernel) option \<Rightarrow> bool" where
  "keeps k r \<longleftrightarrow> (\<forall>v k'. r = Some (v, k') \<longrightarrow> others_same k k')"

definition keeps_state :: "kernel \<Rightarrow> kernel option \<Rightarrow> bool" where
  "keeps_state k r \<longleftrightarrow> (\<forall>k'. r = Some k' \<longrightarrow> others_same k k')"

lemma others_same_refl [simp]: "others_same k k"
  by (simp add: others_same_def)

lemma others_same_trans: "others_same k k1 \<Longrightarrow> others_same k1 k2 \<Longrightarrow> others_same k k2"
  by (auto simp: others_same_def)

lemma others_same_sched: "k_sched k2 = k_sched k1 \<Longrightarrow> others_same k k2 \<longleftrightarrow> others_same k k1"
  by (simp add: others_same_def)

lemma keepsD: "keeps k r \<Longrightarrow> r = Some (v, k') \<Longrightarrow> others_same k k'"
  by (simp add: keeps_def)

lemma keeps_stateD: "keeps_state k r \<Longrightarrow> r = Some k' \<Longrightarrow> others_same k k'"
  by (simp add: keeps_state_def)

lemma keeps_None [keeps_intros]: "keeps k None"
  by (simp add: keeps_def)

lemma keeps_Some [keeps_intros]: "others_same k k1 \<Longrightarrow> keeps k (Some (v, k1))"
  by (simp add: keeps_def)

lemma keeps_state_None [keeps_intros]: "keeps_state k None"
  by (simp add: keeps_state_def)

lemma keeps_state_Some [keeps_intros]: "others_same k k1 \<Longrightarrow> keeps_state k (Some k1)"
  by (simp add: keeps_state_def)

lemma keeps_if [keeps_intros]: "(b \<Longrightarrow> keeps k r) \<Longrightarrow> (\<not> b \<Longrightarrow> keeps k r') \<Longrightarrow> keeps k (if b then r else r')"
  by simp

lemma keeps_state_if [keeps_intros]: "keeps_state k r \<Longrightarrow> keeps_state k r' \<Longrightarrow> keeps_state k (if b then r else r')"
  by simp

lemma keeps_and_then [keeps_intros]:
  "keeps k r \<Longrightarrow> (\<And>v k1. others_same k k1 \<Longrightarrow> keeps k (f v k1)) \<Longrightarrow> keeps k (and_then r f)"
  by (cases "(r, f)" rule: and_then.cases) (auto simp: keeps_def)

lemma keeps_bind_state [keeps_intros]:
  "keeps_state k r \<Longrightarrow> (\<And>k1. others_same k k1 \<Longrightarrow> keeps k (f k1)) \<Longrightarrow> keeps k (r \<bind> f)"
  by (cases r) (auto simp: keeps_def keeps_state_def)

lemma keeps_bind_pair [keeps_intros]:
  "keeps k r \<Longrightarrow> (\<And>v k1. others_same k k1 \<Longrightarrow> keeps k (f v k1)) \<Longrightarrow> keeps k (r \<bind> (\<lambda>(v, k1). f v k1))"
  by (cases r) (auto simp: keeps_def)

lemma keeps_bind_value: "(\<And>x. keeps k (f x)) \<Longrightarrow> keeps k (r \<bind> f)"
  by (cases r) (auto simp: keeps_def)

lemma keeps_state_bind [keeps_intros]:
  "keeps_state k r \<Longrightarrow> (\<And>k1. others_same k k1 \<Longrightarrow> keeps_state k (f k1)) \<Longrightarrow> keeps_state k (r \<bind> f)"
  by (cases r) (auto simp: keeps_state_def)

lemma keeps_state_bind_value: "(\<And>x. keeps_state k (f x)) \<Longrightarrow> keeps_state k (r \<bind> f)"
  by (cases r) (auto simp: keeps_state_def)

subsection \<open>The steps\<close>

lemma update_process_same:
  "update_process s i f = Some s' \<Longrightarrow> pm_current s' = pm_current s \<and> (\<forall>j. j \<noteq> i \<longrightarrow> process_at s' j = process_at s j)"
  by (auto simp: update_process_def process_at_def split: bind_splits)

lemma keeps_update_user [keeps_intros]: "others_same k k1 \<Longrightarrow> keeps_state k (update_user k1 f)"
  by (auto simp: keeps_state_def update_user_def others_same_def dest!: update_process_same split: bind_splits)

lemma keeps_get_open_entity [keeps_intros]: "others_same k k1 \<Longrightarrow> keeps k (get_open_entity k1 e)"
  by (auto simp: keeps_def get_open_entity_def split: bind_splits)

lemma keeps_entity_step [keeps_intros]: "others_same k k1 \<Longrightarrow> keeps k (entity_step k1 e)"
  by (auto simp: keeps_def entity_step_def split: bind_splits)

lemma keeps_pure_step [keeps_intros]: "others_same k k1 \<Longrightarrow> keeps k (pure_step r k1)"
  by (simp add: keeps_def pure_step_def)

lemma keeps_cwd_step [keeps_intros]: "others_same k k1 \<Longrightarrow> keeps k (cwd_step k1)"
  by (auto simp: keeps_def cwd_step_def split: bind_splits)

lemma keeps_lookup_step [keeps_intros]: "others_same k k1 \<Longrightarrow> keeps k (lookup_step k1 r p)"
  by (auto simp: keeps_def lookup_step_def set_registry_def others_same_def split: bind_splits)

lemma keeps_user_store [keeps_intros]: "others_same k k1 \<Longrightarrow> keeps_state k (user_store env k1 a bs)"
proof (induction env k1 a bs rule: user_store.induct)
  case (2 env k1 a b bs)
  then show ?case by (auto simp: keeps_state_def others_same_def split: bind_splits)
qed (simp add: keeps_state_def)

lemma keeps_create_user_buffer [keeps_intros]: "others_same k k1 \<Longrightarrow> keeps k (create_user_buffer k1 p n w)"
  by (auto simp: keeps_def create_user_buffer_def split: bind_splits if_splits)

lemma keeps_store_buffer [keeps_intros]: "others_same k k1 \<Longrightarrow> keeps_state k (store_buffer env k1 b t)"
  by (simp add: store_buffer_def keeps_user_store)

lemma keeps_user_clear [keeps_intros]: "others_same k k1 \<Longrightarrow> keeps_state k (user_clear env k1 b)"
  by (simp add: user_clear_def keeps_user_store)

lemma keeps_user_write_from [keeps_intros]: "others_same k k1 \<Longrightarrow> keeps k (user_write_from env k1 b bs off)"
  unfolding user_write_from_def
  by (intro keeps_if keeps_Some keeps_bind_value keeps_bind_state keeps_user_store) simp_all

lemma keeps_read_string [keeps_intros]: "others_same k k1 \<Longrightarrow> keeps k (read_string_from_user env k1 p n)"
  by (auto simp: keeps_def read_string_from_user_def split: bind_splits if_splits)

lemma others_same_new_entity: "others_same k k1 \<Longrightarrow> new_entity k1 e = (eid, k2) \<Longrightarrow> others_same k k2"
  by (auto simp: new_entity_def others_same_def)

lemma keeps_allocate_slot [keeps_intros]: "others_same k k1 \<Longrightarrow> keeps k (allocate_entity_handle_slot k1 eid g)"
  unfolding allocate_entity_handle_slot_def
  by (intro keeps_bind_value keeps_bind_state keeps_Some keeps_update_user) simp_all

lemma keeps_bind_slot [keeps_intros]:
  "keeps k r \<Longrightarrow> (\<And>v k1. others_same k k1 \<Longrightarrow> keeps_state k (f v k1)) \<Longrightarrow> keeps_state k (r \<bind> (\<lambda>(v, k1). f v k1))"
  by (cases r) (auto simp: keeps_def keeps_state_def)

lemma keeps_allocate_new_entity [keeps_intros]: "others_same k k1 \<Longrightarrow> keeps k (allocate_new_entity k1 e g)"
  unfolding allocate_new_entity_def Let_def new_entity_def prod.case
  by (intro keeps_bind_pair keeps_Some keeps_allocate_slot) (auto simp: others_same_def)

lemma keeps_acquire_entity [keeps_intros]: "others_same k k1 \<Longrightarrow> keeps_state k (acquire_entity k1 eid)"
  by (auto simp: keeps_state_def acquire_entity_def others_same_def split: bind_splits)

lemma keeps_release_connection [keeps_intros]: "others_same k k1 \<Longrightarrow> keeps_state k (release_connection k1 cid)"
  by (auto simp: keeps_state_def release_connection_def others_same_def split: bind_splits if_splits)

lemma keeps_detach_handle [keeps_intros]: "others_same k k1 \<Longrightarrow> keeps_state k (detach_handle k1 sid eid)"
  by (auto simp: keeps_state_def detach_handle_def others_same_def split: bind_splits)

lemma keeps_destroy_entity [keeps_intros]: "others_same k k1 \<Longrightarrow> keeps_state k (destroy_entity k1 eid e)"
  by (auto simp: destroy_entity_def intro: keeps_intros split: entity.split)

lemma keeps_release_entity [keeps_intros]: "others_same k k1 \<Longrightarrow> keeps_state k (release_entity k1 eid)"
  unfolding release_entity_def
  by (intro keeps_state_bind_value keeps_state_if keeps_destroy_entity keeps_state_Some)
    (simp_all add: others_same_def)

subsection \<open>Operations on entities and connections\<close>

lemma others_same_fields [simp]:
  "others_same k (k1\<lparr>k_mm := mm\<rparr>) = others_same k k1"
  "others_same k (k1\<lparr>k_fs := fs\<rparr>) = others_same k k1"
  "others_same k (k1\<lparr>k_entities := es\<rparr>) = others_same k k1"
  "others_same k (k1\<lparr>k_pipes := ps\<rparr>) = others_same k k1"
  "others_same k (k1\<lparr>k_servers := svs\<rparr>) = others_same k k1"
  "others_same k (k1\<lparr>k_addresses := t\<rparr>) = others_same k k1"
  "others_same k (k1\<lparr>k_connections := cs\<rparr>) = others_same k k1"
  "others_same k (k1\<lparr>k_next := n\<rparr>) = others_same k k1"
  by (simp_all add: others_same_def)

lemma others_same_set_entity [simp]: "others_same k (set_entity k1 eid e) = others_same k k1"
  by (simp add: set_entity_def)

lemma others_same_set_fs [simp]: "others_same k (set_fs k1 i st) = others_same k k1"
  by (simp add: set_fs_def)

lemma others_same_set_registry [simp]: "others_same k (set_registry k1 g) = others_same k k1"
  by (simp add: set_registry_def)

text \<open>Binds of values that carry no kernel; the type of the value keeps the rule off the other binds.\<close>

lemmas keeps_bind_plain [keeps_intros] =
  keeps_bind_value [where 'a = UserspaceState]
  keeps_bind_value [where 'a = TransactionalBuffer]
  keeps_bind_value [where 'a = unit]
  keeps_bind_value [where 'a = server]
  keeps_bind_value [where 'a = bool]
  keeps_bind_value [where 'a = "UserspaceState Process"]
  keeps_bind_value [where 'a = "(nat \<times> nat option) option"]
  keeps_bind_value [where 'a = "nat option"]
  keeps_bind_value [where 'a = "uSize expected \<times> u8 list"]
  keeps_bind_value [where 'a = "int expected \<times> TransactionalBuffer"]
  keeps_bind_value [where 'a = "nat expected \<times> mm_state"]
  keeps_bind_value [where 'a = "region expected \<times> mm_state \<times> space_manager"]
  keeps_bind_value [where 'a = "ErrorCode \<times> mm_state \<times> space_manager"]
  keeps_bind_value [where 'a = "entry_ref expected \<times> entry_ref option \<times> fs_registry"]
  keeps_bind_value [where 'a = "fat_entry list expected \<times> fat"]

lemma keeps_prod [keeps_intros]: "(\<And>a b. keeps k (f a b)) \<Longrightarrow> keeps k (case x of (a, b) \<Rightarrow> f a b)"
  by (cases x) simp

lemma keeps_prod_applied [keeps_intros]:
  "(\<And>a b. keeps k (f a b y)) \<Longrightarrow> keeps k ((case x of (a, b) \<Rightarrow> f a b) y)"
  by (cases x) simp

lemma keeps_expected [keeps_intros]:
  "(\<And>v. keeps k (f v)) \<Longrightarrow> (\<And>e. keeps k (g e)) \<Longrightarrow> keeps k (case x of Value v \<Rightarrow> f v | Err e \<Rightarrow> g e)"
  by (cases x) simp_all

lemma keeps_option [keeps_intros]:
  "keeps k g \<Longrightarrow> (\<And>v. keeps k (f v)) \<Longrightarrow> keeps k (case x of None \<Rightarrow> g | Some v \<Rightarrow> f v)"
  by (cases x) simp_all

lemma keeps_Let [keeps_intros]: "(\<And>v. v = x \<Longrightarrow> keeps k (f v)) \<Longrightarrow> keeps k (let v = x in f v)"
  by simp

lemma keeps_state_option [keeps_intros]:
  "keeps_state k g \<Longrightarrow> (\<And>v. keeps_state k (f v)) \<Longrightarrow> keeps_state k (case x of None \<Rightarrow> g | Some v \<Rightarrow> f v)"
  by (cases x) simp_all

text \<open>The kernel that a step with a buffer leaves.\<close>

definition keeps3 :: "kernel \<Rightarrow> ('a \<times> 'b \<times> kernel) option \<Rightarrow> bool" where
  "keeps3 k r \<longleftrightarrow> (\<forall>v b k'. r = Some (v, b, k') \<longrightarrow> others_same k k')"

lemma keeps_bind_triple [keeps_intros]:
  "keeps3 k r \<Longrightarrow> (\<And>v b k1. others_same k k1 \<Longrightarrow> keeps k (f v b k1)) \<Longrightarrow>
   keeps k (r \<bind> (\<lambda>(v, b, k1). f v b k1))"
  by (cases r) (auto simp: keeps_def keeps3_def)

lemma keeps3_intros:
  "others_same k k1 \<Longrightarrow> keeps3 k (Some (v, b, k1))"
  "(c \<Longrightarrow> keeps3 k r) \<Longrightarrow> (\<not> c \<Longrightarrow> keeps3 k r') \<Longrightarrow> keeps3 k (if c then r else r')"
  "keeps k q \<Longrightarrow> (\<And>w k1. others_same k k1 \<Longrightarrow> keeps3 k (f w k1)) \<Longrightarrow> keeps3 k (q \<bind> (\<lambda>(w, k1). f w k1))"
  "(\<And>w. keeps3 k (g w)) \<Longrightarrow> (\<And>e. keeps3 k (h e)) \<Longrightarrow> keeps3 k (case x of Value w \<Rightarrow> g w | Err e \<Rightarrow> h e)"
  by (auto simp: keeps3_def keeps_def split: bind_splits expected.splits)

lemma keeps_entity_read [keeps_intros]: "others_same k k1 \<Longrightarrow> keeps3 k (entity_read k1 eid off buffer)"
  by (auto simp: keeps3_def entity_read_def split: bind_splits entity.splits)

lemma keeps_entity_write [keeps_intros]: "others_same k k1 \<Longrightarrow> keeps3 k (entity_write k1 eid off buffer)"
  by (auto simp: keeps3_def entity_write_def split: bind_splits entity.splits)

lemma keeps_entity_seek [keeps_intros]: "others_same k k1 \<Longrightarrow> keeps k (entity_seek k1 eid location off)"
  by (auto simp: keeps_def entity_seek_def split: bind_splits entity.splits prod.splits)

lemma keeps_children_step [keeps_intros]: "others_same k k1 \<Longrightarrow> keeps k (children_step k1 e)"
  by (auto simp: keeps_def children_step_def split: bind_splits entity.splits)

lemma keeps_entity [keeps_intros]:
  "(\<And>i h. keeps k (f1 i h)) \<Longrightarrow> keeps k f2 \<Longrightarrow> keeps k f3 \<Longrightarrow> (\<And>h p. keeps k (f4 h p)) \<Longrightarrow>
   (\<And>d. keeps k (f5 d)) \<Longrightarrow> (\<And>s. keeps k (f6 s)) \<Longrightarrow> (\<And>c s. keeps k (f7 c s)) \<Longrightarrow>
   keeps k (case e of FileEntity i h \<Rightarrow> f1 i h | NullEntity \<Rightarrow> f2 | SerialEntity \<Rightarrow> f3 | PipeEntity h p \<Rightarrow> f4 h p
     | DeviceEntity d \<Rightarrow> f5 d | ServerEntity s \<Rightarrow> f6 s | ConnectionEntity c s \<Rightarrow> f7 c s)"
  by (cases e) simp_all

lemma keeps_open_root [keeps_intros]: "others_same k k1 \<Longrightarrow> keeps k (open_root k1 parent)"
  unfolding open_root_def by (intro keeps_intros) simp_all

lemma keeps_write_stat [keeps_intros]: "others_same k k1 \<Longrightarrow> keeps k (write_stat env k1 a e)"
  unfolding write_stat_def by (intro keeps_intros) simp_all

lemma keeps_sys_open: "keeps k (sys_open env k a n flags parent st)"
  unfolding sys_open_def by (intro keeps_intros) simp_all

lemma keeps_sys_read: "keeps k (sys_read env k h off a n)"
  unfolding sys_read_def by (intro keeps_intros) simp_all

lemma keeps_sys_write: "keeps k (sys_write env k h off a n)"
  unfolding sys_write_def by (intro keeps_intros) simp_all

lemma keeps_sys_close: "keeps k (sys_close k h)"
  unfolding sys_close_def by (intro keeps_intros) simp_all

lemma keeps_sys_seek: "keeps k (sys_seek k h location off)"
  unfolding sys_seek_def by (intro keeps_intros) simp_all

lemma keeps_sys_stat: "keeps k (sys_stat env k h a n st)"
  unfolding sys_stat_def by (intro keeps_intros) simp_all

lemma keeps_list_entries [keeps_intros]: "others_same k k1 \<Longrightarrow> keeps k (list_entries env k1 b entries off at)"
proof (induction "length entries - off" arbitrary: k1 off at rule: less_induct)
  case less
  have IH: "keeps k (list_entries env k2 b entries (off + 1) at')"
    if "off < length entries" and "others_same k k2" for k2 at'
    by (rule less.hyps) (use that in simp_all)
  show ?case
    by (subst list_entries.simps) (intro keeps_intros IH; simp add: less.prems)
qed

lemma keeps_sys_get_directory_entries: "keeps k (sys_get_directory_entries env k h off a n)"
  unfolding sys_get_directory_entries_def by (intro keeps_intros) simp_all

lemma keeps_sys_allocate: "keeps k (sys_allocate env k a n)"
  unfolding sys_allocate_def by (intro keeps_intros) simp_all

lemma keeps_sys_deallocate: "keeps k (sys_deallocate env k a n)"
  unfolding sys_deallocate_def by (intro keeps_intros) simp_all


lemma keeps_list_devices: "others_same k k1 \<Longrightarrow> keeps3 k (list_devices env k1 b ds at n)"
proof (induction ds arbitrary: k1 at n)
  case (Cons d ds)
  obtain name p where d: "d = (name, p)" by fastforce
  show ?case
    unfolding d list_devices.simps Let_def
    by (intro keeps3_intros keeps_user_write_from Cons.IH) (simp_all add: Cons.prems)
qed (auto simp: keeps3_def)

lemma keeps_sys_list_devices: "keeps k (sys_list_devices env k a n proto)"
  unfolding sys_list_devices_def by (intro keeps_intros keeps_list_devices) simp_all

lemma keeps_sys_open_device: "keeps k (sys_open_device env k a n)"
  unfolding sys_open_device_def by (intro keeps_intros) simp_all

lemma keeps_sys_message_device: "keeps k (sys_message_device env k h msg a n)"
  unfolding sys_message_device_def by (intro keeps_intros) simp_all

lemma keeps_sys_get_pid: "keeps k (sys_get_pid k)"
  unfolding sys_get_pid_def by (intro keeps_intros) simp_all

lemma keeps_sys_chdir: "keeps k (sys_chdir env k a n)"
  unfolding sys_chdir_def by (intro keeps_intros) simp_all

lemma keeps_sys_create_pipe: "keeps k (sys_create_pipe env k a flags)"
  unfolding sys_create_pipe_def by (intro keeps_intros) simp_all

lemma keeps_sys_duplicate: "keeps k (sys_duplicate k h slot g)"
  unfolding sys_duplicate_def by (intro keeps_intros) simp_all

lemma keeps_take_handle [keeps_intros]: "others_same k k1 \<Longrightarrow> keeps k (take_handle k1 sid)"
  unfolding take_handle_def new_entity_def Let_def prod.case by (intro keeps_intros) simp_all

lemma keeps_advertise [keeps_intros]: "others_same k k1 \<Longrightarrow> keeps k (advertise k1 name)"
  by (auto simp: keeps_def advertise_def Let_def split: bind_splits if_splits)

lemma keeps_server_accept [keeps_intros]: "others_same k k1 \<Longrightarrow> keeps k (server_accept k1 sid)"
  by (auto simp: keeps_def server_accept_def split: bind_splits if_splits)

lemma keeps_server_connect [keeps_intros]: "others_same k k1 \<Longrightarrow> keeps k (server_connect k1 sid)"
  by (auto simp: keeps_def server_connect_def Let_def split: bind_splits)

lemma keeps_interlink_lookup [keeps_intros]: "others_same k k1 \<Longrightarrow> keeps k (interlink_lookup k1 name)"
  by (auto simp: keeps_def interlink_lookup_def split: bind_splits)

lemma keeps_sys_interlink_advertise: "keeps k (sys_interlink_advertise env k a n g)"
  unfolding sys_interlink_advertise_def by (intro keeps_intros) simp_all

lemma keeps_sys_interlink_connect: "keeps k (sys_interlink_connect env k a n g)"
  unfolding sys_interlink_connect_def by (intro keeps_intros) simp_all

lemma keeps_sys_interlink_accept: "keeps k (sys_interlink_accept k h g blocking)"
  unfolding sys_interlink_accept_def by (intro keeps_intros) simp_all

subsection \<open>Messages\<close>

lemma others_same_acquire: "acquire_entity k1 eid = Some k2 \<Longrightarrow> others_same k k1 \<Longrightarrow> others_same k k2"
  by (rule keeps_stateD [OF keeps_acquire_entity])

lemma others_same_update_user: "update_user k1 f = Some k2 \<Longrightarrow> others_same k k1 \<Longrightarrow> others_same k k2"
  by (rule keeps_stateD [OF keeps_update_user])

lemma others_same_slot:
  "allocate_entity_handle_slot k1 eid g = Some (slot, k2) \<Longrightarrow> others_same k k1 \<Longrightarrow> others_same k k2"
  by (rule keepsD [OF keeps_allocate_slot])

lemma keeps_send_item:
  assumes "send_item k1 buffer q blocking final mid item = Some (r, q', k2)" and "others_same k k1"
  shows "others_same k k2"
  using assms
  by (cases item)
    (auto simp: send_item_def Let_def split: prod.splits bind_splits expected.splits if_splits
      dest!: others_same_acquire)

lemma keeps_send_items:
  assumes "send_items k1 buffer q blocking mid i n = Some (r, q', k2)" and "others_same k k1"
  shows "others_same k k2"
  using assms
proof (induction n arbitrary: k1 q i)
  case (Suc n)
  show ?case
  proof (cases "read_item buffer i")
    case (Some x)
    show ?thesis
    proof (cases x)
      case (Value item)
      obtain res q1 k2' where step: "send_item k1 buffer q blocking (n = 0) mid item = Some (res, q1, k2')"
        using Suc.prems(1) Some Value by (auto split: bind_splits)
      show ?thesis
        using Suc.prems(1) Suc.IH keeps_send_item [OF step Suc.prems(2)]
        by (auto simp: Some Value step split: expected.splits)
    qed (use Suc.prems Some in auto)
  qed (use Suc.prems in auto)
qed simp

lemma keeps_connection_send [keeps_intros]:
  "others_same k k1 \<Longrightarrow> keeps k (connection_send k1 cid side buffer blocking)"
  by (auto simp: keeps_def connection_send_def write_to_queue_def Let_def
      split: bind_splits expected.splits if_splits dest: keeps_send_items)

lemma keeps_receive_item:
  assumes "receive_item env k1 buffer ring item i off = Some (r, b', ring', k2)" and "others_same k k1"
  shows "others_same k k2"
  using assms
  by (cases item)
    (auto simp: receive_item_def split: bind_splits expected.splits
      dest!: others_same_slot others_same_update_user [where k = k])

lemma keeps_receive_items:
  assumes "receive_items env k1 buffer q i n off = Some (r, b', q', k2)" and "others_same k k1"
  shows "others_same k k2"
  using assms
proof (induction n arbitrary: k1 buffer q i off)
  case (Suc n)
  obtain ring item rest where q: "q = (ring, item # rest)"
    using Suc.prems(1) by (cases q) (auto split: list.splits)
  obtain res buffer1 ring1 k2' where step: "receive_item env k1 buffer ring item i off = Some (res, buffer1, ring1, k2')"
    using Suc.prems(1) by (auto simp: q split: bind_splits)
  show ?case
    using Suc.prems(1) Suc.IH keeps_receive_item [OF step Suc.prems(2)]
    by (auto simp: q step split: expected.splits)
qed simp

lemma keeps_connection_receive [keeps_intros]:
  "others_same k k1 \<Longrightarrow> keeps3 k (connection_receive env k1 cid side buffer blocking)"
  by (auto simp: keeps3_def connection_receive_def read_from_queue_def Let_def
      split: bind_splits expected.splits if_splits prod.splits dest: keeps_receive_items)

lemma keeps_discard [keeps_intros]: "keeps k r \<Longrightarrow> keeps k (discard r)"
  by (auto simp: keeps_def discard_def)

lemma keeps_sys_interlink_send: "keeps k (sys_interlink_send env k h a n)"
  unfolding sys_interlink_send_def by (intro keeps_intros) simp_all

lemma keeps_sys_interlink_receive: "keeps k (sys_interlink_receive env k h a n)"
  unfolding sys_interlink_receive_def by (intro keeps_intros) simp_all

subsection \<open>Execution\<close>

definition sched_same :: "kernel \<Rightarrow> UserspaceState ProcessManager \<Rightarrow> bool" where
  "sched_same k s \<longleftrightarrow> pm_current s = pm_current (k_sched k) \<and>
     (\<forall>j. j \<noteq> pm_current (k_sched k) \<longrightarrow> process_at s j = process_at (k_sched k) j)"

lemma others_same_k_sched [simp]: "others_same k (k1\<lparr>k_sched := s\<rparr>) = sched_same k s"
  by (simp add: others_same_def sched_same_def)

lemma sched_same_kernel: "others_same k k1 \<Longrightarrow> sched_same k (k_sched k1)"
  by (simp add: others_same_def sched_same_def)

lemma keeps_bind_sched:
  "sched_same k s \<Longrightarrow> (\<And>s'. sched_same k s' \<Longrightarrow> keeps k (f s')) \<Longrightarrow>
   keeps k (update_process s (pm_current s) g \<bind> f)"
  by (cases "update_process s (pm_current s) g") (auto simp: keeps_def sched_same_def dest!: update_process_same)

lemma keeps_drop_handles [keeps_intros]: "others_same k k1 \<Longrightarrow> keeps_state k (drop_handles k1 hs)"
proof (induction k1 hs rule: drop_handles.induct)
  case (2 k1 h g hs)
  show ?case
  proof (cases "case h of None \<Rightarrow> Some k1 | Some eid \<Rightarrow> release_entity k1 eid")
    case (Some k2)
    then have "others_same k k2"
      using "2.prems" by (auto split: option.splits dest: keeps_stateD [OF keeps_release_entity])
    then show ?thesis using "2.IH" Some by simp
  qed (simp add: keeps_state_def)
qed (simp add: keeps_state_def)

lemma keeps_drop_space [keeps_intros]: "others_same k k1 \<Longrightarrow> keeps_state k (drop_space k1 sm)"
  by (auto simp: keeps_state_def drop_space_def split: bind_splits)

lemma keeps_drop_user_state [keeps_intros]: "others_same k k1 \<Longrightarrow> keeps_state k (drop_user_state k1 u)"
  unfolding drop_user_state_def by (intro keeps_intros)

lemmas keeps_bind_exec =
  keeps_bind_value [where 'a = "ElfFile expected \<times> fs_registry"]
  keeps_bind_value [where 'a = "space_manager \<times> mm_state"]
  keeps_bind_value [where 'a = "uSize expected \<times> mm_state \<times> fs_registry \<times> space_manager"]
  keeps_bind_value [where 'a = "nat expected \<times> mm_state \<times> space_manager"]
  keeps_bind_value [where 'a = "backing_object"]
  keeps_bind_value [where 'a = "region"]
  keeps_bind_value [where 'a = "init_stack expected"]
  keeps_bind_value [where 'a = "mm_state"]

lemma keeps_build_user_state [keeps_intros]:
  "others_same k k1 \<Longrightarrow> keeps k (build_user_state env k1 executable cwd handles arguments environ)"
  unfolding build_user_state_def Let_def
  by (intro keeps_intros keeps_bind_exec) simp_all

lemma keeps_execute_current [keeps_intros]:
  "others_same k k1 \<Longrightarrow> keeps k (execute_current env k1 executable cwd handles arguments environ)"
  unfolding execute_current_def enter_critical_def
  by (intro keeps_intros keeps_bind_sched; (rule sched_same_kernel)?; assumption?) simp_all


lemma sched_same_current: "sched_same k s \<Longrightarrow> sched_same k (s\<lparr>pm_space := x\<rparr>)"
  by (auto simp: sched_same_def process_at_def)

lemma keeps_read_strings [keeps_intros]: "others_same k k1 \<Longrightarrow> keeps k (read_strings env k1 ps)"
proof (induction ps arbitrary: k1)
  case (Cons p ps)
  show ?case
    by (cases p) (simp, intro keeps_intros Cons.IH; simp add: Cons.prems)
qed (simp add: keeps_def)

lemma keeps_read_string_array [keeps_intros]: "others_same k k1 \<Longrightarrow> keeps k (read_string_array env k1 a n)"
  unfolding read_string_array_def by (intro keeps_intros) simp_all

lemma keeps_exec_arguments [keeps_intros]: "others_same k k1 \<Longrightarrow> keeps k (exec_arguments env k1 a n b m c l)"
  unfolding exec_arguments_def by (intro keeps_intros) simp_all

lemma keeps_sys_execute: "keeps k (sys_execute env k a n b m c l)"
  unfolding sys_execute_def exit_critical_def
  by (intro keeps_intros keeps_bind_sched; (rule sched_same_kernel)?; assumption?) (simp_all add: sched_same_current)

subsection \<open>Isolation\<close>

text \<open> C1: Processes do not touch each other.  Whatever its arguments, a system call that returns,
  other than \<open>Fork\<close>, \<open>Wait\<close> and \<open>Exit\<close>, leaves the process the current one and every other
  process of the table as it was: its state, its scheduling counters, its address space, its
  directory and its open entities.\<close>

theorem syscall_isolation:
  assumes "run_syscall env k now syscall a = Some (r, k')" and "syscall \<notin> {Fork, Wait, Exit}"
  shows "pm_current (k_sched k') = pm_current (k_sched k) \<and>
    (\<forall>j. j \<noteq> pm_current (k_sched k) \<longrightarrow> process_at (k_sched k') j = process_at (k_sched k) j)"
proof -
  have "keeps k (run_syscall env k now syscall a)"
    using assms(2)
    by (cases syscall)
      (simp_all add: run_syscall_def keeps_sys_open keeps_sys_close keeps_sys_read keeps_sys_write keeps_sys_seek
        keeps_sys_stat keeps_sys_get_directory_entries keeps_sys_duplicate keeps_sys_list_devices keeps_sys_open_device
        keeps_sys_message_device keeps_sys_allocate keeps_sys_deallocate keeps_sys_create_pipe keeps_sys_get_pid
        keeps_sys_execute keeps_sys_chdir keeps_sys_interlink_advertise keeps_sys_interlink_connect
        keeps_sys_interlink_accept keeps_sys_interlink_send keeps_sys_interlink_receive keeps_Some)
  then show ?thesis using keepsD [OF _ assms(1)] unfolding others_same_def by blast
qed

subsection \<open>A failed exec\<close>

lemma release_entity_sched: "release_entity k eid = Some k1 \<Longrightarrow> k_sched k1 = k_sched k"
  by (auto simp: release_entity_def destroy_entity_def detach_handle_def release_connection_def
      split: bind_splits if_splits entity.splits)

lemma drop_handles_sched: "drop_handles k hs = Some k1 \<Longrightarrow> k_sched k1 = k_sched k"
proof (induction k hs rule: drop_handles.induct)
  case (2 k h g hs)
  then show ?case
    by (cases h) (auto split: bind_splits dest!: release_entity_sched)
qed simp

lemma is_critical_update:
  assumes "update_process s (pm_current s) f = Some s'" and "\<And>p. pr_preempt (f p) = pr_preempt p"
  shows "is_critical s' = is_critical s"
  using assms by (auto simp: update_process_def is_critical_def current_process_def process_at_def split: bind_splits if_splits)

lemma update_user_critical:
  assumes "update_user k f = Some k1"
  shows "is_critical (k_sched k1) = is_critical (k_sched k)" and "k_fs k1 = k_fs k"
  using assms by (auto simp: update_user_def split: bind_splits dest: is_critical_update)

text \<open> C15: An \<open>Exec\<close> that fails to load its file stops the kernel.  The failure is returned before the
  critical section is entered, and \<open>sys_execute\<close> insists on being in one: so a process outside a
  critical section that executes anything that is no valid executable, a directory or an empty
  file say, panics the kernel.\<close>

theorem exec_failure_panics:
  assumes "exec_arguments env k path path_len args args_n environ environ_n = Some (Value (entry, arguments, variables), k1)"
    and "parse_file (k_fs k1) entry = Some (Err e, g)" and "is_critical (k_sched k1) = Some False"
  shows "sys_execute env k path path_len args args_n environ environ_n = None"
proof -
  have "is_critical (k_sched k3) = Some False"
    if "update_user k1 f = Some k2" and "execute_current env k2 entry cwd hs arguments variables = Some (r, k3)" for f k2 cwd hs r k3
  proof -
    have "drop_handles (k2\<lparr>k_fs := g\<rparr>) hs = Some k3"
      using that(2) assms(2) update_user_critical(2) [OF that(1)]
      by (auto simp: execute_current_def build_user_state_def Let_def split: bind_splits)
    then show ?thesis
      using drop_handles_sched update_user_critical(1) [OF that(1)] assms(3) by force
  qed
  then have no_critical: "is_critical (k_sched k3) \<bind> (\<lambda>c. verify c \<bind> f) = None"
    if "update_user k1 u = Some k2" and "execute_current env k2 entry cwd hs arguments variables = Some (r, k3)" for u k2 cwd hs r k3 f
    using that by (simp add: verify_def)
  show ?thesis
  proof (cases "current_user k1 \<bind> (\<lambda>u. update_user k1 (\<lambda>u. u\<lparr>us_open := []\<rparr>) \<bind>
      (\<lambda>k2. map_option (\<lambda>x. (k2, x)) (execute_current env k2 entry (us_cwd u) (us_open u) arguments variables)))")
    case None
    then show ?thesis by (auto simp: sys_execute_def assms(1) bind_eq_None_conv)
  next
    case (Some x)
    then show ?thesis by (auto simp: sys_execute_def assms(1) no_critical split: bind_splits)
  qed
qed

text \<open>Two processes; the first is current and has one open entity, in its second slot.\<close>

definition demo_user :: UserspaceState where
  "demo_user = \<lparr>us_stack_top = 0, us_cwd = (0, root_entry), us_space = demo_space, us_open = [(None, 0), (Some 5, 0)]\<rparr>"

definition demo_user_process :: "int \<Rightarrow> UserspaceState Process" where
  "demo_user_process i = (process_new [] None \<lparr>rg_start = 0, rg_size = 0\<rparr>)
     \<lparr>pr_pid := i, pr_state := Running, pr_userspace := Some demo_user\<rparr>"

definition demo_kernel :: kernel where
  "demo_kernel = \<lparr>k_mm = demo_mm, k_fs = demo_registry,
     k_sched = \<lparr>pm_processes = [Some (demo_user_process 0), Some (demo_user_process 1)], pm_current = 0,
                pm_last_nanoseconds = 0, pm_space = Some 0\<rparr>,
     k_entities = [5 \<mapsto> \<lparr>eo_entity = NullEntity, eo_ref_count = 2\<rparr>], k_pipes = Map.empty, k_servers = Map.empty,
     k_addresses = hashtable_new 8, k_connections = Map.empty, k_devices = hashtable_new 8, k_next = 6\<rparr>"

lemma demo_current: "current_user demo_kernel = Some demo_user"
  by (simp add: current_user_def current_process_def process_at_def demo_kernel_def demo_user_process_def)

theorem syscall_isolation_witness:
  "\<forall>env. \<exists>k'. run_syscall env demo_kernel 0 Close (\<lambda>_. 1) = Some (Value 0, k') \<and>
     process_at (k_sched k') 1 = Some (demo_user_process 1) \<and> process_at (k_sched k') 0 \<noteq> Some (demo_user_process 0)"
proof
  fix env
  have "\<exists>k'. run_syscall env demo_kernel 0 Close (\<lambda>_. 1) = Some (Value 0, k') \<and>
      process_at (k_sched k') 0 \<noteq> Some (demo_user_process 0)"
  proof -
    have "fst (us_open demo_user ! 1) = Some 5" "length (us_open demo_user) = 2" by (simp_all add: demo_user_def)
    then obtain g where slot: "us_open demo_user ! 1 = (Some 5, g)" "length (us_open demo_user) = 2"
      by (cases "us_open demo_user ! 1") auto
    obtain k1 where k1: "update_user demo_kernel (\<lambda>u. u\<lparr>us_open := (us_open u)[1 := (None, g)]\<rparr>) = Some k1"
        "k_entities k1 = [5 \<mapsto> \<lparr>eo_entity = NullEntity, eo_ref_count = 2\<rparr>]"
        "process_at (k_sched k1) 0 \<noteq> Some (demo_user_process 0)"
      unfolding update_user_def demo_current
      by (simp add: update_process_def process_at_def demo_kernel_def demo_user_process_def demo_user_def process_new_def)
    then obtain k2 where "release_entity k1 5 = Some k2" "k_sched k2 = k_sched k1"
      by (simp add: release_entity_def verify_def)
    then show ?thesis
      using k1 slot by (simp add: run_syscall_def sys_close_def demo_current as_i32_def)
  qed
  then obtain k' where k': "run_syscall env demo_kernel 0 Close (\<lambda>_. 1) = Some (Value 0, k')"
      "process_at (k_sched k') 0 \<noteq> Some (demo_user_process 0)" by blast
  then show "\<exists>k'. run_syscall env demo_kernel 0 Close (\<lambda>_. 1) = Some (Value 0, k') \<and>
     process_at (k_sched k') 1 = Some (demo_user_process 1) \<and> process_at (k_sched k') 0 \<noteq> Some (demo_user_process 0)"
    using syscall_isolation [OF k'(1)] by (auto simp: demo_kernel_def process_at_def)
qed

theorem exec_failure_panics_witness: "\<forall>env. sys_execute env demo_kernel 0 0 0 0 0 0 = None"
proof
  fix env
  have "exec_arguments env demo_kernel 0 0 0 0 0 0 = Some (Value ((0, root_entry), [], []), demo_kernel)"
    by (simp add: exec_arguments_def read_string_from_user_def user_buffer_new_def VA_START_def verify_def pure_step_def
        parse_path_def cwd_step_def demo_current demo_user_def lookup_step_def full_path_lookup_def is_absolute_def
        read_string_array_def set_registry_def peek_def)
  moreover have "\<exists>e g. parse_file (k_fs demo_kernel) (0, root_entry) = Some (Err e, g)"
    by (simp add: parse_file_def ref_read_def demo_kernel_def demo_registry_def verify_def read_bytes_def root_entry_def fat_entry_new_def)
  moreover have "is_critical (k_sched demo_kernel) = Some False"
    by (simp add: is_critical_def current_process_def process_at_def demo_kernel_def demo_user_process_def process_new_def)
  ultimately show "sys_execute env demo_kernel 0 0 0 0 0 0 = None"
    using exec_failure_panics by blast
qed

end
