(* ===== verification/User_Heap.thy ===== *)
theory User_Heap
  imports Bek_Utility
begin

text \<open>
  The heap of a user program, \<open>userspace/libcore/src/allocation.cpp\<close>.

  The linked lists of blocks are lists of a header's address and its size field, in the order of
  \<open>next\<close>; the size field of a block that is in use stays in its header, and \<open>uh_used\<close> holds it.  The
  system calls that map and unmap pages are outside: \<open>mapped n\<close> is the result of mapping \<open>n\<close> bytes,
  and \<open>uh_released\<close> lists what was unmapped.  A header that was never written is undefined.
\<close>

definition MIN_BLOCK_SIZE :: uSize where "MIN_BLOCK_SIZE = 8"
definition HEAP_PAGE_SIZE :: uSize where "HEAP_PAGE_SIZE = 4096"
definition SIZE_FOR_SEPARATE_LARGE_BLOCK :: uSize where "SIZE_FOR_SEPARATE_LARGE_BLOCK = HEAP_PAGE_SIZE"
definition DEFAULT_LARGE_BLOCK_SIZE :: uSize where "DEFAULT_LARGE_BLOCK_SIZE = HEAP_PAGE_SIZE * 16"
definition BLOCK_HEADER_SIZE :: uSize where "BLOCK_HEADER_SIZE = 16"

type_synonym block = "uSize \<times> uSize"

record user_heap =
  uh_huge :: "block list"
  uh_free :: "block list"
  uh_used :: "uSize \<Rightarrow> uSize option"
  uh_start :: uSize
  uh_end :: uSize
  uh_released :: "block list"
  uh_bytes :: "uSize \<Rightarrow> u8"

definition heap_new :: user_heap where
  "heap_new = \<lparr>uh_huge = [], uh_free = [], uh_used = Map.empty, uh_start = 0, uh_end = 0, uh_released = [],
     uh_bytes = \<lambda>_. 0\<rparr>"

subsection \<open>Blocks\<close>

definition block_data :: "uSize \<Rightarrow> uSize" where
  "block_data a = uadd a BLOCK_HEADER_SIZE"

definition data_size :: "uSize \<Rightarrow> uSize" where
  "data_size s = usub s BLOCK_HEADER_SIZE"

definition can_be_split :: "uSize \<Rightarrow> uSize \<Rightarrow> bool" where
  "can_be_split s wanted \<longleftrightarrow> s \<ge> uadd (BLOCK_HEADER_SIZE * 2) (uadd wanted MIN_BLOCK_SIZE)"

text \<open>The block is cut into a block for \<open>wanted\<close> bytes and the rest.\<close>

definition split_block :: "block \<Rightarrow> uSize \<Rightarrow> block \<times> block" where
  "split_block b wanted =
     (let (a, s) = b; first = uadd BLOCK_HEADER_SIZE wanted
      in ((a, first), (uadd a first, usub (data_size s) wanted)))"

definition update_heap_range_tracker :: "uSize \<Rightarrow> user_heap \<Rightarrow> user_heap" where
  "update_heap_range_tracker ptr h =
     h\<lparr>uh_start := (if uh_start h = 0 \<or> ptr < uh_start h then ptr else uh_start h),
       uh_end := (if uh_end h = 0 \<or> ptr > uh_end h then ptr else uh_end h)\<rparr>"

text \<open>\<open>insert_block\<close>: the blocks before and after the place of the new one.\<close>

fun insert_place :: "block list \<Rightarrow> uSize \<Rightarrow> block list \<times> block list" where
  "insert_place [] a = ([], [])"
| "insert_place (b # bs) a = (if fst b > a then ([], b # bs) else (let (pre, post) = insert_place bs a in (b # pre, post)))"

subsection \<open>Allocation\<close>

text \<open>The search: the position and size of the best block so far.\<close>

fun best_fit :: "block list \<Rightarrow> uSize \<Rightarrow> nat \<Rightarrow> (nat \<times> uSize) option \<Rightarrow> nat option" where
  "best_fit [] sz i best = map_option fst best"
| "best_fit ((a, s) # bs) sz i best =
     (if data_size s \<ge> sz \<and> (case best of None \<Rightarrow> True | Some (_, t) \<Rightarrow> data_size t > data_size s)
      then if \<not> can_be_split s sz then Some i else best_fit bs sz (i + 1) (Some (i, s))
      else best_fit bs sz (i + 1) best)"

text \<open>The block at the given place of the free list goes to the caller, the rest of it back to the list.\<close>

definition take_block :: "user_heap \<Rightarrow> block list \<Rightarrow> block \<Rightarrow> block list \<Rightarrow> uSize \<Rightarrow> (uSize \<times> uSize) \<times> user_heap" where
  "take_block h pre b post sz =
     (let ((a, s), rest) = (if can_be_split (snd b) sz then (let (b1, b2) = split_block b sz in (b1, [b2])) else (b, []))
      in ((block_data a, data_size s),
          update_heap_range_tracker (block_data a)
            (h\<lparr>uh_free := pre @ rest @ post, uh_used := (uh_used h)(a \<mapsto> s)\<rparr>)))"

definition heap_allocate :: "(uSize \<Rightarrow> uSize expected) \<Rightarrow> user_heap \<Rightarrow> uSize \<Rightarrow> uSize \<Rightarrow>
    ((uSize \<times> uSize) \<times> user_heap) option" where
  "heap_allocate mapped h sz al =
     (if sz = 0 then Some ((0, 0), h)
      else do {
        verify (al \<le> HEAP_PAGE_SIZE);
        (let n = align_up sz 8
         in if n \<ge> SIZE_FOR_SEPARATE_LARGE_BLOCK
            then (let hb_size = align_up (uadd n BLOCK_HEADER_SIZE) HEAP_PAGE_SIZE
                  in Some (case mapped hb_size of
                       Err e \<Rightarrow> ((0, 0), h)
                     | Value a \<Rightarrow> ((block_data a, usub hb_size BLOCK_HEADER_SIZE),
                         update_heap_range_tracker (block_data a) (h\<lparr>uh_huge := (a, hb_size) # uh_huge h\<rparr>))))
            else (case best_fit (uh_free h) n 0 None of
                    Some i \<Rightarrow> Some (take_block h (take i (uh_free h)) (uh_free h ! i) (drop (Suc i) (uh_free h)) n)
                  | None \<Rightarrow>
                     (case mapped DEFAULT_LARGE_BLOCK_SIZE of
                        Err e \<Rightarrow> Some ((0, 0), h)
                      | Value a \<Rightarrow>
                         (let (pre, post) = insert_place (uh_free h) a
                          in Some (take_block h pre (a, DEFAULT_LARGE_BLOCK_SIZE) post n))))) })"

subsection \<open>Release\<close>

fun find_huge :: "block list \<Rightarrow> uSize \<Rightarrow> nat \<Rightarrow> nat option" where
  "find_huge [] ptr i = None"
| "find_huge ((a, s) # bs) ptr i = (if ptr = block_data a then Some i else find_huge bs ptr (i + 1))"

definition try_free_huge :: "user_heap \<Rightarrow> uSize \<Rightarrow> user_heap option" where
  "try_free_huge h ptr =
     (case find_huge (uh_huge h) ptr 0 of
        None \<Rightarrow> None
      | Some i \<Rightarrow> Some (h\<lparr>uh_huge := take i (uh_huge h) @ drop (Suc i) (uh_huge h),
                        uh_released := uh_released h @ [uh_huge h ! i]\<rparr>))"

text \<open>A block merges with the one after it, and then the one before it with the result.\<close>

definition merge_next :: "block \<Rightarrow> block list \<Rightarrow> block \<times> block list" where
  "merge_next b post =
     (case post of
        [] \<Rightarrow> (b, [])
      | c # cs \<Rightarrow> if fst c = uadd (fst b) (snd b) then ((fst b, uadd (snd b) (snd c)), cs) else (b, post))"

definition merge_previous :: "block list \<Rightarrow> block \<Rightarrow> block list" where
  "merge_previous pre b =
     (if pre \<noteq> [] \<and> fst b = uadd (fst (last pre)) (snd (last pre))
      then butlast pre @ [(fst (last pre), uadd (snd (last pre)) (snd b))] else pre @ [b])"

definition free_small :: "user_heap \<Rightarrow> uSize \<Rightarrow> user_heap option" where
  "free_small h ptr = do {
     s \<leftarrow> uh_used h (usub ptr BLOCK_HEADER_SIZE);
     verify (8 \<le> data_size s \<and> data_size s < SIZE_FOR_SEPARATE_LARGE_BLOCK);
     (let a = usub ptr BLOCK_HEADER_SIZE;
          (pre, post) = insert_place (uh_free h) a;
          (b, post') = merge_next (a, s) post
      in Some (h\<lparr>uh_free := merge_previous pre b @ post', uh_used := (uh_used h)(a := None)\<rparr>)) }"

definition heap_free :: "user_heap \<Rightarrow> uSize \<Rightarrow> user_heap option" where
  "heap_free h ptr =
     (if ptr = 0 then Some h
      else do {
        verify (uh_start h \<le> ptr \<and> ptr \<le> uh_end h);
        (case try_free_huge h ptr of Some h' \<Rightarrow> Some h' | None \<Rightarrow> free_small h ptr) })"

definition get_size_of_allocation :: "user_heap \<Rightarrow> uSize \<Rightarrow> uSize option" where
  "get_size_of_allocation h ptr =
     (if ptr = 0 then Some 0
      else do {
        verify (uh_start h \<le> ptr \<and> ptr \<le> uh_end h);
        (case find_huge (uh_huge h) ptr 0 of
           Some i \<Rightarrow> Some (usub (snd (uh_huge h ! i)) BLOCK_HEADER_SIZE)
         | None \<Rightarrow> do {
             s \<leftarrow> uh_used h (usub ptr BLOCK_HEADER_SIZE);
             verify (8 \<le> data_size s \<and> data_size s < SIZE_FOR_SEPARATE_LARGE_BLOCK);
             Some (data_size s) }) })"

definition copy_bytes :: "(uSize \<Rightarrow> u8) \<Rightarrow> uSize \<Rightarrow> uSize \<Rightarrow> uSize \<Rightarrow> uSize \<Rightarrow> u8" where
  "copy_bytes m dest src n = (\<lambda>a. if dest \<le> a \<and> a < dest + n then m (src + (a - dest)) else m a)"

definition heap_realloc :: "(uSize \<Rightarrow> uSize expected) \<Rightarrow> user_heap \<Rightarrow> uSize \<Rightarrow> uSize \<Rightarrow> (uSize \<times> user_heap) option" where
  "heap_realloc mapped h ptr sz =
     (if ptr = 0 then do { ((p, _), h1) \<leftarrow> heap_allocate mapped h sz 8; Some (p, h1) }
      else do {
        old_size \<leftarrow> get_size_of_allocation h ptr;
        (if sz > old_size
         then do {
           ((p, _), h1) \<leftarrow> heap_allocate mapped h sz 8;
           h2 \<leftarrow> (if p \<noteq> 0
                  then do { verify (old_size \<le> MAX_MEMCOPY);
                            Some (h1\<lparr>uh_bytes := copy_bytes (uh_bytes h1) p ptr old_size\<rparr>) }
                  else Some h1);
           h3 \<leftarrow> heap_free h2 ptr;
           Some (p, h3) }
         else Some (ptr, h)) })"

subsection \<open>Blocks do not overlap\<close>

definition block_ok :: "block \<Rightarrow> bool" where
  "block_ok b \<longleftrightarrow> 0 < fst b \<and> 8 dvd fst b \<and> 8 dvd snd b \<and> 24 \<le> snd b \<and> fst b + snd b < 2 ^ 64"

definition before :: "block \<Rightarrow> block \<Rightarrow> bool" where
  "before b c \<longleftrightarrow> fst b + snd b \<le> fst c"

definition apart :: "block \<Rightarrow> block \<Rightarrow> bool" where
  "apart b c \<longleftrightarrow> before b c \<or> before c b"

definition used_blocks :: "(uSize \<Rightarrow> uSize option) \<Rightarrow> block set" where
  "used_blocks u = {(a, s). u a = Some s}"

text \<open>The blocks in use, the small and the large ones.\<close>

definition live :: "user_heap \<Rightarrow> block set" where
  "live h = used_blocks (uh_used h) \<union> set (uh_huge h)"

definition free_ok :: "block list \<Rightarrow> block set \<Rightarrow> bool" where
  "free_ok bs L \<longleftrightarrow> (\<forall>b\<in>set bs. block_ok b) \<and> sorted_wrt before bs \<and> (\<forall>b\<in>set bs. \<forall>c\<in>L. apart b c)"

definition live_ok :: "(uSize \<Rightarrow> uSize option) \<Rightarrow> block list \<Rightarrow> bool" where
  "live_ok u huge \<longleftrightarrow> (\<forall>b\<in>used_blocks u \<union> set huge. block_ok b) \<and> sorted_wrt apart huge \<and>
     (\<forall>b\<in>used_blocks u. \<forall>c\<in>set huge. apart b c) \<and>
     (\<forall>b\<in>used_blocks u. \<forall>c\<in>used_blocks u. b \<noteq> c \<longrightarrow> apart b c)"

definition in_range :: "user_heap \<Rightarrow> bool" where
  "in_range h \<longleftrightarrow> (\<forall>b\<in>live h. uh_start h \<noteq> 0 \<and> uh_start h \<le> fst b + 16 \<and> fst b + 16 \<le> uh_end h)"

definition heap_ok :: "user_heap \<Rightarrow> bool" where
  "heap_ok h \<longleftrightarrow> free_ok (uh_free h) (live h) \<and> live_ok (uh_used h) (uh_huge h) \<and> in_range h"

lemma heap_ok_new: "heap_ok heap_new"
  by (simp add: heap_ok_def heap_new_def free_ok_def live_def used_blocks_def live_ok_def in_range_def)

lemma apart_commute: "apart b c \<longleftrightarrow> apart c b"
  by (auto simp: apart_def)

lemma block_data_eq: "block_ok (a, s) \<Longrightarrow> block_data a = a + 16"
  by (simp add: block_ok_def block_data_def BLOCK_HEADER_SIZE_def uadd_def)

lemma data_size_eq: "block_ok (a, s) \<Longrightarrow> data_size s = s - 16"
  by (simp add: block_ok_def data_size_def BLOCK_HEADER_SIZE_def usub_def)

lemma can_be_split_eq: "n < 4096 \<Longrightarrow> can_be_split s n \<longleftrightarrow> n + 40 \<le> s"
  by (auto simp: can_be_split_def BLOCK_HEADER_SIZE_def MIN_BLOCK_SIZE_def uadd_def)

lemma insert_place_append: "insert_place bs a = (pre, post) \<Longrightarrow> pre @ post = bs"
  by (induction bs arbitrary: pre) (auto split: if_splits prod.splits)

lemma insert_place_before:
  assumes "insert_place bs (fst b) = (pre, post)" and "sorted_wrt before bs" and "\<forall>c\<in>set bs. apart b c \<and> block_ok c"
    and "block_ok b"
  shows "(\<forall>c\<in>set pre. before c b) \<and> (\<forall>c\<in>set post. before b c)"
  using assms
proof (induction bs arbitrary: pre)
  case (Cons c bs)
  show ?case
  proof (cases "fst c > fst b")
    case True
    then have "pre = []" "post = c # bs" using Cons.prems(1) by auto
    moreover have "before b c" using Cons.prems(3) True by (auto simp: apart_def before_def)
    ultimately show ?thesis
      using Cons.prems(2) by (auto simp: before_def)
  next
    case False
    obtain pre' where i: "insert_place bs (fst b) = (pre', post)" "pre = c # pre'"
      using Cons.prems(1) False by (auto split: prod.splits)
    have "before c b"
      using Cons.prems(3,4) False by (auto simp: apart_def before_def block_ok_def)
    then show ?thesis using Cons.IH [OF i(1)] Cons.prems(2-4) i(2) by auto
  qed
qed simp

lemma free_ok_insert:
  assumes "free_ok bs L" and "insert_place bs (fst b) = (pre, post)" and "block_ok b"
    and "\<forall>c\<in>set bs \<union> L. apart b c"
  shows "free_ok (pre @ b # post) L"
proof -
  have "pre @ post = bs" by (rule insert_place_append [OF assms(2)])
  moreover have "(\<forall>c\<in>set pre. before c b) \<and> (\<forall>c\<in>set post. before b c)"
    by (rule insert_place_before [OF assms(2)]) (use assms(1,3,4) in \<open>auto simp: free_ok_def\<close>)
  ultimately show ?thesis
    using assms(1,3,4) unfolding free_ok_def by (auto simp: sorted_wrt_append)
qed

lemma best_fit_spec:
  assumes "best_fit bs sz i best = Some j" and "\<And>k t. best = Some (k, t) \<Longrightarrow> k < i"
  shows "(\<exists>t. best = Some (j, t)) \<or> (i \<le> j \<and> j < i + length bs \<and> sz \<le> data_size (snd (bs ! (j - i))))"
  using assms
proof (induction bs sz i best rule: best_fit.induct)
  case (2 a s bs sz i best)
  let ?better = "data_size s \<ge> sz \<and> (case best of None \<Rightarrow> True | Some (_, t) \<Rightarrow> data_size t > data_size s)"
  consider (stop) "?better" "\<not> can_be_split s sz" | (take) "?better" "can_be_split s sz" | (skip) "\<not> ?better" by blast
  then show ?case
  proof cases
    case stop
    then show ?thesis using "2.prems"(1) by simp
  next
    case take
    have "best_fit bs sz (i + 1) (Some (i, s)) = Some j" using take "2.prems"(1) by simp
    then have "(\<exists>t. Some (i, s) = Some (j, t)) \<or> (i + 1 \<le> j \<and> j < i + 1 + length bs \<and> sz \<le> data_size (snd (bs ! (j - (i + 1)))))"
      using "2.IH"(1) take by simp
    then show ?thesis using take by (auto simp: nth_Cons')
  next
    case skip
    have "best_fit bs sz (i + 1) best = Some j" using skip "2.prems"(1) by (simp only: best_fit.simps if_False)
    then have "(\<exists>t. best = Some (j, t)) \<or> (i + 1 \<le> j \<and> j < i + 1 + length bs \<and> sz \<le> data_size (snd (bs ! (j - (i + 1)))))"
      using "2.IH"(2) skip "2.prems"(2) by (metis less_SucI Suc_eq_plus1)
    then show ?thesis by (auto simp: nth_Cons')
  qed
qed auto


text \<open>What taking a block from the free list does; \<open>h'\<close> is the heap with that list.\<close>

lemma take_block_ok:
  assumes ok: "free_ok (pre @ b # post) (live h)" "live_ok (uh_used h) (uh_huge h)" "in_range h"
    and n: "8 dvd n" "8 \<le> n" "n < 4096" "n \<le> data_size (snd b)"
    and res: "take_block h pre b post n = ((p, m), h')"
  shows "heap_ok h'" and "p = fst b + 16" and "n \<le> m" and "8 dvd p"
    and "live h' = insert (fst b, m + 16) (live h)" and "m + 16 \<le> snd b" and "\<forall>c\<in>live h. apart (fst b, m + 16) c"
    and "uh_huge h' = uh_huge h" and "uh_used h' = (uh_used h)(fst b \<mapsto> m + 16)"
proof -
  obtain a s where b: "b = (a, s)" by fastforce
  have bok: "block_ok (a, s)" using ok(1) by (simp add: free_ok_def b)
  note eqs = block_data_eq [OF bok] data_size_eq [OF bok] can_be_split_eq [OF n(3)]
  define m' rest where "m' = (if n + 40 \<le> s then n else s - 16)"
    and "rest = (if n + 40 \<le> s then [(a + 16 + n, s - 16 - n)] else [])"
  have small: "a + s < 2 ^ 64" "24 \<le> s" using bok by (simp_all add: block_ok_def)
  have used: "take_block h pre b post n = ((a + 16, m'), update_heap_range_tracker (a + 16)
      (h\<lparr>uh_free := pre @ rest @ post, uh_used := (uh_used h)(a \<mapsto> m' + 16)\<rparr>))"
    using small n(3)
    by (simp add: take_block_def b eqs split_block_def Let_def m'_def rest_def BLOCK_HEADER_SIZE_def uadd_def usub_def
        data_size_def block_data_def ac_simps)
  have pm: "p = a + 16" "m = m'" and h': "h' = update_heap_range_tracker (a + 16)
      (h\<lparr>uh_free := pre @ rest @ post, uh_used := (uh_used h)(a \<mapsto> m' + 16)\<rparr>)"
    using res used by auto
  have free: "uh_free h' = pre @ rest @ post" and used': "uh_used h' = (uh_used h)(a \<mapsto> m' + 16)"
    and huge: "uh_huge h' = uh_huge h"
    by (simp_all add: h' update_heap_range_tracker_def)
  have m': "n \<le> m'" "m' + 16 \<le> s" "8 dvd m' + 16" "24 \<le> m' + 16"
    using n small(2) bok eqs(2) unfolding b m'_def by (auto simp: block_ok_def)
  have new: "block_ok (a, m' + 16)" using m' bok by (simp add: block_ok_def)
  have away: "apart (a, s) c" if "c \<in> live h" for c using ok(1) that by (simp add: free_ok_def b)
  have inside: "apart (a, m' + 16) c" if "apart (a, s) c" for c
    using that m' by (auto simp: apart_def before_def)
  have fresh: "uh_used h a = None"
  proof (rule ccontr)
    assume "uh_used h a \<noteq> None"
    then obtain t where t: "(a, t) \<in> used_blocks (uh_used h)" by (auto simp: used_blocks_def)
    then have "apart (a, s) (a, t)" "block_ok (a, t)"
      using away ok(2) by (auto simp: live_def live_ok_def)
    then show False using small by (auto simp: apart_def before_def block_ok_def)
  qed
  have ub: "used_blocks (uh_used h') = insert (a, m' + 16) (used_blocks (uh_used h))"
    using fresh by (auto simp: used' used_blocks_def split: if_splits)
  show live': "live h' = insert (fst b, m + 16) (live h)"
    by (simp add: live_def ub huge b pm)
  have rest: "block_ok c \<and> before (a, m' + 16) c \<and> (\<forall>d. apart (a, s) d \<longrightarrow> apart c d) \<and> (\<forall>d. before d (a, s) \<longrightarrow> before d c) \<and>
      (\<forall>d. before (a, s) d \<longrightarrow> before c d)" if "c \<in> set rest" for c
    using that bok n small by (auto simp: rest_def m'_def block_ok_def apart_def before_def split: if_splits)
  have fok: "free_ok (pre @ rest @ post) (live h')"
    unfolding free_ok_def
  proof (intro conjI ballI)
    fix c assume "c \<in> set (pre @ rest @ post)"
    then show "block_ok c" using ok(1) rest [of c] by (auto simp: free_ok_def)
  next
    have "length rest \<le> 1" by (simp add: rest_def)
    then have "sorted_wrt before rest" by (cases rest) auto
    moreover have "sorted_wrt before (pre @ (a, s) # post)" using ok(1) by (simp add: free_ok_def b)
    ultimately show "sorted_wrt before (pre @ rest @ post)"
      using rest by (auto simp: sorted_wrt_append)
  next
    fix c d assume c: "c \<in> set (pre @ rest @ post)" and "d \<in> live h'"
    then consider "d \<in> live h" | "d = (a, m' + 16)" by (auto simp: live' b pm)
    then show "apart c d"
    proof cases
      case 1
      then show ?thesis using c ok(1) rest [of c] away [of d] by (cases d) (auto simp: free_ok_def)
    next
      case 2
      have "sorted_wrt before (pre @ (a, s) # post)" using ok(1) by (simp add: free_ok_def b)
      then have "c \<in> set rest \<or> before c (a, s) \<or> before (a, s) c" using c by (auto simp: sorted_wrt_append)
      then show ?thesis
        using rest inside unfolding 2 by (metis apart_commute apart_def)
    qed
  qed
  have lok: "live_ok (uh_used h') (uh_huge h')"
    using ok(2) new away inside unfolding live_ok_def ub huge
    by (auto simp: live_def apart_commute)
  have "in_range h'"
    using ok(3) unfolding in_range_def live' b pm by (auto simp: h' update_heap_range_tracker_def)
  then show "heap_ok h'" using fok lok by (simp add: heap_ok_def free)
  show "p = fst b + 16" "n \<le> m" "m + 16 \<le> snd b" using m' by (simp_all add: pm b)
  show "8 dvd p" using bok by (simp add: pm block_ok_def)
  show "\<forall>c\<in>live h. apart (fst b, m + 16) c" using away inside by (simp add: b pm)
  show "uh_huge h' = uh_huge h" "uh_used h' = (uh_used h)(fst b \<mapsto> m + 16)" by (simp_all add: huge used' b pm)
qed


definition mapping_ok :: "(uSize \<Rightarrow> uSize expected) \<Rightarrow> user_heap \<Rightarrow> bool" where
  "mapping_ok mapped h \<longleftrightarrow> (\<forall>n a. 4096 dvd n \<and> mapped n = Value a \<longrightarrow>
     0 < a \<and> 4096 dvd a \<and> a + n < 2 ^ 64 \<and> (\<forall>c\<in>set (uh_free h) \<union> live h. apart (a, n) c))"

lemma mapping_ok_block:
  assumes "mapping_ok mapped h" and "mapped n = Value a" and "4096 dvd n" and "0 < n"
  shows "block_ok (a, n)" and "\<forall>c\<in>set (uh_free h) \<union> live h. apart (a, n) c"
proof -
  have a: "0 < a" "4096 dvd a" "a + n < 2 ^ 64" and "\<forall>c\<in>set (uh_free h) \<union> live h. apart (a, n) c"
    using assms(1-3) unfolding mapping_ok_def by blast+
  then show "\<forall>c\<in>set (uh_free h) \<union> live h. apart (a, n) c" by blast
  have "(8 :: nat) dvd 4096" by simp
  then have "8 dvd a" "8 dvd n" using a(2) assms(3) dvd_trans by blast+
  moreover have "4096 \<le> n" using assms(3,4) by (rule dvd_imp_le)
  ultimately show "block_ok (a, n)" using a by (simp add: block_ok_def)
qed

lemma huge_ok:
  assumes "heap_ok h" and "block_ok (a, n)" and "\<forall>c\<in>set (uh_free h) \<union> live h. apart (a, n) c"
  shows "heap_ok (update_heap_range_tracker (a + 16) (h\<lparr>uh_huge := (a, n) # uh_huge h\<rparr>))" (is "heap_ok ?h")
    and "live (update_heap_range_tracker (a + 16) (h\<lparr>uh_huge := (a, n) # uh_huge h\<rparr>)) = insert (a, n) (live h)"
proof -
  show live': "live ?h = insert (a, n) (live h)"
    by (auto simp: live_def update_heap_range_tracker_def)
  have "free_ok (uh_free ?h) (live ?h)"
    using assms(1,3) unfolding live' by (auto simp: heap_ok_def free_ok_def update_heap_range_tracker_def apart_commute)
  moreover have "live_ok (uh_used ?h) (uh_huge ?h)"
    using assms by (auto simp: heap_ok_def live_ok_def live_def update_heap_range_tracker_def apart_commute)
  moreover have "in_range ?h"
    using assms(1) unfolding heap_ok_def in_range_def live' by (auto simp: update_heap_range_tracker_def)
  ultimately show "heap_ok ?h" by (simp add: heap_ok_def)
qed

text \<open> C29: The heap of user programs never hands out memory twice.  An allocation of a sane size returns
  either null, and then nothing changed, or a fresh block: at least as large as asked for, 8-byte
  aligned, with its header outside every block in use; the blocks in use before stay in use.  The
  heap stays well formed: free blocks sorted, and no two blocks overlapping.  What is asked of
  the kernel is that mapped memory is page aligned and new to the program.  (The alignment argument
  is checked and otherwise ignored.)\<close>

theorem heap_allocate_fresh:
  assumes "heap_ok h" and "0 < sz" and "sz < 2 ^ 62" and "al \<le> HEAP_PAGE_SIZE" and "mapping_ok mapped h"
  shows "\<exists>p m h'. heap_allocate mapped h sz al = Some ((p, m), h') \<and> heap_ok h' \<and>
    (if p = 0 then h' = h
     else sz \<le> m \<and> 8 dvd p \<and> 16 < p \<and> live h' = insert (p - 16, m + 16) (live h) \<and>
       (\<forall>c\<in>live h. apart (p - 16, m + 16) c))"
proof -
  define n where "n = align_up sz 8"
  have n: "sz \<le> n" "n < sz + 8" "8 dvd n"
    unfolding n_def using align_up_spec [of 8 sz] assms(3) by simp_all
  then have n8: "8 \<le> n" using assms(2) by (intro dvd_imp_le) auto
  have alloc: "heap_allocate mapped h sz al = (if n \<ge> 4096
      then (let hb_size = align_up (n + 16) 4096
            in Some (case mapped hb_size of
                 Err e \<Rightarrow> ((0, 0), h)
               | Value a \<Rightarrow> ((block_data a, usub hb_size 16),
                   update_heap_range_tracker (block_data a) (h\<lparr>uh_huge := (a, hb_size) # uh_huge h\<rparr>))))
      else (case best_fit (uh_free h) n 0 None of
              Some i \<Rightarrow> Some (take_block h (take i (uh_free h)) (uh_free h ! i) (drop (Suc i) (uh_free h)) n)
            | None \<Rightarrow>
               (case mapped 65536 of
                  Err e \<Rightarrow> Some ((0, 0), h)
                | Value a \<Rightarrow>
                   (let (pre, post) = insert_place (uh_free h) a
                    in Some (take_block h pre (a, 65536) post n)))))"
  proof -
    have "uadd n 16 = n + 16" "(4096 :: nat) * 16 = 65536" using n assms(3) by (simp_all add: uadd_small)
    then show ?thesis
      using assms(2-4) n
      unfolding heap_allocate_def Let_def n_def [symmetric] SIZE_FOR_SEPARATE_LARGE_BLOCK_def HEAP_PAGE_SIZE_def
        DEFAULT_LARGE_BLOCK_SIZE_def BLOCK_HEADER_SIZE_def
      by (simp only: verify_simps) simp
  qed
  have small: "\<exists>p m h'. take_block h pre b post n = ((p, m), h') \<and> heap_ok h' \<and>
      (if p = 0 then h' = h
       else sz \<le> m \<and> 8 dvd p \<and> 16 < p \<and> live h' = insert (p - 16, m + 16) (live h) \<and> (\<forall>c\<in>live h. apart (p - 16, m + 16) c))"
    if "free_ok (pre @ b # post) (live h)" and "n \<le> data_size (snd b)" and "n < 4096" for pre b post
  proof -
    obtain p m h' where t: "take_block h pre b post n = ((p, m), h')" by (metis prod.exhaust)
    have "live_ok (uh_used h) (uh_huge h)" "in_range h" using assms(1) by (simp_all add: heap_ok_def)
    note r = take_block_ok [OF that(1) this n(3) n8 that(3,2) t]
    have "0 < fst b" using that(1) by (simp add: free_ok_def block_ok_def)
    then show ?thesis using r n(1) t by auto
  qed
  show ?thesis
  proof (cases "n \<ge> 4096")
    case True
    define hb where "hb = align_up (n + 16) 4096"
    have "n + 16 + 4096 < 2 ^ 64" using n assms(3) by simp
    then have hb: "n + 16 \<le> hb" "4096 dvd hb" unfolding hb_def using align_up_spec [of 4096 "n + 16"] by simp_all
    show ?thesis
    proof (cases "mapped hb")
      case (Value a)
      note ok = mapping_ok_block [OF assms(5) Value hb(2)]
      have "0 < hb" using hb(1) by simp
      then have bo: "block_ok (a, hb)" and ap: "\<forall>c\<in>set (uh_free h) \<union> live h. apart (a, hb) c" using ok by blast+
      then have "0 < a" by (simp add: block_ok_def)
      then show ?thesis
        using alloc True Value hb n(1) huge_ok [OF assms(1) bo ap] ap bo
        by (auto simp: hb_def [symmetric] block_data_eq [OF bo] usub_def) (simp add: block_ok_def)
    next
      case (Err e)
      then show ?thesis using alloc True assms(1) by (simp add: hb_def [symmetric])
    qed
  next
    case False
    then have n': "n < 4096" by simp
    show ?thesis
    proof (cases "best_fit (uh_free h) n 0 None")
      case (Some i)
      then have i: "i < length (uh_free h)" "n \<le> data_size (snd (uh_free h ! i))"
        using best_fit_spec [OF Some] by auto
      have "free_ok (take i (uh_free h) @ uh_free h ! i # drop (Suc i) (uh_free h)) (live h)"
        using assms(1) i(1) by (simp add: heap_ok_def id_take_nth_drop [symmetric])
      then show ?thesis using small [OF _ i(2) n'] alloc False Some by simp
    next
      case None
      show ?thesis
      proof (cases "mapped 65536")
        case (Value a)
        note ok = mapping_ok_block [OF assms(5) Value]
        obtain pre post where ip: "insert_place (uh_free h) a = (pre, post)" by fastforce
        have "free_ok (pre @ (a, 65536) # post) (live h)"
          by (rule free_ok_insert) (use assms(1) ip ok in \<open>auto simp: heap_ok_def\<close>)
        moreover have "n \<le> data_size (snd (a, 65536))" using n' by (simp add: data_size_def BLOCK_HEADER_SIZE_def usub_def)
        ultimately show ?thesis using small [OF _ _ n'] alloc False None Value ip by simp
      next
        case (Err e)
        then show ?thesis using alloc False None assms(1) by simp
      qed
    qed
  qed
qed

theorem heap_allocate_fresh_witness:
  "\<exists>p m h'. heap_allocate (\<lambda>n. Value 0x10000) heap_new 100 8 = Some ((p, m), h') \<and> 100 \<le> m \<and> (p - 16, m + 16) \<in> live h'"
proof -
  have "mapping_ok (\<lambda>n. if n \<le> 65536 then Value 0x10000 else Err ENOMEM) heap_new"
    by (auto simp: mapping_ok_def heap_new_def live_def used_blocks_def split: if_splits)
  then obtain p m h' where "heap_allocate (\<lambda>n. if n \<le> 65536 then Value 0x10000 else Err ENOMEM) heap_new 100 8 = Some ((p, m), h')"
      "if p = 0 then h' = heap_new else 100 \<le> m \<and> live h' = insert (p - 16, m + 16) (live heap_new)"
    using heap_allocate_fresh [OF heap_ok_new, of 100 8] by (fastforce simp: HEAP_PAGE_SIZE_def)
  moreover have "heap_allocate (\<lambda>n. if n \<le> 65536 then Value 0x10000 else Err ENOMEM) heap_new 100 8 =
      heap_allocate (\<lambda>n. Value 0x10000) heap_new 100 8"
    by (simp add: heap_allocate_def align_up_eq SIZE_FOR_SEPARATE_LARGE_BLOCK_def HEAP_PAGE_SIZE_def heap_new_def
        DEFAULT_LARGE_BLOCK_SIZE_def)
  moreover have "fst (fst (the (heap_allocate (\<lambda>n. Value 0x10000) heap_new 100 8))) \<noteq> 0"
    by (simp add: heap_allocate_def align_up_eq SIZE_FOR_SEPARATE_LARGE_BLOCK_def HEAP_PAGE_SIZE_def heap_new_def
        DEFAULT_LARGE_BLOCK_SIZE_def take_block_def can_be_split_def split_block_def BLOCK_HEADER_SIZE_def MIN_BLOCK_SIZE_def
        uadd_def block_data_def)
  ultimately show ?thesis by auto
qed


subsection \<open>Giving a block back\<close>

lemma find_huge_None:
  "(\<forall>b\<in>set bs. block_data (fst b) \<noteq> ptr) \<Longrightarrow> find_huge bs ptr i = None"
  by (induction bs arbitrary: i) auto

lemma merge_next_ok:
  assumes "merge_next (a, s) post = (b, post')" and "block_ok (a, s)" and "\<forall>c\<in>set post. block_ok c \<and> before (a, s) c"
    and "sorted_wrt before post"
  shows "block_ok b \<and> fst b = a \<and> s \<le> snd b \<and> (\<forall>c\<in>set post'. before b c \<and> c \<in> set post) \<and> sorted_wrt before post' \<and>
    (\<forall>d. apart (a, s) d \<and> (\<forall>c\<in>set post. apart c d) \<and> block_ok d \<longrightarrow> apart b d)"
proof (cases post)
  case Nil
  then show ?thesis using assms by (auto simp: merge_next_def)
next
  case (Cons c cs)
  show ?thesis
  proof (cases "fst c = uadd a s")
    case True
    have lt: "a + s < 2 ^ 64" using assms(2) by (simp add: block_ok_def)
    then have c: "fst c = a + s" using True by (simp add: uadd_def)
    have cok: "block_ok c" using assms(3) Cons by simp
    then have sum: "uadd s (snd c) = s + snd c" using c by (simp add: uadd_def block_ok_def)
    have "b = (a, s + snd c)" "post' = cs" using assms(1) Cons True sum by (auto simp: merge_next_def)
    then show ?thesis
      using assms(2-4) Cons c cok by (auto simp: block_ok_def before_def apart_def)
  next
    case False
    then show ?thesis using assms Cons by (auto simp: merge_next_def)
  qed
qed

lemma merge_previous_ok:
  assumes "\<forall>c\<in>set pre. block_ok c \<and> before c b" and "block_ok b" and "sorted_wrt before pre"
    and "\<forall>c\<in>set post. before b c \<and> block_ok c \<and> (\<forall>d\<in>set pre. before d c)" and "sorted_wrt before post"
    and "\<forall>d\<in>L. block_ok d \<and> apart b d \<and> (\<forall>c\<in>set pre \<union> set post. apart c d)"
  shows "free_ok (merge_previous pre b @ post) L"
proof (cases "pre \<noteq> [] \<and> fst b = uadd (fst (last pre)) (snd (last pre))")
  case True
  define l where "l = last pre"
  have pre: "pre = butlast pre @ [l]" using True by (simp add: l_def)
  have lb: "block_ok l" "before l b" using assms(1) True by (simp_all add: l_def)
  then have adj: "fst b = fst l + snd l" using True by (simp add: l_def uadd_def block_ok_def)
  have sum: "uadd (snd l) (snd b) = snd l + snd b" using adj assms(2) by (simp add: uadd_def block_ok_def)
  define m where "m = (fst l, snd l + snd b)"
  have m: "merge_previous pre b = butlast pre @ [m]"
    using True sum by (simp add: merge_previous_def l_def m_def)
  have "block_ok m" using lb(1) assms(2) adj by (simp add: m_def block_ok_def)
  moreover have "sorted_wrt before (butlast pre @ [l])" using assms(3) pre by simp
  then have bl: "sorted_wrt before (butlast pre)" "\<forall>c\<in>set (butlast pre). before c m"
    by (auto simp: sorted_wrt_append m_def before_def)
  moreover have "\<forall>c\<in>set post. before m c"
    using assms(4) adj by (auto simp: m_def before_def)
  moreover have "\<forall>d\<in>L. apart m d"
  proof
    fix d assume d: "d \<in> L"
    have "l \<in> set pre" using pre by (metis in_set_conv_decomp)
    then have "apart l d" "apart b d" "block_ok d" using d assms(6) by auto
    then show "apart m d" using adj lb(1) by (auto simp: apart_def before_def m_def block_ok_def)
  qed
  ultimately show ?thesis
    using assms unfolding m free_ok_def by (auto simp: sorted_wrt_append dest: in_set_butlastD)
next
  case False
  then have "merge_previous pre b = pre @ [b]" by (auto simp: merge_previous_def)
  then show ?thesis using assms unfolding free_ok_def by (auto simp: sorted_wrt_append)
qed

text \<open>Giving a small block back.  The block leaves the blocks in use, the others stay, and the heap
  stays well formed: the block goes to its place in the sorted list and merges with its
  neighbours.  Exactly when the block has a page or more of data the program panics instead:
  \<open>free\<close> takes that for a damaged header, although an allocation of nearly a page can be given such
  a block.\<close>

theorem heap_free_small:
  assumes "heap_ok h" and "uh_used h a = Some s"
  shows "if s < 4112
    then \<exists>h'. heap_free h (a + 16) = Some h' \<and> heap_ok h' \<and> live h' = live h - {(a, s)} \<and>
      uh_released h' = uh_released h
    else heap_free h (a + 16) = None"
proof -
  have ab: "(a, s) \<in> used_blocks (uh_used h)" using assms(2) by (simp add: used_blocks_def)
  then have abl: "(a, s) \<in> live h" by (simp add: live_def)
  have fok: "free_ok (uh_free h) (live h)" and lok: "live_ok (uh_used h) (uh_huge h)" and rng: "in_range h"
    using assms(1) by (simp_all add: heap_ok_def)
  have bok: "block_ok (a, s)" using lok ab by (auto simp: live_ok_def)
  have range: "uh_start h \<le> a + 16 \<and> a + 16 \<le> uh_end h" using rng abl by (auto simp: in_range_def)
  have "block_data (fst c) \<noteq> a + 16" if "c \<in> set (uh_huge h)" for c
  proof -
    have "apart (a, s) c" "block_ok c" using lok ab that by (auto simp: live_ok_def)
    then show ?thesis using bok block_data_eq [of "fst c" "snd c"] by (auto simp: apart_def before_def block_ok_def)
  qed
  then have "try_free_huge h (a + 16) = None" by (simp add: try_free_huge_def find_huge_None)
  then have free: "heap_free h (a + 16) = free_small h (a + 16)" using range by (simp add: heap_free_def)
  have ptr: "usub (a + 16) BLOCK_HEADER_SIZE = a" by (simp add: usub_def BLOCK_HEADER_SIZE_def)
  show ?thesis
  proof (cases "s < 4112")
    case False
    then have "\<not> s - 16 < 4096" by simp
    then show ?thesis using False
      by (simp add: free free_small_def ptr assms(2) data_size_eq [OF bok] SIZE_FOR_SEPARATE_LARGE_BLOCK_def HEAP_PAGE_SIZE_def)
  next
    case True
    obtain pre post where ip: "insert_place (uh_free h) a = (pre, post)" by fastforce
    obtain b post' where mn: "merge_next (a, s) post = (b, post')" by fastforce
    let ?h' = "h\<lparr>uh_free := merge_previous pre b @ post', uh_used := (uh_used h)(a := None)\<rparr>"
    have "24 \<le> s" using bok by (simp add: block_ok_def)
    then have size: "8 \<le> s - 16" "s - 16 < 4096" using True by linarith+
    have "free_small h (a + 16) = Some ?h'"
      using True size
      by (simp add: free_small_def ptr assms(2) data_size_eq [OF bok] SIZE_FOR_SEPARATE_LARGE_BLOCK_def HEAP_PAGE_SIZE_def
          ip mn Let_def)
    moreover have lv: "live ?h' = live h - {(a, s)}"
    proof -
      have "(a, s) \<notin> set (uh_huge h)"
      proof
        assume "(a, s) \<in> set (uh_huge h)"
        then have "apart (a, s) (a, s)" using lok ab unfolding live_ok_def by blast
        then show False using bok by (auto simp: apart_def before_def block_ok_def)
      qed
      moreover have "used_blocks ((uh_used h)(a := None)) = used_blocks (uh_used h) - {(a, s)}"
        using assms(2) by (auto simp: used_blocks_def split: if_splits)
      ultimately show ?thesis by (auto simp: live_def)
    qed
    moreover have "heap_ok ?h'"
    proof -
      have split: "pre @ post = uh_free h" by (rule insert_place_append [OF ip])
      have away: "apart (a, s) c" if "c \<in> set (uh_free h)" for c
        using fok abl that by (auto simp: free_ok_def apart_commute)
      have sides: "(\<forall>c\<in>set pre. before c (a, s)) \<and> (\<forall>c\<in>set post. before (a, s) c)"
        by (rule insert_place_before [of "uh_free h" "(a, s)"])
          (use ip fok bok away in \<open>auto simp: free_ok_def\<close>)
      have s2: "sorted_wrt before (pre @ post)" using fok split by (simp add: free_ok_def)
      have oks: "block_ok c" if "c \<in> set pre \<union> set post" for c
        using fok that unfolding free_ok_def split [symmetric] by auto
      have liveoks: "block_ok d" if "d \<in> live h" for d
        using lok that by (auto simp: live_ok_def live_def)
      have others: "apart (a, s) d" if "d \<in> live h - {(a, s)}" for d
        using that lok ab unfolding live_ok_def live_def by auto
      have fl: "apart c d" if "c \<in> set pre \<union> set post" "d \<in> live h" for c d
        using that fok unfolding free_ok_def split [symmetric] by auto
      have m: "block_ok b \<and> fst b = a \<and> s \<le> snd b \<and> (\<forall>c\<in>set post'. before b c \<and> c \<in> set post) \<and> sorted_wrt before post' \<and>
          (\<forall>d. apart (a, s) d \<and> (\<forall>c\<in>set post. apart c d) \<and> block_ok d \<longrightarrow> apart b d)"
        by (rule merge_next_ok [OF mn bok]) (use sides oks s2 in \<open>auto simp: sorted_wrt_append\<close>)
      have "free_ok (merge_previous pre b @ post') (live h - {(a, s)})"
      proof (rule merge_previous_ok)
        show "\<forall>c\<in>set pre. block_ok c \<and> before c b" using sides oks m by (auto simp: before_def)
        show "\<forall>c\<in>set post'. before b c \<and> block_ok c \<and> (\<forall>d\<in>set pre. before d c)"
          using m oks s2 by (auto simp: sorted_wrt_append)
        show "\<forall>d\<in>live h - {(a, s)}. block_ok d \<and> apart b d \<and> (\<forall>c\<in>set pre \<union> set post'. apart c d)"
          using m others liveoks fl by blast
      qed (use m s2 in \<open>auto simp: sorted_wrt_append\<close>)
      moreover have "live_ok ((uh_used h)(a := None)) (uh_huge h)"
        using lok by (auto simp: live_ok_def used_blocks_def split: if_splits)
      moreover have "in_range ?h'" using rng unfolding in_range_def lv by auto
      ultimately show ?thesis by (simp add: heap_ok_def lv)
    qed
    ultimately show ?thesis using True free by simp
  qed
qed

text \<open>A program that asks for 4088 bytes can be given 4104, and then cannot give them back.\<close>

definition demo_heap :: user_heap where
  "demo_heap = heap_new\<lparr>uh_used := [0x10000 \<mapsto> 4120], uh_start := 0x10010, uh_end := 0x10010\<rparr>"

lemma demo_heap_reached:
  "heap_allocate mapped (heap_new\<lparr>uh_free := [(0x10000, 4120)]\<rparr>) 4088 8 = Some ((0x10010, 4104), demo_heap)"
proof -
  have "align_up 4088 8 = 4088" by (rule align_up_aligned) simp_all
  then show ?thesis
    by (simp add: heap_allocate_def HEAP_PAGE_SIZE_def SIZE_FOR_SEPARATE_LARGE_BLOCK_def heap_new_def can_be_split_eq
        data_size_def usub_def BLOCK_HEADER_SIZE_def take_block_def block_data_def uadd_def update_heap_range_tracker_def demo_heap_def)
qed

theorem heap_free_small_witness: "heap_ok demo_heap \<and> heap_free demo_heap 0x10010 = None"
proof -
  have "heap_ok demo_heap"
    by (simp add: heap_ok_def demo_heap_def heap_new_def free_ok_def live_def used_blocks_def live_ok_def in_range_def block_ok_def)
  then show ?thesis
    using heap_free_small [of demo_heap "0x10000" 4120] by (simp add: demo_heap_def heap_new_def)
qed

end
