(* ===== verification/Device_Tree.thy ===== *)
theory Device_Tree
  imports Addresses
begin

text \<open>
  \<open>kernel/src/peripherals/device_tree.cpp\<close> and \<open>device_tree.h\<close>: reading a flattened device tree,
  properties, address ranges and their translation, and the order of probing.

  The blob is the list of its bytes; it is aligned to four bytes in memory, so that the alignment of a
  pointer is that of its offset.  Reading behind the blob is undefined.  A node holds its children; a
  reference to a node is its path from the root, and where the code follows \<open>parent\<close> a function takes
  the list of ancestors, the parent first.  The drivers that are probed are parameters.
\<close>

definition ascii :: "string \<Rightarrow> u8 list" where
  "ascii s = map of_char s"

subsection \<open>Big-endian numbers\<close>

definition big_to_cpu32 :: "u8 list \<Rightarrow> u32" where
  "big_to_cpu32 bs = push_bit 24 (ucast (bs ! 0)) OR push_bit 16 (ucast (bs ! 1)) OR push_bit 8 (ucast (bs ! 2)) OR ucast (bs ! 3)"

definition big_to_cpu64 :: "u8 list \<Rightarrow> u64" where
  "big_to_cpu64 bs = push_bit 56 (ucast (bs ! 0)) OR push_bit 48 (ucast (bs ! 1)) OR push_bit 40 (ucast (bs ! 2)) OR
     push_bit 32 (ucast (bs ! 3)) OR push_bit 24 (ucast (bs ! 4)) OR push_bit 16 (ucast (bs ! 5)) OR
     push_bit 8 (ucast (bs ! 6)) OR ucast (bs ! 7)"

text \<open>\<open>buffer::get_at_be\<close>\<close>

definition get_be32 :: "u8 list \<Rightarrow> nat \<Rightarrow> u32 option" where
  "get_be32 b off = do { verify (off + 4 \<le> length b); Some (big_to_cpu32 (take 4 (drop off b))) }"

definition get_be64 :: "u8 list \<Rightarrow> nat \<Rightarrow> u64 option" where
  "get_be64 b off = do { verify (off + 8 \<le> length b); Some (big_to_cpu64 (take 8 (drop off b))) }"

subsection \<open>Nodes\<close>

datatype DevStatus = DevUnprobed | DevUnrecognised | DevWaiting | DevSuccess | DevFailure

record dt_property =
  dp_name :: "u8 list"
  dp_data :: "u8 list"

datatype dt_node = Node (dn_name: "u8 list") (dn_children: "dt_node list") (dn_compatible: "u8 list list")
  (dn_properties: "dt_property list") (dn_phandle: u32) (dn_status: DevStatus)

record device_tree =
  dt_reserved :: "(u64 \<times> u64) list"
  dt_root :: "dt_node option"
  dt_phandles :: "u32 \<Rightarrow> nat list option"

fun node_at :: "dt_node \<Rightarrow> nat list \<Rightarrow> dt_node option" where
  "node_at n [] = Some n"
| "node_at n (i # is) = (if i < length (dn_children n) then node_at (dn_children n ! i) is else None)"

fun find_property :: "dt_property list \<Rightarrow> u8 list \<Rightarrow> u8 list option" where
  "find_property [] name = None"
| "find_property (p # ps) name = (if dp_name p = name then Some (dp_data p) else find_property ps name)"

definition get_property :: "dt_node \<Rightarrow> u8 list \<Rightarrow> u8 list option" where
  "get_property n name = find_property (dn_properties n) name"

subsection \<open>Reading the blob\<close>

definition DTB_MAGIC :: u32 where "DTB_MAGIC = 0xd00dfeed"

definition BEGIN_NODE :: u32 where "BEGIN_NODE = 1"
definition END_NODE :: u32 where "END_NODE = 2"
definition BEGIN_PROP :: u32 where "BEGIN_PROP = 3"
definition NOP :: u32 where "NOP = 4"

record fdt_header =
  fh_magic :: u32
  fh_totalsize :: u32
  fh_off_dt_struct :: u32
  fh_off_dt_strings :: u32
  fh_off_mem_rsvmap :: u32
  fh_version :: u32
  fh_last_comp_version :: u32
  fh_boot_cpuid_phys :: u32
  fh_size_dt_strings :: u32
  fh_size_dt_struct :: u32

text \<open>The cursor \<open>dtb_struct_pointer\<close>: the offset of the next byte and of the end of the structure block.\<close>

record cursor =
  c_pos :: nat
  c_end :: nat

definition peek_u32 :: "u8 list \<Rightarrow> cursor \<Rightarrow> u32 option" where
  "peek_u32 dtb c = do { verify (c_pos c + 4 \<le> c_end c); bs \<leftarrow> mem_read dtb (c_pos c) 4; Some (big_to_cpu32 bs) }"

definition read_u32 :: "u8 list \<Rightarrow> cursor \<Rightarrow> (u32 \<times> cursor) option" where
  "read_u32 dtb c = do { x \<leftarrow> peek_u32 dtb c; Some (x, c\<lparr>c_pos := c_pos c + 4\<rparr>) }"

definition peek_tag :: "u8 list \<Rightarrow> cursor \<Rightarrow> u32 option" where
  "peek_tag dtb c = do { verify (c_pos c mod 4 = 0); peek_u32 dtb c }"

definition read_tag :: "u8 list \<Rightarrow> cursor \<Rightarrow> (u32 \<times> cursor) option" where
  "read_tag dtb c = do { verify (c_pos c mod 4 = 0); read_u32 dtb c }"

partial_function (option) read_nops :: "u8 list \<Rightarrow> cursor \<Rightarrow> cursor option" where
  "read_nops dtb c = do {
     t \<leftarrow> peek_tag dtb c;
     (if t = NOP then read_nops dtb (c\<lparr>c_pos := c_pos c + 4\<rparr>) else Some c) }"

definition string_from :: "u8 list \<Rightarrow> nat \<Rightarrow> u8 list option" where
  "string_from dtb off = do { len \<leftarrow> strlen (drop off dtb); Some (take len (drop off dtb)) }"

definition read_null_string :: "u8 list \<Rightarrow> cursor \<Rightarrow> (u8 list \<times> cursor) option" where
  "read_null_string dtb c = do {
     s \<leftarrow> string_from dtb (c_pos c);
     Some (s, c\<lparr>c_pos := c_pos c + length s + 1\<rparr>) }"

definition read_padding :: "cursor \<Rightarrow> cursor" where
  "read_padding c = c\<lparr>c_pos := (c_pos c + 3) div 4 * 4\<rparr>"

definition read_buffer :: "u8 list \<Rightarrow> cursor \<Rightarrow> nat \<Rightarrow> (u8 list \<times> cursor) option" where
  "read_buffer dtb c n = do {
     verify (c_pos c + n \<le> c_end c);
     bs \<leftarrow> mem_read dtb (c_pos c) n;
     Some (bs, c\<lparr>c_pos := c_pos c + n\<rparr>) }"

text \<open>\<open>dtb_read_stringlist\<close> of the property at \<open>pos\<close>; its last string may run past the end of the property.\<close>

function dtb_read_stringlist :: "u8 list \<Rightarrow> nat \<Rightarrow> nat \<Rightarrow> u8 list list option" where
  "dtb_read_stringlist dtb pos stop =
     (if pos < stop
      then do {
        s \<leftarrow> string_from dtb pos;
        rest \<leftarrow> dtb_read_stringlist dtb (pos + length s + 1) stop;
        Some (s # rest) }
      else Some [])"
  by pat_completeness auto

termination dtb_read_stringlist
  by (relation "measure (\<lambda>(dtb, pos, stop). stop - pos)") auto

declare dtb_read_stringlist.simps [simp del]

text \<open>
  What the loop over the properties of a node builds: the properties, the \<open>compatible\<close> strings and the
  handle, and the handles of the tree.  A handle that is taken stays with its first node.
\<close>

type_synonym handles = "u32 \<Rightarrow> nat list option"

record node_parts =
  np_properties :: "dt_property list"
  np_compatible :: "u8 list list"
  np_phandle :: u32

text \<open>A property, with the offset of its data.\<close>

definition read_property :: "u8 list \<Rightarrow> nat \<Rightarrow> cursor \<Rightarrow> (dt_property \<times> nat \<times> cursor) option" where
  "read_property dtb strings c = do {
     (_, c1) \<leftarrow> read_tag dtb c;
     (len, c2) \<leftarrow> read_u32 dtb c1;
     (name_off, c3) \<leftarrow> read_u32 dtb c2;
     (prop_data, c4) \<leftarrow> read_buffer dtb c3 (unat len);
     prop_name \<leftarrow> string_from dtb (strings + unat name_off);
     Some (\<lparr>dp_name = prop_name, dp_data = prop_data\<rparr>, c_pos c3, read_padding c4) }"

definition add_property :: "u8 list \<Rightarrow> nat list \<Rightarrow> dt_property \<Rightarrow> nat \<Rightarrow> node_parts \<Rightarrow> handles \<Rightarrow> (node_parts \<times> handles) option" where
  "add_property dtb path p pos np hs =
     (let np1 = np\<lparr>np_properties := np_properties np @ [p]\<rparr>
      in if dp_name p = ascii ''compatible''
         then do { ss \<leftarrow> dtb_read_stringlist dtb pos (pos + length (dp_data p)); Some (np1\<lparr>np_compatible := ss\<rparr>, hs) }
         else if dp_name p = ascii ''phandle''
         then do { h \<leftarrow> get_be32 (dp_data p) 0;
                   Some (np1\<lparr>np_phandle := h\<rparr>, if hs h = None then hs(h \<mapsto> path) else hs) }
         else Some (np1, hs))"

partial_function (option) parse_properties :: "u8 list \<Rightarrow> nat \<Rightarrow> nat list \<Rightarrow> cursor \<Rightarrow> node_parts \<Rightarrow> handles \<Rightarrow>
    (node_parts \<times> cursor \<times> handles) option" where
  "parse_properties dtb strings path c np hs = do {
     t \<leftarrow> peek_tag dtb c;
     (if t \<noteq> BEGIN_PROP then Some (np, c, hs)
      else do {
        x \<leftarrow> read_property dtb strings c;
        y \<leftarrow> add_property dtb path (fst x) (fst (snd x)) np hs;
        parse_properties dtb strings path (snd (snd x)) (fst y) (snd y) }) }"

text \<open>The part of \<open>parse_node\<close> before the children, and the part after them.\<close>

definition parse_start :: "u8 list \<Rightarrow> nat \<Rightarrow> nat list \<Rightarrow> cursor \<Rightarrow> handles \<Rightarrow>
    (u8 list \<times> node_parts \<times> cursor \<times> handles) option" where
  "parse_start dtb strings path c hs = do {
     c1 \<leftarrow> read_nops dtb c;
     (t, c2) \<leftarrow> read_tag dtb c1;
     verify (t = BEGIN_NODE);
     (name, c3) \<leftarrow> read_null_string dtb c2;
     (np, c4, hs1) \<leftarrow> parse_properties dtb strings path (read_padding c3)
       \<lparr>np_properties = [], np_compatible = [], np_phandle = 1000\<rparr> hs;
     Some (name, np, c4, hs1) }"

definition parse_stop :: "u8 list \<Rightarrow> cursor \<Rightarrow> cursor option" where
  "parse_stop dtb c = do {
     c1 \<leftarrow> read_nops dtb c;
     (t, c2) \<leftarrow> read_tag dtb c1;
     verify (t = END_NODE);
     Some c2 }"

definition make_node :: "u8 list \<Rightarrow> node_parts \<Rightarrow> dt_node list \<Rightarrow> dt_node" where
  "make_node name np children = Node name children (np_compatible np) (np_properties np) (np_phandle np) DevUnprobed"

text \<open>The loop over the children of the node at \<open>path\<close>, from child \<open>i\<close> on, with the recursive call in place.\<close>

partial_function (option) parse_children :: "u8 list \<Rightarrow> nat \<Rightarrow> nat list \<Rightarrow> nat \<Rightarrow> cursor \<Rightarrow> handles \<Rightarrow>
    (dt_node list \<times> cursor \<times> handles) option" where
  "parse_children dtb strings path i c hs = do {
     t \<leftarrow> peek_tag dtb c;
     (if t \<noteq> BEGIN_NODE then Some ([], c, hs)
      else do {
        x \<leftarrow> parse_start dtb strings (path @ [i]) c hs;
        y \<leftarrow> parse_children dtb strings (path @ [i]) 0 (fst (snd (snd x))) (snd (snd (snd x)));
        c1 \<leftarrow> parse_stop dtb (fst (snd y));
        z \<leftarrow> parse_children dtb strings path (i + 1) c1 (snd (snd y));
        Some (make_node (fst x) (fst (snd x)) (fst y) # fst z, snd z) }) }"

definition parse_node :: "u8 list \<Rightarrow> nat \<Rightarrow> nat list \<Rightarrow> cursor \<Rightarrow> handles \<Rightarrow> (dt_node \<times> cursor \<times> handles) option" where
  "parse_node dtb strings path c hs = do {
     (name, np, c1, hs1) \<leftarrow> parse_start dtb strings path c hs;
     (children, c2, hs2) \<leftarrow> parse_children dtb strings path 0 c1 hs1;
     c3 \<leftarrow> parse_stop dtb c2;
     Some (make_node name np children, c3, hs2) }"

definition header_word :: "u8 list \<Rightarrow> nat \<Rightarrow> u32" where
  "header_word dtb i = big_to_cpu32 (take 4 (drop (4 * i) dtb))"

definition read_dtb_header :: "u8 list \<Rightarrow> fdt_header option" where
  "read_dtb_header dtb = do {
     _ \<leftarrow> mem_read dtb 0 40;
     Some \<lparr>fh_magic = header_word dtb 0, fh_totalsize = header_word dtb 1, fh_off_dt_struct = header_word dtb 2,
           fh_off_dt_strings = header_word dtb 3, fh_off_mem_rsvmap = header_word dtb 4, fh_version = header_word dtb 5,
           fh_last_comp_version = header_word dtb 6, fh_boot_cpuid_phys = header_word dtb 7,
           fh_size_dt_strings = header_word dtb 8, fh_size_dt_struct = header_word dtb 9\<rparr> }"

partial_function (option) read_reserved :: "u8 list \<Rightarrow> nat \<Rightarrow> (u64 \<times> u64) list option" where
  "read_reserved dtb pos = do {
     bs \<leftarrow> mem_read dtb pos 16;
     (let address = big_to_cpu64 (take 8 bs); sz = big_to_cpu64 (drop 8 bs)
      in if address = 0 \<and> sz = 0 then Some []
         else do { rest \<leftarrow> read_reserved dtb (pos + 16); Some ((address, sz) # rest) }) }"

definition read_dtb :: "u8 list \<Rightarrow> device_tree option" where
  "read_dtb dtb = do {
     h \<leftarrow> read_dtb_header dtb;
     (if fh_magic h \<noteq> DTB_MAGIC then Some \<lparr>dt_reserved = [], dt_root = None, dt_phandles = Map.empty\<rparr>
      else do {
        reserved \<leftarrow> read_reserved dtb (unat (fh_off_mem_rsvmap h));
        verify (unat (fh_off_dt_struct h) + unat (fh_size_dt_struct h) \<le> length dtb);
        verify (unat (fh_off_dt_strings h) + unat (fh_size_dt_strings h) \<le> length dtb);
        (root, _, hs) \<leftarrow> parse_node dtb (unat (fh_off_dt_strings h)) []
          \<lparr>c_pos = unat (fh_off_dt_struct h), c_end = unat (fh_off_dt_struct h) + unat (fh_size_dt_struct h)\<rparr> Map.empty;
        Some \<lparr>dt_reserved = reserved, dt_root = Some root, dt_phandles = hs\<rparr> }) }"


subsection \<open>Properties and ranges\<close>

definition get_property_u32 :: "dt_node \<Rightarrow> u8 list \<Rightarrow> u32 option option" where
  "get_property_u32 n name =
     (case get_property n name of
        None \<Rightarrow> Some None
      | Some b \<Rightarrow> do { verify (length b = 4); x \<leftarrow> get_be32 b 0; Some (Some x) })"

definition cells_or :: "u32 \<Rightarrow> u32 option \<Rightarrow> u32" where
  "cells_or d v = (case v of None \<Rightarrow> d | Some x \<Rightarrow> x)"

definition address_cells :: "dt_node \<Rightarrow> u32 option" where
  "address_cells n = map_option (cells_or 2) (get_property_u32 n (ascii ''#address-cells''))"

definition size_cells :: "dt_node \<Rightarrow> u32 option" where
  "size_cells n = map_option (cells_or 1) (get_property_u32 n (ascii ''#size-cells''))"

text \<open>The node and then its ancestors.\<close>

fun get_inheritable_property_u32 :: "dt_node list \<Rightarrow> u8 list \<Rightarrow> u32 option option" where
  "get_inheritable_property_u32 [] name = Some None"
| "get_inheritable_property_u32 (n # ns) name = do {
     v \<leftarrow> get_property_u32 n name;
     (case v of None \<Rightarrow> get_inheritable_property_u32 ns name | Some x \<Rightarrow> Some (Some x)) }"

definition get_be :: "u8 list \<Rightarrow> nat \<Rightarrow> bool \<Rightarrow> (u64 \<times> nat) option" where
  "get_be b off long =
     (if long then map_option (\<lambda>x. (x, off + 8)) (get_be64 b off)
      else map_option (\<lambda>x. (ucast x, off + 4)) (get_be32 b off))"

fun read_regs :: "u8 list \<Rightarrow> bool \<Rightarrow> bool \<Rightarrow> nat \<Rightarrow> nat \<Rightarrow> (u64 \<times> u64) list option" where
  "read_regs b long_address long_size off 0 = Some []"
| "read_regs b long_address long_size off (Suc n) = do {
     (address, off1) \<leftarrow> get_be b off long_address;
     (sz, off2) \<leftarrow> get_be b off1 long_size;
     rest \<leftarrow> read_regs b long_address long_size off2 n;
     Some ((address, sz) # rest) }"

definition get_std_regs :: "dt_node \<Rightarrow> dt_node list \<Rightarrow> (u64 \<times> u64) list option" where
  "get_std_regs n ancestors =
     (case get_property n (ascii ''reg'') of
        None \<Rightarrow> Some []
      | Some b \<Rightarrow> do {
          ac \<leftarrow> (case ancestors of [] \<Rightarrow> Some 2 | p # _ \<Rightarrow> address_cells p);
          sc \<leftarrow> (case ancestors of [] \<Rightarrow> Some 1 | p # _ \<Rightarrow> size_cells p);
          verify (ac = 1 \<or> ac = 2);
          verify (sc = 1 \<or> sc = 2);
          (let item = 4 * (unat ac + unat sc); count = length b div item
           in do { verify (length b = count * item); read_regs b (ac = 2) (sc = 2) 0 count }) })"

record range_t =
  rt_child_address :: u64
  rt_parent_address :: u64
  rt_size :: u64

definition read_from_buffer :: "u8 list \<Rightarrow> nat \<Rightarrow> u32 \<Rightarrow> (u64 \<times> nat) option" where
  "read_from_buffer b off cells = do {
     verify (cells \<le> 2);
     (if cells = 0 then Some (0, off) else get_be b off (cells = 2)) }"

record range_array =
  ra_range :: "u8 list"
  ra_parent_cells :: u32
  ra_child_cells :: u32
  ra_size_cells :: u32

definition can_dereference_iterator :: "range_array \<Rightarrow> bool" where
  "can_dereference_iterator ra \<longleftrightarrow> ra_parent_cells ra \<le> 2 \<and> ra_child_cells ra \<le> 2 \<and> ra_size_cells ra \<le> 2"

definition range_item_size :: "range_array \<Rightarrow> nat" where
  "range_item_size ra = unat ((ra_parent_cells ra + ra_child_cells ra + ra_size_cells ra) * 4)"

text \<open>The number of ranges; dividing by zero is undefined.\<close>

definition ra_count :: "range_array \<Rightarrow> nat option" where
  "ra_count ra = do { verify (range_item_size ra \<noteq> 0); Some (length (ra_range ra) div range_item_size ra) }"

definition ra_first :: "range_array \<Rightarrow> range_t option" where
  "ra_first ra = do {
     (child, off1) \<leftarrow> read_from_buffer (ra_range ra) 0 (ra_child_cells ra);
     (parent, off2) \<leftarrow> read_from_buffer (ra_range ra) off1 (ra_parent_cells ra);
     (sz, _) \<leftarrow> read_from_buffer (ra_range ra) off2 (ra_size_cells ra);
     Some \<lparr>rt_child_address = child, rt_parent_address = parent, rt_size = sz\<rparr> }"

definition ra_next :: "range_array \<Rightarrow> range_array option" where
  "ra_next ra = do {
     verify (range_item_size ra \<le> length (ra_range ra));
     Some (ra\<lparr>ra_range := drop (range_item_size ra) (ra_range ra)\<rparr>) }"

text \<open>All the ranges, and the first one whose child region contains the given region.\<close>

partial_function (option) ra_all :: "range_array \<Rightarrow> range_t list option" where
  "ra_all ra =
     (if ra_range ra = [] then Some []
      else do { r \<leftarrow> ra_first ra; ra1 \<leftarrow> ra_next ra; rs \<leftarrow> ra_all ra1; Some (r # rs) })"

definition child_region :: "range_t \<Rightarrow> region" where
  "child_region r = \<lparr>rg_start = unat (rt_child_address r), rg_size = unat (rt_size r)\<rparr>"

partial_function (option) ra_find :: "range_array \<Rightarrow> region \<Rightarrow> range_t option option" where
  "ra_find ra r =
     (if ra_range ra = [] then Some None
      else do {
        x \<leftarrow> ra_first ra;
        (if rg_contains (child_region x) r then Some (Some x)
         else do { ra1 \<leftarrow> ra_next ra; ra_find ra1 r }) })"

definition get_ranges :: "dt_node \<Rightarrow> dt_node list \<Rightarrow> bool \<Rightarrow> range_array option option" where
  "get_ranges n ancestors dma_ranges =
     (case get_property n (if dma_ranges then ascii ''dma-ranges'' else ascii ''ranges'') of
        None \<Rightarrow> Some None
      | Some b \<Rightarrow> do {
          this_cells \<leftarrow> address_cells n;
          sc \<leftarrow> size_cells n;
          parent_cells \<leftarrow> (case ancestors of [] \<Rightarrow> Some 2 | p # _ \<Rightarrow> address_cells p);
          verify (parent_cells + this_cells + sc \<noteq> 0);
          verify (length b mod unat (parent_cells + this_cells + sc) = 0);
          Some (Some \<lparr>ra_range = b, ra_parent_cells = parent_cells, ra_child_cells = this_cells, ra_size_cells = sc\<rparr>) })"

subsection \<open>Translation of addresses\<close>

text \<open>
  The loop of \<open>map_region_to_root\<close> over the ancestors.  At every level it takes the ranges of the node
  itself, and not those of the ancestor.
\<close>

fun map_region_loop :: "dt_node \<Rightarrow> dt_node list \<Rightarrow> dt_node list \<Rightarrow> region \<Rightarrow> region option option" where
  "map_region_loop n ancestors [] r = Some (Some r)"
| "map_region_loop n ancestors [p] r = Some (Some r)"
| "map_region_loop n ancestors (p # q # ps) r = do {
     ranges \<leftarrow> get_ranges n ancestors False;
     (case ranges of
        None \<Rightarrow> Some None
      | Some ra \<Rightarrow>
          if \<not> can_dereference_iterator ra then Some None
          else do {
            count \<leftarrow> ra_count ra;
            (if count = 0 then map_region_loop n ancestors (q # ps) r
             else do {
               found \<leftarrow> ra_find ra r;
               (case found of
                  None \<Rightarrow> Some None
                | Some x \<Rightarrow> map_region_loop n ancestors (q # ps)
                    (r\<lparr>rg_start := uadd (unat (rt_parent_address x)) (usub (rg_start r) (unat (rt_child_address x)))\<rparr>)) }) }) }"

definition map_region_to_root :: "dt_node \<Rightarrow> dt_node list \<Rightarrow> region \<Rightarrow> region option option" where
  "map_region_to_root n ancestors r = map_region_loop n ancestors ancestors r"

definition map_address_to_phys :: "uSize \<Rightarrow> dt_node \<Rightarrow> dt_node list \<Rightarrow> uSize option option" where
  "map_address_to_phys address n ancestors =
     map_option (map_option rg_start) (map_region_to_root n ancestors \<lparr>rg_start = address, rg_size = 0\<rparr>)"

definition IDENTITY_MAPPING :: range_t where
  "IDENTITY_MAPPING = \<lparr>rt_child_address = 0, rt_parent_address = 0, rt_size = NOT 0\<rparr>"

definition apply_range :: "range_t \<Rightarrow> range_t \<Rightarrow> range_t" where
  "apply_range lower upper =
     (let mid_start = max (rt_parent_address lower) (rt_child_address upper);
          mid_end = min (rt_parent_address lower + rt_size lower) (rt_child_address upper + rt_size upper)
      in if mid_end \<le> mid_start then \<lparr>rt_child_address = 0, rt_parent_address = 0, rt_size = 0\<rparr>
         else \<lparr>rt_child_address = rt_child_address lower + (mid_start - rt_parent_address lower),
               rt_parent_address = rt_parent_address upper + (mid_start - rt_child_address upper),
               rt_size = mid_end - mid_start\<rparr>)"

definition apply_ranges :: "range_t list \<Rightarrow> range_t list \<Rightarrow> range_t list" where
  "apply_ranges lowers uppers =
     filter (\<lambda>r. rt_size r \<noteq> 0) (concat (map (\<lambda>l. map (apply_range l) uppers) lowers))"

fun dma_ranges_loop :: "dt_node list \<Rightarrow> range_t list \<Rightarrow> range_t list option" where
  "dma_ranges_loop [] current = Some current"
| "dma_ranges_loop [p] current = Some current"
| "dma_ranges_loop (p # q # ps) current = do {
     ranges \<leftarrow> get_ranges p (q # ps) False;
     (case ranges of
        None \<Rightarrow> Some []
      | Some ra \<Rightarrow>
          if \<not> can_dereference_iterator ra then Some []
          else do {
            count \<leftarrow> ra_count ra;
            (if count = 0 then dma_ranges_loop (q # ps) current
             else do {
               uppers \<leftarrow> (if current = [] then Some [] else ra_all ra);
               (let new_ranges = apply_ranges current uppers
                in if new_ranges = [] then Some [] else dma_ranges_loop (q # ps) new_ranges) }) }) }"

definition get_dma_to_phys_ranges :: "dt_node \<Rightarrow> dt_node list \<Rightarrow> range_t list option" where
  "get_dma_to_phys_ranges n ancestors =
     (if ancestors = [] then Some [IDENTITY_MAPPING]
      else do {
        ranges \<leftarrow> get_ranges n ancestors True;
        (case ranges of
           None \<Rightarrow> dma_ranges_loop ancestors [IDENTITY_MAPPING]
         | Some ra \<Rightarrow>
             if \<not> can_dereference_iterator ra then Some []
             else do {
               count \<leftarrow> ra_count ra;
               current \<leftarrow> (if count = 0 then Some [IDENTITY_MAPPING] else ra_all ra);
               dma_ranges_loop ancestors current }) })"

text \<open>\<open>get_regions_from_reg\<close>; registers that cannot be mapped are left out.\<close>

fun map_regs :: "dt_node \<Rightarrow> dt_node list \<Rightarrow> range_t list \<Rightarrow> region list option" where
  "map_regs n ancestors [] = Some []"
| "map_regs n ancestors (r # rs) = do {
     m \<leftarrow> map_region_to_root n ancestors \<lparr>rg_start = unat (rt_parent_address r), rg_size = unat (rt_size r)\<rparr>;
     rest \<leftarrow> map_regs n ancestors rs;
     Some (case m of None \<Rightarrow> rest | Some x \<Rightarrow> x # rest) }"

definition get_regions_from_reg :: "dt_node \<Rightarrow> dt_node list \<Rightarrow> region list option" where
  "get_regions_from_reg n ancestors =
     (case get_property n (ascii ''reg'') of
        None \<Rightarrow> Some []
      | Some b \<Rightarrow>
          (case ancestors of
             [] \<Rightarrow> None
           | p # _ \<Rightarrow> do {
               ac \<leftarrow> address_cells p;
               sc \<leftarrow> size_cells p;
               verify ((ac + sc) * 4 \<noteq> 0);
               verify (length b mod unat ((ac + sc) * 4) = 0);
               (let regs = \<lparr>ra_range = b, ra_parent_cells = ac, ra_child_cells = 0, ra_size_cells = sc\<rparr>
                in do {
                  verify (can_dereference_iterator regs);
                  rs \<leftarrow> ra_all regs;
                  map_regs n ancestors rs }) }))"

fun concat_regions :: "dt_node list \<Rightarrow> dt_node list \<Rightarrow> region list option" where
  "concat_regions ancestors [] = Some []"
| "concat_regions ancestors (n # ns) = do {
     rs \<leftarrow> get_regions_from_reg n ancestors;
     rest \<leftarrow> concat_regions ancestors ns;
     Some (rs @ rest) }"

definition is_memory_node :: "dt_node \<Rightarrow> bool" where
  "is_memory_node n \<longleftrightarrow> dn_name n = ascii ''memory'' \<or> (7 \<le> length (dn_name n) \<and> take 7 (dn_name n) = ascii ''memory@'')"

definition get_memory_regions :: "device_tree \<Rightarrow> region list option" where
  "get_memory_regions t =
     (case dt_root t of
        None \<Rightarrow> Some []
      | Some root \<Rightarrow> concat_regions [root] (filter is_memory_node (dn_children root)))"

fun reserved_nodes :: "dt_node \<Rightarrow> dt_node list \<Rightarrow> region list option" where
  "reserved_nodes root [] = Some []"
| "reserved_nodes root (n # ns) = do {
     rs \<leftarrow> (if dn_name n = ascii ''reserved-memory'' then concat_regions [n, root] (dn_children n) else Some []);
     rest \<leftarrow> reserved_nodes root ns;
     Some (rs @ rest) }"

definition get_reserved_regions :: "device_tree \<Rightarrow> region list option" where
  "get_reserved_regions t =
     (let listed = map (\<lambda>(a, n). \<lparr>rg_start = unat a, rg_size = unat n\<rparr>) (dt_reserved t)
      in case dt_root t of
           None \<Rightarrow> Some listed
         | Some root \<Rightarrow> map_option ((@) listed) (reserved_nodes root (dn_children root)))"

definition get_node_by_phandle :: "device_tree \<Rightarrow> u32 \<Rightarrow> (nat list option \<times> DevStatus) option" where
  "get_node_by_phandle t phandle =
     (case dt_phandles t phandle of
        None \<Rightarrow> Some (None, DevFailure)
      | Some path \<Rightarrow> do {
          root \<leftarrow> dt_root t;
          n \<leftarrow> node_at root path;
          Some (case dn_status n of
              DevUnprobed \<Rightarrow> (None, DevWaiting)
            | DevWaiting \<Rightarrow> (None, DevWaiting)
            | DevUnrecognised \<Rightarrow> (None, DevFailure)
            | DevFailure \<Rightarrow> (None, DevFailure)
            | DevSuccess \<Rightarrow> (Some path, DevSuccess)) })"

subsection \<open>Probing\<close>

text \<open>
  A driver probes the node at a path; it may probe other nodes and change the state of its device, the
  rest of the context \<open>'s\<close>.
\<close>

record 's probe_ctx =
  px_tree :: device_tree
  px_waiting :: "nat list list"
  px_devices :: 's

type_synonym 's probe_fn = "nat list \<Rightarrow> 's probe_ctx \<Rightarrow> (DevStatus \<times> 's probe_ctx) option"

fun set_status :: "dt_node \<Rightarrow> nat list \<Rightarrow> DevStatus \<Rightarrow> dt_node" where
  "set_status (Node name cs cps ps h st) [] s = Node name cs cps ps h s"
| "set_status (Node name cs cps ps h st) (i # is) s =
     Node name (if i < length cs then cs[i := set_status (cs ! i) is s] else cs) cps ps h st"

definition mark_node :: "nat list \<Rightarrow> DevStatus \<Rightarrow> 's probe_ctx \<Rightarrow> 's probe_ctx" where
  "mark_node path s ctx =
     ctx\<lparr>px_tree := (px_tree ctx)\<lparr>dt_root := map_option (\<lambda>r. set_status r path s) (dt_root (px_tree ctx))\<rparr>\<rparr>"

fun probe_node :: "'s probe_fn list \<Rightarrow> nat list \<Rightarrow> 's probe_ctx \<Rightarrow> (DevStatus \<times> 's probe_ctx) option" where
  "probe_node [] path ctx = Some (DevUnrecognised, mark_node path DevUnrecognised ctx)"
| "probe_node (f # fs) path ctx = do {
     (res, ctx1) \<leftarrow> f path ctx;
     (if res \<noteq> DevUnrecognised
      then (let ctx2 = mark_node path res ctx1
            in Some (res, if res = DevWaiting then ctx2\<lparr>px_waiting := px_waiting ctx2 @ [path]\<rparr> else ctx2))
      else probe_node fs path ctx1) }"

fun probe_each :: "'s probe_fn list \<Rightarrow> nat list list \<Rightarrow> 's probe_ctx \<Rightarrow> 's probe_ctx option" where
  "probe_each fs [] ctx = Some ctx"
| "probe_each fs (path # paths) ctx = do { (_, ctx1) \<leftarrow> probe_node fs path ctx; probe_each fs paths ctx1 }"

text \<open>The loop over the waiting nodes; a round that changes their number is not counted.\<close>

partial_function (option) probe_rounds :: "'s probe_fn list \<Rightarrow> nat \<Rightarrow> 's probe_ctx \<Rightarrow> 's probe_ctx option" where
  "probe_rounds fs iterations ctx =
     (if iterations = 0 \<or> px_waiting ctx = [] then Some ctx
      else do {
        ctx1 \<leftarrow> probe_each fs (px_waiting ctx) (ctx\<lparr>px_waiting := []\<rparr>);
        probe_rounds fs (if length (px_waiting ctx1) \<noteq> length (px_waiting ctx) then iterations else iterations - 1) ctx1 })"

definition probe_nodes :: "'s probe_fn list \<Rightarrow> device_tree \<Rightarrow> 's \<Rightarrow> 's probe_ctx option" where
  "probe_nodes fs t devices = do {
     verify (dt_root t \<noteq> None);
     (_, ctx) \<leftarrow> probe_node fs [] \<lparr>px_tree = t, px_waiting = [], px_devices = devices\<rparr>;
     probe_rounds fs 3 ctx }"

subsection \<open>Translations compose\<close>

text \<open>A range as a relation between addresses, and the ranges that do not wrap around.\<close>

definition translates :: "range_t \<Rightarrow> nat \<Rightarrow> nat \<Rightarrow> bool" where
  "translates r a p \<longleftrightarrow> unat (rt_child_address r) \<le> a \<and> a < unat (rt_child_address r) + unat (rt_size r) \<and>
     p + unat (rt_child_address r) = a + unat (rt_parent_address r)"

definition range_ok :: "range_t \<Rightarrow> bool" where
  "range_ok r \<longleftrightarrow> unat (rt_child_address r) + unat (rt_size r) < 2 ^ 64 \<and> unat (rt_parent_address r) + unat (rt_size r) < 2 ^ 64"

lemma unat_add_small: "unat a + unat b < 2 ^ 64 \<Longrightarrow> unat (a + b :: u64) = unat a + unat b"
  by (simp add: unat_add_lem [THEN iffD1])

lemma unat_diff_le: "b \<le> a \<Longrightarrow> unat (a - b :: u64) = unat a - unat b"
  by (rule unat_sub)

lemma unat_max: "unat (max a b :: u64) = max (unat a) (unat b)"
  by (simp add: max_def word_le_nat_alt)

lemma unat_min: "unat (min a b :: u64) = min (unat a) (unat b)"
  by (simp add: min_def word_le_nat_alt)

text \<open>The fields of a composed range, as numbers.\<close>

lemma apply_range_fields:
  assumes "range_ok l" and "range_ok u"
  defines "ms \<equiv> max (unat (rt_parent_address l)) (unat (rt_child_address u))"
    and "me \<equiv> min (unat (rt_parent_address l) + unat (rt_size l)) (unat (rt_child_address u) + unat (rt_size u))"
  shows "unat (rt_size (apply_range l u)) = me - ms"
    and "ms < me \<Longrightarrow> unat (rt_child_address (apply_range l u)) = unat (rt_child_address l) + (ms - unat (rt_parent_address l))"
    and "ms < me \<Longrightarrow> unat (rt_parent_address (apply_range l u)) = unat (rt_parent_address u) + (ms - unat (rt_child_address u))"
proof -
  let ?ms = "max (rt_parent_address l) (rt_child_address u)"
  let ?me = "min (rt_parent_address l + rt_size l) (rt_child_address u + rt_size u)"
  have ok: "unat (rt_child_address l) + unat (rt_size l) < 2 ^ 64" "unat (rt_parent_address l) + unat (rt_size l) < 2 ^ 64"
      "unat (rt_child_address u) + unat (rt_size u) < 2 ^ 64" "unat (rt_parent_address u) + unat (rt_size u) < 2 ^ 64"
    using assms(1,2) by (simp_all add: range_ok_def)
  have ms: "unat ?ms = ms" by (simp add: ms_def unat_max)
  have me: "unat ?me = me"
    unfolding unat_min me_def unat_add_small [OF ok(2)] unat_add_small [OF ok(3)] ..
  have le: "?me \<le> ?ms \<longleftrightarrow> me \<le> ms" unfolding word_le_nat_alt ms me ..
  have up: "rt_parent_address l \<le> ?ms" "rt_child_address u \<le> ?ms" by simp_all
  have off: "unat (?ms - rt_parent_address l) = ms - unat (rt_parent_address l)"
      "unat (?ms - rt_child_address u) = ms - unat (rt_child_address u)"
    unfolding unat_diff_le [OF up(1)] unat_diff_le [OF up(2)] ms by simp_all
  have inside: "ms - unat (rt_parent_address l) \<le> unat (rt_size l)" "ms - unat (rt_child_address u) \<le> unat (rt_size u)" if "ms < me"
    using that unfolding me_def by linarith+
  show "unat (rt_size (apply_range l u)) = me - ms"
  proof (cases "me \<le> ms")
    case True
    then show ?thesis by (simp add: apply_range_def Let_def le)
  next
    case False
    then have "?ms \<le> ?me" using le by (metis linear)
    from unat_diff_le [OF this] have "unat (?me - ?ms) = me - ms" unfolding ms me .
    then show ?thesis using False le by (simp add: apply_range_def Let_def)
  qed
  assume less: "ms < me"
  then have branch: "\<not> ?me \<le> ?ms" using le by simp
  show "unat (rt_child_address (apply_range l u)) = unat (rt_child_address l) + (ms - unat (rt_parent_address l))"
    using branch unat_add_small [of "rt_child_address l" "?ms - rt_parent_address l"] off(1) inside(1) [OF less] ok(1)
    by (simp add: apply_range_def Let_def)
  show "unat (rt_parent_address (apply_range l u)) = unat (rt_parent_address u) + (ms - unat (rt_child_address u))"
    using branch unat_add_small [of "rt_parent_address u" "?ms - rt_child_address u"] off(2) inside(2) [OF less] ok(4)
    by (simp add: apply_range_def Let_def)
qed

lemma translates_apply_range:
  assumes "range_ok l" and "range_ok u"
  shows "translates (apply_range l u) a p \<longleftrightarrow> (\<exists>m. translates l a m \<and> translates u m p)"
proof -
  define ms where "ms = max (unat (rt_parent_address l)) (unat (rt_child_address u))"
  define me where "me = min (unat (rt_parent_address l) + unat (rt_size l)) (unat (rt_child_address u) + unat (rt_size u))"
  note fields = apply_range_fields [OF assms, folded ms_def me_def]
  show ?thesis
  proof (cases "ms < me")
    case True
    show ?thesis
      unfolding translates_def fields(1) fields(2) [OF True] fields(3) [OF True]
    proof
      assume r: "unat (rt_child_address l) + (ms - unat (rt_parent_address l)) \<le> a \<and>
        a < unat (rt_child_address l) + (ms - unat (rt_parent_address l)) + (me - ms) \<and>
        p + (unat (rt_child_address l) + (ms - unat (rt_parent_address l))) =
        a + (unat (rt_parent_address u) + (ms - unat (rt_child_address u)))"
      show "\<exists>m. (unat (rt_child_address l) \<le> a \<and> a < unat (rt_child_address l) + unat (rt_size l) \<and>
          m + unat (rt_child_address l) = a + unat (rt_parent_address l)) \<and>
        unat (rt_child_address u) \<le> m \<and> m < unat (rt_child_address u) + unat (rt_size u) \<and>
        p + unat (rt_child_address u) = m + unat (rt_parent_address u)"
        by (rule exI [of _ "a + unat (rt_parent_address l) - unat (rt_child_address l)"])
          (use r True in \<open>auto simp: ms_def me_def max_def min_def split: if_splits\<close>)
    qed (use True in \<open>auto simp: ms_def me_def max_def min_def split: if_splits\<close>)
  next
    case False
    then show ?thesis
      unfolding translates_def fields(1) by (auto simp: ms_def me_def)
  qed
qed

text \<open>
  C31: Carrying a list of ranges through the ranges of the next bus composes the two translations: an
  address goes to \<open>p\<close> by one of the new ranges just when a range of the device takes it to an address of
  the bus that a range of the bus takes to \<open>p\<close>; no part of a range is lost and none is invented, as long
  as the ranges do not wrap around.
\<close>

theorem apply_ranges_composes:
  assumes "list_all range_ok lowers" and "list_all range_ok uppers"
  shows "(\<exists>r\<in>set (apply_ranges lowers uppers). translates r a p) \<longleftrightarrow>
    (\<exists>l\<in>set lowers. \<exists>u\<in>set uppers. \<exists>m. translates l a m \<and> translates u m p)"
proof -
  have "translates r a p \<Longrightarrow> rt_size r \<noteq> 0" for r by (auto simp: translates_def)
  then have "(\<exists>r\<in>set (apply_ranges lowers uppers). translates r a p) \<longleftrightarrow>
      (\<exists>l\<in>set lowers. \<exists>u\<in>set uppers. translates (apply_range l u) a p)"
    by (auto simp: apply_ranges_def)
  then show ?thesis
    using assms translates_apply_range by (auto simp: list_all_iff)
qed

theorem apply_ranges_composes_witness:
  "(\<exists>r\<in>set (apply_ranges [\<lparr>rt_child_address = 0, rt_parent_address = 0x100, rt_size = 0x80\<rparr>]
      [\<lparr>rt_child_address = 0x140, rt_parent_address = 0x2000, rt_size = 0x1000\<rparr>]). translates r 0x50 0x2010)"
proof -
  have "list_all range_ok [\<lparr>rt_child_address = 0, rt_parent_address = 0x100, rt_size = 0x80\<rparr>]"
      "list_all range_ok [\<lparr>rt_child_address = 0x140, rt_parent_address = 0x2000, rt_size = 0x1000\<rparr>]"
    by (simp_all add: range_ok_def)
  from apply_ranges_composes [OF this, of "0x50" "0x2010"] show ?thesis
    by (auto simp: translates_def)
qed

text \<open>
  The walk of \<open>map_region_to_root\<close> asks the node itself for its \<open>ranges\<close>: a device at least two levels
  below the root without that property is not mapped, whatever its buses map.
\<close>

lemma map_region_own_ranges:
  assumes "get_property n (ascii ''ranges'') = None"
  shows "map_region_to_root n (p # q # ps) r = Some None"
  using assms by (simp add: map_region_to_root_def get_ranges_def)

lemma map_region_below_root: "map_region_to_root n [p] r = Some (Some r)"
  by (simp add: map_region_to_root_def)

text \<open>A round of probing that leaves no node waiting ends the loop.\<close>

lemma probe_rounds_done: "px_waiting ctx = [] \<Longrightarrow> probe_rounds fs k ctx = Some ctx"
  by (subst probe_rounds.simps) simp

end
