(* ===== verification/Device_Tree_Format.thy ===== *)
theory Device_Tree_Format
  imports Device_Tree
begin

text \<open>
  The flattened form of a device tree, written as the specification of \<open>read_dtb\<close>: the tokens of the
  structure block, the block of strings and the header.  The lemmas follow the parser of
  \<open>kernel/src/peripherals/device_tree.cpp\<close> through it, for trees of any shape.
\<close>

subsection \<open>Flattening\<close>

definition be32 :: "u32 \<Rightarrow> u8 list" where
  "be32 w = [ucast (drop_bit 24 w), ucast (drop_bit 16 w), ucast (drop_bit 8 w), ucast w]"

definition be64 :: "u64 \<Rightarrow> u8 list" where
  "be64 w = be32 (ucast (drop_bit 32 w)) @ be32 (ucast w)"

definition pad4 :: "nat \<Rightarrow> u8 list" where
  "pad4 n = replicate ((n + 3) div 4 * 4 - n) 0"

text \<open>A tree as it is written: the name of a node, its properties and its children.\<close>

datatype src_node = Src (sn_name: "u8 list") (sn_props: "dt_property list") (sn_children: "src_node list")

fun flat_props :: "(u8 list \<Rightarrow> nat) \<Rightarrow> dt_property list \<Rightarrow> u8 list" where
  "flat_props off [] = []"
| "flat_props off (p # ps) = be32 BEGIN_PROP @ be32 (of_nat (length (dp_data p))) @ be32 (of_nat (off (dp_name p)))
     @ dp_data p @ pad4 (length (dp_data p)) @ flat_props off ps"

function flat_nodes :: "(u8 list \<Rightarrow> nat) \<Rightarrow> src_node list \<Rightarrow> u8 list" where
  "flat_nodes off [] = []"
| "flat_nodes off (Src name ps cs # ns) = be32 BEGIN_NODE @ name @ [0] @ pad4 (length name + 1)
     @ flat_props off ps @ flat_nodes off cs @ be32 END_NODE @ flat_nodes off ns"
  by pat_completeness auto

termination flat_nodes
  by (relation "measure (\<lambda>(off, ns). size_list size ns)") auto

text \<open>What the node of the parser holds.\<close>

function split_strings :: "u8 list \<Rightarrow> u8 list list" where
  "split_strings bs = (if bs = [] then [] else
     takeWhile (\<lambda>b. b \<noteq> 0) bs # split_strings (drop 1 (dropWhile (\<lambda>b. b \<noteq> 0) bs)))"
  by pat_completeness auto

termination split_strings
proof (relation "measure length")
  fix bs :: "u8 list"
  assume "bs \<noteq> []"
  then show "(drop 1 (dropWhile (\<lambda>b. b \<noteq> 0) bs), bs) \<in> measure length"
    using length_dropWhile_le [of "\<lambda>b. b \<noteq> 0" bs] by (cases bs) auto
qed simp

declare split_strings.simps [simp del]

fun props_of :: "nat list \<Rightarrow> dt_property list \<Rightarrow> node_parts \<Rightarrow> handles \<Rightarrow> node_parts \<times> handles" where
  "props_of path [] np hs = (np, hs)"
| "props_of path (p # ps) np hs =
     (let np1 = np\<lparr>np_properties := np_properties np @ [p]\<rparr>
      in if dp_name p = ascii ''compatible'' then props_of path ps (np1\<lparr>np_compatible := split_strings (dp_data p)\<rparr>) hs
         else if dp_name p = ascii ''phandle''
         then (let h = big_to_cpu32 (dp_data p)
               in props_of path ps (np1\<lparr>np_phandle := h\<rparr>) (if hs h = None then hs(h \<mapsto> path) else hs))
         else props_of path ps np1 hs)"

definition no_parts :: node_parts where
  "no_parts = \<lparr>np_properties = [], np_compatible = [], np_phandle = 1000\<rparr>"

function nodes_of :: "nat list \<Rightarrow> nat \<Rightarrow> src_node list \<Rightarrow> handles \<Rightarrow> dt_node list \<times> handles" where
  "nodes_of path i [] hs = ([], hs)"
| "nodes_of path i (Src name ps cs # ns) hs =
     (let (np, hs1) = props_of (path @ [i]) ps no_parts hs;
          (children, hs2) = nodes_of (path @ [i]) 0 cs hs1;
          (rest, hs3) = nodes_of path (i + 1) ns hs2
      in (make_node name np children # rest, hs3))"
  by pat_completeness auto

termination nodes_of
  by (relation "measure (\<lambda>(path, i, ns, hs). size_list size ns)") auto

definition tree_of :: "src_node \<Rightarrow> handles \<Rightarrow> dt_node \<times> handles" where
  "tree_of n hs =
     (let (np, hs1) = props_of [] (sn_props n) no_parts hs;
          (children, hs2) = nodes_of [] 0 (sn_children n) hs1
      in (make_node (sn_name n) np children, hs2))"

text \<open>The names of a tree, and the trees that can be written.\<close>

function prop_names :: "src_node list \<Rightarrow> u8 list list" where
  "prop_names [] = []"
| "prop_names (Src name ps cs # ns) = map dp_name ps @ prop_names cs @ prop_names ns"
  by pat_completeness auto

termination prop_names
  by (relation "measure (size_list size)") auto

definition prop_ok :: "dt_property \<Rightarrow> bool" where
  "prop_ok p \<longleftrightarrow> length (dp_data p) < 2 ^ 32 \<and> 0 \<notin> set (dp_name p) \<and>
     (dp_name p = ascii ''compatible'' \<longrightarrow> dp_data p = [] \<or> last (dp_data p) = 0) \<and>
     (dp_name p = ascii ''phandle'' \<longrightarrow> length (dp_data p) = 4)"

function nodes_ok :: "src_node list \<Rightarrow> bool" where
  "nodes_ok [] = True"
| "nodes_ok (Src name ps cs # ns) = (0 \<notin> set name \<and> list_all prop_ok ps \<and> nodes_ok cs \<and> nodes_ok ns)"
  by pat_completeness auto

termination nodes_ok
  by (relation "measure (size_list size)") auto

text \<open>The block of strings, with every name at the offset of its first occurrence.\<close>

fun string_block :: "u8 list list \<Rightarrow> u8 list" where
  "string_block [] = []"
| "string_block (s # ss) = s @ [0] @ string_block ss"

fun string_offset :: "u8 list list \<Rightarrow> u8 list \<Rightarrow> nat" where
  "string_offset [] name = 0"
| "string_offset (s # ss) name = (if s = name then 0 else length s + 1 + string_offset ss name)"

fun flat_reserved :: "(u64 \<times> u64) list \<Rightarrow> u8 list" where
  "flat_reserved [] = be64 0 @ be64 0"
| "flat_reserved ((a, n) # rs) = be64 a @ be64 n @ flat_reserved rs"

definition struct_block :: "src_node \<Rightarrow> u8 list" where
  "struct_block n = flat_nodes (string_offset (prop_names [n])) [n]"

definition blob_header :: "nat \<Rightarrow> nat \<Rightarrow> nat \<Rightarrow> u8 list" where
  "blob_header rsv struct strs = concat (map be32
     [DTB_MAGIC, of_nat (40 + rsv + struct + strs), of_nat (40 + rsv), of_nat (40 + rsv + struct), 40, 17, 16, 0,
      of_nat strs, of_nat struct])"

definition flatten_tree :: "(u64 \<times> u64) list \<Rightarrow> src_node \<Rightarrow> u8 list" where
  "flatten_tree rs n =
     blob_header (length (flat_reserved rs)) (length (struct_block n)) (length (string_block (prop_names [n])))
     @ flat_reserved rs @ struct_block n @ string_block (prop_names [n])"

subsection \<open>Bytes at an offset\<close>

definition lies :: "u8 list \<Rightarrow> nat \<Rightarrow> u8 list \<Rightarrow> bool" where
  "lies dtb pos bs \<longleftrightarrow> take (length bs) (drop pos dtb) = bs"

lemma lies_Nil [simp]: "lies dtb pos []"
  by (simp add: lies_def)

lemma lies_append: "lies dtb pos (a @ b) \<longleftrightarrow> lies dtb pos a \<and> lies dtb (pos + length a) b"
proof
  assume both: "lies dtb pos (a @ b)"
  have "take (length a) (take (length (a @ b)) (drop pos dtb)) = a"
    using both unfolding lies_def by simp
  moreover have "drop (length a) (take (length (a @ b)) (drop pos dtb)) = b"
    using both unfolding lies_def by simp
  ultimately show "lies dtb pos a \<and> lies dtb (pos + length a) b"
    by (simp add: lies_def drop_take add.commute)
next
  assume "lies dtb pos a \<and> lies dtb (pos + length a) b"
  then show "lies dtb pos (a @ b)" by (simp add: lies_def take_add add.commute)
qed

lemma lies_bound: "lies dtb pos bs \<Longrightarrow> bs \<noteq> [] \<Longrightarrow> pos + length bs \<le> length dtb"
  unfolding lies_def by (drule arg_cong [of _ _ length], cases bs) (auto simp: min_def split: if_splits)

lemma lies_mem_read:
  assumes "lies dtb pos bs" and "bs \<noteq> []"
  shows "mem_read dtb pos (length bs) = Some bs"
  using assms lies_bound [OF assms] by (simp add: mem_read_def lies_def)

lemma lies_inside:
  assumes "lies dtb a bs" and "lies bs b x"
  shows "lies dtb (a + b) x"
proof (cases "x = []")
  case False
  then have "b + length x \<le> length bs" using lies_bound [OF assms(2)] by simp
  then have "take (length x) (drop b (take (length bs) (drop a dtb))) = take (length x) (drop (a + b) dtb)"
    by (simp add: drop_take min_def add.commute)
  then show ?thesis using assms unfolding lies_def by simp
qed simp

lemma length_be32 [simp]: "length (be32 w) = 4"
  by (simp add: be32_def)

lemma be32_nonempty [simp]: "be32 w \<noteq> []"
  by (simp add: be32_def)

lemma length_be64 [simp]: "length (be64 w) = 8"
  by (simp add: be64_def)

lemma big_to_cpu32_eq: "big_to_cpu32 [a, b, c, d] = le_word [d, c, b, a]"
  by (simp add: big_to_cpu32_def push_bit_or ac_simps)

lemma big_to_cpu64_eq: "big_to_cpu64 [a, b, c, d, e, f, g, h] = le_word [h, g, f, e, d, c, b, a]"
  by (simp add: big_to_cpu64_def push_bit_or ac_simps)

lemma be32_eq: "be32 w = rev (le_bytes 4 w)"
  by (simp add: be32_def numeral_eq_Suc)

lemma be64_eq: "be64 w = rev (le_bytes 8 w)"
proof -
  have "be64 w = [ucast (drop_bit 56 w), ucast (drop_bit 48 w), ucast (drop_bit 40 w), ucast (drop_bit 32 w),
      ucast (drop_bit 24 w), ucast (drop_bit 16 w), ucast (drop_bit 8 w), ucast w]"
    unfolding be64_def be32_def by (simp, intro conjI; rule bit_word_eqI; auto simp: bit_simps)
  then show ?thesis by (simp add: numeral_eq_Suc)
qed

lemma list4: "length bs = 4 \<Longrightarrow> \<exists>a b c d. bs = [a, b, c, d]"
  by (auto simp: length_Suc_conv eval_nat_numeral)

lemma big_to_cpu32_be32 [simp]: "big_to_cpu32 (be32 w) = w"
proof -
  have "le_word (rev (be32 w)) = w" by (simp add: be32_eq le_word_le_bytes_full)
  then show ?thesis using big_to_cpu32_eq unfolding be32_def by simp
qed

lemma big_to_cpu64_be64 [simp]: "big_to_cpu64 (be64 w) = w"
proof -
  have "le_word (rev (be64 w)) = w" by (simp add: be64_eq le_word_le_bytes_full)
  then show ?thesis using big_to_cpu64_eq unfolding be64_def be32_def by simp
qed

lemma peek_u32_at:
  assumes "lies dtb pos (be32 w)" and "pos + 4 \<le> stop"
  shows "peek_u32 dtb \<lparr>c_pos = pos, c_end = stop\<rparr> = Some w"
  using lies_mem_read [OF assms(1)] assms(2) by (simp add: peek_u32_def)

lemma peek_tag_at:
  assumes "lies dtb pos (be32 w)" and "pos + 4 \<le> stop" and "pos mod 4 = 0"
  shows "peek_tag dtb \<lparr>c_pos = pos, c_end = stop\<rparr> = Some w"
  using peek_u32_at [OF assms(1,2)] assms(3) by (simp add: peek_tag_def)

lemma read_u32_at:
  assumes "lies dtb pos (be32 w)" and "pos + 4 \<le> stop"
  shows "read_u32 dtb \<lparr>c_pos = pos, c_end = stop\<rparr> = Some (w, \<lparr>c_pos = pos + 4, c_end = stop\<rparr>)"
  using peek_u32_at [OF assms] by (simp add: read_u32_def)

lemma read_tag_at:
  assumes "lies dtb pos (be32 w)" and "pos + 4 \<le> stop" and "pos mod 4 = 0"
  shows "read_tag dtb \<lparr>c_pos = pos, c_end = stop\<rparr> = Some (w, \<lparr>c_pos = pos + 4, c_end = stop\<rparr>)"
  using read_u32_at [OF assms(1,2)] assms(3) by (simp add: read_tag_def)

subsection \<open>Strings and properties\<close>

lemma string_from_at:
  assumes "lies dtb pos (s @ [0])" and "0 \<notin> set s"
  shows "string_from dtb pos = Some s"
proof -
  have "drop pos dtb = (s @ [0]) @ drop (length (s @ [0])) (drop pos dtb)"
    using assms(1) unfolding lies_def by (metis append_take_drop_id)
  then obtain rest where "drop pos dtb = s @ 0 # rest" by simp
  then show ?thesis using strlen_append_zero [OF assms(2)] by (simp add: string_from_def)
qed

lemma split_strings_Cons:
  "0 \<notin> set s \<Longrightarrow> split_strings (s @ 0 # rest) = s # split_strings rest"
  by (subst split_strings.simps) (auto simp: takeWhile_append dropWhile_append)

lemma split_at_zero:
  assumes "bs \<noteq> []" and "last bs = (0 :: u8)"
  obtains s rest where "bs = s @ 0 # rest" and "0 \<notin> set s" and "rest = [] \<or> last rest = 0"
proof -
  have "0 \<in> set bs" using assms last_in_set by metis
  then obtain s rest where sr: "bs = s @ 0 # rest" "0 \<notin> set s" by (meson split_list_first)
  then show ?thesis using assms that by (auto split: if_splits)
qed

lemma stringlist_at:
  assumes "lies dtb pos bs" and "bs = [] \<or> last bs = 0"
  shows "dtb_read_stringlist dtb pos (pos + length bs) = Some (split_strings bs)"
  using assms
proof (induction "length bs" arbitrary: pos bs rule: less_induct)
  case less
  show ?case
  proof (cases "bs = []")
    case True
    then show ?thesis by (simp add: dtb_read_stringlist.simps split_strings.simps)
  next
    case False
    then obtain s rest where sr: "bs = s @ 0 # rest" "0 \<notin> set s" "rest = [] \<or> last rest = 0"
      using less.prems(2) split_at_zero by blast
    have split: "bs = (s @ [0]) @ rest" using sr(1) by simp
    have at: "lies dtb pos (s @ [0])" "lies dtb (pos + length s + 1) rest"
      using less.prems(1) unfolding split lies_append by (simp_all add: add.assoc)
    have "dtb_read_stringlist dtb (pos + length s + 1) (pos + length s + 1 + length rest) = Some (split_strings rest)"
      using less.hyps [OF _ at(2) sr(3)] sr(1) by simp
    moreover have "pos + length bs = pos + length s + 1 + length rest" using sr(1) by simp
    ultimately show ?thesis
      using string_from_at [OF at(1) sr(2)] split_strings_Cons [OF sr(2)] sr(1)
      by (subst dtb_read_stringlist.simps) (simp add: add.assoc)
  qed
qed

definition named :: "u8 list \<Rightarrow> nat \<Rightarrow> (u8 list \<Rightarrow> nat) \<Rightarrow> u8 list \<Rightarrow> bool" where
  "named dtb strings off name \<longleftrightarrow> off name < 2 ^ 32 \<and> lies dtb (strings + off name) (name @ [0])"

lemma pad4_aligned: "pos mod 4 = 0 \<Longrightarrow> (pos + n + 3) div 4 * 4 = pos + n + length (pad4 n)"
  unfolding pad4_def by simp presburger

lemma flat_props_aligned: "length (flat_props off ps) mod 4 = 0"
proof (induction ps)
  case (Cons p ps)
  have "(length (dp_data p) + length (pad4 (length (dp_data p)))) mod 4 = 0"
    using pad4_aligned [of 0 "length (dp_data p)"] by simp presburger
  then show ?case using Cons by simp presburger
qed simp

lemma read_property_at:
  assumes "lies dtb pos (be32 BEGIN_PROP @ be32 (of_nat (length (dp_data p))) @ be32 (of_nat (off (dp_name p))) @ dp_data p)"
    and "pos mod 4 = 0" and "pos + 12 + length (dp_data p) \<le> stop" and "stop \<le> length dtb"
    and "named dtb strings off (dp_name p)" and "prop_ok p"
  shows "read_property dtb strings \<lparr>c_pos = pos, c_end = stop\<rparr> =
     Some (p, pos + 12, \<lparr>c_pos = pos + 12 + length (dp_data p) + length (pad4 (length (dp_data p))), c_end = stop\<rparr>)"
proof -
  have at: "lies dtb pos (be32 BEGIN_PROP)" "lies dtb (pos + 4) (be32 (of_nat (length (dp_data p))))"
      "lies dtb (pos + 8) (be32 (of_nat (off (dp_name p))))" "lies dtb (pos + 12) (dp_data p)"
    using assms(1) unfolding lies_append by (simp_all add: add.assoc)
  have "pos + 4 \<le> stop" "pos + 4 + 4 \<le> stop" "pos + 8 + 4 \<le> stop" using assms(3) by simp_all
  note header = read_tag_at [OF at(1) this(1) assms(2)] read_u32_at [OF at(2) this(2)] read_u32_at [OF at(3) this(3)]
  have lens: "unat (of_nat (length (dp_data p)) :: u32) = length (dp_data p)"
      "unat (of_nat (off (dp_name p)) :: u32) = off (dp_name p)"
    using assms(5,6) by (simp_all add: prop_ok_def named_def unsigned_of_nat take_bit_nat_eq_self)
  have nm: "string_from dtb (strings + off (dp_name p)) = Some (dp_name p)"
    using assms(5,6) string_from_at by (simp add: prop_ok_def named_def)
  have buf: "read_buffer dtb \<lparr>c_pos = pos + 12, c_end = stop\<rparr> (length (dp_data p)) =
      Some (dp_data p, \<lparr>c_pos = pos + 12 + length (dp_data p), c_end = stop\<rparr>)"
    using assms(3,4) at(4) by (simp add: read_buffer_def mem_read_def lies_def)
  have "(pos + 12) mod 4 = 0" using assms(2) by presburger
  from pad4_aligned [OF this] have pad: "read_padding \<lparr>c_pos = pos + 12 + length (dp_data p), c_end = stop\<rparr> =
      \<lparr>c_pos = pos + 12 + length (dp_data p) + length (pad4 (length (dp_data p))), c_end = stop\<rparr>"
    by (simp add: read_padding_def)
  show ?thesis
    unfolding read_property_def header(1) bind.bind_lunit case_prod_conv header(2)
    using header(3) lens nm buf pad by (simp add: add.assoc)
qed

lemma add_property_at:
  assumes "lies dtb pos (dp_data p)" and "prop_ok p"
  shows "\<exists>np1 hs1. add_property dtb path p pos np hs = Some (np1, hs1) \<and>
     (\<forall>ps. props_of path (p # ps) np hs = props_of path ps np1 hs1)"
proof -
  have "dp_name p = ascii ''compatible'' \<Longrightarrow>
      dtb_read_stringlist dtb pos (pos + length (dp_data p)) = Some (split_strings (dp_data p))"
    using stringlist_at [OF assms(1)] assms(2) by (simp add: prop_ok_def)
  moreover have "dp_name p = ascii ''phandle'' \<Longrightarrow> get_be32 (dp_data p) 0 = Some (big_to_cpu32 (dp_data p))"
    using assms(2) by (simp add: prop_ok_def get_be32_def)
  ultimately show ?thesis
    by (cases "dp_name p = ascii ''compatible''"; cases "dp_name p = ascii ''phandle''")
      (auto simp: add_property_def Let_def)
qed

lemma parse_properties_at:
  assumes "lies dtb pos (flat_props off ps @ be32 t)" and "t \<noteq> BEGIN_PROP"
    and "pos mod 4 = 0" and "pos + length (flat_props off ps) + 4 \<le> stop" and "stop \<le> length dtb"
    and "list_all prop_ok ps" and "\<forall>p\<in>set ps. named dtb strings off (dp_name p)"
  shows "parse_properties dtb strings path \<lparr>c_pos = pos, c_end = stop\<rparr> np hs =
     (case props_of path ps np hs of (np1, hs1) \<Rightarrow>
        Some (np1, \<lparr>c_pos = pos + length (flat_props off ps), c_end = stop\<rparr>, hs1))"
  using assms
proof (induction ps arbitrary: pos np hs)
  case Nil
  then show ?case
    using peek_tag_at [of dtb pos t stop] by (subst parse_properties.simps) simp
next
  case (Cons p ps)
  let ?n = "length (dp_data p)"
  let ?next = "pos + 12 + ?n + length (pad4 ?n)"
  have at: "lies dtb pos (be32 BEGIN_PROP)"
      "lies dtb pos (be32 BEGIN_PROP @ be32 (of_nat ?n) @ be32 (of_nat (off (dp_name p))) @ dp_data p)"
      "lies dtb (pos + 12) (dp_data p)" "lies dtb ?next (flat_props off ps @ be32 t)"
    using Cons.prems(1) by (simp_all add: lies_append add.assoc)
  have "(pos + 12 + ?n + 3) div 4 * 4 = ?next"
    using Cons.prems(3) by (intro pad4_aligned) presburger
  then have aligned: "?next mod 4 = 0" by presburger
  have first: "peek_tag dtb \<lparr>c_pos = pos, c_end = stop\<rparr> = Some BEGIN_PROP"
    using peek_tag_at [OF at(1)] Cons.prems(3,4) by simp
  have readp: "read_property dtb strings \<lparr>c_pos = pos, c_end = stop\<rparr> = Some (p, pos + 12, \<lparr>c_pos = ?next, c_end = stop\<rparr>)"
    using read_property_at [of dtb pos p off, OF at(2)] Cons.prems(3-7) by simp
  obtain np1 hs1 where added: "add_property dtb path p (pos + 12) np hs = Some (np1, hs1)"
      "props_of path (p # ps) np hs = props_of path ps np1 hs1"
    using add_property_at [OF at(3)] Cons.prems(6) by fastforce
  have "parse_properties dtb strings path \<lparr>c_pos = ?next, c_end = stop\<rparr> np1 hs1 =
      (case props_of path ps np1 hs1 of (np1, hs1) \<Rightarrow>
        Some (np1, \<lparr>c_pos = ?next + length (flat_props off ps), c_end = stop\<rparr>, hs1))"
    using Cons.IH [OF at(4) Cons.prems(2) aligned] Cons.prems(4-7) by simp
  moreover have "?next + length (flat_props off ps) = pos + length (flat_props off (p # ps))" by simp
  ultimately show ?case
    using first readp added(1) unfolding added(2) by (subst parse_properties.simps) simp
qed

subsection \<open>Nodes\<close>

lemma read_nops_at:
  assumes "lies dtb pos (be32 t)" and "pos + 4 \<le> stop" and "pos mod 4 = 0" and "t \<noteq> NOP"
  shows "read_nops dtb \<lparr>c_pos = pos, c_end = stop\<rparr> = Some \<lparr>c_pos = pos, c_end = stop\<rparr>"
  using peek_tag_at [OF assms(1-3)] assms(4) by (subst read_nops.simps) simp

lemma flat_node_length:
  "length name + 1 + length (pad4 (length name + 1)) + pos = (pos + length name + 1 + 3) div 4 * 4"
  if "pos mod 4 = 0"
  using pad4_aligned [OF that, of "length name + 1"] by (simp add: add.assoc)

lemma parse_start_at:
  assumes "lies dtb pos (be32 BEGIN_NODE @ name @ [0] @ pad4 (length name + 1) @ flat_props off ps @ be32 t)"
    and "t \<noteq> BEGIN_PROP" and "0 \<notin> set name" and "list_all prop_ok ps"
    and "\<forall>p\<in>set ps. named dtb strings off (dp_name p)"
    and "pos mod 4 = 0" and "stop \<le> length dtb"
    and "pos + 4 + length name + 1 + length (pad4 (length name + 1)) + length (flat_props off ps) + 4 \<le> stop"
  shows "parse_start dtb strings path \<lparr>c_pos = pos, c_end = stop\<rparr> hs =
     (case props_of path ps no_parts hs of (np1, hs1) \<Rightarrow>
        Some (name, np1, \<lparr>c_pos = pos + 4 + length name + 1 + length (pad4 (length name + 1)) + length (flat_props off ps),
          c_end = stop\<rparr>, hs1))"
proof -
  let ?next = "pos + 4 + length name + 1 + length (pad4 (length name + 1))"
  have at: "lies dtb pos (be32 BEGIN_NODE)" "lies dtb (pos + 4) (name @ [0])"
      "lies dtb ?next (flat_props off ps @ be32 t)"
    using assms(1) unfolding lies_append by (simp_all add: add.assoc)
  have next4: "(pos + 4 + length name + 1 + 3) div 4 * 4 = ?next"
    using flat_node_length [of "pos + 4" name] assms(6) by presburger
  have aligned: "?next mod 4 = 0" using next4 [symmetric] by presburger
  obtain np1 hs1 where props: "props_of path ps no_parts hs = (np1, hs1)" by fastforce
  have fits: "pos + 4 \<le> stop" "?next + length (flat_props off ps) + 4 \<le> stop" using assms(8) by simp_all
  have "BEGIN_NODE \<noteq> NOP" by (simp add: BEGIN_NODE_def NOP_def)
  note nops = read_nops_at [OF at(1) fits(1) assms(6) this] read_tag_at [OF at(1) fits(1) assms(6)]
  have "read_padding \<lparr>c_pos = pos + 4 + length name + 1, c_end = stop\<rparr> = \<lparr>c_pos = ?next, c_end = stop\<rparr>"
    using next4 by (simp add: read_padding_def)
  then show ?thesis
    using parse_properties_at [OF at(3) assms(2) aligned fits(2) assms(7,4,5), of path no_parts hs]
      string_from_at [OF at(2) assms(3)]
    unfolding props by (simp add: parse_start_def nops read_null_string_def no_parts_def)
qed

lemma parse_stop_at:
  assumes "lies dtb pos (be32 END_NODE)" and "pos + 4 \<le> stop" and "pos mod 4 = 0"
  shows "parse_stop dtb \<lparr>c_pos = pos, c_end = stop\<rparr> = Some \<lparr>c_pos = pos + 4, c_end = stop\<rparr>"
proof -
  have "END_NODE \<noteq> NOP" by (simp add: END_NODE_def NOP_def)
  then show ?thesis
    using read_nops_at [OF assms] read_tag_at [OF assms] by (simp add: parse_stop_def)
qed

text \<open>The loop over the children, of trees of any depth; the next token is not the start of a node.\<close>

lemma flat_nodes_first:
  assumes "lies dtb pos (flat_nodes off ns @ be32 END_NODE)"
  obtains t where "lies dtb pos (be32 t)" and "t \<noteq> BEGIN_PROP"
  using assms that [of BEGIN_NODE] that [of END_NODE]
  by (cases "(off, ns)" rule: flat_nodes.cases) (auto simp: lies_append BEGIN_NODE_def END_NODE_def BEGIN_PROP_def)

definition flat_head :: "(u8 list \<Rightarrow> nat) \<Rightarrow> u8 list \<Rightarrow> dt_property list \<Rightarrow> u8 list" where
  "flat_head off name ps = be32 BEGIN_NODE @ name @ [0] @ pad4 (length name + 1) @ flat_props off ps"

lemma flat_nodes_Src: "flat_nodes off (Src name ps cs # ns) =
    flat_head off name ps @ (flat_nodes off cs @ be32 END_NODE) @ flat_nodes off ns"
  by (simp add: flat_head_def)

lemma flat_head_length:
  "length (flat_head off name ps) = 4 + length name + 1 + length (pad4 (length name + 1)) + length (flat_props off ps)"
  "length (flat_head off name ps) mod 4 = 0"
proof -
  show len: "length (flat_head off name ps) = 4 + length name + 1 + length (pad4 (length name + 1)) + length (flat_props off ps)"
    by (simp add: flat_head_def)
  have "(0 + (length name + 1) + 3) div 4 * 4 = 0 + (length name + 1) + length (pad4 (length name + 1))"
    by (rule pad4_aligned) simp
  then show "length (flat_head off name ps) mod 4 = 0"
    unfolding len using flat_props_aligned [of off ps] by presburger
qed

lemma flat_nodes_aligned: "length (flat_nodes off ns) mod 4 = 0"
proof (induction off ns rule: flat_nodes.induct)
  case (2 off name ps cs ns)
  have "length (flat_nodes off (Src name ps cs # ns)) =
      length (flat_head off name ps) + length (flat_nodes off cs) + 4 + length (flat_nodes off ns)"
    unfolding flat_nodes_Src by simp
  then show ?case
    using 2 flat_head_length(2) [of off name ps] by presburger
qed simp

lemma parse_start_head:
  assumes "lies dtb pos (flat_head off name ps @ flat_nodes off cs @ be32 END_NODE)"
    and "0 \<notin> set name" and "list_all prop_ok ps" and "\<forall>p\<in>set ps. named dtb strings off (dp_name p)"
    and "pos mod 4 = 0" and "stop \<le> length dtb" and "pos + length (flat_head off name ps) + 4 \<le> stop"
  shows "parse_start dtb strings path \<lparr>c_pos = pos, c_end = stop\<rparr> hs =
     (case props_of path ps no_parts hs of (np1, hs1) \<Rightarrow>
        Some (name, np1, \<lparr>c_pos = pos + length (flat_head off name ps), c_end = stop\<rparr>, hs1))"
proof -
  obtain t where t: "lies dtb (pos + length (flat_head off name ps)) (be32 t)" "t \<noteq> BEGIN_PROP"
    using flat_nodes_first assms(1) unfolding lies_append [of dtb pos "flat_head off name ps"] by blast
  then have "lies dtb pos (be32 BEGIN_NODE @ name @ [0] @ pad4 (length name + 1) @ flat_props off ps @ be32 t)"
    using assms(1) unfolding flat_head_def lies_append by (simp add: add_ac)
  then show ?thesis
    using parse_start_at [of dtb pos name off ps t strings stop path hs] t(2) assms(2-7)
    unfolding flat_head_length(1) by (simp add: add_ac)
qed

lemma parse_children_at:
  assumes "lies dtb pos (flat_nodes off ns @ be32 t)" and "t \<noteq> BEGIN_NODE"
    and "pos mod 4 = 0" and "pos + length (flat_nodes off ns) + 4 \<le> stop" and "stop \<le> length dtb"
    and "nodes_ok ns" and "\<forall>name\<in>set (prop_names ns). named dtb strings off name"
  shows "parse_children dtb strings path i \<lparr>c_pos = pos, c_end = stop\<rparr> hs =
     (case nodes_of path i ns hs of (nodes, hs1) \<Rightarrow>
        Some (nodes, \<lparr>c_pos = pos + length (flat_nodes off ns), c_end = stop\<rparr>, hs1))"
  using assms
proof (induction off ns arbitrary: pos path i hs t rule: flat_nodes.induct)
  case (1 off)
  then show ?case
    using peek_tag_at [of dtb pos t stop] by (subst parse_children.simps) simp
next
  case (2 off name ps cs ns)
  let ?in = "pos + length (flat_head off name ps)"
  let ?out = "?in + length (flat_nodes off cs)"
  have whole: "pos + length (flat_nodes off (Src name ps cs # ns)) = ?out + 4 + length (flat_nodes off ns)"
    unfolding flat_nodes_Src by simp
  have at: "lies dtb pos (flat_head off name ps @ flat_nodes off cs @ be32 END_NODE)" "lies dtb pos (be32 BEGIN_NODE)"
      "lies dtb ?in (flat_nodes off cs @ be32 END_NODE)" "lies dtb ?out (be32 END_NODE)"
      "lies dtb (?out + 4) (flat_nodes off ns @ be32 t)"
    using 2(3) unfolding flat_nodes_Src lies_append by (simp_all add: add.assoc flat_head_def lies_append)
  have aligned: "?in mod 4 = 0" "?out mod 4 = 0" "(?out + 4) mod 4 = 0"
    using 2(5) flat_head_length(2) [of off name ps] flat_nodes_aligned [of off cs] by presburger+
  have fits: "pos + 4 \<le> stop" "?in + 4 \<le> stop" "?out + 4 \<le> stop" "?out + 4 + length (flat_nodes off ns) + 4 \<le> stop"
    using 2(6) unfolding whole flat_head_length(1) by simp_all
  have ok: "0 \<notin> set name" "list_all prop_ok ps" "nodes_ok cs" "nodes_ok ns" using 2(8) by simp_all
  have nm: "\<forall>p\<in>set ps. named dtb strings off (dp_name p)" "\<forall>name\<in>set (prop_names cs). named dtb strings off name"
      "\<forall>name\<in>set (prop_names ns). named dtb strings off name"
    using 2(9) by auto
  obtain np1 hs1 where props: "props_of (path @ [i]) ps no_parts hs = (np1, hs1)" by fastforce
  obtain kids hs2 where kids: "nodes_of (path @ [i]) 0 cs hs1 = (kids, hs2)" by fastforce
  obtain rest hs3 where rest: "nodes_of path (i + 1) ns hs2 = (rest, hs3)" by fastforce
  have tag1: "peek_tag dtb \<lparr>c_pos = pos, c_end = stop\<rparr> = Some BEGIN_NODE"
    by (rule peek_tag_at [OF at(2) fits(1) 2(5)])
  have start: "parse_start dtb strings (path @ [i]) \<lparr>c_pos = pos, c_end = stop\<rparr> hs =
      Some (name, np1, \<lparr>c_pos = ?in, c_end = stop\<rparr>, hs1)"
    using parse_start_head [OF at(1) ok(1,2) nm(1) 2(5,7) fits(2), of "path @ [i]" hs] props by simp
  have inner: "parse_children dtb strings (path @ [i]) 0 \<lparr>c_pos = ?in, c_end = stop\<rparr> hs1 =
      Some (kids, \<lparr>c_pos = ?out, c_end = stop\<rparr>, hs2)"
    using 2(1) [OF at(3) _ aligned(1) _ 2(7) ok(3) nm(2), of "path @ [i]" 0 hs1] fits(3) kids
    by (simp add: BEGIN_NODE_def END_NODE_def)
  have outer: "parse_children dtb strings path (i + 1) \<lparr>c_pos = ?out + 4, c_end = stop\<rparr> hs2 =
      Some (rest, \<lparr>c_pos = ?out + 4 + length (flat_nodes off ns), c_end = stop\<rparr>, hs3)"
    using 2(2) [OF at(5) 2(4) aligned(3) fits(4) 2(7) ok(4) nm(3), of path "i + 1" hs2] rest by simp
  show ?case
    unfolding whole
    by (subst parse_children.simps)
      (simp add: tag1 start inner parse_stop_at [OF at(4) fits(3) aligned(2)] outer props kids rest
        del: flat_nodes.simps One_nat_def add_Suc_right)
qed

subsection \<open>The whole blob\<close>

lemma parse_node_at:
  assumes "lies dtb pos (flat_nodes off [Src name ps cs])"
    and "pos mod 4 = 0" and "pos + length (flat_nodes off [Src name ps cs]) \<le> stop" and "stop \<le> length dtb"
    and "nodes_ok [Src name ps cs]" and "\<forall>n\<in>set (prop_names [Src name ps cs]). named dtb strings off n"
  shows "\<exists>c. parse_node dtb strings [] \<lparr>c_pos = pos, c_end = stop\<rparr> hs =
     (case tree_of (Src name ps cs) hs of (n, hs1) \<Rightarrow> Some (n, c, hs1))"
proof -
  let ?in = "pos + length (flat_head off name ps)"
  let ?out = "?in + length (flat_nodes off cs)"
  have at: "lies dtb pos (flat_head off name ps @ flat_nodes off cs @ be32 END_NODE)"
      "lies dtb ?in (flat_nodes off cs @ be32 END_NODE)" "lies dtb ?out (be32 END_NODE)"
    using assms(1) unfolding flat_nodes_Src lies_append by (simp_all add: add.assoc)
  have aligned: "?in mod 4 = 0" "?out mod 4 = 0"
    using assms(2) flat_head_length(2) [of off name ps] flat_nodes_aligned [of off cs] by presburger+
  have fits: "?in + 4 \<le> stop" "?out + 4 \<le> stop"
    using assms(3) unfolding flat_nodes_Src by simp_all
  obtain np1 hs1 where props: "props_of [] ps no_parts hs = (np1, hs1)" by fastforce
  obtain kids hs2 where kids: "nodes_of [] 0 cs hs1 = (kids, hs2)" by fastforce
  have start: "parse_start dtb strings [] \<lparr>c_pos = pos, c_end = stop\<rparr> hs = Some (name, np1, \<lparr>c_pos = ?in, c_end = stop\<rparr>, hs1)"
    using parse_start_head [OF at(1) _ _ _ assms(2,4) fits(1), of strings "[]" hs] assms(5,6) props by simp
  have inner: "parse_children dtb strings [] 0 \<lparr>c_pos = ?in, c_end = stop\<rparr> hs1 =
      Some (kids, \<lparr>c_pos = ?out, c_end = stop\<rparr>, hs2)"
    using parse_children_at [OF at(2) _ aligned(1) fits(2) assms(4), of strings "[]" 0 hs1] assms(5,6) kids
    by (simp add: BEGIN_NODE_def END_NODE_def)
  show ?thesis
    by (rule exI [of _ "\<lparr>c_pos = ?out + 4, c_end = stop\<rparr>"])
      (simp add: parse_node_def tree_of_def start inner props kids parse_stop_at [OF at(3) fits(2) aligned(2)])
qed

lemma string_offset_lies:
  "name \<in> set ss \<Longrightarrow> lies (string_block ss) (string_offset ss name) (name @ [0]) \<and> string_offset ss name < length (string_block ss)"
proof (induction ss)
  case (Cons s ss)
  show ?case
  proof (cases "s = name")
    case True
    then show ?thesis by (simp add: lies_def)
  next
    case False
    then show ?thesis using Cons by (simp add: lies_def)
  qed
qed simp

lemma read_reserved_at:
  assumes "lies dtb pos (flat_reserved rs)" and "(0, 0) \<notin> set rs"
  shows "read_reserved dtb pos = Some rs"
  using assms
proof (induction rs arbitrary: pos)
  case Nil
  then have "mem_read dtb pos 16 = Some (be64 0 @ be64 0)"
    using lies_mem_read [of dtb pos "be64 0 @ be64 0"] by (simp add: be64_def)
  then show ?case by (subst read_reserved.simps) simp
next
  case (Cons r rs)
  obtain a n where r: "r = (a, n)" by fastforce
  have at: "lies dtb pos (be64 a @ be64 n)" "lies dtb (pos + 16) (flat_reserved rs)"
    using Cons.prems(1) unfolding r flat_reserved.simps lies_append by (simp_all add: add.assoc)
  then have "mem_read dtb pos 16 = Some (be64 a @ be64 n)"
    using lies_mem_read [of dtb pos "be64 a @ be64 n"] by (simp add: be64_def)
  moreover have "\<not> (a = 0 \<and> n = 0)" using Cons.prems(2) r by auto
  moreover have "read_reserved dtb (pos + 16) = Some rs" using Cons.IH [OF at(2)] Cons.prems(2) by simp
  ultimately show ?case unfolding r by (subst read_reserved.simps) simp
qed

lemma length_flat_reserved: "length (flat_reserved rs) = 16 * (length rs + 1)"
  by (induction rs rule: flat_reserved.induct) simp_all

lemma length_blob_header [simp]: "length (blob_header rsv struct strs) = 40"
  by (simp add: blob_header_def)

lemma header_word_at: "lies dtb off (be32 w) \<Longrightarrow> off = 4 * i \<Longrightarrow> header_word dtb i = w"
  unfolding header_word_def lies_def by simp

lemma read_header_blob:
  assumes "dtb = blob_header rsv struct strs @ rest"
  shows "read_dtb_header dtb = Some \<lparr>fh_magic = DTB_MAGIC, fh_totalsize = of_nat (40 + rsv + struct + strs),
     fh_off_dt_struct = of_nat (40 + rsv), fh_off_dt_strings = of_nat (40 + rsv + struct), fh_off_mem_rsvmap = 40,
     fh_version = 17, fh_last_comp_version = 16, fh_boot_cpuid_phys = 0, fh_size_dt_strings = of_nat strs,
     fh_size_dt_struct = of_nat struct\<rparr>"
proof -
  have "lies dtb 0 (blob_header rsv struct strs)" unfolding assms by (simp add: lies_def)
  then have "lies dtb 0 (be32 DTB_MAGIC)" "lies dtb 4 (be32 (of_nat (40 + rsv + struct + strs)))"
      "lies dtb 8 (be32 (of_nat (40 + rsv)))" "lies dtb 12 (be32 (of_nat (40 + rsv + struct)))" "lies dtb 16 (be32 40)"
      "lies dtb 20 (be32 17)" "lies dtb 24 (be32 16)" "lies dtb 28 (be32 0)" "lies dtb 32 (be32 (of_nat strs))"
      "lies dtb 36 (be32 (of_nat struct))"
    unfolding blob_header_def list.map concat.simps lies_append by simp_all
  then have "header_word dtb 0 = DTB_MAGIC" "header_word dtb 1 = of_nat (40 + rsv + struct + strs)"
      "header_word dtb 2 = of_nat (40 + rsv)" "header_word dtb 3 = of_nat (40 + rsv + struct)" "header_word dtb 4 = 40"
      "header_word dtb 5 = 17" "header_word dtb 6 = 16" "header_word dtb 7 = 0" "header_word dtb 8 = of_nat strs"
      "header_word dtb 9 = of_nat struct"
    by (auto intro: header_word_at simp del: One_nat_def)
  moreover have "mem_read dtb 0 40 = Some (take 40 dtb)" unfolding assms by (simp add: mem_read_def)
  ultimately show ?thesis by (simp only: read_dtb_header_def bind.bind_lunit)
qed

text \<open>
  C30: \<open>read_dtb\<close> reads back every device tree that can be flattened: from the blob with the header, the
  reserved regions, the tokens of a tree of any shape and the block of strings it gets the reserved
  regions and the tree, with the \<open>compatible\<close> strings and handles of the nodes, and the first node with
  each handle.
\<close>

theorem read_dtb_roundtrip:
  assumes "nodes_ok [n]" and "(0, 0) \<notin> set rs" and "length (flatten_tree rs n) < 2 ^ 32"
  shows "read_dtb (flatten_tree rs n) =
     (case tree_of n Map.empty of (root, hs) \<Rightarrow>
        Some \<lparr>dt_reserved = rs, dt_root = Some root, dt_phandles = hs\<rparr>)"
proof -
  obtain name ps cs where n: "n = Src name ps cs" by (cases n)
  let ?dtb = "flatten_tree rs n" and ?rsv = "flat_reserved rs" and ?struct = "struct_block n"
  let ?strs = "string_block (prop_names [n])" and ?off = "string_offset (prop_names [n])"
  define so where "so = 40 + length ?rsv"
  define to where "to = so + length ?struct"
  have len: "length ?dtb = to + length ?strs" by (simp add: flatten_tree_def so_def to_def)
  have "lies ?dtb 0 ?dtb" by (simp add: lies_def)
  then have at: "lies ?dtb 40 ?rsv" "lies ?dtb so ?struct" "lies ?dtb to ?strs"
    unfolding flatten_tree_def [of rs n] lies_append by (simp_all add: so_def to_def add.assoc)
  have "so < 2 ^ 32" "to < 2 ^ 32" "length ?struct < 2 ^ 32" "length ?strs < 2 ^ 32"
    using assms(3) unfolding len by (simp_all add: to_def)
  then have small: "unat (of_nat so :: u32) = so" "unat (of_nat to :: u32) = to"
      "unat (of_nat (length ?struct) :: u32) = length ?struct" "unat (of_nat (length ?strs) :: u32) = length ?strs"
    by (simp_all add: unsigned_of_nat take_bit_nat_eq_self)
  have names: "\<forall>nm\<in>set (prop_names [n]). named ?dtb to ?off nm"
  proof
    fix nm assume "nm \<in> set (prop_names [n])"
    from string_offset_lies [OF this] show "named ?dtb to ?off nm"
      using lies_inside [OF at(3)] assms(3) unfolding len named_def by simp
  qed
  have aligned: "so mod 4 = 0" unfolding so_def length_flat_reserved by presburger
  obtain c where node: "parse_node ?dtb to [] \<lparr>c_pos = so, c_end = so + length ?struct\<rparr> Map.empty =
      (case tree_of n Map.empty of (root, hs) \<Rightarrow> Some (root, c, hs))"
    using parse_node_at [of ?dtb so ?off name ps cs "so + length ?struct" to] at(2) aligned len assms(1) names
    unfolding n struct_block_def to_def by fastforce
  obtain root hs where tree: "tree_of n Map.empty = (root, hs)" by fastforce
  have header: "read_dtb_header ?dtb = Some \<lparr>fh_magic = DTB_MAGIC, fh_totalsize = of_nat (40 + length ?rsv + length ?struct + length ?strs),
     fh_off_dt_struct = of_nat so, fh_off_dt_strings = of_nat to, fh_off_mem_rsvmap = 40,
     fh_version = 17, fh_last_comp_version = 16, fh_boot_cpuid_phys = 0, fh_size_dt_strings = of_nat (length ?strs),
     fh_size_dt_struct = of_nat (length ?struct)\<rparr>"
    unfolding so_def to_def by (rule read_header_blob) (simp add: flatten_tree_def)
  have room: "so + length ?struct \<le> length ?dtb" "to + length ?strs \<le> length ?dtb"
    unfolding len by (simp_all add: to_def)
  show ?thesis
    using node room read_reserved_at [OF at(1) assms(2)]
    by (simp add: read_dtb_def header small tree)
qed

definition demo_tree :: src_node where
  "demo_tree = Src [] [\<lparr>dp_name = ascii ''phandle'', dp_data = [0, 0, 0, 7]\<rparr>]
     [Src (ascii ''uart'') [\<lparr>dp_name = ascii ''compatible'', dp_data = [97, 0, 98, 99, 0]\<rparr>] [], Src (ascii ''cpus'') [] []]"

theorem read_dtb_roundtrip_witness:
  "read_dtb (flatten_tree [(0x1000, 16)] demo_tree) = Some
     \<lparr>dt_reserved = [(0x1000, 16)],
      dt_root = Some (Node [] [Node (ascii ''uart'') [] [[97], [98, 99]] [\<lparr>dp_name = ascii ''compatible'', dp_data = [97, 0, 98, 99, 0]\<rparr>] 1000 DevUnprobed,
         Node (ascii ''cpus'') [] [] [] 1000 DevUnprobed] [] [\<lparr>dp_name = ascii ''phandle'', dp_data = [0, 0, 0, 7]\<rparr>] 7 DevUnprobed),
      dt_phandles = [7 \<mapsto> []]\<rparr>"
proof -
  have ok: "nodes_ok [demo_tree]" by (simp add: demo_tree_def prop_ok_def ascii_def)
  have "length (flatten_tree [(0x1000, 16)] demo_tree) < 2 ^ 32"
    by (simp add: demo_tree_def flatten_tree_def struct_block_def pad4_def ascii_def)
  note read = read_dtb_roundtrip [OF ok _ this]
  have "ascii ''phandle'' \<noteq> ascii ''compatible''" by (simp add: ascii_def)
  then have "tree_of demo_tree Map.empty =
     (Node [] [Node (ascii ''uart'') [] [[97], [98, 99]] [\<lparr>dp_name = ascii ''compatible'', dp_data = [97, 0, 98, 99, 0]\<rparr>] 1000 DevUnprobed,
         Node (ascii ''cpus'') [] [] [] 1000 DevUnprobed] [] [\<lparr>dp_name = ascii ''phandle'', dp_data = [0, 0, 0, 7]\<rparr>] 7 DevUnprobed,
      [7 \<mapsto> []])"
    by (simp add: demo_tree_def tree_of_def no_parts_def make_node_def split_strings.simps big_to_cpu32_def)
  then show ?thesis using read by simp
qed

end
