(* ===== verification/Interlink_Messages.thy ===== *)
theory Interlink_Messages
  imports Interlink
begin

text \<open>
  What a message of data chunks is and that it arrives as it was sent; and what becomes of a message
  that carries an entity or memory.
\<close>

subsection \<open>Messages of data\<close>

text \<open>The bytes of a message: the header, the items, whose data starts at \<open>off\<close>, and the data.\<close>

fun data_items :: "nat \<Rightarrow> u8 list list \<Rightarrow> u8 list" where
  "data_items off [] = []"
| "data_items off (d # ds) = encode_item (PayloadData off (length d)) @ data_items (off + length d) ds"

definition data_message :: "u32 \<Rightarrow> u8 list list \<Rightarrow> u8 list" where
  "data_message message_id ds =
     encode_header \<lparr>mh_total_size = item_offset (length ds) + length (concat ds),
       mh_payload_item_count = length ds, mh_message_id = message_id\<rparr> @
     data_items (item_offset (length ds)) ds @ concat ds"

fun queued_chunks :: "u32 \<Rightarrow> u8 list list \<Rightarrow> QueuedMessage list" where
  "queued_chunks message_id [] = []"
| "queued_chunks message_id (d # ds) = QueuedData (ds = []) message_id (length d) # queued_chunks message_id ds"

lemma length_encode_item [simp]: "length (encode_item (PayloadData off len)) = 32"
  by simp

lemma length_data_items [simp]: "length (data_items off ds) = ITEM_SIZE * length ds"
  by (induction ds arbitrary: off) (simp_all add: ITEM_SIZE_def)

lemma length_encode_header [simp]: "length (encode_header h) = HEADER_SIZE"
  by (simp add: encode_header_def HEADER_SIZE_def)

lemma length_data_message:
  "length (data_message message_id ds) = item_offset (length ds) + length (concat ds)"
  by (simp add: data_message_def item_offset_def mult.commute)

lemma le_bytes_0: "le_bytes n 0 = replicate n 0"
  by (induction n) simp_all

lemma le_word_replicate_0: "le_word (replicate n 0) = 0"
  by (induction n) simp_all

lemma field64_at:
  assumes "length P = n" and "x < 2 ^ 64"
  shows "field64 (P @ le_bytes 8 (of_nat x :: u64) @ R) n = x"
  using assms by (simp add: field64_def le_word_le_bytes_full unsigned_of_nat take_bit_nat_eq_self)

lemma decode_data_item:
  assumes "off < 2 ^ 64" and "len < 2 ^ 64"
  shows "decode_item (encode_item (PayloadData off len)) = PayloadData off len"
proof -
  let ?o = "le_bytes 8 (of_nat off :: u64)" and ?l = "le_bytes 8 (of_nat len :: u64)"
  have "field64 (replicate 8 0 @ ?o @ ?l @ replicate 8 0) 8 = off"
    by (rule field64_at) (use assms in simp_all)
  moreover have "field64 ((replicate 8 0 @ ?o) @ ?l @ replicate 8 0) 16 = len"
    by (rule field64_at) (use assms in simp_all)
  moreover have "field32 (replicate 8 0 @ ?o @ ?l @ replicate 8 0) 0 = 0"
    by (simp add: field32_def le_word_replicate_0)
  ultimately show ?thesis by (simp add: decode_item_def le_bytes_0)
qed

lemma decode_encode_header:
  assumes "mh_total_size h < 2 ^ 64" and "mh_payload_item_count h < 2 ^ 32"
  shows "decode_header (encode_header h) = h"
  using assms
  by (simp add: decode_header_def encode_header_def field64_def field32_def le_word_le_bytes_full
      unsigned_of_nat take_bit_nat_eq_self)

subsection \<open>Sending\<close>

text \<open>The bytes of a message around the items from \<open>i\<close> on: \<open>P\<close> precedes them, \<open>D\<close> is the data already passed.\<close>

definition message_at :: "u8 list \<Rightarrow> nat \<Rightarrow> nat \<Rightarrow> u8 list list \<Rightarrow> bool" where
  "message_at msg i off ds \<longleftrightarrow> length msg < 2 ^ 64 \<and> (\<forall>d\<in>set ds. d \<noteq> []) \<and>
     (\<exists>P D Z. msg = P @ data_items off ds @ D @ concat ds @ Z \<and> length P = item_offset i \<and>
        off = item_offset i + ITEM_SIZE * length ds + length D)"

lemma message_at_Cons:
  assumes "message_at msg i off (d # ds)"
  shows "message_at msg (i + 1) (off + length d) ds" and "off + length d \<le> length msg" and "off < length msg"
    and "take (length d) (drop off msg) = d"
    and "read_item (UserBuffer msg) i = Some (Value (PayloadData off (length d)))"
    and "length msg < 2 ^ 64"
proof -
  let ?e = "encode_item (PayloadData off (length d))"
  obtain P D Z where msg: "msg = P @ data_items off (d # ds) @ D @ concat (d # ds) @ Z"
      and P: "length P = item_offset i" and off: "off = item_offset i + ITEM_SIZE * length (d # ds) + length D"
      and small: "length msg < 2 ^ 64" and ne: "\<forall>d\<in>set (d # ds). d \<noteq> []"
    using assms unfolding message_at_def by blast
  have msg1: "msg = (P @ ?e) @ data_items (off + length d) ds @ (D @ d) @ concat ds @ Z"
    using msg by simp
  have P1: "length (P @ ?e) = item_offset (i + 1)" using P by (simp add: item_offset_def ITEM_SIZE_def)
  have off1: "off + length d = item_offset (i + 1) + ITEM_SIZE * length ds + length (D @ d)"
    using off by (simp add: item_offset_def)
  show "message_at msg (i + 1) (off + length d) ds"
    unfolding message_at_def
  proof (intro conjI)
    show "\<exists>P D Z. msg = P @ data_items (off + length d) ds @ D @ concat ds @ Z \<and> length P = item_offset (i + 1) \<and>
        off + length d = item_offset (i + 1) + ITEM_SIZE * length ds + length D"
      using conjI [OF msg1 conjI [OF P1 off1]] by (intro exI)
  qed (use small ne in simp_all)
  have pre: "length (P @ data_items off (d # ds) @ D) = off" using P off by (simp del: data_items.simps)
  have msg2: "msg = (P @ data_items off (d # ds) @ D) @ d @ concat ds @ Z" using msg by simp
  show le: "off + length d \<le> length msg" unfolding msg2 using pre by (simp del: data_items.simps)
  show "off < length msg" using le ne by (cases d) auto
  show "take (length d) (drop off msg) = d" unfolding msg2 using pre by (simp del: data_items.simps)
  show "length msg < 2 ^ 64" by (rule small)
  have len: "item_offset i + 32 \<le> length msg" unfolding msg1 using P by simp
  have "take 32 (drop (item_offset i) msg) = ?e" unfolding msg1 using P by (simp del: encode_item.simps)
  moreover have "off < 2 ^ 64" "length d < 2 ^ 64" using le small by linarith+
  moreover have "tb_read_to (UserBuffer msg) 32 (item_offset i) = Some (Value 32, take 32 (drop (item_offset i) msg))"
    using len small tb_read_ok [of "UserBuffer msg" "item_offset i" 32] by (simp add: MAX_MEMCOPY_def)
  ultimately show "read_item (UserBuffer msg) i = Some (Value (PayloadData off (length d)))"
    by (simp add: read_item_def ITEM_SIZE_def tb_read_object_def decode_data_item del: encode_item.simps)
qed

lemma check_items_data:
  assumes "message_at msg i off ds" and "acc + length (concat ds) < 2 ^ 64"
  shows "check_items (UserBuffer msg) i (length ds) acc = Some (Value (acc + length (concat ds)))"
  using assms
proof (induction ds arbitrary: i off acc)
  case Nil
  then show ?case by simp
next
  case (Cons d ds)
  note at = message_at_Cons [OF Cons.prems(1)]
  have "uadd (length d) off = off + length d" "uadd acc (length d) = acc + length d"
    using at(2,6) Cons.prems(2) by (simp_all add: uadd_small add.commute)
  then show ?case
    using at(2,3,5) Cons.IH [OF at(1), of "acc + length d"] Cons.prems(2) by (simp add: add.assoc)
qed

lemma send_items_data:
  assumes "message_at msg i off ds" and "rb_inv ring" and "length (concat ds) \<le> free_bytes ring"
  shows "\<exists>ring'. send_items k (UserBuffer msg) (ring, queue) blocking message_id i (length ds)
      = Some (Value (), (ring', queue @ queued_chunks message_id ds), k) \<and> rb_inv ring' \<and>
    rb_contents ring' = rb_contents ring @ concat ds"
  using assms
proof (induction ds arbitrary: i off ring queue)
  case Nil
  then show ?case by simp
next
  case (Cons d ds)
  note at = message_at_Cons [OF Cons.prems(1)]
  let ?sub = "TransactionalBufferSubset (UserBuffer msg) off (length d)"
  have sub: "make_subset (UserBuffer msg) off (length d) = Some ?sub"
    using at(2,3,6) by (simp add: make_subset_def uadd_small)
  have ok: "tb_ok ?sub" "tb_size ?sub = length d" "tb_bytes ?sub = d" using at(2,4,6) by simp_all
  obtain r1 where r1: "rb_write_to ring ?sub False = Some (Value (length d), r1)" "rb_inv r1"
      "free_bytes r1 = free_bytes ring - length d" "rb_contents r1 = rb_contents ring @ d"
    using rbq.send_fits [OF Cons.prems(2) ok(1)] Cons.prems(3) unfolding ok(2,3) by auto
  have fit: "length (concat ds) \<le> free_bytes r1" using Cons.prems(3) r1(3) by simp
  from Cons.IH [OF at(1) r1(2) fit, of "queue @ [QueuedData (ds = []) message_id (length d)]"]
  obtain r2 where "send_items k (UserBuffer msg) (r1, queue @ [QueuedData (ds = []) message_id (length d)]) blocking message_id (i + 1) (length ds)
      = Some (Value (), (r2, (queue @ [QueuedData (ds = []) message_id (length d)]) @ queued_chunks message_id ds), k)"
      "rb_inv r2" "rb_contents r2 = rb_contents r1 @ concat ds" by blast
  then show ?case using at(5) sub r1 by (simp add: send_item_def)
qed

lemma length_le_concat: "\<forall>d\<in>set ds. d \<noteq> [] \<Longrightarrow> length ds \<le> length (concat ds)"
proof (induction ds)
  case (Cons d ds)
  then have "Suc 0 \<le> length d" and "length ds \<le> length (concat ds)" by (simp_all add: Suc_le_eq)
  then show ?case by simp
qed simp

lemma queue_bound: "rb_inv ring \<Longrightarrow> n \<le> free_bytes ring \<Longrightarrow> n < 0x200000 \<and> n < rb_capacity ring"
  by (auto simp: free_bytes_eq rb_inv_def rb_capacity_def MAX_MEMCOPY_def)

lemma data_message_bound:
  assumes "\<forall>d\<in>set ds. d \<noteq> []" and "length (concat ds) < 0x200000"
  shows "length ds < 0x200000" and "length (data_message message_id ds) < 0x5000000"
proof -
  have "length ds \<le> length (concat ds)" by (rule length_le_concat [OF assms(1)])
  then show "length ds < 0x200000" and "length (data_message message_id ds) < 0x5000000"
    using assms(2) unfolding length_data_message by (simp_all add: item_offset_def HEADER_SIZE_def ITEM_SIZE_def)
qed

lemma data_message_at:
  assumes "\<forall>d\<in>set ds. d \<noteq> []" and "length (concat ds) < 0x200000"
  shows "message_at (data_message message_id ds) 0 (item_offset (length ds)) ds"
proof -
  have "\<exists>P D Z. data_message message_id ds = P @ data_items (item_offset (length ds)) ds @ D @ concat ds @ Z \<and>
      length P = item_offset 0 \<and> item_offset (length ds) = item_offset 0 + ITEM_SIZE * length ds + length D"
    by (intro exI [of _ "encode_header _"] exI [of _ "[]"]) (auto simp: data_message_def item_offset_def)
  then show ?thesis
    using assms data_message_bound(2) [OF assms, of message_id] by (simp add: message_at_def)
qed

lemma send_data_message:
  assumes "\<forall>d\<in>set ds. d \<noteq> []" and "rb_inv ring" and "length (concat ds) \<le> free_bytes ring"
  shows "\<exists>ring'. write_to_queue k (UserBuffer (data_message message_id ds)) (ring, queue) blocking
      = Some (Value (length (concat ds)), (ring', queue @ queued_chunks message_id ds), k) \<and> rb_inv ring' \<and>
    rb_contents ring' = rb_contents ring @ concat ds"
proof -
  define h where "h = \<lparr>mh_total_size = item_offset (length ds) + length (concat ds),
       mh_payload_item_count = length ds, mh_message_id = message_id\<rparr>"
  let ?msg = "data_message message_id ds"
  have sz: "length (concat ds) < 0x200000" "length (concat ds) < rb_capacity ring"
    using queue_bound [OF assms(2,3)] by simp_all
  note bound = data_message_bound [OF assms(1) sz(1)]
  note at = data_message_at [OF assms(1) sz(1), of message_id]
  have total: "mh_total_size h = length ?msg" by (simp add: h_def length_data_message)
  have "decode_header (encode_header h) = h"
    by (rule decode_encode_header) (use bound(1) bound(2) [of message_id] total in \<open>simp_all add: h_def\<close>)
  moreover have "take HEADER_SIZE ?msg = encode_header h"
    by (simp add: data_message_def h_def)
  moreover have "HEADER_SIZE \<le> length ?msg" by (simp add: length_data_message item_offset_def)
  moreover have "tb_read_to (UserBuffer ?msg) HEADER_SIZE 0 = Some (Value HEADER_SIZE, take HEADER_SIZE (drop 0 (tb_bytes (UserBuffer ?msg))))"
    by (rule tb_read_ok)
      (use bound(2) [of message_id] in \<open>simp_all add: HEADER_SIZE_def MAX_MEMCOPY_def length_data_message item_offset_def\<close>)
  ultimately have "read_header (UserBuffer ?msg) = Some (Value h)"
    by (simp add: read_header_def tb_read_object_def)
  moreover have "length ds * ITEM_SIZE \<le> length ?msg"
    by (simp add: length_data_message item_offset_def)
  moreover have "check_items (UserBuffer ?msg) 0 (length ds) 0 = Some (Value (length (concat ds)))"
    using check_items_data [OF at, of 0] sz(1) by simp
  moreover obtain ring' where "send_items k (UserBuffer ?msg) (ring, queue) blocking message_id 0 (length ds)
      = Some (Value (), (ring', queue @ queued_chunks message_id ds), k)" "rb_inv ring'"
      "rb_contents ring' = rb_contents ring @ concat ds"
    using send_items_data [OF at assms(2,3)] by blast
  ultimately show ?thesis
    using total sz(2) assms(3) by (simp add: write_to_queue_def h_def)
qed

subsection \<open>Receiving\<close>

text \<open>Reading into a window of a buffer leaves the rest of the buffer as it is.\<close>

definition window_of :: "u8 list \<Rightarrow> nat \<Rightarrow> nat \<Rightarrow> TransactionalBuffer \<Rightarrow> bool" where
  "window_of m off len b \<longleftrightarrow> (\<exists>m'. b = TransactionalBufferSubset (UserBuffer m') off len \<and>
     length m' = length m \<and> take off m' = take off m \<and> drop (off + len) m' = drop (off + len) m)"

lemma window_write:
  assumes w: "window_of m off len b" and "tb_write_from b bs i = Some (r, b')"
    and "i + length bs \<le> len" and "off + len \<le> length m" and "length m < 2 ^ 64"
  shows "window_of m off len b'"
proof -
  obtain m1 where m1: "b = TransactionalBufferSubset (UserBuffer m1) off len" "length m1 = length m"
      "take off m1 = take off m" "drop (off + len) m1 = drop (off + len) m"
    using w by (auto simp: window_of_def)
  have "uadd i off = i + off" "uadd (length bs) (i + off) = length bs + (i + off)"
    using assms(3-5) by (simp_all add: uadd_small)
  then obtain m2 where m2: "memcopy m1 (i + off) bs = Some m2" "b' = TransactionalBufferSubset (UserBuffer m2) off len"
    using assms(2-4) m1(1,2) by (auto split: bind_splits)
  have "m2 = m1 \<or> m2 = take (i + off) m1 @ bs @ drop (i + off + length bs) m1"
    using m2(1) by (auto simp: memcopy_def mem_write_def split: if_splits)
  then show ?thesis
  proof
    assume eq: "m2 = take (i + off) m1 @ bs @ drop (i + off + length bs) m1"
    have "i + off + length bs \<le> length m1" using assms(3,4) m1(2) by simp
    then have "take off m2 = take off m1" "length m2 = length m1" by (simp_all add: eq)
    moreover have "drop (off + len) m2 = drop (off + len) m1"
      using assms(3,4) m1(2) by (simp add: eq ac_simps)
    ultimately show ?thesis using m1 m2(2) by (auto simp: window_of_def)
  qed (use m1 m2(2) in \<open>auto simp: window_of_def\<close>)
qed

lemma window_read_loop:
  assumes "rb_read_loop rb b rs br = Some y" and "window_of m off len b"
    and "off + len \<le> length m" and "length m < 2 ^ 64"
  shows "window_of m off len (snd (snd y))"
proof -
  have "window_of m off len b \<longrightarrow> window_of m off len (snd (snd y))"
  proof (rule rb_read_loop.raw_induct [where P = "\<lambda>rb b rs br y. window_of m off len b \<longrightarrow> window_of m off len (snd (snd y))",
        OF _ assms(1)])
    fix rec :: "ring_buffer \<Rightarrow> TransactionalBuffer \<Rightarrow> uSize \<Rightarrow> uSize \<Rightarrow> (uSize expected \<times> ring_buffer \<times> TransactionalBuffer) option"
      and rb :: ring_buffer and b :: TransactionalBuffer and rs br :: uSize
      and y :: "uSize expected \<times> ring_buffer \<times> TransactionalBuffer"
    assume IH: "\<And>rb b rs br y. rec rb b rs br = Some y \<Longrightarrow> window_of m off len b \<longrightarrow> window_of m off len (snd (snd y))"
    assume body: "(if rs \<noteq> 0 \<and> br < tb_size b then
        (let segment_read_space = (if rb_write_idx rb \<ge> rb_read_idx rb then usub (rb_write_idx rb) (rb_read_idx rb)
                else usub (length (rb_buffer rb)) (rb_read_idx rb));
             to_read = min segment_read_space (usub (tb_size b) br)
         in do {
           bs \<leftarrow> mem_read (rb_buffer rb) (rb_read_idx rb) to_read;
           (res, b') \<leftarrow> tb_write_from b bs br;
           (case res of
              Err e \<Rightarrow> Some (Err e, rb, b')
            | Value _ \<Rightarrow>
                (let idx = uadd (rb_read_idx rb) to_read;
                     rb' = rb\<lparr>rb_read_idx := if idx = length (rb_buffer rb) then 0 else idx\<rparr>
                 in rec rb' b' (pending_bytes rb') (uadd br to_read)))
         })
      else Some (Value br, rb, b)) = Some y"
    show "window_of m off len b \<longrightarrow> window_of m off len (snd (snd y))"
    proof
      assume w: "window_of m off len b"
      have sz: "tb_size b = len" using w by (auto simp: window_of_def)
      show "window_of m off len (snd (snd y))"
      proof (cases "rs \<noteq> 0 \<and> br < len")
        case False
        then show ?thesis using body w sz by (auto split: if_splits)
      next
        case True
        define n where "n = min (if rb_write_idx rb \<ge> rb_read_idx rb then usub (rb_write_idx rb) (rb_read_idx rb)
                else usub (length (rb_buffer rb)) (rb_read_idx rb)) (usub (tb_size b) br)"
        obtain bs res b1 where bs: "mem_read (rb_buffer rb) (rb_read_idx rb) n = Some bs"
          and b1: "tb_write_from b bs br = Some (res, b1)"
          using body True unfolding sz n_def by (auto simp: Let_def split: bind_splits)
        have "length bs = n" using length_mem_read [OF bs] .
        moreover have "n \<le> len - br" using True by (simp add: n_def sz usub_le)
        ultimately have "br + length bs \<le> len" using True by linarith
        then have w1: "window_of m off len b1" by (rule window_write [OF w b1 _ assms(3,4)])
        show ?thesis
        proof (cases res)
          case (Err e)
          then show ?thesis using body True bs b1 w1 unfolding sz by (auto simp: n_def sz Let_def)
        next
          case (Value v)
          define i where "i = uadd (rb_read_idx rb) n"
          define rb1 where "rb1 = rb\<lparr>rb_read_idx := if i = length (rb_buffer rb) then 0 else i\<rparr>"
          have "rec rb1 b1 (pending_bytes rb1) (uadd br n) = Some y"
            using body [unfolded Let_def, folded n_def] True bs b1 Value unfolding rb1_def i_def by (simp add: sz)
          then show ?thesis using IH w1 by blast
        qed
      qed
    qed
  qed
  then show ?thesis using assms(2) by blast
qed

text \<open>What one data item does to the caller's buffer, and all of them.\<close>

definition splice :: "u8 list \<Rightarrow> nat \<Rightarrow> u8 list \<Rightarrow> u8 list" where
  "splice m off bs = take off m @ bs @ drop (off + length bs) m"

fun fill :: "u8 list \<Rightarrow> nat \<Rightarrow> nat \<Rightarrow> u8 list list \<Rightarrow> u8 list" where
  "fill m i off [] = m"
| "fill m i off (d # ds) =
     fill (splice (splice m off d) (item_offset i) (encode_item (PayloadData off (length d)))) (i + 1) (off + length d) ds"

lemma length_splice: "off + length bs \<le> length m \<Longrightarrow> length (splice m off bs) = length m"
  by (simp add: splice_def)

lemma splice_middle: "length A = off \<Longrightarrow> length B = length bs \<Longrightarrow> splice (A @ B @ C) off bs = A @ bs @ C"
  by (simp add: splice_def)

lemma fill_message:
  assumes "m = P @ X @ D @ Z" and "length P = item_offset i" and "length X = ITEM_SIZE * length ds"
    and "off = length (P @ X @ D)" and "length (concat ds) \<le> length Z"
  shows "fill m i off ds = P @ data_items off ds @ D @ concat ds @ drop (length (concat ds)) Z"
  using assms
proof (induction ds arbitrary: m P X D Z i off)
  case Nil
  then show ?case by simp
next
  case (Cons d ds)
  let ?e = "encode_item (PayloadData off (length d))"
  let ?X1 = "take ITEM_SIZE X" and ?X2 = "drop ITEM_SIZE X"
  have lenX: "length ?X1 = 32" "length ?X2 = ITEM_SIZE * length ds"
    using Cons.prems(3) by (simp_all add: ITEM_SIZE_def)
  have m: "m = (P @ X @ D) @ take (length d) Z @ drop (length d) Z" using Cons.prems(1) by simp
  have "splice m off d = (P @ X @ D) @ d @ drop (length d) Z"
    unfolding m by (rule splice_middle) (use Cons.prems(4,5) in simp_all)
  also have "\<dots> = P @ ?X1 @ ?X2 @ D @ d @ drop (length d) Z" by simp
  also have "splice \<dots> (item_offset i) ?e = P @ ?e @ ?X2 @ D @ d @ drop (length d) Z"
    by (rule splice_middle) (use Cons.prems(2) lenX in simp_all)
  finally have m2: "splice (splice m off d) (item_offset i) ?e = (P @ ?e) @ ?X2 @ (D @ d) @ drop (length d) Z" by simp
  have "fill (splice (splice m off d) (item_offset i) ?e) (i + 1) (off + length d) ds =
      (P @ ?e) @ data_items (off + length d) ds @ (D @ d) @ concat ds @ drop (length (concat ds)) (drop (length d) Z)"
    by (rule Cons.IH [OF m2]) (use Cons.prems(2-5) lenX in \<open>simp_all add: item_offset_def ITEM_SIZE_def\<close>)
  then show ?case by (simp add: add.commute)
qed

lemma receive_data_item:
  assumes "rb_inv ring" and "rb_contents ring = d @ rest" and "d \<noteq> []" and "length m < 2 ^ 64"
    and "off + length d \<le> length m" and "item_offset (i + 1) \<le> length m"
  shows "\<exists>ring'. receive_item env k (UserBuffer m) ring (QueuedData f message_id (length d)) i off =
      Some (Value (off + length d),
        UserBuffer (splice (splice m off d) (item_offset i) (encode_item (PayloadData off (length d)))), ring', k) \<and>
    rb_inv ring' \<and> rb_contents ring' = rest"
proof -
  let ?sub = "TransactionalBufferSubset (UserBuffer m) off (length d)"
  let ?e = "encode_item (PayloadData off (length d))"
  have sub: "make_subset (UserBuffer m) off (length d) = Some ?sub"
    using assms(4,5) by (simp add: make_subset_def uadd_small)
  have ok: "tb_ok ?sub" "tb_size ?sub = length d" using assms(4,5) by simp_all
  obtain ring' b where rd: "rb_read_to ring ?sub False = Some (Value (length d), ring', b)"
      and r': "rb_inv ring'" "rb_contents ring' = rest" and b: "tb_bytes b = d"
    using rbq.receive_fits [OF assms(1) ok(1)] assms(2,3) unfolding ok(2) by auto
  have "window_of m off (length d) ?sub" by (simp add: window_of_def)
  moreover obtain rs where "rb_read_loop ring ?sub rs 0 = Some (Value (length d), ring', b)"
    using rd by (auto simp: rb_read_to_def Let_def split: if_splits)
  ultimately have "window_of m off (length d) b"
    using window_read_loop [of ring ?sub rs 0 "(Value (length d), ring', b)" m off "length d"] assms(4,5) by simp
  then obtain m1 where m1: "b = TransactionalBufferSubset (UserBuffer m1) off (length d)" "length m1 = length m"
      "take off m1 = take off m" "drop (off + length d) m1 = drop (off + length d) m"
    by (auto simp: window_of_def)
  have "m1 = take off m1 @ take (length d) (drop off m1) @ drop (off + length d) m1"
    by (metis add.commute append_take_drop_id drop_drop)
  then have eq: "m1 = splice m off d" using m1(3,4) b m1(1) by (simp add: splice_def)
  have fits: "item_offset i + 32 \<le> length m" using assms(6) by (simp add: item_offset_def ITEM_SIZE_def)
  have "tb_write_from (UserBuffer m1) ?e (item_offset i) = Some (Value 32, UserBuffer (splice m1 (item_offset i) ?e))"
    using fits m1(2) assms(4) by (simp add: uadd_small memcopy_ok MAX_MEMCOPY_def splice_def del: encode_item.simps)
  then show ?thesis
    using sub rd r' m1(1) assms(4,5)
    by (simp add: receive_item_def tb_write_object_def message_destroy_def message_is_data_def uadd_small eq
        del: encode_item.simps)
qed

lemma receive_items_data:
  assumes "rb_inv ring" and "rb_contents ring = concat ds @ rest" and "\<forall>d\<in>set ds. d \<noteq> []"
    and "length m < 2 ^ 64" and "off + length (concat ds) \<le> length m" and "item_offset (i + length ds) \<le> off"
  shows "\<exists>ring'. receive_items env k (UserBuffer m) (ring, queued_chunks message_id ds @ restq) i (length ds) off =
      Some (Value (off + length (concat ds)), UserBuffer (fill m i off ds), (ring', restq), k) \<and>
    rb_inv ring' \<and> rb_contents ring' = rest"
  using assms
proof (induction ds arbitrary: ring m i off)
  case Nil
  then show ?case by simp
next
  case (Cons d ds)
  let ?m1 = "splice (splice m off d) (item_offset i) (encode_item (PayloadData off (length d)))"
  have fits: "item_offset (i + 1) \<le> length m"
    using Cons.prems(5,6) by (simp add: item_offset_def ITEM_SIZE_def)
  obtain r1 where r1: "receive_item env k (UserBuffer m) ring (QueuedData (ds = []) message_id (length d)) i off =
      Some (Value (off + length d), UserBuffer ?m1, r1, k)" "rb_inv r1" "rb_contents r1 = concat ds @ rest"
    using receive_data_item [OF Cons.prems(1), of d "concat ds @ rest" m off i env k "ds = []" message_id] Cons.prems fits
    by auto
  have "length ?m1 = length m"
    using fits Cons.prems(5) by (simp add: length_splice item_offset_def ITEM_SIZE_def del: encode_item.simps)
  then have "length ?m1 < 2 ^ 64" "off + length d + length (concat ds) \<le> length ?m1"
      "item_offset (i + 1 + length ds) \<le> off + length d"
    using Cons.prems(4,5,6) by (simp_all del: encode_item.simps)
  from Cons.IH [OF r1(2,3) _ this] Cons.prems(3)
  show ?case using r1(1) by (simp add: add.assoc del: encode_item.simps)
qed

lemma first_message_chunks:
  assumes "ds \<noteq> []" and "acc + length (concat ds) < 2 ^ 64"
  shows "first_message (queued_chunks message_id ds @ restq) n acc mid = (n + length ds, acc + length (concat ds), message_id)"
  using assms
proof (induction ds arbitrary: n acc mid)
  case Nil
  then show ?case by simp
next
  case (Cons d ds)
  then show ?case by (cases "ds = []") (simp_all add: uadd_small add.assoc)
qed

lemma receive_data_message:
  assumes "ds \<noteq> []" and "\<forall>d\<in>set ds. d \<noteq> []" and "rb_inv ring" and "rb_contents ring = concat ds"
    and "length (data_message message_id ds) \<le> length buf" and "length buf < 2 ^ 64"
  shows "\<exists>ring'. read_from_queue env k (UserBuffer buf) (ring, queued_chunks message_id ds) blocking =
      Some (Value (length (data_message message_id ds)),
        UserBuffer (data_message message_id ds @ drop (length (data_message message_id ds)) buf), (ring', []), k) \<and>
    rb_inv ring' \<and> rb_contents ring' = []"
proof -
  let ?n = "length ds" and ?sum = "length (concat ds)"
  define h where "h = \<lparr>mh_total_size = item_offset ?n + ?sum, mh_payload_item_count = ?n, mh_message_id = message_id\<rparr>"
  have len: "item_offset ?n + ?sum \<le> length buf" using assms(5) by (simp add: length_data_message)
  have fm: "first_message (queued_chunks message_id ds) 0 0 0 = (?n, ?sum, message_id)"
    using first_message_chunks [of ds 0 message_id "[]" 0 0] assms(1,6) len by simp
  have req: "uadd (HEADER_SIZE + ?n * ITEM_SIZE) ?sum = item_offset ?n + ?sum"
    using len assms(6) by (simp add: uadd_small item_offset_def)
  define X where "X = take (ITEM_SIZE * ?n) (drop HEADER_SIZE buf)"
  define Z where "Z = drop (item_offset ?n) buf"
  have X: "length X = ITEM_SIZE * ?n" and Z: "?sum \<le> length Z"
    using len by (simp_all add: X_def Z_def item_offset_def ITEM_SIZE_def HEADER_SIZE_def)
  have rest: "drop HEADER_SIZE buf = X @ Z"
    unfolding X_def Z_def item_offset_def
    by (metis add.commute append_take_drop_id drop_drop mult.commute)
  define m where "m = encode_header h @ X @ [] @ Z"
  have lm: "length m = length buf"
    using len by (simp add: m_def rest [symmetric] item_offset_def)
  have w: "tb_write_from (UserBuffer buf) (encode_header h) 0 = Some (Value HEADER_SIZE, UserBuffer m)"
    using len assms(6) by (simp add: uadd_small memcopy_ok MAX_MEMCOPY_def HEADER_SIZE_def item_offset_def m_def)
      (simp add: rest [symmetric] HEADER_SIZE_def)
  obtain ring' where r: "receive_items env k (UserBuffer m) (ring, queued_chunks message_id ds @ []) 0 ?n (item_offset ?n) =
      Some (Value (item_offset ?n + ?sum), UserBuffer (fill m 0 (item_offset ?n) ds), (ring', []), k)"
      "rb_inv ring'" "rb_contents ring' = []"
    using receive_items_data [OF assms(3), of ds "[]" m "item_offset ?n" 0 env k message_id "[]"] assms(2,4,6) len lm by auto
  have "fill m 0 (item_offset ?n) ds = encode_header h @ data_items (item_offset ?n) ds @ [] @ concat ds @ drop ?sum Z"
    by (rule fill_message [OF m_def]) (use X Z in \<open>simp_all add: item_offset_def\<close>)
  also have "\<dots> = data_message message_id ds @ drop (length (data_message message_id ds)) buf"
    by (simp add: data_message_def h_def Z_def item_offset_def ac_simps)
  finally have "fill m 0 (item_offset ?n) ds = data_message message_id ds @ drop (length (data_message message_id ds)) buf" .
  moreover have "queued_chunks message_id ds \<noteq> []" using assms(1) by (cases ds) simp_all
  ultimately show ?thesis
    using r fm req w len
    by (simp add: read_from_queue_def tb_write_object_def h_def [symmetric] length_data_message Let_def
        del: tb_write_from.simps)
qed

text \<open> C5: A message of data arrives as it was sent.  When the chunks fit in the ring buffer, sending the
  message succeeds, and the receiver, in whatever process it runs, finds at the start of its
  buffer exactly the bytes that the sender laid out, header and items included, with the rest of the
  buffer unchanged and the queue of the connection empty again.\<close>

theorem data_message_roundtrip:
  assumes "ds \<noteq> []" and "\<forall>d\<in>set ds. d \<noteq> []" and "rb_inv ring" and "rb_contents ring = []"
    and "length (concat ds) \<le> free_bytes ring"
    and "length (data_message message_id ds) \<le> length buf" and "length buf < 2 ^ 64"
  shows "\<exists>q' ring''.
    write_to_queue k (UserBuffer (data_message message_id ds)) (ring, []) False = Some (Value (length (concat ds)), q', k) \<and>
    read_from_queue env k' (UserBuffer buf) q' False =
      Some (Value (length (data_message message_id ds)),
        UserBuffer (data_message message_id ds @ drop (length (data_message message_id ds)) buf), (ring'', []), k') \<and>
    rb_contents ring'' = []"
proof -
  obtain ring' where s: "write_to_queue k (UserBuffer (data_message message_id ds)) (ring, []) False
      = Some (Value (length (concat ds)), (ring', queued_chunks message_id ds), k)" "rb_inv ring'" "rb_contents ring' = concat ds"
    using send_data_message [OF assms(2,3,5), of k message_id "[]" False] assms(4) by auto
  then show ?thesis
    using receive_data_message [OF assms(1,2) s(2,3) assms(6,7)] by blast
qed

theorem data_message_roundtrip_witness:
  "\<forall>k k' env. \<exists>q' ring''. write_to_queue k (UserBuffer (data_message 7 [[1, 2], [3]])) (ring_buffer_new 1024, []) False = Some (Value 3, q', k) \<and>
    read_from_queue env k' (UserBuffer (replicate 100 0)) q' False =
      Some (Value 83, UserBuffer (data_message 7 [[1, 2], [3]] @ replicate 17 0), (ring'', []), k')"
proof -
  have len: "length (data_message 7 [[1, 2], [3]]) = 83"
    by (simp add: length_data_message item_offset_def HEADER_SIZE_def ITEM_SIZE_def)
  have inv: "rb_inv (ring_buffer_new 1024)" by (rule rb_inv_new) (simp_all add: MAX_MEMCOPY_def)
  have room: "length (concat [[1, 2], [3 :: u8]]) \<le> free_bytes (ring_buffer_new 1024)"
    unfolding free_bytes_eq [OF inv] rb_contents_new by (simp add: rb_capacity_def ring_buffer_new_def)
  show ?thesis
  proof (intro allI)
    fix k k' env
    show "\<exists>q' ring''. write_to_queue k (UserBuffer (data_message 7 [[1, 2], [3]])) (ring_buffer_new 1024, []) False = Some (Value 3, q', k) \<and>
      read_from_queue env k' (UserBuffer (replicate 100 0)) q' False =
        Some (Value 83, UserBuffer (data_message 7 [[1, 2], [3]] @ replicate 17 0), (ring'', []), k')"
      using data_message_roundtrip [of "[[1, 2], [3]]" "ring_buffer_new 1024" 7 "replicate 100 0" k env k'] inv room len
      by auto
  qed
qed

lemma first_message_count: "fst (first_message (m # ms) items acc mid) > items"
proof (induction "m # ms" items acc mid arbitrary: m ms rule: first_message.induct)
  case (2 m ms items acc mid)
  show ?case
  proof (cases "is_final_message m \<or> ms = []")
    case False
    then obtain m1 ms1 where "ms = m1 # ms1" "\<not> is_final_message m" by (cases ms) auto
    then show ?thesis using "2"(1) [of m1 ms1] by simp
  qed auto
qed

lemma receive_non_data: "\<not> message_is_data item \<Longrightarrow> receive_item env k buffer ring item i off = None"
  by (cases item) (auto simp: receive_item_def message_destroy_def message_is_data_def
      split: bind_splits expected.splits option.split)

text \<open>A message that carries an entity or memory is never received, and stays in the way of all
  later ones.  If the first queued item is not data, \<open>read_from_queue\<close> returns an error and leaves the
  queue as it is, or the kernel panics: the destructor of an item that leaves the queue insists
  on data.\<close>

theorem receive_non_data_panics:
  assumes "\<not> message_is_data m"
  shows "case read_from_queue env k buffer (ring, m # rest) blocking of
      None \<Rightarrow> True | Some (r, b, q', k') \<Rightarrow> (\<exists>e. r = Err e) \<and> q' = (ring, m # rest) \<and> k' = k"
proof -
  obtain items acc mid where fm: "first_message (m # rest) 0 0 0 = (items, acc, mid)" by (metis prod_cases3)
  then have "0 < items" using first_message_count [of 0 m rest 0 0] by simp
  then obtain n where "items = Suc n" by (cases items) auto
  then have "receive_items env k b (ring, m # rest) 0 items off = None" for b off
    by (simp add: receive_non_data [OF assms])
  then show ?thesis
    by (auto simp: read_from_queue_def fm Let_def simp del: first_message.simps split: option.split expected.split bind_splits)
qed

theorem receive_non_data_panics_witness:
  "\<forall>env k. case read_from_queue env k (UserBuffer (replicate 48 0)) (ring_buffer_new 1024, [QueuedEntity True 7 0]) False of
      None \<Rightarrow> True | Some (r, b, q', k') \<Rightarrow> (\<exists>e. r = Err e) \<and> q' = (ring_buffer_new 1024, [QueuedEntity True 7 0]) \<and> k' = k"
  by (intro allI receive_non_data_panics) (simp add: message_is_data_def)

end
