(* ===== verification/Ipc_Message.thy ===== *)
theory Ipc_Message
  imports Interlink_Messages Vector
begin

text \<open>
  \<open>userspace/libipc\<close>: the messages of user programs (\<open>message.cpp\<close>, \<open>message.h\<close>) and the
  connection they are sent through (\<open>connection.cpp\<close>).

  A \<open>MessageBuffer\<close> is the list of its bytes, in the layout of \<open>api/interlink.h\<close> that the kernel
  reads.  The data of a \<open>Message\<close> is a \<open>vector\<close> of bytes with its storage, as \<open>encode_bytes\<close> writes
  behind the end of the vector.  The padding of items is unspecified and 0.  The system calls and the
  dispatch of a message by a derived class are parameters.
\<close>

subsection \<open>Buffers\<close>

definition calculate_size_for_message :: "nat \<Rightarrow> nat \<Rightarrow> nat \<Rightarrow> uSize" where
  "calculate_size_for_message data_size fd_count memory_count =
     HEADER_SIZE + ITEM_SIZE * (fd_count + memory_count + 1) + data_size"

definition calculate_data_offset :: "nat \<Rightarrow> uSize" where
  "calculate_data_offset n_payload_items = HEADER_SIZE + ITEM_SIZE * n_payload_items"

definition message_buffer_of_size :: "uSize \<Rightarrow> u8 list" where
  "message_buffer_of_size n = replicate n 0"

definition mb_header :: "u8 list \<Rightarrow> MessageHeader option" where
  "mb_header buffer = map_option decode_header (mem_read buffer 0 HEADER_SIZE)"

fun write_items :: "u8 list \<Rightarrow> nat \<Rightarrow> PayloadItem list \<Rightarrow> u8 list option" where
  "write_items buffer i [] = Some buffer"
| "write_items buffer i (x # xs) = do {
     buffer1 \<leftarrow> mem_write buffer (item_offset i) (encode_item x);
     write_items buffer1 (i + 1) xs }"

definition fd_items :: "int list \<Rightarrow> PayloadItem list" where
  "fd_items fds = map PayloadFd fds"

definition memory_items :: "(uSize \<times> uSize) list \<Rightarrow> PayloadItem list" where
  "memory_items regions = map (\<lambda>(ptr, sz). PayloadMemory ptr sz True True) regions"

definition message_buffer :: "u32 \<Rightarrow> u8 list \<Rightarrow> int list \<Rightarrow> (uSize \<times> uSize) list \<Rightarrow> u8 list option" where
  "message_buffer message_id bytes fds regions =
     (let buffer = message_buffer_of_size (calculate_size_for_message (length bytes) (length fds) (length regions));
          n_payload_items = (length fds + length regions + 1) mod 2 ^ 32;
          data_offset = calculate_data_offset n_payload_items
      in do {
        buffer1 \<leftarrow> mem_write buffer 0 (encode_header
          \<lparr>mh_total_size = length buffer, mh_payload_item_count = n_payload_items, mh_message_id = message_id\<rparr>);
        buffer2 \<leftarrow> write_items buffer1 0
          (PayloadData data_offset (length bytes) # fd_items fds @ memory_items regions);
        memcopy buffer2 data_offset bytes })"

definition mb_verify :: "u8 list \<Rightarrow> bool option" where
  "mb_verify buffer =
     (if length buffer < HEADER_SIZE then Some False
      else do {
        h \<leftarrow> mb_header buffer;
        Some (\<not> mh_total_size h \<ge> length buffer \<and>
              \<not> calculate_data_offset (mh_payload_item_count h) > mh_total_size h) })"

text \<open>\<open>payload_items\<close>: the items from number \<open>i\<close> on.\<close>

fun read_items :: "u8 list \<Rightarrow> nat \<Rightarrow> nat \<Rightarrow> PayloadItem list option" where
  "read_items buffer i 0 = Some []"
| "read_items buffer i (Suc n) = do {
     bs \<leftarrow> mem_read buffer (item_offset i) ITEM_SIZE;
     xs \<leftarrow> read_items buffer (i + 1) n;
     Some (decode_item bs # xs) }"

definition payload_items :: "u8 list \<Rightarrow> PayloadItem list option" where
  "payload_items buffer = do { h \<leftarrow> mb_header buffer; read_items buffer 0 (mh_payload_item_count h) }"

text \<open>The new bytes are what the memory holds.\<close>

definition mb_ensure_capacity :: "(nat \<Rightarrow> u8) \<Rightarrow> u8 list \<Rightarrow> uSize \<Rightarrow> u8 list" where
  "mb_ensure_capacity memory buffer capacity =
     (if length buffer < capacity then buffer @ map memory [length buffer..<capacity] else buffer)"

subsection \<open>Messages\<close>

record ipc_message =
  im_id :: u32
  im_buffer :: "u8 bek_vector"
  im_fds :: "int list"
  im_regions :: "(uSize \<times> uSize) list"
  im_cur_position :: uSize
  im_cur_fd :: nat
  im_cur_region :: nat

definition new_message :: "u32 \<Rightarrow> ipc_message" where
  "new_message message_id = \<lparr>im_id = message_id, im_buffer = vec_empty, im_fds = [], im_regions = [],
     im_cur_position = 0, im_cur_fd = 0, im_cur_region = 0\<rparr>"

text \<open>The loop of \<open>from_buffer\<close> over the items.\<close>

fun collect_items :: "PayloadItem list \<Rightarrow> (uSize \<times> uSize) option \<Rightarrow> int list \<Rightarrow> (uSize \<times> uSize) list \<Rightarrow>
    ((uSize \<times> uSize) option \<times> int list \<times> (uSize \<times> uSize) list) expected" where
  "collect_items [] d fds regions = Value (d, fds, regions)"
| "collect_items (PayloadData off len # xs) d fds regions =
     (if d \<noteq> None then Err EINVAL else collect_items xs (Some (off, len)) fds regions)"
| "collect_items (PayloadFd fd # xs) d fds regions = collect_items xs d (fds @ [fd]) regions"
| "collect_items (PayloadMemory ptr sz r w # xs) d fds regions = collect_items xs d fds (regions @ [(ptr, sz)])"
| "collect_items (PayloadOther k # xs) d fds regions = Err EINVAL"

definition byte_elements :: elem_type where "byte_elements = \<lparr>et_size = 1, et_trivial = True\<rparr>"

definition vec_of_bytes :: "u8 list \<Rightarrow> u8 bek_vector option" where
  "vec_of_bytes bs = do {
     v \<leftarrow> vec_expand byte_elements vec_empty (length bs);
     verify (length bs \<le> MAX_MEMCOPY \<and> length bs \<le> vec_capacity v);
     Some (v\<lparr>vec_slots := map Some bs @ drop (length bs) (vec_slots v)\<rparr>) }"

definition from_buffer :: "u8 list \<Rightarrow> ipc_message expected option" where
  "from_buffer buffer = do {
     ok \<leftarrow> mb_verify buffer;
     (if \<not> ok then Some (Err EINVAL)
      else do {
        h \<leftarrow> mb_header buffer;
        items \<leftarrow> payload_items buffer;
        (case collect_items items None [] [] of
           Err e \<Rightarrow> Some (Err e)
         | Value (d, fds, regions) \<Rightarrow> do {
             v \<leftarrow> (case d of
                     None \<Rightarrow> Some vec_empty
                   | Some (off, len) \<Rightarrow> do { bs \<leftarrow> mem_read buffer off len; vec_of_bytes bs });
             Some (Value \<lparr>im_id = mh_message_id h, im_buffer = v, im_fds = fds, im_regions = regions,
               im_cur_position = 0, im_cur_fd = 0, im_cur_region = 0\<rparr>) }) }) }"

text \<open>Reading the bytes of a vector; raw memory has no value.\<close>

fun slots_bytes :: "u8 option list \<Rightarrow> u8 list option" where
  "slots_bytes [] = Some []"
| "slots_bytes (s # ss) = do { b \<leftarrow> s; bs \<leftarrow> slots_bytes ss; Some (b # bs) }"

definition to_buffer :: "ipc_message \<Rightarrow> u8 list option" where
  "to_buffer m = do {
     bs \<leftarrow> slots_bytes (take (vec_size (im_buffer m)) (vec_slots (im_buffer m)));
     message_buffer (im_id m) bs (im_fds m) (im_regions m) }"

text \<open>
  \<open>encode_bytes\<close> expands the vector and copies to the end of the vector that results.  The second result is
  what it writes from the vector's capacity on, as offsets in its storage and bytes: how much more the
  block has that the allocator gave is not known to the vector.
\<close>

definition encode_bytes :: "ipc_message \<Rightarrow> u8 list \<Rightarrow> (ipc_message \<times> (uSize \<times> u8) list) option" where
  "encode_bytes m bs = do {
     v \<leftarrow> vec_expand byte_elements (im_buffer m) (length bs);
     verify (length bs \<le> MAX_MEMCOPY);
     (let at_end = vec_size v;
          inside = take (vec_capacity v - at_end) bs;
          outside = drop (vec_capacity v - at_end) bs;
          slots = take at_end (vec_slots v) @ map Some inside @ drop (at_end + length inside) (vec_slots v)
      in Some (m\<lparr>im_buffer := v\<lparr>vec_slots := slots\<rparr>\<rparr>,
           zip [at_end + length inside ..< at_end + length bs] outside)) }"

definition encode_fd :: "ipc_message \<Rightarrow> int \<Rightarrow> ipc_message" where
  "encode_fd m fd = m\<lparr>im_fds := im_fds m @ [fd]\<rparr>"

definition encode_memory_region :: "ipc_message \<Rightarrow> uSize \<Rightarrow> uSize \<Rightarrow> ipc_message" where
  "encode_memory_region m ptr sz = m\<lparr>im_regions := im_regions m @ [(ptr, sz)]\<rparr>"

definition start_decoding :: "ipc_message \<Rightarrow> ipc_message" where
  "start_decoding m = m\<lparr>im_cur_position := 0, im_cur_fd := 0, im_cur_region := 0\<rparr>"

definition decode_bytes :: "ipc_message \<Rightarrow> uSize \<Rightarrow> u8 option list expected \<times> ipc_message" where
  "decode_bytes m len =
     (if uadd len (im_cur_position m) < vec_size (im_buffer m)
      then (Value (take len (drop (im_cur_position m) (vec_slots (im_buffer m)))),
            m\<lparr>im_cur_position := uadd (im_cur_position m) len\<rparr>)
      else (Err EOVERFLOW, m))"

definition decode_fd :: "ipc_message \<Rightarrow> int expected \<times> ipc_message" where
  "decode_fd m =
     (if im_cur_fd m < length (im_fds m) then (Value (im_fds m ! im_cur_fd m), m\<lparr>im_cur_fd := im_cur_fd m + 1\<rparr>)
      else (Err EOVERFLOW, m))"

definition decode_memory_region :: "ipc_message \<Rightarrow> (uSize \<times> uSize) expected \<times> ipc_message" where
  "decode_memory_region m =
     (if im_cur_region m < length (im_regions m)
      then (Value (im_regions m ! im_cur_region m), m\<lparr>im_cur_region := im_cur_region m + 1\<rparr>)
      else (Err EOVERFLOW, m))"

text \<open>\<open>enum_traits::to_enum\<close> and \<open>ByteWiseSerializer\<close>, of a value that is its bytes.\<close>

definition to_enum :: "nat \<Rightarrow> nat \<Rightarrow> nat expected" where
  "to_enum max_value v = (if v < max_value then Value v else Err EINVAL)"

definition bytewise_encode :: "u8 list \<Rightarrow> ipc_message \<Rightarrow> (ipc_message \<times> (uSize \<times> u8) list) option" where
  "bytewise_encode x m = encode_bytes m x"

definition bytewise_decode :: "nat \<Rightarrow> ipc_message \<Rightarrow> (u8 list expected \<times> ipc_message) option" where
  "bytewise_decode n m =
     (case decode_bytes m n of
        (Err e, m1) \<Rightarrow> Some (Err e, m1)
      | (Value ss, m1) \<Rightarrow> do { bs \<leftarrow> slots_bytes ss; verify (length bs = n); Some (Value bs, m1) })"

subsection \<open>Connections\<close>

definition BUFFER_SIZE :: uSize where "BUFFER_SIZE = 1024"

text \<open>\<open>send\<close> is the system call with the bytes of the message, \<open>'s\<close> the state of the system.\<close>

definition send_message :: "(u8 list \<Rightarrow> 's \<Rightarrow> int expected \<times> 's) \<Rightarrow> ipc_message \<Rightarrow> 's \<Rightarrow> (unit expected \<times> 's) option" where
  "send_message send m s = do {
     buffer \<leftarrow> to_buffer m;
     h \<leftarrow> mb_header buffer;
     bs \<leftarrow> mem_read buffer 0 (mh_total_size h);
     (case send bs s of
        (Err e, s1) \<Rightarrow> Some (Err e, s1)
      | (Value _, s1) \<Rightarrow> Some (Value (), s1)) }"

text \<open>\<open>receive\<close> is given the capacity and returns the result and what is now in the buffer.\<close>

definition poll :: "(uSize \<Rightarrow> 's \<Rightarrow> int expected \<times> u8 list \<times> 's) \<Rightarrow>
    (u32 \<Rightarrow> ipc_message \<Rightarrow> 's \<Rightarrow> (unit expected \<times> 's) option) \<Rightarrow> 's \<Rightarrow> (unit expected \<times> 's) option" where
  "poll receive dispatch s =
     (case receive BUFFER_SIZE s of
        (Err e, buffer, s1) \<Rightarrow> Some (Err e, s1)
      | (Value n, buffer, s1) \<Rightarrow>
          if n = 0 then Some (Value (), s1)
          else do {
            ok \<leftarrow> mb_verify buffer;
            (if \<not> ok then Some (Err EINVAL, s1)
             else do {
               m \<leftarrow> from_buffer buffer;
               (case m of
                  Err e \<Rightarrow> Some (Err e, s1)
                | Value msg \<Rightarrow> do { h \<leftarrow> mb_header buffer; dispatch (mh_message_id h) msg s1 }) }) })"

subsection \<open>What a buffer holds\<close>

lemma length_encode_any_item [simp]: "length (encode_item x) = ITEM_SIZE"
  by (cases x) (simp_all add: ITEM_SIZE_def)

definition items_bytes :: "PayloadItem list \<Rightarrow> u8 list" where
  "items_bytes xs = concat (map encode_item xs)"

lemma items_bytes_simps [simp]:
  "items_bytes [] = []" "items_bytes (x # xs) = encode_item x @ items_bytes xs"
  by (simp_all add: items_bytes_def)

lemma length_items_bytes [simp]: "length (items_bytes xs) = ITEM_SIZE * length xs"
  by (induction xs) simp_all

lemma write_items_fill:
  assumes "length P = item_offset i" and "length Z = ITEM_SIZE * length xs"
  shows "write_items (P @ Z @ R) i xs = Some (P @ items_bytes xs @ R)"
  using assms
proof (induction xs arbitrary: P Z i)
  case (Cons x xs)
  have "mem_write (P @ Z @ R) (item_offset i) (encode_item x) = Some ((P @ encode_item x) @ drop ITEM_SIZE Z @ R)"
    using Cons.prems by (simp add: mem_write_def ITEM_SIZE_def)
  moreover have "write_items ((P @ encode_item x) @ drop ITEM_SIZE Z @ R) (i + 1) xs = Some ((P @ encode_item x) @ items_bytes xs @ R)"
    by (rule Cons.IH) (use Cons.prems in \<open>simp_all add: item_offset_def ITEM_SIZE_def\<close>)
  ultimately show ?case by simp
qed simp

fun item_ok :: "PayloadItem \<Rightarrow> bool" where
  "item_ok (PayloadData off len) \<longleftrightarrow> off < 2 ^ 64 \<and> len < 2 ^ 64"
| "item_ok (PayloadFd fd) \<longleftrightarrow> - (2 ^ 63) \<le> fd \<and> fd < 2 ^ 63"
| "item_ok (PayloadMemory ptr sz r w) \<longleftrightarrow> ptr < 2 ^ 64 \<and> sz < 2 ^ 64"
| "item_ok (PayloadOther k) \<longleftrightarrow> k \<noteq> 0 \<and> k \<noteq> 1 \<and> k \<noteq> 2"

lemma le_bytes_numeral: "le_bytes (numeral n) w = ucast w # le_bytes (pred_numeral n) (drop_bit 8 w)"
  by (simp add: numeral_eq_Suc)

lemma kind_at:
  "field32 (le_bytes 8 (1 :: u64) @ R) 0 = 1" "field32 (le_bytes 8 (2 :: u64) @ R) 0 = 2"
  by (simp_all add: field32_def le_bytes_numeral)

lemma as_i64_of_int:
  assumes "- (2 ^ 63) \<le> i" and "i < 2 ^ 63"
  shows "as_i64 (unat (of_int i :: u64)) = i"
proof -
  have "unat (of_int i :: u64) = nat (i mod 2 ^ 64)" by (simp add: unat_eq_nat_uint uint_word_of_int)
  moreover have "i mod 2 ^ 64 = (if 0 \<le> i then i else i + 2 ^ 64)"
  proof (cases "0 \<le> i")
    case False
    have "i mod 2 ^ 64 = (i + 2 ^ 64) mod 2 ^ 64" by simp
    also have "\<dots> = i + 2 ^ 64" by (rule mod_pos_pos_trivial) (use assms False in simp_all)
    finally show ?thesis using False by simp
  qed (use assms in \<open>simp add: mod_pos_pos_trivial\<close>)
  ultimately show ?thesis using assms by (auto simp: as_i64_def)
qed

lemma decode_encode_item:
  assumes "item_ok x"
  shows "decode_item (encode_item x) = x"
proof (cases x)
  case (PayloadData off len)
  then show ?thesis using assms decode_data_item by simp
next
  case (PayloadFd fd)
  have "field64 (le_bytes 8 (1 :: u64) @ le_bytes 8 (of_int fd :: u64) @ replicate 16 0) 8 = unat (of_int fd :: u64)"
    by (simp add: field64_def le_word_le_bytes_full)
  then show ?thesis
    using PayloadFd assms as_i64_of_int [of fd] by (simp add: decode_item_def kind_at)
next
  case (PayloadMemory ptr sz r w)
  let ?rest = "[if r then 1 else 0, if w then 1 else 0] @ replicate 6 (0 :: u8)"
  let ?b = "le_bytes 8 (2 :: u64) @ le_bytes 8 (of_nat ptr :: u64) @ le_bytes 8 (of_nat sz :: u64) @ ?rest"
  have "field64 ?b 8 = ptr" by (rule field64_at) (use assms PayloadMemory in simp_all)
  moreover have "field64 ((le_bytes 8 (2 :: u64) @ le_bytes 8 (of_nat ptr :: u64)) @ le_bytes 8 (of_nat sz :: u64) @ ?rest) 16 = sz"
    by (rule field64_at) (use assms PayloadMemory in simp_all)
  moreover have "?b ! 24 = (if r then 1 else 0)" "?b ! 25 = (if w then 1 else 0)"
    by (simp_all add: nth_append)
  moreover have "field32 ?b 0 = 2" by (rule kind_at)
  ultimately show ?thesis unfolding PayloadMemory by (simp add: decode_item_def Let_def del: le_bytes.simps)
next
  case (PayloadOther k)
  have "field32 (le_bytes 4 k @ replicate 28 0) 0 = k" by (simp add: field32_def le_word_le_bytes_full)
  then show ?thesis using PayloadOther assms by (simp add: decode_item_def del: le_bytes.simps)
qed

lemma read_items_bytes:
  assumes "length P = item_offset i" and "list_all item_ok xs"
  shows "read_items (P @ items_bytes xs @ R) i (length xs) = Some xs"
  using assms
proof (induction xs arbitrary: P i)
  case (Cons x xs)
  have "mem_read (P @ items_bytes (x # xs) @ R) (item_offset i) ITEM_SIZE = Some (encode_item x)"
    using Cons.prems(1) by (simp add: mem_read_def)
  moreover have "read_items ((P @ encode_item x) @ items_bytes xs @ R) (i + 1) (length xs) = Some xs"
    by (rule Cons.IH) (use Cons.prems in \<open>simp_all add: item_offset_def\<close>)
  ultimately show ?case using decode_encode_item Cons.prems(2) by simp
qed simp

text \<open>The bytes that the constructor of \<open>MessageBuffer\<close> lays out.\<close>

definition payload_of :: "nat \<Rightarrow> int list \<Rightarrow> (uSize \<times> uSize) list \<Rightarrow> PayloadItem list" where
  "payload_of len fds regions =
     PayloadData (calculate_data_offset (length fds + length regions + 1)) len # fd_items fds @ memory_items regions"

definition sizes_ok :: "u8 list \<Rightarrow> int list \<Rightarrow> (uSize \<times> uSize) list \<Rightarrow> bool" where
  "sizes_ok bytes fds regions \<longleftrightarrow> length bytes \<le> MAX_MEMCOPY \<and> length fds + length regions + 1 < 2 ^ 32 \<and>
     list_all (\<lambda>fd. - (2 ^ 63) \<le> fd \<and> fd < 2 ^ 63) fds \<and> list_all (\<lambda>(p, n). p < 2 ^ 64 \<and> n < 2 ^ 64) regions"

lemma length_payload_of [simp]: "length (payload_of n fds regions) = length fds + length regions + 1"
  by (simp add: payload_of_def fd_items_def memory_items_def)

lemma message_buffer_layout:
  assumes "sizes_ok bytes fds regions"
  shows "message_buffer message_id bytes fds regions = Some (encode_header
     \<lparr>mh_total_size = calculate_size_for_message (length bytes) (length fds) (length regions),
      mh_payload_item_count = length fds + length regions + 1, mh_message_id = message_id\<rparr> @
      items_bytes (payload_of (length bytes) fds regions) @ bytes)"
proof -
  let ?n = "length fds + length regions + 1"
  let ?total = "calculate_size_for_message (length bytes) (length fds) (length regions)"
  let ?h = "encode_header \<lparr>mh_total_size = ?total, mh_payload_item_count = ?n, mh_message_id = message_id\<rparr>"
  let ?items = "payload_of (length bytes) fds regions"
  have n: "?n mod 2 ^ 32 = ?n" using assms by (simp add: sizes_ok_def)
  have total: "?total = HEADER_SIZE + (ITEM_SIZE * length ?items + length bytes)"
    by (simp add: calculate_size_for_message_def)
  have "replicate ?total 0 = replicate HEADER_SIZE (0 :: u8) @ replicate (ITEM_SIZE * length ?items) 0 @ replicate (length bytes) 0"
    unfolding total by (simp add: replicate_add)
  then have hd: "mem_write (message_buffer_of_size ?total) 0 ?h =
      Some (?h @ replicate (ITEM_SIZE * length ?items) 0 @ replicate (length bytes) 0)"
    by (simp add: message_buffer_of_size_def mem_write_def)
  have it: "write_items (?h @ replicate (ITEM_SIZE * length ?items) 0 @ replicate (length bytes) 0) 0 ?items =
      Some (?h @ items_bytes ?items @ replicate (length bytes) 0)"
    by (rule write_items_fill) (simp_all add: item_offset_def)
  have "memcopy (?h @ items_bytes ?items @ replicate (length bytes) 0) (calculate_data_offset ?n) bytes =
      Some (?h @ items_bytes ?items @ bytes)"
    using assms by (subst memcopy_ok) (simp_all add: sizes_ok_def calculate_data_offset_def)
  then show ?thesis
    using hd it unfolding message_buffer_def Let_def n payload_of_def [symmetric]
    by (simp add: message_buffer_of_size_def del: write_items.simps)
qed

lemma collect_fds: "collect_items (fd_items fs @ xs) d fds regions = collect_items xs d (fds @ fs) regions"
  by (induction fs arbitrary: fds) (simp_all add: fd_items_def)

lemma collect_regions: "collect_items (memory_items rs) d fds regions = Value (d, fds, regions @ rs)"
  by (induction rs arbitrary: regions) (auto simp: memory_items_def)

lemma vec_of_bytes_ok:
  assumes "length bs \<le> MAX_MEMCOPY"
  shows "\<exists>v. vec_of_bytes bs = Some v \<and> vec_size v = length bs \<and> vec_list v = bs"
proof -
  have "\<exists>v. ensure_capacity byte_elements (vec_empty :: u8 bek_vector) (length bs) = Some v
      \<and> vec_rep v ([] :: u8 list) \<and> length bs \<le> vec_capacity v"
  proof (cases "bs = []")
    case True
    then show ?thesis
      by (simp add: ensure_capacity_def vec_empty_def vec_capacity_def grow_capacity.simps expand_storage_def vec_rep_def
          byte_elements_def)
  next
    case False
    have "vec_rep (vec_empty :: u8 bek_vector) []" by (simp add: vec_rep_def vec_empty_def vec_capacity_def)
    moreover have "may_grow byte_elements (vec_empty :: u8 bek_vector) (length bs)"
      using assms by (simp add: may_grow_def byte_elements_def vec_empty_def MAX_MEMCOPY_def)
    ultimately show ?thesis
      using ensure_capacity_spec [of "vec_empty :: u8 bek_vector" "[]" "length bs" byte_elements] False assms
      by (auto simp: MAX_MEMCOPY_def)
  qed
  then obtain v where v: "ensure_capacity byte_elements vec_empty (length bs) = Some v" "vec_rep v ([] :: u8 list)"
    "length bs \<le> vec_capacity v" by blast
  then have "vec_size v = 0" by (simp add: vec_rep_def)
  then show ?thesis
    using v assms by (simp add: vec_of_bytes_def vec_expand_def vec_reserve_def uadd_def MAX_MEMCOPY_def
        vec_list_def vec_capacity_def vec_empty_def comp_def)
qed

lemma sizes_total:
  assumes "sizes_ok bytes fds regions"
  shows "calculate_size_for_message (length bytes) (length fds) (length regions) < 2 ^ 64"
proof -
  have "length bytes \<le> 2 ^ 21" "length fds + length regions + 1 \<le> 2 ^ 32"
    using assms by (simp_all add: sizes_ok_def MAX_MEMCOPY_def)
  then show ?thesis by (simp add: calculate_size_for_message_def HEADER_SIZE_def ITEM_SIZE_def)
qed

lemma message_buffer_header:
  assumes "sizes_ok bytes fds regions" and "message_buffer message_id bytes fds regions = Some buffer"
  shows "length buffer = calculate_size_for_message (length bytes) (length fds) (length regions)"
    and "mb_header (buffer @ extra) = Some \<lparr>mh_total_size = length buffer,
      mh_payload_item_count = length fds + length regions + 1, mh_message_id = message_id\<rparr>"
proof -
  let ?total = "calculate_size_for_message (length bytes) (length fds) (length regions)"
  let ?h = "\<lparr>mh_total_size = ?total, mh_payload_item_count = length fds + length regions + 1, mh_message_id = message_id\<rparr>"
  have b: "buffer = encode_header ?h @ items_bytes (payload_of (length bytes) fds regions) @ bytes"
    using message_buffer_layout [OF assms(1), of message_id] assms(2) by simp
  then show len: "length buffer = ?total"
    by (simp add: calculate_size_for_message_def)
  have "decode_header (encode_header ?h) = ?h"
    by (rule decode_encode_header) (use sizes_total [OF assms(1)] assms(1) in \<open>simp_all add: sizes_ok_def\<close>)
  then show "mb_header (buffer @ extra) = Some \<lparr>mh_total_size = length buffer,
      mh_payload_item_count = length fds + length regions + 1, mh_message_id = message_id\<rparr>"
    unfolding len by (simp add: b mb_header_def mem_read_def)
qed

text \<open>
  C32: A message is what it was after it is laid out in a buffer and read back: for every data, list of
  descriptors and list of memory regions, \<open>from_buffer\<close> gives a message with the same identifier, data,
  descriptors and regions, provided that the buffer is longer than the message.
\<close>

theorem ipc_message_roundtrip:
  assumes "sizes_ok bytes fds regions" and "message_buffer message_id bytes fds regions = Some buffer"
    and "extra \<noteq> []"
  shows "\<exists>m. from_buffer (buffer @ extra) = Some (Value m) \<and> im_id m = message_id \<and> vec_list (im_buffer m) = bytes \<and>
    im_fds m = fds \<and> im_regions m = regions"
proof -
  let ?n = "length fds + length regions + 1"
  let ?items = "payload_of (length bytes) fds regions"
  have h: "mb_header (buffer @ extra) = Some \<lparr>mh_total_size = length buffer, mh_payload_item_count = ?n, mh_message_id = message_id\<rparr>"
    and len: "length buffer = calculate_size_for_message (length bytes) (length fds) (length regions)"
    using message_buffer_header [OF assms(1,2)] by simp_all
  have verified: "mb_verify (buffer @ extra) = Some True"
    using h len assms(3) by (simp add: mb_verify_def calculate_size_for_message_def calculate_data_offset_def)
  obtain hd where b: "buffer = hd @ items_bytes ?items @ bytes" "length hd = HEADER_SIZE"
    using message_buffer_layout [OF assms(1), of message_id] assms(2) by (metis length_encode_header option.inject)
  have "list_all item_ok ?items"
    using assms(1) sizes_total [OF assms(1)]
    by (auto simp: sizes_ok_def payload_of_def fd_items_def memory_items_def list_all_iff calculate_data_offset_def
        calculate_size_for_message_def HEADER_SIZE_def ITEM_SIZE_def MAX_MEMCOPY_def)
  then have items: "payload_items (buffer @ extra) = Some ?items"
    using read_items_bytes [of hd 0 ?items "bytes @ extra"] h b by (simp add: payload_items_def item_offset_def)
  have collected: "collect_items ?items None [] [] = Value (Some (calculate_data_offset ?n, length bytes), fds, regions)"
    by (simp add: payload_of_def collect_fds collect_regions)
  have read: "mem_read (buffer @ extra) (calculate_data_offset ?n) (length bytes) = Some bytes"
    using b by (simp add: mem_read_def calculate_data_offset_def)
  obtain v where "vec_of_bytes bytes = Some v" "vec_list v = bytes"
    using vec_of_bytes_ok [of bytes] assms(1) by (auto simp: sizes_ok_def)
  then show ?thesis using read by (simp add: from_buffer_def verified h items collected)
qed

theorem ipc_message_roundtrip_witness:
  "\<exists>buffer m. message_buffer 5 [1, 2, 3] [7, -1] [(4096, 16)] = Some buffer \<and> from_buffer (buffer @ [0]) = Some (Value m) \<and>
     vec_list (im_buffer m) = [1, 2, 3] \<and> im_fds m = [7, -1] \<and> im_regions m = [(4096, 16)]"
proof -
  have ok: "sizes_ok [1, 2, 3] [7, -1] [(4096, 16)]" by (simp add: sizes_ok_def MAX_MEMCOPY_def)
  obtain buffer where b: "message_buffer 5 [1, 2, 3] [7, -1] [(4096, 16)] = Some buffer"
    using message_buffer_layout [OF ok] by blast
  from ipc_message_roundtrip [OF ok b, of "[0]"] b show ?thesis by blast
qed

text \<open>
The check of a buffer refuses a message that fills it: a buffer that \<open>to_buffer\<close> made, which is
  exactly as long as its message, is never accepted by \<open>from_buffer\<close>.
\<close>

theorem own_buffer_refused:
  assumes "sizes_ok bytes fds regions" and "message_buffer message_id bytes fds regions = Some buffer"
  shows "from_buffer buffer = Some (Err EINVAL)"
  using message_buffer_header(2) [OF assms, of "[]"] message_buffer_header(1) [OF assms]
  by (simp add: from_buffer_def mb_verify_def calculate_size_for_message_def)

theorem own_buffer_refused_witness:
  "Option.bind (message_buffer 5 [1, 2, 3] [] []) from_buffer = Some (Err EINVAL)"
proof -
  have ok: "sizes_ok [1, 2, 3] [] []" by (simp add: sizes_ok_def MAX_MEMCOPY_def)
  obtain buffer where b: "message_buffer 5 [1, 2, 3] [] [] = Some buffer"
    using message_buffer_layout [OF ok] by blast
  from own_buffer_refused [OF ok b] b show ?thesis by simp
qed



text \<open>What is left of the data cannot be decoded: \<open>decode_bytes\<close> never reaches the last byte.\<close>

lemma decode_bytes_last:
  assumes "vec_size (im_buffer m) < 2 ^ 64" and "im_cur_position m + len = vec_size (im_buffer m)"
  shows "decode_bytes m len = (Err EOVERFLOW, m)"
  using assms by (simp add: decode_bytes_def uadd_def add.commute)

lemma decode_fd_all:
  "im_cur_fd m < length (im_fds m) \<Longrightarrow> fst (decode_fd m) = Value (im_fds m ! im_cur_fd m)"
  "length (im_fds m) \<le> im_cur_fd m \<Longrightarrow> decode_fd m = (Err EOVERFLOW, m)"
  by (simp_all add: decode_fd_def)

end
