(* ===== verification/User_File.thy ===== *)
theory User_File
  imports Filesystem
begin

text \<open>
  Buffered files of user programs (\<open>userspace/libcore/src/file.cpp\<close>, \<open>file.h\<close>, \<open>io.cpp\<close>).

  One buffer holds what was read ahead, between \<open>bf_read_pos\<close> and \<open>bf_read_end\<close>, and what is still to
  be written, between \<open>bf_write_base\<close> and \<open>bf_write_pos\<close>.  The system calls on the file are a
  parameter: \<open>file_calls\<close> acts on a state \<open>'d\<close> of whatever is open under the descriptor.  A loop that
  calls the kernel until it is done is a partial function, so that a kernel that never makes progress gives
  \<open>None\<close>, as an access out of bounds does.
\<close>

subsection \<open>Files\<close>

datatype BufferingMode = NO_BUFFERING | LINE_BUFFERED | BLOCK_BUFFERED

record BufferedFile =
  bf_buffer :: "u8 list"
  bf_write_base :: uSize
  bf_write_pos :: uSize
  bf_write_end :: uSize
  bf_read_pos :: uSize
  bf_read_end :: uSize
  bf_open_flags :: u32
  bf_mode :: BufferingMode

definition OPEN_READ :: u32 where "OPEN_READ = 1"
definition OPEN_WRITE :: u32 where "OPEN_WRITE = 2"

definition FILE_BUFFER_SIZE :: uSize where "FILE_BUFFER_SIZE = 1024"

definition bf_new :: "u32 \<Rightarrow> BufferingMode \<Rightarrow> BufferedFile" where
  "bf_new flags mode =
     (let size = (if mode = NO_BUFFERING then 0 else FILE_BUFFER_SIZE)
      in \<lparr>bf_buffer = replicate size 0, bf_write_base = 0, bf_write_pos = 0, bf_write_end = size,
          bf_read_pos = 0, bf_read_end = 0, bf_open_flags = flags, bf_mode = mode\<rparr>)"

definition core_stdout :: BufferedFile where "core_stdout = bf_new OPEN_WRITE LINE_BUFFERED"
definition core_stdin :: BufferedFile where "core_stdin = bf_new OPEN_READ BLOCK_BUFFERED"
definition core_stderr :: BufferedFile where "core_stderr = bf_new OPEN_WRITE LINE_BUFFERED"

text \<open>
  The system calls: \<open>fc_read\<close> is given how many bytes are asked for and gives those it stored, which are
  as many as it returns; \<open>fc_write\<close> is given the bytes and returns how many were taken.
\<close>

record 'd file_calls =
  fc_read :: "'d \<Rightarrow> uSize \<Rightarrow> u8 list expected \<times> 'd"
  fc_write :: "'d \<Rightarrow> u8 list \<Rightarrow> uSize expected \<times> 'd"
  fc_seek :: "'d \<Rightarrow> SeekLocation \<Rightarrow> int \<Rightarrow> int expected \<times> 'd"

subsection \<open>Writing\<close>

partial_function (option) flush_loop ::
    "'d file_calls \<Rightarrow> BufferedFile \<Rightarrow> 'd \<Rightarrow> (uSize expected \<times> BufferedFile \<times> 'd) option" where
  "flush_loop c f d =
     (if usub (bf_write_pos f) (bf_write_base f) = 0 then Some (Value 0, f, d)
      else do {
        bs \<leftarrow> mem_read (bf_buffer f) (bf_write_base f) (usub (bf_write_pos f) (bf_write_base f));
        (case fc_write c d bs of
           (Err e, d1) \<Rightarrow> Some (Err e, f, d1)
         | (Value written, d1) \<Rightarrow>
             let f1 = f\<lparr>bf_write_base := uadd (bf_write_base f) written\<rparr>
             in if written = 0 then Some (Err EIO, f1, d1) else flush_loop c f1 d1) })"

definition reset_writes :: "BufferedFile \<Rightarrow> bool \<Rightarrow> BufferedFile" where
  "reset_writes f preparing_for_read =
     (if preparing_for_read then f\<lparr>bf_write_base := 0, bf_write_pos := 0, bf_write_end := 0\<rparr>
      else if bf_read_pos f > 0
      then f\<lparr>bf_write_base := 0, bf_write_pos := 0, bf_write_end := bf_read_pos f\<rparr>
      else f\<lparr>bf_write_base := bf_read_end f, bf_write_pos := bf_read_end f, bf_write_end := length (bf_buffer f)\<rparr>)"

definition flush_writes ::
    "'d file_calls \<Rightarrow> BufferedFile \<Rightarrow> 'd \<Rightarrow> bool \<Rightarrow> (uSize expected \<times> BufferedFile \<times> 'd) option" where
  "flush_writes c f d preparing_for_read = do {
     (r, f1, d1) \<leftarrow> flush_loop c f d;
     (case r of Err e \<Rightarrow> Some (Err e, f1, d1)
      | Value _ \<Rightarrow> Some (Value 0, reset_writes f1 preparing_for_read, d1)) }"

text \<open>How many bytes from the front end with the first end of a line, if there is one.\<close>

fun find_next_line_end :: "u8 list \<Rightarrow> uSize option" where
  "find_next_line_end [] = None"
| "find_next_line_end (b # bs) = (if b = 10 then Some 1 else map_option Suc (find_next_line_end bs))"

text \<open>The loop that writes past the buffer: how much was taken, before an error or the end.\<close>

partial_function (option) write_direct ::
    "'d file_calls \<Rightarrow> 'd \<Rightarrow> u8 list \<Rightarrow> uSize \<Rightarrow> (uSize expected \<times> 'd) option" where
  "write_direct c d bs written =
     (if bs = [] then Some (Value written, d)
      else (case fc_write c d bs of
         (Err e, d1) \<Rightarrow> Some (Err e, d1)
       | (Value did_write, d1) \<Rightarrow>
           if did_write = 0 then Some (Value written, d1)
           else write_direct c d1 (drop did_write bs) (uadd written did_write)))"

text \<open>The bytes that still fit are copied behind those that wait.\<close>

definition write_to_buffer :: "BufferedFile \<Rightarrow> u8 list \<Rightarrow> BufferedFile option" where
  "write_to_buffer f bs = do {
     m \<leftarrow> memcopy (bf_buffer f) (bf_write_pos f) bs;
     Some (f\<lparr>bf_buffer := m, bf_write_pos := uadd (bf_write_pos f) (length bs)\<rparr>) }"

definition past_flush_point :: "uSize option \<Rightarrow> uSize \<Rightarrow> bool" where
  "past_flush_point next_flush_point copied = (case next_flush_point of None \<Rightarrow> False | Some p \<Rightarrow> p \<le> copied)"

text \<open>The part of \<open>write\<close> after the buffer was flushed, when \<open>bs\<close> is left and \<open>written\<close> is done.\<close>

definition write_rest ::
    "'d file_calls \<Rightarrow> BufferedFile \<Rightarrow> 'd \<Rightarrow> u8 list \<Rightarrow> uSize \<Rightarrow> uSize option
     \<Rightarrow> (uSize expected \<times> BufferedFile \<times> 'd) option" where
  "write_rest c f d bs written next_flush_point =
     (if bs = [] then Some (Value written, f, d)
      else if length bs < usub (bf_write_end f) (bf_write_pos f) \<and> next_flush_point = None
      then do { f1 \<leftarrow> write_to_buffer f bs; Some (Value (uadd written (length bs)), f1, d) }
      else do { (r, d1) \<leftarrow> write_direct c d bs written; Some (r, f, d1) })"

definition bf_write ::
    "'d file_calls \<Rightarrow> BufferedFile \<Rightarrow> 'd \<Rightarrow> u8 list \<Rightarrow> (uSize expected \<times> BufferedFile \<times> 'd) option" where
  "bf_write c f d bs =
     (if bf_open_flags f AND OPEN_WRITE = 0 then Some (Err EBADF, f, d)
      else do {
        let next_flush_point = (if bf_mode f = LINE_BUFFERED then find_next_line_end bs else None);
        let to_copy = min (length bs) (usub (bf_write_end f) (bf_write_pos f));
        f1 \<leftarrow> write_to_buffer f (take to_copy bs);
        let past = past_flush_point next_flush_point to_copy;
        let rest = drop to_copy bs;
        if bf_write_end f1 = bf_write_pos f1 \<or> past
        then do {
          (r, f2, d2) \<leftarrow> flush_writes c f1 d False;
          (case r of Err e \<Rightarrow> Some (Err e, f2, d2)
           | Value _ \<Rightarrow>
               write_rest c f2 d2 rest to_copy (if past then find_next_line_end rest else next_flush_point)) }
        else write_rest c f1 d rest to_copy next_flush_point })"

definition bf_flush :: "'d file_calls \<Rightarrow> BufferedFile \<Rightarrow> 'd \<Rightarrow> (uSize expected \<times> BufferedFile \<times> 'd) option" where
  "bf_flush c f d = flush_writes c f d False"

definition bf_seek ::
    "'d file_calls \<Rightarrow> BufferedFile \<Rightarrow> 'd \<Rightarrow> SeekLocation \<Rightarrow> int \<Rightarrow> (int expected \<times> BufferedFile \<times> 'd) option" where
  "bf_seek c f d mode offset = do {
     (r, f1, d1) \<leftarrow> flush_writes c (f\<lparr>bf_read_pos := 0, bf_read_end := 0\<rparr>) d False;
     (case r of Err e \<Rightarrow> Some (Err e, f1, d1)
      | Value _ \<Rightarrow> (case fc_seek c d1 mode offset of (s, d2) \<Rightarrow> Some (s, f1, d2))) }"

subsection \<open>Reading\<close>

text \<open>The lambda \<open>read_from_buffer\<close>: the bytes for the caller.\<close>

definition bf_read_from_buffer :: "BufferedFile \<Rightarrow> uSize \<Rightarrow> (u8 list \<times> BufferedFile) option" where
  "bf_read_from_buffer f length_left = do {
     let to_read = min length_left (usub (bf_read_end f) (bf_read_pos f));
     bs \<leftarrow> mem_read (bf_buffer f) (bf_read_pos f) to_read;
     verify (to_read \<le> MAX_MEMCOPY);
     Some (bs, f\<lparr>bf_read_pos := uadd (bf_read_pos f) to_read\<rparr>) }"

text \<open>
  The loops of \<open>read\<close>; \<open>got\<close> is what was stored for the caller already.  The result is what is returned,
  the bytes stored, and the state.
\<close>

type_synonym 'd read_result = "(uSize expected \<times> u8 list \<times> BufferedFile \<times> 'd) option"

partial_function (option) read_filling ::
    "'d file_calls \<Rightarrow> BufferedFile \<Rightarrow> 'd \<Rightarrow> uSize \<Rightarrow> u8 list \<Rightarrow> 'd read_result" where
  "read_filling c f d len got =
     (if usub len (length got) = 0 then Some (Value len, got, f, d)
      else (case fc_read c d (length (bf_buffer f)) of
         (Err e, d1) \<Rightarrow> Some (Err e, got, f, d1)
       | (Value bs, d1) \<Rightarrow>
           if bs = [] then Some (Value (length got), got, f, d1)
           else do {
             m \<leftarrow> mem_write (bf_buffer f) 0 bs;
             (new, f1) \<leftarrow> bf_read_from_buffer
                (f\<lparr>bf_buffer := m, bf_read_pos := 0, bf_read_end := length bs\<rparr>) (usub len (length got));
             read_filling c f1 d1 len (got @ new) }))"

partial_function (option) read_direct ::
    "'d file_calls \<Rightarrow> BufferedFile \<Rightarrow> 'd \<Rightarrow> uSize \<Rightarrow> u8 list \<Rightarrow> 'd read_result" where
  "read_direct c f d len got =
     (if usub len (length got) = 0 then Some (Value len, got, f, d)
      else (case fc_read c d (usub len (length got)) of
         (Err e, d1) \<Rightarrow> Some (Err e, got, f, d1)
       | (Value bs, d1) \<Rightarrow>
           if bs = [] then Some (Value (length got), got, f, d1)
           else read_direct c f d1 len (got @ bs)))"

definition bf_read :: "'d file_calls \<Rightarrow> BufferedFile \<Rightarrow> 'd \<Rightarrow> uSize \<Rightarrow> 'd read_result" where
  "bf_read c f d len =
     (if bf_open_flags f AND OPEN_READ = 0 then Some (Err EBADF, [], f, d)
      else do {
        (got, f1) \<leftarrow> (if usub (bf_read_end f) (bf_read_pos f) \<noteq> 0 then bf_read_from_buffer f len else Some ([], f));
        if usub len (length got) = 0 then Some (Value len, got, f1, d)
        else if usub len (length got) < length (bf_buffer f1)
        then do {
          (r, f2, d2) \<leftarrow> flush_writes c f1 d True;
          (case r of Err e \<Rightarrow> Some (Err e, got, f2, d2) | Value _ \<Rightarrow> read_filling c f2 d2 len got) }
        else read_direct c f1 d len got })"

subsection \<open>The invariant of a file\<close>

text \<open>What waits to be written, and what was read ahead.\<close>

definition bf_pending :: "BufferedFile \<Rightarrow> u8 list" where
  "bf_pending f = take (bf_write_pos f - bf_write_base f) (drop (bf_write_base f) (bf_buffer f))"

definition bf_unread :: "BufferedFile \<Rightarrow> u8 list" where
  "bf_unread f = take (bf_read_end f - bf_read_pos f) (drop (bf_read_pos f) (bf_buffer f))"

definition bf_ok :: "BufferedFile \<Rightarrow> bool" where
  "bf_ok f \<longleftrightarrow> bf_write_base f \<le> bf_write_pos f \<and> bf_write_pos f \<le> bf_write_end f
     \<and> bf_write_end f \<le> length (bf_buffer f) \<and> bf_read_pos f \<le> bf_read_end f
     \<and> bf_read_end f \<le> length (bf_buffer f) \<and> length (bf_buffer f) \<le> MAX_MEMCOPY
     \<and> (bf_write_end f \<le> bf_read_pos f \<or> bf_read_end f \<le> bf_write_base f)"

text \<open>
  The calls on a stream, as the kernel documents them: a read takes bytes from the front of the input, at
  most as many as asked for and at least one unless there are none; a write appends a front part of the
  bytes to the output; a call that fails changes neither.
\<close>

definition stream_read_ok :: "'d file_calls \<Rightarrow> ('d \<Rightarrow> u8 list) \<Rightarrow> ('d \<Rightarrow> u8 list) \<Rightarrow> bool" where
  "stream_read_ok c inp out \<longleftrightarrow>
     (\<forall>d n bs d'. fc_read c d n = (Value bs, d') \<longrightarrow>
        length bs \<le> n \<and> inp d = bs @ inp d' \<and> out d' = out d \<and> (n > 0 \<and> inp d \<noteq> [] \<longrightarrow> bs \<noteq> [])) \<and>
     (\<forall>d n e d'. fc_read c d n = (Err e, d') \<longrightarrow> inp d' = inp d \<and> out d' = out d)"

definition stream_write_ok :: "'d file_calls \<Rightarrow> ('d \<Rightarrow> u8 list) \<Rightarrow> ('d \<Rightarrow> u8 list) \<Rightarrow> bool" where
  "stream_write_ok c inp out \<longleftrightarrow>
     (\<forall>d bs n d'. fc_write c d bs = (Value n, d') \<longrightarrow>
        n \<le> length bs \<and> out d' = out d @ take n bs \<and> inp d' = inp d) \<and>
     (\<forall>d bs e d'. fc_write c d bs = (Err e, d') \<longrightarrow> out d' = out d \<and> inp d' = inp d)"

lemma read_call:
  assumes "stream_read_ok c inp out"
  shows "fc_read c d n = (Value bs, d') \<Longrightarrow> length bs \<le> n \<and> inp d = bs @ inp d' \<and> out d' = out d
           \<and> (n > 0 \<and> inp d \<noteq> [] \<longrightarrow> bs \<noteq> [])"
    and "fc_read c d n = (Err e, d') \<Longrightarrow> inp d' = inp d \<and> out d' = out d"
  using assms unfolding stream_read_ok_def by blast+

lemma write_call:
  assumes "stream_write_ok c inp out"
  shows "fc_write c d bs = (Value n, d') \<Longrightarrow> n \<le> length bs \<and> out d' = out d @ take n bs \<and> inp d' = inp d"
    and "fc_write c d bs = (Err e, d') \<Longrightarrow> out d' = out d \<and> inp d' = inp d"
  using assms unfolding stream_write_ok_def by blast+

lemma bf_new_ok: "bf_ok (bf_new flags mode)"
  by (simp add: bf_ok_def bf_new_def Let_def FILE_BUFFER_SIZE_def MAX_MEMCOPY_def)

lemma take_drop_step:
  assumes "n \<le> k"
  shows "take n (drop b xs) @ take (k - n) (drop (b + n) xs) = take k (drop b xs)"
  by (metis assms drop_drop add.commute le_add_diff_inverse take_add)

subsection \<open>Writes arrive in order\<close>

lemma flush_loop_ok:
  assumes "stream_write_ok c inp out" and "bf_ok f"
  shows "\<exists>r base d'. flush_loop c f d = Some (r, f\<lparr>bf_write_base := base\<rparr>, d')
     \<and> bf_write_base f \<le> base \<and> base \<le> bf_write_pos f \<and> inp d' = inp d
     \<and> out d' @ bf_pending (f\<lparr>bf_write_base := base\<rparr>) = out d @ bf_pending f
     \<and> (has_value r \<longrightarrow> base = bf_write_pos f)"
  using assms(2)
proof (induction "bf_write_pos f - bf_write_base f" arbitrary: f d rule: less_induct)
  case less
  let ?n = "bf_write_pos f - bf_write_base f"
  have n: "usub (bf_write_pos f) (bf_write_base f) = ?n"
    using less.prems by (simp add: bf_ok_def u64_simps)
  have bytes: "mem_read (bf_buffer f) (bf_write_base f) ?n = Some (bf_pending f)"
    using less.prems by (simp add: bf_ok_def mem_read_def bf_pending_def)
  have same: "f\<lparr>bf_write_base := bf_write_base f\<rparr> = f" by simp
  show ?case
  proof (cases "?n = 0")
    case True
    then have "bf_write_base f = bf_write_pos f" using less.prems by (simp add: bf_ok_def)
    then have "flush_loop c f d = Some (Value 0, f\<lparr>bf_write_base := bf_write_base f\<rparr>, d)"
      by (subst flush_loop.simps) (simp add: usub_def)
    then show ?thesis
      using same \<open>bf_write_base f = bf_write_pos f\<close>
      by (intro exI[of _ "Value 0"] exI[of _ "bf_write_base f"] exI[of _ d]) (simp add: bf_pending_def)
  next
    case False
    obtain r d1 where call: "fc_write c d (bf_pending f) = (r, d1)" by fastforce
    show ?thesis
    proof (cases r)
      case (Err e)
      then show ?thesis
        using False call same write_call(2)[OF assms(1), of d "bf_pending f" e d1] less.prems
        by (subst flush_loop.simps) (auto simp: n bytes bf_ok_def intro!: exI[of _ "bf_write_base f"])
    next
      case (Value w)
      let ?f = "f\<lparr>bf_write_base := bf_write_base f + w\<rparr>"
      have w: "w \<le> length (bf_pending f)" "out d1 = out d @ take w (bf_pending f)" "inp d1 = inp d"
        using write_call(1)[OF assms(1), of d "bf_pending f" w d1] call Value by auto
      have len: "length (bf_pending f) = ?n"
        using less.prems by (auto simp: bf_ok_def bf_pending_def)
      have up: "uadd (bf_write_base f) w = bf_write_base f + w"
        using less.prems w(1) len by (intro uadd_small) (auto simp: bf_ok_def MAX_MEMCOPY_def)
      have ok: "bf_ok ?f" using less.prems w(1) len False by (auto simp: bf_ok_def)
      have rest: "out d1 @ bf_pending ?f = out d @ bf_pending f"
        using w len take_drop_step[of w ?n "bf_write_base f" "bf_buffer f"]
        by (simp add: bf_pending_def)
      show ?thesis
      proof (cases "w = 0")
        case True
        then show ?thesis
          using False call Value w same less.prems up
          by (subst flush_loop.simps)
             (auto simp: n bytes Let_def bf_ok_def intro!: exI[of _ "bf_write_base f"])
      next
        case w0: False
        have smaller: "bf_write_pos ?f - bf_write_base ?f < ?n" using w0 False by simp
        from less.hyps[OF this ok, of d1] obtain r' base d' where
          "flush_loop c ?f d1 = Some (r', ?f\<lparr>bf_write_base := base\<rparr>, d')"
          "bf_write_base ?f \<le> base" "base \<le> bf_write_pos ?f" "inp d' = inp d1"
          "out d' @ bf_pending (?f\<lparr>bf_write_base := base\<rparr>) = out d1 @ bf_pending ?f"
          "has_value r' \<longrightarrow> base = bf_write_pos ?f"
          by blast
        then show ?thesis
          using False call Value w0 w(3) rest
          by (subst flush_loop.simps)
             (auto simp: n bytes up intro!: exI[of _ r'] exI[of _ base] exI[of _ d'])
      qed
    qed
  qed
qed

lemma reset_writes_ok:
  assumes "bf_ok f" and "bf_write_base f = bf_write_pos f" and "prep \<Longrightarrow> bf_unread f = []"
  shows "bf_ok (reset_writes f prep)" and "bf_pending (reset_writes f prep) = []"
    and "bf_unread (reset_writes f prep) = bf_unread f"
  using assms by (auto simp: bf_ok_def reset_writes_def bf_pending_def bf_unread_def)

lemma flush_writes_ok:
  assumes "stream_write_ok c inp out" and "bf_ok f" and "prep \<Longrightarrow> bf_unread f = []"
  shows "\<exists>r f' d'. flush_writes c f d prep = Some (r, f', d') \<and> bf_ok f' \<and> inp d' = inp d
     \<and> out d' @ bf_pending f' = out d @ bf_pending f \<and> bf_unread f' = bf_unread f
     \<and> (has_value r \<longrightarrow> bf_pending f' = []) \<and> bf_mode f' = bf_mode f \<and> bf_buffer f' = bf_buffer f
     \<and> bf_open_flags f' = bf_open_flags f"
proof -
  obtain r base d' where loop: "flush_loop c f d = Some (r, f\<lparr>bf_write_base := base\<rparr>, d')"
    and base: "bf_write_base f \<le> base" "base \<le> bf_write_pos f" and same: "inp d' = inp d"
      "out d' @ bf_pending (f\<lparr>bf_write_base := base\<rparr>) = out d @ bf_pending f"
    and finished: "has_value r \<longrightarrow> base = bf_write_pos f"
    using flush_loop_ok[OF assms(1,2), of d] by blast
  let ?f = "f\<lparr>bf_write_base := base\<rparr>"
  have ok: "bf_ok ?f" using assms(2) base by (auto simp: bf_ok_def)
  have unread: "bf_unread ?f = bf_unread f" by (simp add: bf_unread_def)
  show ?thesis
  proof (cases r)
    case (Err e)
    then show ?thesis using loop ok same unread by (simp add: flush_writes_def)
  next
    case (Value v)
    then have at_end: "bf_write_base ?f = bf_write_pos ?f" using finished by simp
    have none_left: "bf_pending ?f = []" using at_end by (simp add: bf_pending_def)
    note reset = reset_writes_ok[OF ok at_end, of prep]
    have out: "out d' = out d @ bf_pending f" using same(2) none_left by simp
    have "bf_mode (reset_writes ?f prep) = bf_mode f" "bf_buffer (reset_writes ?f prep) = bf_buffer f"
      "bf_open_flags (reset_writes ?f prep) = bf_open_flags f"
      by (simp_all add: reset_writes_def)
    then show ?thesis
      using Value loop same(1) out reset assms(3) unread by (simp add: flush_writes_def)
  qed
qed

lemma write_to_buffer_ok:
  assumes "bf_ok f" and "length bs \<le> bf_write_end f - bf_write_pos f"
  shows "\<exists>f'. write_to_buffer f bs = Some f' \<and> bf_ok f' \<and> bf_pending f' = bf_pending f @ bs
     \<and> bf_unread f' = bf_unread f \<and> bf_write_pos f' = bf_write_pos f + length bs
     \<and> bf_write_end f' = bf_write_end f \<and> bf_mode f' = bf_mode f"
proof -
  let ?w = "bf_write_pos f" and ?m = "bf_buffer f"
  let ?m' = "take ?w ?m @ bs @ drop (?w + length bs) ?m"
  let ?f = "f\<lparr>bf_buffer := ?m', bf_write_pos := ?w + length bs\<rparr>"
  have fits: "?w + length bs \<le> length ?m" "length bs \<le> MAX_MEMCOPY"
    using assms by (auto simp: bf_ok_def)
  have eq: "write_to_buffer f bs = Some ?f"
    using assms(1) fits by (simp add: write_to_buffer_def memcopy_ok u64_simps bf_ok_def MAX_MEMCOPY_def)
  have len: "length ?m' = length ?m" using fits by simp
  have ok: "bf_ok ?f" using assms len by (auto simp: bf_ok_def)
  have base: "bf_write_base f \<le> ?w" "?w \<le> length ?m" using assms(1) by (auto simp: bf_ok_def)
  have pending: "bf_pending ?f = bf_pending f @ bs"
    using base by (simp add: bf_pending_def drop_take)
  have unread: "bf_unread ?f = bf_unread f"
  proof (cases "bf_write_end f \<le> bf_read_pos f")
    case True
    then have "drop (bf_read_pos f) ?m' = drop (bf_read_pos f) ?m"
      using assms fits by (auto simp: bf_ok_def)
    then show ?thesis by (simp add: bf_unread_def)
  next
    case False
    then have "bf_read_end f \<le> ?w" using assms(1) by (auto simp: bf_ok_def)
    then have "take (bf_read_end f) ?m' = take (bf_read_end f) ?m"
      using base by (simp add: min_absorb1)
    moreover have "bf_buffer ?f = ?m'" "bf_read_pos ?f = bf_read_pos f" "bf_read_end ?f = bf_read_end f"
      by simp_all
    ultimately show ?thesis by (simp only: bf_unread_def drop_take [symmetric])
  qed
  show ?thesis using eq ok pending unread by (auto intro!: exI[of _ ?f])
qed

text \<open>A kernel that takes none of the bytes of a write.\<close>

definition write_stuck :: "'d file_calls \<Rightarrow> bool" where
  "write_stuck c \<longleftrightarrow> (\<exists>d bs d'. bs \<noteq> [] \<and> fc_write c d bs = (Value 0, d'))"

lemma write_direct_ok:
  assumes "stream_write_ok c inp out" and "w + length bs < 2 ^ 64"
  shows "\<exists>r k d'. write_direct c d bs w = Some (r, d') \<and> k \<le> length bs \<and> out d' = out d @ take k bs
     \<and> inp d' = inp d \<and> (\<forall>n. r = Value n \<longrightarrow> n = w + k \<and> (k < length bs \<longrightarrow> write_stuck c))"
  using assms(2)
proof (induction "length bs" arbitrary: bs w d rule: less_induct)
  case less
  show ?case
  proof (cases "bs = []")
    case True
    then show ?thesis by (subst write_direct.simps) simp
  next
    case False
    obtain r d1 where call: "fc_write c d bs = (r, d1)" by fastforce
    show ?thesis
    proof (cases r)
      case (Err e)
      then have "out d1 = out d" "inp d1 = inp d"
        using write_call(2)[OF assms(1), of d bs e d1] call by simp_all
      moreover have "write_direct c d bs w = Some (Err e, d1)"
        using False call Err by (subst write_direct.simps) simp
      ultimately show ?thesis by (intro exI[of _ "Err e"] exI[of _ "0::nat"] exI[of _ d1]) simp
    next
      case (Value x)
      have x: "x \<le> length bs" "out d1 = out d @ take x bs" "inp d1 = inp d"
        using write_call(1)[OF assms(1), of d bs x d1] call Value by simp_all
      show ?thesis
      proof (cases "x = 0")
        case True
        then have "write_stuck c" using False call Value unfolding write_stuck_def by blast
        moreover have "write_direct c d bs w = Some (Value w, d1)"
          using False call Value True by (subst write_direct.simps) simp
        ultimately show ?thesis
          using x True by (intro exI[of _ "Value w"] exI[of _ "0::nat"] exI[of _ d1]) simp
      next
        case more: False
        have up: "uadd w x = w + x" using x less.prems by (simp add: u64_simps)
        have smaller: "length (drop x bs) < length bs" "w + x + length (drop x bs) < 2 ^ 64"
          using more False x less.prems by simp_all
        have step: "write_direct c d bs w = write_direct c d1 (drop x bs) (w + x)"
          using False call Value more up by (subst write_direct.simps) simp
        obtain r' k d' where rest: "write_direct c d1 (drop x bs) (w + x) = Some (r', d')"
          "k \<le> length (drop x bs)" "out d' = out d1 @ take k (drop x bs)" "inp d' = inp d1"
          "\<forall>n. r' = Value n \<longrightarrow> n = w + x + k \<and> (k < length (drop x bs) \<longrightarrow> write_stuck c)"
          using less.hyps[OF smaller, of d1] by blast
        have same: "out d' = out d @ take (x + k) bs" "inp d' = inp d"
          using rest(3,4) x(2,3) by (simp_all add: take_add)
        have bound: "x + k \<le> length bs" using rest(2) x(1) by simp
        have count: "n = w + (x + k) \<and> (x + k < length bs \<longrightarrow> write_stuck c)" if "r' = Value n" for n
          using rest(2,5) that by auto
        show ?thesis
          using step rest(1) same bound count
          by (intro exI[of _ r'] exI[of _ "x + k"] exI[of _ d']) simp
      qed
    qed
  qed
qed

lemma find_next_line_end_None: "find_next_line_end bs = None \<longleftrightarrow> 10 \<notin> set bs"
  by (induction bs) auto

lemma find_next_line_end_Some:
  "find_next_line_end bs = Some p \<Longrightarrow> k < p \<Longrightarrow> 10 \<notin> set (take k bs)"
  by (induction bs arbitrary: p k) (auto simp: take_Cons split: if_splits nat.splits)

text \<open>What is shown of a write that has dealt with \<open>w\<close> bytes and has \<open>bs\<close> left.\<close>

definition writes_on ::
    "'d file_calls \<Rightarrow> ('d \<Rightarrow> u8 list) \<Rightarrow> ('d \<Rightarrow> u8 list) \<Rightarrow> BufferedFile \<Rightarrow> 'd \<Rightarrow> u8 list \<Rightarrow> uSize \<Rightarrow> bool
     \<Rightarrow> (uSize expected \<times> BufferedFile \<times> 'd) option \<Rightarrow> bool" where
  "writes_on c inp out f d bs w whole_lines result \<longleftrightarrow>
     (\<exists>r f' d' k. result = Some (r, f', d') \<and> bf_ok f' \<and> k \<le> length bs
        \<and> out d' @ bf_pending f' = out d @ bf_pending f @ take k bs
        \<and> inp d' = inp d \<and> bf_unread f' = bf_unread f \<and> bf_mode f' = bf_mode f
        \<and> (\<forall>n. r = Value n \<longrightarrow> n = w + k \<and> (k < length bs \<longrightarrow> write_stuck c)
             \<and> (whole_lines \<longrightarrow> 10 \<notin> set (bf_pending f'))))"

lemma write_rest_ok:
  assumes "stream_write_ok c inp out" and "bf_ok f" and "w + length bs < 2 ^ 64"
    and "bs \<noteq> [] \<Longrightarrow> bf_pending f = []"
    and "whole_lines \<Longrightarrow> 10 \<notin> set (bf_pending f) \<and> (nf = None \<longrightarrow> 10 \<notin> set bs)"
  shows "writes_on c inp out f d bs w whole_lines (write_rest c f d bs w nf)"
proof (cases "bs = []")
  case True
  then show ?thesis using assms(2,5) by (simp add: writes_on_def write_rest_def)
next
  case False
  have n: "usub (bf_write_end f) (bf_write_pos f) = bf_write_end f - bf_write_pos f"
    using assms(2) by (simp add: bf_ok_def u64_simps)
  show ?thesis
  proof (cases "length bs < bf_write_end f - bf_write_pos f \<and> nf = None")
    case True
    then obtain f' where "write_to_buffer f bs = Some f'" "bf_ok f'" "bf_pending f' = bf_pending f @ bs"
      "bf_unread f' = bf_unread f" "bf_mode f' = bf_mode f"
      using write_to_buffer_ok[OF assms(2), of bs] by auto
    then show ?thesis
      using True False n assms(3-5)
      by (auto simp add: writes_on_def write_rest_def u64_simps)
  next
    case direct: False
    obtain r k d' where loop: "write_direct c d bs w = Some (r, d')" "k \<le> length bs"
      "out d' = out d @ take k bs" "inp d' = inp d"
      "\<forall>n. r = Value n \<longrightarrow> n = w + k \<and> (k < length bs \<longrightarrow> write_stuck c)"
      using write_direct_ok[OF assms(1,3), of d] by blast
    have "write_rest c f d bs w nf = Some (r, f, d')"
      using direct False n loop(1) by (auto simp: write_rest_def)
    then show ?thesis
      using loop assms(2,5) assms(4)[OF False] unfolding writes_on_def
      by (intro exI[of _ r] exI[of _ f] exI[of _ d'] exI[of _ k]) simp
  qed
qed

lemma bf_write_writes_on:
  assumes "stream_write_ok c inp out" and "bf_ok f" and "length bs < 2 ^ 64"
    and "bf_open_flags f AND OPEN_WRITE \<noteq> 0"
  shows "writes_on c inp out f d bs 0 (bf_mode f = LINE_BUFFERED \<and> 10 \<notin> set (bf_pending f)) (bf_write c f d bs)"
proof -
  define nf where "nf = (if bf_mode f = LINE_BUFFERED then find_next_line_end bs else None)"
  define t where "t = min (length bs) (bf_write_end f - bf_write_pos f)"
  define past where "past = past_flush_point nf t"
  define lined where "lined \<longleftrightarrow> bf_mode f = LINE_BUFFERED \<and> 10 \<notin> set (bf_pending f)"
  let ?head = "take t bs" and ?rest = "drop t bs"
  have room: "usub (bf_write_end f) (bf_write_pos f) = bf_write_end f - bf_write_pos f"
    using assms(2) by (simp add: bf_ok_def u64_simps)
  have len: "length ?head = t" by (simp add: t_def)
  obtain f1 where f1: "write_to_buffer f ?head = Some f1" "bf_ok f1" "bf_pending f1 = bf_pending f @ ?head"
    "bf_unread f1 = bf_unread f" "bf_write_pos f1 = bf_write_pos f + t" "bf_write_end f1 = bf_write_end f"
    "bf_mode f1 = bf_mode f"
    using write_to_buffer_ok[OF assms(2), of ?head] len by (auto simp: t_def)
  have code: "bf_write c f d bs =
     (if bf_write_end f1 = bf_write_pos f1 \<or> past
      then do {
        (r, f2, d2) \<leftarrow> flush_writes c f1 d False;
        (case r of Err e \<Rightarrow> Some (Err e, f2, d2)
         | Value _ \<Rightarrow> write_rest c f2 d2 ?rest t (if past then find_next_line_end ?rest else nf)) }
      else write_rest c f1 d ?rest t nf)"
    using assms(4) f1(1) unfolding past_def nf_def t_def
    by (simp add: bf_write_def room Let_def)
  have whole: "t + length ?rest < 2 ^ 64" using assms(3) by (simp add: t_def)
  have carry: "writes_on c inp out f d bs 0 lined result"
    if rest: "writes_on c inp out f' d' ?rest t lined result"
      and out: "out d' @ bf_pending f' = out d @ bf_pending f @ ?head"
      and same: "inp d' = inp d" "bf_unread f' = bf_unread f" "bf_mode f' = bf_mode f" for f' d' result
  proof -
    obtain r f'' d'' k where k: "result = Some (r, f'', d'')" "bf_ok f''" "k \<le> length ?rest"
      "out d'' @ bf_pending f'' = out d' @ bf_pending f' @ take k ?rest"
      "inp d'' = inp d'" "bf_unread f'' = bf_unread f'" "bf_mode f'' = bf_mode f'"
      "\<forall>n. r = Value n \<longrightarrow> n = t + k \<and> (k < length ?rest \<longrightarrow> write_stuck c) \<and> (lined \<longrightarrow> 10 \<notin> set (bf_pending f''))"
      using rest unfolding writes_on_def by blast
    have "out d'' @ bf_pending f'' = out d @ bf_pending f @ take (t + k) bs"
      using k(4) out by (simp add: take_add)
    moreover have "t + k \<le> length bs" using k(3) by (simp add: t_def)
    moreover have "inp d'' = inp d" "bf_unread f'' = bf_unread f" "bf_mode f'' = bf_mode f"
      using k(5-7) same by simp_all
    moreover have "n = 0 + (t + k) \<and> (t + k < length bs \<longrightarrow> write_stuck c) \<and> (lined \<longrightarrow> 10 \<notin> set (bf_pending f''))"
      if "r = Value n" for n
      using k(8) that by auto
    ultimately show ?thesis using k(1,2) unfolding writes_on_def by blast
  qed
  have head: "out d @ bf_pending f1 = out d @ bf_pending f @ ?head" using f1(3) by simp
  show ?thesis unfolding lined_def [symmetric]
  proof (cases "bf_write_end f1 = bf_write_pos f1 \<or> past")
    case False
    then have "bs \<noteq> [] \<Longrightarrow> ?rest = []"
      using f1 assms(2) by (auto simp: t_def min_def bf_ok_def split: if_splits)
    then have none: "?rest = []" by (cases "bs = []") simp_all
    have "10 \<notin> set (bf_pending f1)" if lined
    proof (cases nf)
      case None
      then have "10 \<notin> set bs" using that by (simp add: nf_def lined_def find_next_line_end_None)
      then show ?thesis using that f1(3) by (auto simp: lined_def dest: in_set_takeD)
    next
      case (Some p)
      then have "t < p" using False by (simp add: past_def past_flush_point_def)
      then show ?thesis
        using that f1(3) Some find_next_line_end_Some[of bs p t] by (auto simp: lined_def nf_def)
    qed
    then have "writes_on c inp out f1 d ?rest t lined (write_rest c f1 d ?rest t nf)"
      using none by (intro write_rest_ok[OF assms(1) f1(2) whole]) simp_all
    from carry[OF this head refl f1(4,7)] show "writes_on c inp out f d bs 0 lined (bf_write c f d bs)"
      using False by (simp add: code)
  next
    case True
    obtain r f2 d2 where f2: "flush_writes c f1 d False = Some (r, f2, d2)" "bf_ok f2" "inp d2 = inp d"
      "out d2 @ bf_pending f2 = out d @ bf_pending f1" "bf_unread f2 = bf_unread f1"
      "has_value r \<longrightarrow> bf_pending f2 = []" "bf_mode f2 = bf_mode f1"
      using flush_writes_ok[OF assms(1) f1(2), of False d] by blast
    show "writes_on c inp out f d bs 0 lined (bf_write c f d bs)"
    proof (cases r)
      case (Err e)
      then have "bf_write c f d bs = Some (Err e, f2, d2)" using True f2(1) by (simp add: code)
      moreover have "out d2 @ bf_pending f2 = out d @ bf_pending f @ ?head" using f2(4) head by simp
      ultimately show ?thesis
        using f1 f2 unfolding writes_on_def
        by (intro exI[of _ "Err e"] exI[of _ f2] exI[of _ d2] exI[of _ t]) (simp add: t_def)
    next
      case (Value v)
      let ?nf = "if past then find_next_line_end ?rest else nf"
      have empty: "bf_pending f2 = []" using f2(6) Value by simp
      have "10 \<notin> set ?rest" if lined "?nf = None"
        using that by (auto simp: nf_def lined_def find_next_line_end_None past_def past_flush_point_def
            split: if_splits dest: in_set_dropD)
      then have "writes_on c inp out f2 d2 ?rest t lined (write_rest c f2 d2 ?rest t ?nf)"
        using empty by (intro write_rest_ok[OF assms(1) f2(2) whole]) simp_all
      then show ?thesis
        using carry[of f2 d2, OF _ _ f2(3)] f1 f2 True Value head by (simp add: code)
    qed
  qed
qed

subsection \<open>Reads deliver in order\<close>

lemma bf_read_from_buffer_ok:
  assumes "bf_ok f"
  shows "\<exists>f'. bf_read_from_buffer f n = Some (take n (bf_unread f), f') \<and> bf_ok f'
     \<and> bf_unread f' = drop n (bf_unread f) \<and> bf_pending f' = bf_pending f
     \<and> bf_write_end f' = bf_write_end f \<and> bf_buffer f' = bf_buffer f"
proof -
  let ?k = "min n (bf_read_end f - bf_read_pos f)"
  let ?f = "f\<lparr>bf_read_pos := bf_read_pos f + ?k\<rparr>"
  have avail: "usub (bf_read_end f) (bf_read_pos f) = bf_read_end f - bf_read_pos f"
    using assms by (simp add: bf_ok_def u64_simps)
  have up: "uadd (bf_read_pos f) ?k = bf_read_pos f + ?k"
    using assms by (intro uadd_small) (auto simp: bf_ok_def MAX_MEMCOPY_def)
  have got: "mem_read (bf_buffer f) (bf_read_pos f) ?k = Some (take n (bf_unread f))"
    using assms by (auto simp: mem_read_def bf_ok_def bf_unread_def)
  have size: "?k \<le> MAX_MEMCOPY" using assms by (auto simp: bf_ok_def)
  have eq: "bf_read_from_buffer f n = Some (take n (bf_unread f), ?f)"
    unfolding bf_read_from_buffer_def avail Let_def up got using size by simp
  have "bf_ok ?f" using assms by (auto simp: bf_ok_def)
  moreover have "bf_unread ?f = drop n (bf_unread f)"
    using assms by (auto simp: bf_unread_def bf_ok_def drop_take min_def add.commute)
  moreover have "bf_pending ?f = bf_pending f" by (simp add: bf_pending_def)
  ultimately show ?thesis using eq by auto
qed

text \<open>What is shown of a read that has stored \<open>got\<close> so far.\<close>

definition reads_on ::
    "('d \<Rightarrow> u8 list) \<Rightarrow> ('d \<Rightarrow> u8 list) \<Rightarrow> BufferedFile \<Rightarrow> 'd \<Rightarrow> uSize \<Rightarrow> u8 list \<Rightarrow> 'd read_result \<Rightarrow> bool" where
  "reads_on inp out f d len got result \<longleftrightarrow>
     (\<exists>r bs f' d'. result = Some (r, got @ bs, f', d') \<and> bf_ok f'
        \<and> out d' @ bf_pending f' = out d @ bf_pending f
        \<and> bs @ bf_unread f' @ inp d' = bf_unread f @ inp d \<and> length (got @ bs) \<le> len
        \<and> (\<forall>n. r = Value n \<longrightarrow> n = length (got @ bs) \<and> (n < len \<longrightarrow> bf_unread f' @ inp d' = [])))"

lemma reads_on_result:
  assumes "bf_ok f'" and "out d' @ bf_pending f' = out d @ bf_pending f"
    and "bf_unread f' @ inp d' = bf_unread f @ inp d" and "length got \<le> len"
    and "\<And>n. r = Value n \<Longrightarrow> n = length got \<and> (n < len \<longrightarrow> bf_unread f' @ inp d' = [])"
  shows "reads_on inp out f d len got (Some (r, got, f', d'))"
  using assms unfolding reads_on_def
  by (intro exI[of _ r] exI[of _ "[] :: u8 list"] exI[of _ f'] exI[of _ d']) simp

lemma reads_on_append:
  assumes "reads_on inp out f1 d1 len (got @ new) result"
    and "out d1 @ bf_pending f1 = out d @ bf_pending f"
    and "new @ bf_unread f1 @ inp d1 = bf_unread f @ inp d"
  shows "reads_on inp out f d len got result"
proof -
  obtain r bs f' d' where *: "result = Some (r, (got @ new) @ bs, f', d')" "bf_ok f'"
    "out d' @ bf_pending f' = out d1 @ bf_pending f1"
    "bs @ bf_unread f' @ inp d' = bf_unread f1 @ inp d1" "length ((got @ new) @ bs) \<le> len"
    "\<forall>n. r = Value n \<longrightarrow> n = length ((got @ new) @ bs) \<and> (n < len \<longrightarrow> bf_unread f' @ inp d' = [])"
    using assms(1) unfolding reads_on_def by blast
  have "(new @ bs) @ bf_unread f' @ inp d' = bf_unread f @ inp d"
    using *(4) assms(3) by simp
  moreover have "out d' @ bf_pending f' = out d @ bf_pending f" using *(3) assms(2) by simp
  ultimately show ?thesis
    using *(1,2,5,6) unfolding reads_on_def
    by (intro exI[of _ r] exI[of _ "new @ bs"] exI[of _ f'] exI[of _ d']) simp
qed

lemma read_direct_ok:
  assumes "stream_read_ok c inp out" and "bf_ok f" and "length got \<le> len"
    and "length got < len \<Longrightarrow> bf_unread f = []"
  shows "reads_on inp out f d len got (read_direct c f d len got)"
  using assms(3,4)
proof (induction "len - length got" arbitrary: got d rule: less_induct)
  case less
  have left: "usub len (length got) = len - length got" using less.prems by (simp add: u64_simps)
  show ?case
  proof (cases "length got = len")
    case True
    then have "read_direct c f d len got = Some (Value len, got, f, d)"
      by (subst read_direct.simps) (simp add: usub_def)
    then show ?thesis using True assms(2) by (auto intro: reads_on_result)
  next
    case False
    then have more: "len - length got > 0" using less.prems by simp
    obtain r d1 where call: "fc_read c d (len - length got) = (r, d1)" by fastforce
    show ?thesis
    proof (cases r)
      case (Err e)
      have eq: "read_direct c f d len got = Some (Err e, got, f, d1)"
        using call Err more by (subst read_direct.simps) (simp add: left)
      have "out d1 = out d" "inp d1 = inp d"
        using read_call(2)[OF assms(1), of d "len - length got" e d1] call Err by simp_all
      then have "reads_on inp out f d len got (Some (Err e, got, f, d1))"
        using assms(2) less.prems(1) by (intro reads_on_result) simp_all
      with eq show ?thesis by simp
    next
      case (Value bs)
      have bs: "length bs \<le> len - length got" "inp d = bs @ inp d1" "out d1 = out d"
        "inp d \<noteq> [] \<Longrightarrow> bs \<noteq> []"
        using read_call(1)[OF assms(1) call[unfolded Value]] more by blast+
      show ?thesis
      proof (cases "bs = []")
        case True
        then have eq: "read_direct c f d len got = Some (Value (length got), got, f, d1)"
          using call Value more by (subst read_direct.simps) (simp add: left)
        have "inp d = []" "inp d1 = []" using bs(2,4) True by auto
        moreover have "bf_unread f = []" using less.prems more by simp
        ultimately have "reads_on inp out f d len got (Some (Value (length got), got, f, d1))"
          using bs(3) assms(2) less.prems(1) by (intro reads_on_result) simp_all
        with eq show ?thesis by simp
      next
        case nonempty: False
        have eq: "read_direct c f d len got = read_direct c f d1 len (got @ bs)"
          using call Value more nonempty by (subst read_direct.simps) (simp add: left)
        have none: "bf_unread f = []" using less.prems more by simp
        have "len - length (got @ bs) < len - length got"
          using bs(1) nonempty more by (cases bs) auto
        then have "reads_on inp out f d1 len (got @ bs) (read_direct c f d1 len (got @ bs))"
          using bs(1) more none by (intro less.hyps) auto
        from reads_on_append[OF this, of d f] show ?thesis
          unfolding eq using bs(2,3) none by simp
      qed
    qed
  qed
qed

text \<open>After the flush that prepares a read no part of the buffer is for writing.\<close>

definition no_writes :: "BufferedFile \<Rightarrow> bool" where
  "no_writes f \<longleftrightarrow> bf_write_base f = 0 \<and> bf_write_pos f = 0 \<and> bf_write_end f = 0"

lemma fill_ok:
  assumes "bf_ok f" and "no_writes f" and "length bs \<le> length (bf_buffer f)"
  shows "\<exists>f' m. mem_write (bf_buffer f) 0 bs = Some m
     \<and> bf_read_from_buffer (f\<lparr>bf_buffer := m, bf_read_pos := 0, bf_read_end := length bs\<rparr>) n = Some (take n bs, f')
     \<and> bf_ok f' \<and> no_writes f' \<and> bf_unread f' = drop n bs \<and> length (bf_buffer f') = length (bf_buffer f)"
proof -
  let ?m = "bs @ drop (length bs) (bf_buffer f)"
  let ?f = "f\<lparr>bf_buffer := ?m, bf_read_pos := 0, bf_read_end := length bs\<rparr>"
  let ?k = "min n (length bs)"
  let ?f' = "?f\<lparr>bf_read_pos := ?k\<rparr>"
  have m: "mem_write (bf_buffer f) 0 bs = Some ?m" using assms(3) by (simp add: mem_write_def)
  have small: "length bs \<le> MAX_MEMCOPY" "length bs < 2 ^ 64"
    using assms by (auto simp: bf_ok_def MAX_MEMCOPY_def)
  have "usub (length bs) 0 = length bs" "uadd 0 ?k = ?k"
    using small(2) by (auto simp: usub_def intro!: uadd_small[of 0, simplified])
  moreover have "mem_read ?m 0 ?k = Some (take n bs)" by (simp add: mem_read_def take_append min_def)
  ultimately have "bf_read_from_buffer ?f n = Some (take n bs, ?f')"
    using small(1) by (simp add: bf_read_from_buffer_def Let_def min_def)
  moreover have "bf_ok ?f'" "no_writes ?f'" "length (bf_buffer ?f') = length (bf_buffer f)"
    using assms by (auto simp: bf_ok_def no_writes_def)
  moreover have "bf_unread ?f' = drop n bs" by (simp add: bf_unread_def min_def)
  ultimately show ?thesis using m by blast
qed

lemma read_filling_ok:
  assumes "stream_read_ok c inp out" and "bf_ok f" and "no_writes f" and "bf_buffer f \<noteq> []"
    and "length got \<le> len" and "length got < len \<Longrightarrow> bf_unread f = []"
  shows "reads_on inp out f d len got (read_filling c f d len got)"
  using assms(2-6)
proof (induction "len - length got" arbitrary: got f d rule: less_induct)
  case less
  have left: "usub len (length got) = len - length got" using less.prems by (simp add: u64_simps)
  show ?case
  proof (cases "length got = len")
    case True
    then have "read_filling c f d len got = Some (Value len, got, f, d)"
      by (subst read_filling.simps) (simp add: usub_def)
    then show ?thesis using True less.prems by (auto intro: reads_on_result)
  next
    case False
    then have more: "len - length got > 0" using less.prems by simp
    have none: "bf_unread f = []" using less.prems more by simp
    obtain r d1 where call: "fc_read c d (length (bf_buffer f)) = (r, d1)" by fastforce
    show ?thesis
    proof (cases r)
      case (Err e)
      have eq: "read_filling c f d len got = Some (Err e, got, f, d1)"
        using call Err more by (subst read_filling.simps) (simp add: left)
      have "out d1 = out d" "inp d1 = inp d"
        using read_call(2)[OF assms(1), of d "length (bf_buffer f)" e d1] call Err by simp_all
      then have "reads_on inp out f d len got (Some (Err e, got, f, d1))"
        using less.prems(1,4) by (intro reads_on_result) simp_all
      with eq show ?thesis by simp
    next
      case (Value bs)
      have size: "length (bf_buffer f) > 0" using less.prems(3) by simp
      have bs: "length bs \<le> length (bf_buffer f)" "inp d = bs @ inp d1" "out d1 = out d"
        "inp d \<noteq> [] \<Longrightarrow> bs \<noteq> []"
        using read_call(1)[OF assms(1) call[unfolded Value]] size by blast+
      show ?thesis
      proof (cases "bs = []")
        case True
        then have eq: "read_filling c f d len got = Some (Value (length got), got, f, d1)"
          using call Value more by (subst read_filling.simps) (simp add: left)
        have "inp d = []" "inp d1 = []" using bs(2,4) True by auto
        then have "reads_on inp out f d len got (Some (Value (length got), got, f, d1))"
          using bs(3) none less.prems(1,4) by (intro reads_on_result) simp_all
        with eq show ?thesis by simp
      next
        case nonempty: False
        let ?n = "len - length got"
        obtain f' m where fill: "mem_write (bf_buffer f) 0 bs = Some m"
          "bf_read_from_buffer (f\<lparr>bf_buffer := m, bf_read_pos := 0, bf_read_end := length bs\<rparr>) ?n = Some (take ?n bs, f')"
          "bf_ok f'" "no_writes f'" "bf_unread f' = drop ?n bs" "length (bf_buffer f') = length (bf_buffer f)"
          using fill_ok[OF less.prems(1,2) bs(1), of ?n] by blast
        have eq: "read_filling c f d len got = read_filling c f' d1 len (got @ take ?n bs)"
          using call Value more nonempty fill(1,2) by (subst read_filling.simps) (simp add: left)
        have "bf_buffer f' \<noteq> []" using fill(6) less.prems(3) by auto
        moreover have "len - length (got @ take ?n bs) < len - length got"
          using nonempty more by (cases bs) auto
        moreover have "length (got @ take ?n bs) < len \<Longrightarrow> bf_unread f' = []"
          using fill(5) by (auto simp: min_def split: if_splits)
        moreover have "length (got @ take ?n bs) \<le> len" using less.prems(4) by simp
        ultimately have "reads_on inp out f' d1 len (got @ take ?n bs) (read_filling c f' d1 len (got @ take ?n bs))"
          using fill(3,4) by (intro less.hyps)
        from reads_on_append[OF this, of d f] show ?thesis
          unfolding eq using bs(2,3) none fill(4,5) less.prems(2)
          by (simp add: bf_pending_def no_writes_def)
      qed
    qed
  qed
qed

lemma reset_for_read: "no_writes (reset_writes f True)"
  by (simp add: no_writes_def reset_writes_def)

lemma flush_for_read:
  assumes "flush_writes c f d True = Some (Value v, f', d')"
  shows "no_writes f'"
proof -
  obtain r f1 d1 where "flush_loop c f d = Some (r, f1, d1)"
    using assms by (auto simp: flush_writes_def bind_eq_Some_conv)
  then show ?thesis using assms by (cases r) (auto simp: flush_writes_def reset_for_read)
qed

lemma bf_read_reads_on:
  assumes "stream_read_ok c inp out" and "stream_write_ok c inp out" and "bf_ok f"
    and "bf_open_flags f AND OPEN_READ \<noteq> 0"
  shows "reads_on inp out f d len [] (bf_read c f d len)"
proof -
  obtain f1 where first:
    "(if usub (bf_read_end f) (bf_read_pos f) \<noteq> 0 then bf_read_from_buffer f len else Some ([], f))
       = Some (take len (bf_unread f), f1)"
    and f1: "bf_ok f1" "bf_unread f1 = drop len (bf_unread f)" "bf_pending f1 = bf_pending f"
  proof (cases "usub (bf_read_end f) (bf_read_pos f) = 0")
    case True
    then have "bf_read_end f - bf_read_pos f = 0" using assms(3) by (simp add: bf_ok_def usub_def)
    then have "bf_unread f = []" by (simp add: bf_unread_def)
    then show ?thesis using True assms(3) that by simp
  next
    case False
    then show ?thesis using bf_read_from_buffer_ok[OF assms(3), of len] that by auto
  qed
  let ?got = "take len (bf_unread f)"
  have got: "length ?got \<le> len" by simp
  have left: "usub len (length ?got) = len - length ?got" using got by (simp only: u64_simps)
  have short: "bf_unread f1 = []" if "length ?got < len" using that f1(2) by (auto simp: min_def split: if_splits)
  have carry: "reads_on inp out f d len [] result"
    if "reads_on inp out f1 d len ?got result" for result
  proof (rule reads_on_append[of inp out f1 d len "[]" ?got])
    show "reads_on inp out f1 d len ([] @ ?got) result" using that by simp
    show "out d @ bf_pending f1 = out d @ bf_pending f" using f1(3) by simp
    show "?got @ bf_unread f1 @ inp d = bf_unread f @ inp d"
      unfolding f1(2) append_assoc [symmetric] append_take_drop_id ..
  qed
  have code: "bf_read c f d len =
     (if len - length ?got = 0 then Some (Value len, ?got, f1, d)
      else if len - length ?got < length (bf_buffer f1)
      then do {
        (r, f2, d2) \<leftarrow> flush_writes c f1 d True;
        (case r of Err e \<Rightarrow> Some (Err e, ?got, f2, d2) | Value _ \<Rightarrow> read_filling c f2 d2 len ?got) }
      else read_direct c f1 d len ?got)"
    using assms(4) unfolding bf_read_def first by (simp only: bind.bind_lunit prod.case left if_False)
  consider (enough) "len - length ?got = 0"
    | (fill) "len - length ?got \<noteq> 0" "len - length ?got < length (bf_buffer f1)"
    | (direct) "len - length ?got \<noteq> 0" "\<not> len - length ?got < length (bf_buffer f1)" by blast
  then show ?thesis
  proof cases
    case enough
    then have "length ?got = len" using got by simp
    then have "reads_on inp out f1 d len ?got (Some (Value len, ?got, f1, d))"
      using f1(1) got by (intro reads_on_result) auto
    then show ?thesis using carry enough by (simp add: code del: length_take)
  next
    case direct
    then have "reads_on inp out f1 d len ?got (read_direct c f1 d len ?got)"
      using short got by (intro read_direct_ok[OF assms(1) f1(1)])
    then show ?thesis using carry direct by (simp add: code del: length_take)
  next
    case fill
    then have none: "bf_unread f1 = []" using short got by simp
    obtain r f2 d2 where f2: "flush_writes c f1 d True = Some (r, f2, d2)" "bf_ok f2" "inp d2 = inp d"
      "out d2 @ bf_pending f2 = out d @ bf_pending f1" "bf_unread f2 = bf_unread f1"
      "bf_buffer f2 = bf_buffer f1"
      using flush_writes_ok[OF assms(2) f1(1), of True d] none by blast
    show ?thesis
    proof (cases r)
      case (Err e)
      then have "bf_read c f d len = Some (Err e, ?got, f2, d2)" using fill f2(1) by (simp add: code del: length_take)
      moreover have "reads_on inp out f1 d len ?got (Some (Err e, ?got, f2, d2))"
        using f2 got by (intro reads_on_result) simp_all
      ultimately show ?thesis using carry by simp
    next
      case (Value v)
      then have "no_writes f2" using f2(1) by (simp add: flush_for_read)
      moreover have "bf_buffer f2 \<noteq> []" using f2(6) fill(2) by auto
      ultimately have "reads_on inp out f2 d2 len ?got (read_filling c f2 d2 len ?got)"
        using none f2(5) got by (intro read_filling_ok[OF assms(1) f2(2)]) simp_all
      then have "reads_on inp out f1 d len ([] @ ?got) (read_filling c f2 d2 len ?got)"
        using f2 unfolding reads_on_def by simp
      then show ?thesis using carry Value fill f2(1) by (simp add: code del: length_take)
    qed
  qed
qed

subsection \<open>What a program sees\<close>

text \<open>A stream that gives at most two bytes a call and takes at most three.\<close>

definition demo_stream :: "(u8 list \<times> u8 list) file_calls" where
  "demo_stream = \<lparr>fc_read = (\<lambda>d n. (Value (take (min n 2) (fst d)), (drop (min n 2) (fst d), snd d))),
     fc_write = (\<lambda>d bs. (Value (min (length bs) 3), (fst d, snd d @ take 3 bs))),
     fc_seek = (\<lambda>d mode offset. (Err ESPIPE, d))\<rparr>"

lemma demo_stream_ok: "stream_read_ok demo_stream fst snd" "stream_write_ok demo_stream fst snd"
  by (auto simp: stream_read_ok_def stream_write_ok_def demo_stream_def min_def)

text \<open>
  Writing to a buffered file returns.  Nothing is lost, repeated or reordered: what the kernel has taken
  and what still waits, together, grow by the part of the bytes that \<open>write\<close> has dealt with, which is all of
  them unless a call failed or took none; what was read ahead stays.  In a line-buffered file no end of a
  line is left waiting by a write that succeeds.
\<close>

theorem buffered_write_in_order:
  assumes "stream_write_ok c inp out" and "bf_ok f" and "length bs < 2 ^ 64"
    and "bf_open_flags f AND OPEN_WRITE \<noteq> 0"
  shows "\<exists>r f' d' k. bf_write c f d bs = Some (r, f', d') \<and> bf_ok f' \<and> k \<le> length bs
     \<and> out d' @ bf_pending f' = out d @ bf_pending f @ take k bs
     \<and> inp d' = inp d \<and> bf_unread f' = bf_unread f \<and> bf_mode f' = bf_mode f
     \<and> (\<forall>n. r = Value n \<longrightarrow> n = k \<and> (k < length bs \<longrightarrow> write_stuck c)
          \<and> (bf_mode f = LINE_BUFFERED \<and> 10 \<notin> set (bf_pending f) \<longrightarrow> 10 \<notin> set (bf_pending f')))"
  using bf_write_writes_on[OF assms, of d] unfolding writes_on_def add_0 .

theorem buffered_write_in_order_witness:
  "\<exists>r f' d' k. bf_write demo_stream core_stdout ([], [1]) [104, 105, 10, 33] = Some (r, f', d') \<and> bf_ok f'
     \<and> k \<le> length [104, 105, 10, 33 :: u8]
     \<and> snd d' @ bf_pending f' = snd ([] :: u8 list, [1]) @ bf_pending core_stdout @ take k [104, 105, 10, 33]
     \<and> fst d' = fst ([] :: u8 list, [1 :: u8]) \<and> bf_unread f' = bf_unread core_stdout
     \<and> bf_mode f' = bf_mode core_stdout
     \<and> (\<forall>n. r = Value n \<longrightarrow> n = k \<and> (k < length [104, 105, 10, 33 :: u8] \<longrightarrow> write_stuck demo_stream)
          \<and> (bf_mode core_stdout = LINE_BUFFERED \<and> 10 \<notin> set (bf_pending core_stdout)
              \<longrightarrow> 10 \<notin> set (bf_pending f')))"
  by (rule buffered_write_in_order[OF demo_stream_ok(2)])
     (simp_all add: core_stdout_def bf_new_ok, simp add: bf_new_def Let_def OPEN_WRITE_def)

text \<open>
  Reading from a buffered file returns.  The program gets the bytes of the stream in order, each once:
  the bytes stored, then what is read ahead, then the rest of the input are the input as it was before.  All
  that was asked for is read unless a call failed or the input has ended; what waits to be written is kept.
\<close>

theorem buffered_read_in_order:
  assumes "stream_read_ok c inp out" and "stream_write_ok c inp out" and "bf_ok f"
    and "bf_open_flags f AND OPEN_READ \<noteq> 0"
  shows "\<exists>r bs f' d'. bf_read c f d len = Some (r, bs, f', d') \<and> bf_ok f'
     \<and> bs @ bf_unread f' @ inp d' = bf_unread f @ inp d
     \<and> out d' @ bf_pending f' = out d @ bf_pending f \<and> length bs \<le> len
     \<and> (\<forall>n. r = Value n \<longrightarrow> n = length bs \<and> (n < len \<longrightarrow> bf_unread f' @ inp d' = []))"
  using bf_read_reads_on[OF assms, of d len] unfolding reads_on_def append_Nil by blast

theorem buffered_read_in_order_witness:
  "\<exists>r bs f' d'. bf_read demo_stream core_stdin ([1, 2, 3, 4], []) 3 = Some (r, bs, f', d') \<and> bf_ok f'
     \<and> bs @ bf_unread f' @ fst d' = bf_unread core_stdin @ fst ([1, 2, 3, 4] :: u8 list, [] :: u8 list)
     \<and> snd d' @ bf_pending f' = snd ([1, 2, 3, 4] :: u8 list, [] :: u8 list) @ bf_pending core_stdin
     \<and> length bs \<le> 3
     \<and> (\<forall>n. r = Value n \<longrightarrow> n = length bs \<and> (n < 3 \<longrightarrow> bf_unread f' @ fst d' = []))"
  by (rule buffered_read_in_order[OF demo_stream_ok])
     (simp_all add: core_stdin_def bf_new_ok, simp add: bf_new_def Let_def OPEN_READ_def)

text \<open>Flushing hands over all that waits, or fails.\<close>

lemma bf_flush_empties:
  assumes "stream_write_ok c inp out" and "bf_ok f"
  shows "\<exists>r f' d'. bf_flush c f d = Some (r, f', d') \<and> bf_ok f'
     \<and> (has_value r \<longrightarrow> bf_pending f' = [] \<and> out d' = out d @ bf_pending f)"
proof -
  obtain r f' d' where "flush_writes c f d False = Some (r, f', d')" "bf_ok f'"
    "out d' @ bf_pending f' = out d @ bf_pending f" "has_value r \<longrightarrow> bf_pending f' = []"
    using flush_writes_ok[OF assms, of False d] by blast
  then show ?thesis unfolding bf_flush_def by (intro exI[of _ r] exI[of _ f'] exI[of _ d']) auto
qed

text \<open>
  A seek relative to the current position asks the kernel for that offset from where the kernel is, which is
  behind what was read ahead and not where the program is: after one byte of a file of three was read, a
  seek by 0 gives 3.
\<close>

definition demo_seek_file :: "(u8 list \<times> nat) file_calls" where
  "demo_seek_file = \<lparr>fc_read = (\<lambda>(m, p) n. (Value (take n (drop p m)), (m, min (length m) (p + n)))),
     fc_write = (\<lambda>d bs. (Err EBADF, d)),
     fc_seek = (\<lambda>(m, p) mode offset. (Value (int p + offset), (m, nat (int p + offset))))\<rparr>"

lemma bf_seek_no_writes:
  assumes "bf_ok f" and "bf_pending f = []"
  shows "\<exists>f'. bf_seek c f d mode offset = Some (fst (fc_seek c d mode offset), f', snd (fc_seek c d mode offset))"
proof -
  have "bf_write_pos f = bf_write_base f" using assms by (auto simp: bf_ok_def bf_pending_def)
  then have "flush_loop c (f\<lparr>bf_read_pos := 0, bf_read_end := 0\<rparr>) d
    = Some (Value 0, f\<lparr>bf_read_pos := 0, bf_read_end := 0\<rparr>, d)"
    by (subst flush_loop.simps) (simp add: usub_def)
  then show ?thesis by (simp add: bf_seek_def flush_writes_def split: prod.split)
qed

lemma bf_seek_skips_ahead:
  "\<exists>f1 d1 f2 d2. bf_read demo_seek_file core_stdin ([7, 8, 9], 0) 1 = Some (Value 1, [7], f1, d1)
     \<and> bf_seek demo_seek_file f1 d1 Current 0 = Some (Value 3, f2, d2)"
proof -
  let ?f = "(bf_new OPEN_READ BLOCK_BUFFERED)\<lparr>bf_write_end := 0\<rparr>"
  let ?m = "[7, 8, 9 :: u8] @ replicate 1021 0"
  let ?f1 = "?f\<lparr>bf_buffer := ?m, bf_read_pos := 1, bf_read_end := 3\<rparr>"
  have flush: "flush_loop demo_seek_file core_stdin ([7, 8, 9], 0) = Some (Value 0, core_stdin, ([7, 8, 9], 0))"
    by (subst flush_loop.simps) (simp add: core_stdin_def bf_new_def usub_def)
  have reset: "reset_writes core_stdin True = ?f"
    by (simp add: reset_writes_def core_stdin_def bf_new_def FILE_BUFFER_SIZE_def)
  have fill: "read_filling demo_seek_file ?f ([7, 8, 9], 0) 1 [] = read_filling demo_seek_file ?f1 ([7, 8, 9], 3) 1 [7]"
    by (subst read_filling.simps)
       (simp add: demo_seek_file_def bf_new_def FILE_BUFFER_SIZE_def usub_def mem_write_def mem_read_def
          bf_read_from_buffer_def uadd_def MAX_MEMCOPY_def numeral_3_eq_3)
  have "read_filling demo_seek_file ?f1 ([7, 8, 9], 3) 1 [7] = Some (Value 1, [7], ?f1, ([7, 8, 9], 3))"
    by (subst read_filling.simps) (simp add: usub_def)
  then have "bf_read demo_seek_file core_stdin ([7, 8, 9], 0) 1 = Some (Value 1, [7], ?f1, ([7, 8, 9], 3))"
    using fill flush reset
    by (simp add: bf_read_def flush_writes_def) (simp add: core_stdin_def bf_new_def usub_def OPEN_READ_def FILE_BUFFER_SIZE_def)
  moreover have "bf_ok ?f1" by (simp add: bf_ok_def bf_new_def FILE_BUFFER_SIZE_def MAX_MEMCOPY_def)
  moreover have "bf_pending ?f1 = []" by (simp add: bf_pending_def bf_new_def)
  moreover have "fst (fc_seek demo_seek_file ([7, 8, 9], 3) Current 0) = Value 3" by (simp add: demo_seek_file_def)
  ultimately show ?thesis
    using bf_seek_no_writes[of ?f1 demo_seek_file "([7, 8, 9], 3)" Current 0] by auto
qed

text \<open>A read of at least the size of the buffer goes past it and leaves unwritten bytes waiting.\<close>

lemma bf_large_read_keeps_pending:
  assumes "bf_ok f" and "bf_open_flags f AND OPEN_READ \<noteq> 0" and "bf_read_end f = bf_read_pos f"
    and "length (bf_buffer f) \<le> len" and "len > 0"
  shows "bf_read c f d len = read_direct c f d len []"
  using assms by (simp add: bf_read_def usub_def)

end
