(* ===== verification/Xhci_Ring.thy ===== *)
theory Xhci_Ring
  imports Addresses
begin

text \<open>
  The rings of the xHCI driver (\<open>kernel/src/usb/xhci_ring.cpp\<close> and \<open>xhci_ring.h\<close>): transfer request
  blocks, the producer ring of commands and transfers, the event ring, and control transfers.

  A block is its four words, a ring the list of its blocks as both sides see it; the synchronisation of
  caches is left out.  A callback is a value that the caller of \<open>process_completion\<close> gets to run.
\<close>

subsection \<open>Transfer request blocks\<close>

definition TRB_NORMAL :: u8 where "TRB_NORMAL = 1"
definition TRB_SETUP :: u8 where "TRB_SETUP = 2"
definition TRB_DATA :: u8 where "TRB_DATA = 3"
definition TRB_STATUS :: u8 where "TRB_STATUS = 4"
definition TRB_LINK :: u8 where "TRB_LINK = 6"
definition TRB_ADDRESS_DEVICE :: u8 where "TRB_ADDRESS_DEVICE = 11"
definition TRB_CONFIG_ENDPOINT :: u8 where "TRB_CONFIG_ENDPOINT = 12"
definition TRB_TRANSFER_EVENT :: u8 where "TRB_TRANSFER_EVENT = 32"
definition TRB_COMMAND_COMPLETION :: u8 where "TRB_COMMAND_COMPLETION = 33"
definition TRB_PORT_STATUS_CHANGE :: u8 where "TRB_PORT_STATUS_CHANGE = 34"
definition TRB_BANDWIDTH_REQUEST :: u8 where "TRB_BANDWIDTH_REQUEST = 35"
definition TRB_HOST_CONTROLLER_EVENT :: u8 where "TRB_HOST_CONTROLLER_EVENT = 37"
definition TRB_DEVICE_NOTIFICATION :: u8 where "TRB_DEVICE_NOTIFICATION = 38"
definition TRB_MFINDEX_WRAP :: u8 where "TRB_MFINDEX_WRAP = 39"

record TRB =
  trb0 :: u32
  trb1 :: u32
  trb2 :: u32
  trb3 :: u32

definition trb_zero :: TRB where
  "trb_zero = \<lparr>trb0 = 0, trb1 = 0, trb2 = 0, trb3 = 0\<rparr>"

definition trb_parameter :: "TRB \<Rightarrow> u64" where
  "trb_parameter t = ucast (trb0 t) OR push_bit 32 (ucast (trb1 t))"

definition set_parameter :: "TRB \<Rightarrow> u64 \<Rightarrow> TRB" where
  "set_parameter t p = t\<lparr>trb0 := ucast (p AND 0xFFFFFFFF), trb1 := ucast (drop_bit 32 p)\<rparr>"

definition trb_type :: "TRB \<Rightarrow> u8" where
  "trb_type t = ucast (drop_bit 10 (trb3 t) AND 0x3F)"

definition type_field :: "u32 \<Rightarrow> u8 \<Rightarrow> u32" where
  "type_field control k = (control AND NOT (push_bit 10 0x3F)) OR push_bit 10 (ucast k AND 0x3F)"

definition set_trb_type :: "TRB \<Rightarrow> u8 \<Rightarrow> TRB" where
  "set_trb_type t k = t\<lparr>trb3 := type_field (trb3 t) k\<rparr>"

definition trb_cycle :: "TRB \<Rightarrow> bool" where
  "trb_cycle t \<longleftrightarrow> trb3 t AND 1 \<noteq> 0"

definition set_cycle :: "bool \<Rightarrow> TRB \<Rightarrow> TRB" where
  "set_cycle c t = t\<lparr>trb3 := (trb3 t AND NOT 1) OR (if c then 1 else 0)\<rparr>"

definition create_trb :: "u8 \<Rightarrow> u64 \<Rightarrow> u32 \<Rightarrow> u32 \<Rightarrow> TRB" where
  "create_trb k parameter status control =
     \<lparr>trb0 = ucast (parameter AND 0xFFFFFFFF), trb1 = ucast (drop_bit 32 parameter), trb2 = status, trb3 = type_field control k\<rparr>"

definition create_trb_words :: "u8 \<Rightarrow> u32 \<Rightarrow> u32 \<Rightarrow> u32 \<Rightarrow> u32 \<Rightarrow> TRB" where
  "create_trb_words k parameter0 parameter1 status control =
     \<lparr>trb0 = parameter0, trb1 = parameter1, trb2 = status, trb3 = type_field control k\<rparr>"

definition address_device :: "u64 \<Rightarrow> u8 \<Rightarrow> bool \<Rightarrow> TRB" where
  "address_device in_ctx slot_id make_request =
     (let t = set_trb_type (set_parameter trb_zero in_ctx) TRB_ADDRESS_DEVICE;
          t1 = t\<lparr>trb3 := trb3 t OR push_bit 24 (ucast slot_id)\<rparr>
      in if \<not> make_request then t1\<lparr>trb3 := trb3 t1 OR push_bit 9 1\<rparr> else t1)"

definition configure_endpoint :: "u64 \<Rightarrow> u8 \<Rightarrow> bool \<Rightarrow> TRB" where
  "configure_endpoint in_ctx slot_id deconfigure =
     create_trb TRB_CONFIG_ENDPOINT in_ctx 0 (push_bit 24 (ucast slot_id) OR (if deconfigure then push_bit 9 1 else 0))"

subsection \<open>Events\<close>

text \<open>\<open>ev_param\<close>, \<open>ev_word\<close> and \<open>ev_byte\<close> are the three unions; a member that a kind does not set is zero.\<close>

record event_trb =
  ev_param :: u64
  ev_word :: u32
  ev_kind :: u8
  ev_completion_code :: u8
  ev_slot_id :: u8
  ev_byte :: u8
  ev_ed_flag :: bool

definition from_trb :: "TRB \<Rightarrow> event_trb option" where
  "from_trb t =
     (let kind = trb_type t;
          e = \<lparr>ev_param = 0, ev_word = 0, ev_kind = kind, ev_completion_code = ucast (drop_bit 24 (trb2 t) AND 0xFF),
               ev_slot_id = 0, ev_byte = 0, ev_ed_flag = False\<rparr>;
          lower_status = trb2 t AND 0x00FFFFFF;
          upper_control = ucast (drop_bit 24 (trb3 t) AND 0xFF);
          mid_control = ucast (drop_bit 16 (trb3 t) AND 0xFF)
      in if kind = TRB_TRANSFER_EVENT
         then Some (e\<lparr>ev_param := trb_parameter t, ev_word := lower_status, ev_slot_id := upper_control,
                      ev_byte := mid_control AND 0x1F, ev_ed_flag := drop_bit 2 (trb3 t) AND 1 \<noteq> 0\<rparr>)
         else if kind = TRB_COMMAND_COMPLETION
         then Some (e\<lparr>ev_param := trb_parameter t, ev_word := lower_status, ev_slot_id := upper_control, ev_byte := mid_control\<rparr>)
         else if kind = TRB_PORT_STATUS_CHANGE then Some (e\<lparr>ev_byte := ucast (drop_bit 24 (trb0 t) AND 0xFF)\<rparr>)
         else if kind = TRB_BANDWIDTH_REQUEST then Some (e\<lparr>ev_slot_id := upper_control\<rparr>)
         else if kind = TRB_HOST_CONTROLLER_EVENT then Some e
         else if kind = TRB_DEVICE_NOTIFICATION
         then Some (e\<lparr>ev_param := trb_parameter t AND NOT 0xFF, ev_byte := ucast (drop_bit 4 (trb_parameter t) AND 0xF),
                      ev_slot_id := upper_control\<rparr>)
         else if kind = TRB_MFINDEX_WRAP then Some e
         else None)"

subsection \<open>The producer ring\<close>

definition RING_SIZE :: nat where "RING_SIZE = 128"
definition TRB_SIZE :: nat where "TRB_SIZE = 16"

record 'c producer_ring =
  pr_trbs :: "TRB list"
  pr_enqueue :: nat
  pr_pcs :: bool
  pr_completions :: "'c option list"
  pr_dma :: uSize

definition new_producer_ring :: "uSize \<Rightarrow> 'c producer_ring" where
  "new_producer_ring dma = \<lparr>pr_trbs = replicate RING_SIZE trb_zero, pr_enqueue = 0, pr_pcs = True,
     pr_completions = replicate RING_SIZE None, pr_dma = dma\<rparr>"

definition link_trb :: "uSize \<Rightarrow> bool \<Rightarrow> TRB" where
  "link_trb dma pcs =
     \<lparr>trb0 = of_nat dma, trb1 = of_nat (dma div 2 ^ 32), trb2 = 0,
      trb3 = push_bit 10 (ucast TRB_LINK) OR push_bit 1 1 OR (if pcs then 1 else 0)\<rparr>"

definition push_command :: "'c producer_ring \<Rightarrow> TRB \<Rightarrow> 'c option \<Rightarrow> 'c producer_ring option" where
  "push_command r raw_trb callback = do {
     verify (pr_enqueue r < RING_SIZE);
     (let r1 = r\<lparr>pr_completions := (pr_completions r)[pr_enqueue r := callback]\<rparr>;
          trb = set_cycle (pr_pcs r1) raw_trb
      in do {
        verify (trb_cycle (pr_trbs r1 ! pr_enqueue r1) \<noteq> pr_pcs r1);
        (let r2 = r1\<lparr>pr_trbs := (pr_trbs r1)[pr_enqueue r1 := trb], pr_enqueue := pr_enqueue r1 + 1\<rparr>
         in Some (if pr_enqueue r2 = RING_SIZE - 1
                  then r2\<lparr>pr_trbs := (pr_trbs r2)[pr_enqueue r2 := link_trb (pr_dma r2) (pr_pcs r2)],
                          pr_enqueue := 0, pr_pcs := \<not> pr_pcs r2\<rparr>
                  else r2)) }) }"

text \<open>The callback to run with the event, if there is one.\<close>

definition process_completion :: "'c producer_ring \<Rightarrow> event_trb \<Rightarrow> ('c option \<times> 'c producer_ring) option" where
  "process_completion r e = do {
     verify (ev_kind e = TRB_COMMAND_COMPLETION \<or> ev_kind e = TRB_TRANSFER_EVENT);
     (let index = usub (unat (ev_param e)) (pr_dma r) div TRB_SIZE
      in do {
        verify (index < RING_SIZE);
        Some (pr_completions r ! index, r\<lparr>pr_completions := (pr_completions r)[index := None]\<rparr>) }) }"

subsection \<open>Control transfers\<close>

datatype Direction = DirIn | DirOut

record SetupPacket =
  sp_request_type :: u8
  sp_request :: u8
  sp_value :: u16
  sp_index :: u16
  sp_data_length :: u16

definition make_req_type :: "Direction \<Rightarrow> u8 \<Rightarrow> u8 \<Rightarrow> u8" where
  "make_req_type dir ttype target =
     (if dir = DirIn then push_bit 7 1 else 0) OR push_bit 5 (ttype AND 3) OR (target AND 3)"

definition get_direction :: "SetupPacket \<Rightarrow> Direction" where
  "get_direction p = (if sp_request_type p AND push_bit 7 1 \<noteq> 0 then DirIn else DirOut)"

definition make_setup :: "SetupPacket \<Rightarrow> bool \<Rightarrow> bool \<Rightarrow> TRB" where
  "make_setup p data_stage data_in =
     create_trb_words TRB_SETUP
       (ucast (sp_request_type p) OR push_bit 8 (ucast (sp_request p)) OR push_bit 16 (ucast (sp_value p)))
       (ucast (sp_index p) OR push_bit 16 (ucast (sp_data_length p))) 8
       (push_bit 6 1 OR push_bit 16 (if data_stage then (if data_in then 3 else 2) else 0))"

definition make_data_stage :: "uSize \<Rightarrow> uSize \<Rightarrow> bool \<Rightarrow> bool \<Rightarrow> TRB option" where
  "make_data_stage data_dma transfer_length chain data_in = do {
     verify (transfer_length \<le> 64 * 1024);
     Some (create_trb TRB_DATA (of_nat data_dma) (of_nat transfer_length AND 0x1FFFF)
       ((if chain then push_bit 4 1 else 0) OR (if data_in then push_bit 16 1 else 0))) }"

definition make_status :: "bool \<Rightarrow> bool \<Rightarrow> TRB" where
  "make_status status_in ioc =
     create_trb TRB_STATUS 0 0 ((if status_in then push_bit 16 1 else 0) OR (if ioc then push_bit 5 1 else 0))"

text \<open>The buffer of the data stage is its address for the device and its size.\<close>

definition push_control_transfer :: "'c producer_ring \<Rightarrow> SetupPacket \<Rightarrow> uSize \<times> uSize \<Rightarrow> 'c option \<Rightarrow> 'c producer_ring option" where
  "push_control_transfer r p buf callback =
     (let (data_dma, n) = buf;
          data_stage = (n \<noteq> 0);
          data_in = (get_direction p = DirIn);
          status_in = (n = 0 \<or> get_direction p = DirOut)
      in do {
        verify (n \<le> 64 * 1024);
        verify (n = unat (sp_data_length p));
        r1 \<leftarrow> push_command r (make_setup p data_stage data_in) None;
        r2 \<leftarrow> (if data_stage
                then do { t \<leftarrow> make_data_stage data_dma n False data_in; push_command r1 t None }
                else Some r1);
        push_command r2 (make_status status_in (callback \<noteq> None)) callback })"

subsection \<open>The event ring\<close>

record event_ring =
  er_trbs :: "TRB list"
  er_dequeue :: nat
  er_ccs :: bool

definition new_event_ring :: event_ring where
  "new_event_ring = \<lparr>er_trbs = replicate RING_SIZE trb_zero, er_dequeue = 0, er_ccs = True\<rparr>"

text \<open>The entry of the segment table: the two halves of the address of the ring and its size.\<close>

definition erst_entry :: "uSize \<Rightarrow> u32 \<times> u32 \<times> u32 \<times> u32" where
  "erst_entry dma = (of_nat dma, of_nat (dma div 2 ^ 32), of_nat RING_SIZE, 0)"

definition process_event :: "event_ring \<Rightarrow> (event_trb option \<times> event_ring) option" where
  "process_event r = do {
     verify (er_dequeue r < RING_SIZE);
     (let trb = er_trbs r ! er_dequeue r
      in if trb_cycle trb = er_ccs r
         then (let r1 = r\<lparr>er_dequeue := er_dequeue r + 1\<rparr>;
                   r2 = (if er_dequeue r1 = RING_SIZE then r1\<lparr>er_dequeue := 0, er_ccs := \<not> er_ccs r1\<rparr> else r1)
               in do { e \<leftarrow> from_trb trb; Some (Some e, r2) })
         else Some (None, r)) }"

subsection \<open>What the controller reads\<close>

text \<open>
  The consumer of the specification of the controller: a block is for it when its cycle bit is the cycle
  state; at a link it goes to the start of the ring and, if the link says so, toggles the cycle state.
\<close>

record controller =
  ct_index :: nat
  ct_ccs :: bool

definition start_controller :: controller where
  "start_controller = \<lparr>ct_index = 0, ct_ccs = True\<rparr>"

definition controller_step :: "TRB list \<Rightarrow> controller \<Rightarrow> (TRB option \<times> controller) option" where
  "controller_step trbs c =
     (let t = trbs ! ct_index c
      in if trb_cycle t \<noteq> ct_ccs c then None
         else if trb_type t = TRB_LINK
         then Some (None, \<lparr>ct_index = 0, ct_ccs = (if bit (trb3 t) 1 then \<not> ct_ccs c else ct_ccs c)\<rparr>)
         else Some (Some t, c\<lparr>ct_index := ct_index c + 1\<rparr>))"

text \<open>A block without its cycle bit, and the blocks the controller has not read.\<close>

definition payload :: "TRB \<Rightarrow> TRB" where
  "payload t = set_cycle False t"

definition slots :: "TRB list \<Rightarrow> nat \<Rightarrow> nat \<Rightarrow> TRB list" where
  "slots trbs a b = map (\<lambda>i. payload (trbs ! i)) [a..<b]"

definition queued :: "'c producer_ring \<Rightarrow> controller \<Rightarrow> TRB list" where
  "queued r c =
     (if ct_ccs c = pr_pcs r then slots (pr_trbs r) (ct_index c) (pr_enqueue r)
      else slots (pr_trbs r) (ct_index c) 127 @ slots (pr_trbs r) 0 (pr_enqueue r))"

definition is_link :: "TRB \<Rightarrow> bool \<Rightarrow> bool" where
  "is_link t c \<longleftrightarrow> trb_type t = TRB_LINK \<and> bit (trb3 t) 1 \<and> trb_cycle t = c"

definition ring_ok :: "'c producer_ring \<Rightarrow> controller \<Rightarrow> bool" where
  "ring_ok r c \<longleftrightarrow> length (pr_trbs r) = 128 \<and> pr_enqueue r < 127 \<and>
     (\<forall>i < 127. trb_cycle (pr_trbs r ! i) = (if i < pr_enqueue r then pr_pcs r else \<not> pr_pcs r) \<and>
        trb_type (pr_trbs r ! i) \<noteq> TRB_LINK) \<and>
     (if ct_ccs c = pr_pcs r then ct_index c \<le> pr_enqueue r
      else pr_enqueue r \<le> ct_index c \<and> ct_index c \<le> 127 \<and> is_link (pr_trbs r ! 127) (ct_ccs c))"

lemma trb_cycle_bit: "trb_cycle t \<longleftrightarrow> bit (trb3 t) 0"
proof
  assume "trb_cycle t"
  then have "trb3 t AND 1 \<noteq> 0" by (simp add: trb_cycle_def)
  then show "bit (trb3 t) 0" by (metis and_one_eq bit_0 even_iff_mod_2_eq_zero)
next
  assume "bit (trb3 t) 0"
  then have "bit (trb3 t AND 1) 0" by (simp add: bit_and_iff)
  then show "trb_cycle t" unfolding trb_cycle_def by (intro notI) simp
qed

lemma bit_set_cycle: "bit (trb3 (set_cycle c t)) i \<longleftrightarrow> i < 32 \<and> (if i = 0 then c else bit (trb3 t) i)"
  by (auto simp: set_cycle_def bit_simps dest: bit_imp_le_length)

lemma trb_cycle_set [simp]: "trb_cycle (set_cycle c t) = c"
  by (simp add: trb_cycle_bit bit_set_cycle)

lemma trb_type_set [simp]: "trb_type (set_cycle c t) = trb_type t"
proof -
  have "drop_bit 10 (trb3 (set_cycle c t)) = drop_bit 10 (trb3 t)"
    by (rule bit_word_eqI) (auto simp: bit_drop_bit_eq bit_set_cycle dest: bit_imp_le_length)
  then show ?thesis by (simp add: trb_type_def)
qed

lemma payload_set [simp]: "payload (set_cycle c t) = payload t"
proof -
  have "trb3 (set_cycle False (set_cycle c t)) = trb3 (set_cycle False t)"
    by (rule bit_word_eqI) (auto simp: bit_set_cycle)
  then show ?thesis by (simp add: payload_def set_cycle_def)
qed

lemma is_link_link_trb: "is_link (link_trb dma pcs) pcs"
proof -
  let ?w = "trb3 (link_trb dma pcs)"
  have "?w = (if pcs then 0x1803 else 0x1802)" by (simp add: link_trb_def TRB_LINK_def)
  then show ?thesis by (auto simp: is_link_def trb_cycle_bit trb_type_def TRB_LINK_def)
qed

lemma length_slots [simp]: "length (slots trbs a b) = b - a"
  by (simp add: slots_def)

lemma slots_empty [simp]: "b \<le> a \<Longrightarrow> slots trbs a b = []"
  by (simp add: slots_def)

lemma slots_snoc: "a \<le> b \<Longrightarrow> slots trbs a (Suc b) = slots trbs a b @ [payload (trbs ! b)]"
  by (simp add: slots_def)

lemma slots_Cons: "a < b \<Longrightarrow> slots trbs a b = payload (trbs ! a) # slots trbs (a + 1) b"
  by (simp add: slots_def upt_conv_Cons)

lemma slots_update [simp]: "i < a \<or> b \<le> i \<Longrightarrow> slots (trbs[i := t]) a b = slots trbs a b"
  by (auto simp: slots_def)

text \<open>A push on a ring that keeps its invariant never meets the failing check.\<close>

lemma push_command_ok:
  assumes "ring_ok r c"
  shows "push_command r t cb = Some
    (let trbs = (pr_trbs r)[pr_enqueue r := set_cycle (pr_pcs r) t];
         completions = (pr_completions r)[pr_enqueue r := cb]
     in if pr_enqueue r = 126
        then r\<lparr>pr_trbs := trbs[127 := link_trb (pr_dma r) (pr_pcs r)], pr_enqueue := 0, pr_pcs := \<not> pr_pcs r, pr_completions := completions\<rparr>
        else r\<lparr>pr_trbs := trbs, pr_enqueue := pr_enqueue r + 1, pr_completions := completions\<rparr>)"
  using assms by (auto simp: push_command_def ring_ok_def RING_SIZE_def Let_def)

lemma push_queued:
  assumes ok: "ring_ok r c" and t: "trb_type t \<noteq> TRB_LINK" and room: "length (queued r c) < 126"
    and push: "push_command r t cb = Some r'"
  shows "ring_ok r' c \<and> queued r' c = queued r c @ [payload t]"
proof -
  let ?e = "pr_enqueue r" and ?x = "set_cycle (pr_pcs r) t"
  have len: "length (pr_trbs r) = 128" "?e < 127" using ok by (simp_all add: ring_ok_def)
  have old: "trb_cycle (pr_trbs r ! i) = (if i < ?e then pr_pcs r else \<not> pr_pcs r)" "trb_type (pr_trbs r ! i) \<noteq> TRB_LINK"
    if "i < 127" for i using ok that by (simp_all add: ring_ok_def)
  show ?thesis
  proof (cases "?e = 126")
    case False
    then have r': "r' = r\<lparr>pr_trbs := (pr_trbs r)[?e := ?x], pr_enqueue := ?e + 1, pr_completions := (pr_completions r)[?e := cb]\<rparr>"
      using push push_command_ok [OF ok] by (simp add: Let_def)
    have ahead: "?e < ct_index c" if "ct_ccs c \<noteq> pr_pcs r"
      using room ok that len(2) by (auto simp: queued_def ring_ok_def)
    have "ring_ok r' c"
      using ok old t False len ahead by (auto simp: r' ring_ok_def nth_list_update)
    moreover have "queued r' c = queued r c @ [payload t]"
      using len ok ahead by (auto simp: r' queued_def ring_ok_def slots_snoc)
    ultimately show ?thesis ..
  next
    case True
    then have r': "r' = r\<lparr>pr_trbs := (pr_trbs r)[126 := ?x, 127 := link_trb (pr_dma r) (pr_pcs r)], pr_enqueue := 0,
        pr_pcs := \<not> pr_pcs r, pr_completions := (pr_completions r)[?e := cb]\<rparr>"
      using push push_command_ok [OF ok] by (simp add: Let_def)
    have same: "ct_ccs c = pr_pcs r"
    proof (rule ccontr)
      assume "ct_ccs c \<noteq> pr_pcs r"
      then show False using room True by (simp add: queued_def)
    qed
    then have idx: "ct_index c \<le> 126" using ok True by (simp add: ring_ok_def)
    have "ring_ok r' c"
      using ok old t True len same idx is_link_link_trb by (auto simp: r' ring_ok_def nth_list_update)
    moreover have "slots (pr_trbs r') (ct_index c) 127 = slots (pr_trbs r) (ct_index c) 126 @ [payload t]"
      using slots_snoc [OF idx, of "(pr_trbs r)[126 := ?x]"] len by (simp add: r')
    then have "queued r' c = queued r c @ [payload t]"
      using same True by (simp add: queued_def r')
    ultimately show ?thesis ..
  qed
qed

lemma controller_step_queued:
  assumes ok: "ring_ok r c"
  shows "case controller_step (pr_trbs r) c of
      None \<Rightarrow> queued r c = []
    | Some (None, c') \<Rightarrow> ring_ok r c' \<and> queued r c' = queued r c
    | Some (Some t, c') \<Rightarrow> ring_ok r c' \<and> queued r c = payload t # queued r c'"
proof -
  let ?e = "pr_enqueue r" and ?i = "ct_index c"
  have len: "?e < 127" using ok by (simp add: ring_ok_def)
  have old: "trb_cycle (pr_trbs r ! i) = (if i < ?e then pr_pcs r else \<not> pr_pcs r)" "trb_type (pr_trbs r ! i) \<noteq> TRB_LINK"
    if "i < 127" for i using ok that by (simp_all add: ring_ok_def)
  show ?thesis
  proof (cases "ct_ccs c = pr_pcs r")
    case True
    then have "?i \<le> ?e" using ok by (simp add: ring_ok_def)
    then show ?thesis
    proof (cases "?i = ?e")
      case at: True
      then show ?thesis using True old [of ?e] len by (simp add: controller_step_def queued_def)
    next
      case False
      then have "?i < ?e" using \<open>?i \<le> ?e\<close> by simp
      then show ?thesis
        using True old [of ?i] len ok by (auto simp: controller_step_def queued_def slots_Cons ring_ok_def)
    qed
  next
    case False
    then have i: "?e \<le> ?i" "?i \<le> 127" "is_link (pr_trbs r ! 127) (ct_ccs c)" using ok by (simp_all add: ring_ok_def)
    show ?thesis
    proof (cases "?i = 127")
      case True
      then have "controller_step (pr_trbs r) c = Some (None, \<lparr>ct_index = 0, ct_ccs = \<not> ct_ccs c\<rparr>)"
        using i(3) by (simp add: controller_step_def is_link_def)
      then show ?thesis using ok False True by (auto simp: ring_ok_def queued_def)
    next
      case less: False
      then show ?thesis
        using False old [of ?i] i ok by (auto simp: controller_step_def queued_def slots_Cons ring_ok_def)
    qed
  qed
qed

lemma new_ring_ok: "ring_ok (new_producer_ring dma) start_controller"
  by (auto simp: ring_ok_def new_producer_ring_def start_controller_def RING_SIZE_def trb_zero_def trb_cycle_def
      trb_type_def TRB_LINK_def)

text \<open>
  The driver and the controller at work: commands \<open>ps\<close> were pushed and commands \<open>fs\<close> were read.  The driver
  pushes commands that are no links while less than 126 are waiting.
\<close>

inductive ring_run :: "'c producer_ring \<Rightarrow> controller \<Rightarrow> TRB list \<Rightarrow> TRB list \<Rightarrow> bool" where
  start: "ring_run (new_producer_ring dma) start_controller [] []"
| push: "ring_run r c ps fs \<Longrightarrow> trb_type t \<noteq> TRB_LINK \<Longrightarrow> length ps < length fs + 126 \<Longrightarrow>
    push_command r t cb = Some r' \<Longrightarrow> ring_run r' c (ps @ [payload t]) fs"
| follow: "ring_run r c ps fs \<Longrightarrow> controller_step (pr_trbs r) c = Some (None, c') \<Longrightarrow> ring_run r c' ps fs"
| fetch: "ring_run r c ps fs \<Longrightarrow> controller_step (pr_trbs r) c = Some (Some t, c') \<Longrightarrow> ring_run r c' ps (fs @ [payload t])"
| complete: "ring_run r c ps fs \<Longrightarrow> process_completion r e = Some (cb, r') \<Longrightarrow> ring_run r' c ps fs"

lemma process_completion_ring:
  assumes "process_completion r e = Some (cb, r')"
  shows "ring_ok r' c = ring_ok r c" and "queued r' c = queued r c"
proof -
  obtain cs where "r' = r\<lparr>pr_completions := cs\<rparr>"
    using assms by (auto simp: process_completion_def Let_def)
  then show "ring_ok r' c = ring_ok r c" and "queued r' c = queued r c"
    by (simp_all add: ring_ok_def queued_def)
qed

lemma ring_run_invariant: "ring_run r c ps fs \<Longrightarrow> ring_ok r c \<and> ps = fs @ queued r c"
proof (induction rule: ring_run.induct)
  case (start dma)
  then show ?case using new_ring_ok by (simp add: queued_def new_producer_ring_def start_controller_def)
next
  case (push r c ps fs t cb r')
  have "length (queued r c) < 126" using push.IH push.hyps(3) by auto
  then show ?case using push_queued [OF _ push.hyps(2) _ push.hyps(4)] push.IH by simp
next
  case (follow r c ps fs c')
  then show ?case using controller_step_queued [of r c] by simp
next
  case (fetch r c ps fs t c')
  then show ?case using controller_step_queued [of r c] by simp
next
  case (complete r c ps fs e cb r')
  then show ?case using process_completion_ring [OF complete.hyps(2)] by simp
qed

text \<open>
  C36: The producer ring is a queue to the controller: whatever is pushed, read and completed in any order,
  as long as less than 126 commands are waiting the controller reads the commands in the order they were
  pushed, none twice and none lost; when there is nothing more for it to read, it has read them all.
\<close>

theorem producer_ring_fifo:
  assumes "ring_run r c ps fs"
  shows "\<exists>waiting. ps = fs @ waiting \<and> (controller_step (pr_trbs r) c = None \<longrightarrow> waiting = [])"
proof -
  have "ring_ok r c" "ps = fs @ queued r c" using ring_run_invariant [OF assms] by simp_all
  then show ?thesis using controller_step_queued [of r c] by auto
qed

text \<open>
  Pushing a command on a ring in use always succeeds and keeps it usable: the check that the slot is
  free can never fail, as it compares with the cycle bit that the driver itself wrote on the last lap.
\<close>

lemma push_never_refused:
  assumes "ring_run r c ps fs"
  shows "\<exists>r'. push_command r t cb = Some r'"
  using push_command_ok [of r c t cb] ring_run_invariant [OF assms] by simp

text \<open>A full ring is overwritten: the commands that wait are lost and the controller stops.\<close>

lemma push_full_stalls:
  assumes "ring_ok r c" and "ct_ccs c \<noteq> pr_pcs r" and "ct_index c = pr_enqueue r" and "push_command r t cb = Some r'"
  shows "length (queued r c) = 127" and "controller_step (pr_trbs r') c = None"
proof -
  have e: "pr_enqueue r < 127" "length (pr_trbs r) = 128" using assms(1) by (simp_all add: ring_ok_def)
  show "length (queued r c) = 127" using assms(2,3) e by (simp add: queued_def)
  have "trb_cycle (pr_trbs r' ! pr_enqueue r) = pr_pcs r"
    using push_command_ok [OF assms(1), of t cb] assms(4) e by (auto simp: Let_def split: if_splits)
  then show "controller_step (pr_trbs r') c = None"
    using assms(2,3) by (simp add: controller_step_def)
qed

definition demo_ring :: "nat producer_ring" where
  "demo_ring = (case push_command (new_producer_ring 0x1000) (create_trb TRB_DATA 7 0 0) (Some 1) of Some r \<Rightarrow> r)"

lemma demo_ring_run: "ring_run demo_ring start_controller [payload (create_trb TRB_DATA 7 0 0)] []"
proof -
  have run: "ring_run (new_producer_ring 0x1000 :: nat producer_ring) start_controller [] []" by (rule ring_run.start)
  obtain r' where r': "push_command (new_producer_ring 0x1000) (create_trb TRB_DATA 7 0 0) (Some (1 :: nat)) = Some r'"
    using push_command_ok [OF new_ring_ok] by blast
  have "trb_type (create_trb TRB_DATA 7 0 0) \<noteq> TRB_LINK"
    by (simp add: trb_type_def create_trb_def type_field_def TRB_DATA_def TRB_LINK_def)
  from ring_run.push [OF run this _ r'] show ?thesis using r' by (simp add: demo_ring_def)
qed

theorem producer_ring_fifo_witness:
  "\<exists>waiting. [payload (create_trb TRB_DATA 7 0 0)] = [] @ waiting \<and>
     (controller_step (pr_trbs demo_ring) start_controller = None \<longrightarrow> waiting = [])"
  by (rule producer_ring_fifo [OF demo_ring_run])

subsection \<open>Completions and events\<close>

text \<open>A completion hands out the callback that was pushed with its block, once.\<close>

lemma process_completion_callback:
  assumes "i < RING_SIZE" and "length (pr_completions r) = RING_SIZE" and "pr_dma r + i * TRB_SIZE < 2 ^ 64"
    and "ev_kind e = TRB_COMMAND_COMPLETION" and "unat (ev_param e) = pr_dma r + i * TRB_SIZE"
  shows "process_completion r e = Some (pr_completions r ! i, r\<lparr>pr_completions := (pr_completions r)[i := None]\<rparr>)"
proof -
  have "usub (pr_dma r + i * TRB_SIZE) (pr_dma r) div TRB_SIZE = i"
    using assms(3) by (simp add: usub_def TRB_SIZE_def)
  then show ?thesis using assms by (simp add: process_completion_def)
qed

text \<open>The ring of events is read in order, and turns the cycle state at its end.\<close>

lemma process_event_advances:
  assumes "process_event r = Some (Some e, r')"
  shows "er_dequeue r' = (er_dequeue r + 1) mod RING_SIZE"
    and "er_ccs r' = (if er_dequeue r + 1 = RING_SIZE then \<not> er_ccs r else er_ccs r)"
  using assms by (auto simp: process_event_def Let_def bind_eq_Some_conv RING_SIZE_def split: if_splits)

text \<open>A control transfer pushes the setup block, the data block if there is data, and the status block.\<close>

lemma push_control_transfer_blocks:
  assumes "push_control_transfer r p (dma, n) cb = Some r'"
  shows "n = unat (sp_data_length p)"
    and "n = 0 \<Longrightarrow> \<exists>r1. push_command r (make_setup p False (get_direction p = DirIn)) None = Some r1 \<and>
      push_command r1 (make_status True (cb \<noteq> None)) cb = Some r'"
  using assms by (auto simp: push_control_transfer_def Let_def bind_eq_Some_conv)

end
