(* ===== verification/Format.thy ===== *)
theory Format
  imports Bek_String
begin

text \<open>
  \<open>bek/src/format.cpp\<close>, \<open>format.h\<close> and \<open>format_core.h\<close>: numbers as text and format strings.

  An output stream is the list of the bytes written to it, as in \<open>StringStream\<close>.  The arguments of
  \<open>format_to\<close> are values of a datatype; an argument whose type brings its own \<open>bek_basic_format\<close> is what
  that function writes.  A failed \<open>ASSERT\<close> and undefined behaviour are \<open>None\<close>.
\<close>

definition ch :: "char \<Rightarrow> u8" where
  "ch c = of_char c"

subsection \<open>Numbers\<close>

datatype Style = Decimal | UpperHex | LowerHex | Binary

record integral_formatter =
  if_style :: Style
  if_min_length :: nat

definition default_formatter :: integral_formatter where
  "default_formatter = \<lparr>if_style = Decimal, if_min_length = 1\<rparr>"

definition parse_style :: "u8 \<Rightarrow> Style \<Rightarrow> Style" where
  "parse_style c style =
     (if c = ch (CHR ''d'') then Decimal else if c = ch (CHR ''x'') then LowerHex
      else if c = ch (CHR ''X'') then UpperHex else if c = ch (CHR ''b'') then Binary else style)"

definition long_length :: "nat \<Rightarrow> integral_formatter \<Rightarrow> integral_formatter" where
  "long_length bits f =
     (case if_style f of Binary \<Rightarrow> f\<lparr>if_min_length := bits\<rparr>
        | UpperHex \<Rightarrow> f\<lparr>if_min_length := bits div 4\<rparr> | LowerHex \<Rightarrow> f\<lparr>if_min_length := bits div 4\<rparr> | Decimal \<Rightarrow> f)"

definition parse_spec :: "u8 list \<Rightarrow> integral_formatter \<Rightarrow> integral_formatter option" where
  "parse_spec spec f =
     (if length spec = 0 then Some f
      else do {
        verify (length spec = 2 \<or> length spec = 3);
        verify (spec ! 0 = ch (CHR '':''));
        (let f1 = f\<lparr>if_style := parse_style (spec ! 1) (if_style f)\<rparr>
         in Some (if length spec = 3
                  then (if spec ! 2 = ch (CHR ''L'') then long_length 64 f1
                        else if spec ! 2 = ch (CHR ''l'') then long_length 32 f1 else f1)
                  else f1)) })"

definition lowercase_alphabet :: "u8 list" where
  "lowercase_alphabet = map ch ''0123456789abcdef''"

definition uppercase_alphabet :: "u8 list" where
  "uppercase_alphabet = map ch ''0123456789ABCDEF''"

definition digit_char :: "bool \<Rightarrow> nat \<Rightarrow> u8" where
  "digit_char uppercase d = (if uppercase then uppercase_alphabet else lowercase_alphabet) ! d"

text \<open>The loop that fills the buffer from its end; \<open>i\<close> positions are left.\<close>

fun convert_loop :: "u8 list \<Rightarrow> nat \<Rightarrow> nat \<Rightarrow> bool \<Rightarrow> nat \<Rightarrow> u8 list \<times> nat" where
  "convert_loop buffer v base uppercase 0 = (buffer, 0)"
| "convert_loop buffer v base uppercase (Suc i) =
     (let buffer1 = buffer[i := digit_char uppercase (v mod base)]; v1 = v div base
      in if i > 0 \<and> v1 \<noteq> 0 then convert_loop buffer1 v1 base uppercase i else (buffer1, i))"

definition convert_unsigned_to_string :: "u64 \<Rightarrow> nat \<Rightarrow> bool \<Rightarrow> nat \<Rightarrow> u8 list option" where
  "convert_unsigned_to_string v base uppercase min_len = do {
     verify (2 \<le> base \<and> base \<le> 16);
     verify (min_len \<le> 64);
     (let buffer = replicate 64 (ch (CHR ''0''))
      in if v = 0 then Some (take min_len buffer)
         else (let (buffer1, i) = convert_loop buffer (unat v) base uppercase 64;
                   start = (if 64 - i < min_len then 64 - min_len else i)
               in Some (drop start buffer1))) }"

definition style_base :: "Style \<Rightarrow> nat" where
  "style_base s = (case s of UpperHex \<Rightarrow> 16 | LowerHex \<Rightarrow> 16 | Decimal \<Rightarrow> 10 | Binary \<Rightarrow> 2)"

definition format_unsigned :: "integral_formatter \<Rightarrow> u64 \<Rightarrow> u8 list option" where
  "format_unsigned f v =
     convert_unsigned_to_string v (style_base (if_style f)) (if_style f = UpperHex) (if_min_length f)"

text \<open>The negation of the least value is undefined.\<close>

definition format_signed :: "integral_formatter \<Rightarrow> int \<Rightarrow> u8 list option" where
  "format_signed f v = do {
     verify (v \<noteq> - (2 ^ 63));
     ds \<leftarrow> format_unsigned f (of_int (if v < 0 then - v else v));
     Some ((if v < 0 then [ch (CHR ''-'')] else []) @ ds) }"

subsection \<open>Format strings\<close>

datatype format_arg =
    ArgUnsigned u64
  | ArgSigned int
  | ArgChar u8
  | ArgString "u8 list"
  | ArgCString "u8 list"
  | ArgBasic "u8 list"

definition write_arg :: "format_arg \<Rightarrow> u8 list \<Rightarrow> u8 list option" where
  "write_arg arg spec =
     (case arg of
        ArgUnsigned v \<Rightarrow> do { f \<leftarrow> parse_spec spec default_formatter; format_unsigned f v }
      | ArgSigned v \<Rightarrow> do { f \<leftarrow> parse_spec spec default_formatter; format_signed f v }
      | ArgChar c \<Rightarrow> Some [c]
      | ArgString s \<Rightarrow> Some s
      | ArgCString m \<Rightarrow> do { n \<leftarrow> strlen m; Some (take n m) }
      | ArgBasic s \<Rightarrow> Some s)"

text \<open>The loop that looks for the closing brace of a specification.\<close>

function closing_brace :: "u8 list \<Rightarrow> nat \<Rightarrow> nat" where
  "closing_brace fmt b = (if b < length fmt \<and> fmt ! b \<noteq> ch (CHR ''}'') then closing_brace fmt (b + 1) else b)"
  by pat_completeness auto

termination closing_brace
  by (relation "measure (\<lambda>(fmt, b). length fmt - b)") auto

declare closing_brace.simps [simp del]

lemma closing_brace_ge: "b \<le> closing_brace fmt b"
proof (induction fmt b rule: closing_brace.induct)
  case (1 fmt b)
  then show ?case by (subst closing_brace.simps) auto
qed

definition substr :: "u8 list \<Rightarrow> nat \<Rightarrow> nat \<Rightarrow> u8 list" where
  "substr s a b = take (b - a) (drop a s)"

text \<open>The loop of \<open>format_to\<close>: \<open>a\<close> is where the text that is not yet written starts, \<open>b\<close> where the next byte is.\<close>

function format_loop :: "u8 list \<Rightarrow> nat \<Rightarrow> nat \<Rightarrow> format_arg list \<Rightarrow> u8 list \<Rightarrow> u8 list option" where
  "format_loop fmt a b args out =
     (if \<not> b < length fmt then Some (if b > a then out @ substr fmt a b else out)
      else if fmt ! b = ch (CHR ''{'')
      then (if \<not> b + 1 < length fmt then None
            else (let out1 = (if b > a then out @ substr fmt a b else out)
                  in if fmt ! (b + 1) = ch (CHR ''{'') then format_loop fmt (b + 1) (b + 2) args out1
                     else (let e = closing_brace fmt (b + 1)
                           in case args of
                                [] \<Rightarrow> None
                              | x # xs \<Rightarrow>
                                  (case write_arg x (substr fmt (b + 1) e) of
                                     None \<Rightarrow> None
                                   | Some s \<Rightarrow> format_loop fmt (e + 1) (e + 1) xs (out1 @ s)))))
      else if fmt ! b = ch (CHR ''}'')
      then (if \<not> (b + 1 < length fmt \<and> fmt ! (b + 1) = ch (CHR ''}'')) then None
            else format_loop fmt (b + 1) (b + 2) args out)
      else format_loop fmt a (b + 1) args out)"
  by pat_completeness auto

termination format_loop
proof (relation "measure (\<lambda>(fmt, a, b, args, out). length fmt - b)")
  fix fmt :: "u8 list" and a b :: nat and e :: nat
  assume "\<not> \<not> b < length fmt" and "e = closing_brace fmt (b + 1)"
  then show "((fmt, e + 1, e + 1, args', out'), (fmt, a, b, args, out)) \<in> measure (\<lambda>(fmt, a, b, args, out). length fmt - b)"
    for args' args :: "format_arg list" and out' out :: "u8 list"
    using closing_brace_ge [of "b + 1" fmt] by auto
qed auto

declare format_loop.simps [simp del]

definition format_to :: "u8 list \<Rightarrow> format_arg list \<Rightarrow> u8 list \<Rightarrow> u8 list option" where
  "format_to fmt args out = format_loop fmt 0 0 args out"

text \<open>\<open>StringStream::build_and_clear\<close> adds a zero and takes the string up to the first zero.\<close>

definition build_and_clear :: "u8 list \<Rightarrow> (u8 list \<times> u8 list) option" where
  "build_and_clear chars = do { n \<leftarrow> strlen (chars @ [0]); Some (take n (chars @ [0]), []) }"

definition format :: "u8 list \<Rightarrow> format_arg list \<Rightarrow> u8 list option" where
  "format fmt args = do { out \<leftarrow> format_to fmt args []; (s, _) \<leftarrow> build_and_clear out; Some s }"

subsection \<open>Digits\<close>

text \<open>The digits of a number, the most significant first, and the number that a text stands for.\<close>

function digits :: "nat \<Rightarrow> nat \<Rightarrow> nat list" where
  "digits base n = (if base < 2 \<or> n = 0 then [] else digits base (n div base) @ [n mod base])"
  by pat_completeness auto

termination digits
  by (relation "measure snd") auto

declare digits.simps [simp del]

lemma digits_0 [simp]: "digits base 0 = []"
  by (simp add: digits.simps)

lemma digits_step: "2 \<le> base \<Longrightarrow> 0 < n \<Longrightarrow> digits base n = digits base (n div base) @ [n mod base]"
  by (subst digits.simps) simp

definition read_digit :: "u8 \<Rightarrow> nat" where
  "read_digit c = (if c \<le> ch (CHR ''9'') then unat c - 48 else if c \<le> ch (CHR ''F'') then unat c - 55 else unat c - 87)"

definition read_number :: "nat \<Rightarrow> u8 list \<Rightarrow> nat" where
  "read_number base s = foldl (\<lambda>n c. n * base + read_digit c) 0 s"

lemma less_16_cases:
  "d < 16 \<Longrightarrow> d \<in> {0, 1, 2, 3, 4, 5, 6, 7, 8, 9, 10, 11, 12, 13, 14, 15 :: nat}"
  by (simp only: insert_iff empty_iff) presburger

lemma read_digit_char: "d < 16 \<Longrightarrow> read_digit (digit_char uppercase d) = d"
  by (drule less_16_cases, cases uppercase)
    (auto simp: digit_char_def uppercase_alphabet_def lowercase_alphabet_def read_digit_def ch_def)

lemma digits_bound: "2 \<le> base \<Longrightarrow> d \<in> set (digits base n) \<Longrightarrow> d < base"
proof (induction n rule: less_induct)
  case (less n)
  then show ?case
    using less.IH [of "n div base"] by (cases "n = 0") (auto simp: digits_step)
qed

lemma digit_char_nonzero: "d < 16 \<Longrightarrow> digit_char uppercase d \<noteq> 0"
  by (drule less_16_cases, cases uppercase)
    (auto simp: digit_char_def uppercase_alphabet_def lowercase_alphabet_def ch_def)

lemma length_digits: "2 \<le> base \<Longrightarrow> n < base ^ k \<Longrightarrow> length (digits base n) \<le> k"
proof (induction k arbitrary: n)
  case (Suc k)
  then show ?case
    by (cases "n = 0") (auto simp: digits_step less_mult_imp_div_less mult.commute)
qed simp

lemma read_digits:
  assumes "2 \<le> base" and "base \<le> 16"
  shows "read_number base (map (digit_char uppercase) (digits base n)) = n"
proof (induction n rule: less_induct)
  case (less n)
  show ?case
  proof (cases "n = 0")
    case True
    then show ?thesis by (simp add: read_number_def)
  next
    case False
    have "n mod base < base" using assms(1) by (intro mod_less_divisor) simp
    then have "n mod base < 16" using assms(2) by simp
    moreover have "read_number base (map (digit_char uppercase) (digits base (n div base))) = n div base"
      by (rule less) (use False assms in auto)
    ultimately show ?thesis
      using False assms by (simp add: digits_step read_number_def read_digit_char)
  qed
qed

lemma read_zeros: "read_number base (replicate k (ch (CHR ''0'')) @ s) = read_number base s"
proof (induction k)
  case (Suc k)
  then show ?case by (simp add: read_number_def read_digit_def ch_def)
qed simp

text \<open>The loop writes the digits in front of what is in the buffer from \<open>i\<close> on.\<close>

lemma convert_loop_digits:
  assumes "2 \<le> base" and "0 < v" and "v < base ^ i" and "i \<le> length buffer"
  shows "convert_loop buffer v base uppercase i =
     (take (i - length (digits base v)) buffer @ map (digit_char uppercase) (digits base v) @ drop i buffer,
      i - length (digits base v))"
  using assms(2-4)
proof (induction i arbitrary: buffer v)
  case (Suc i)
  let ?d = "digit_char uppercase (v mod base)"
  have upd: "buffer[i := ?d] = take i buffer @ ?d # drop (Suc i) buffer"
    using Suc.prems(3) by (simp add: upd_conv_take_nth_drop)
  show ?case
  proof (cases "v div base = 0")
    case True
    then show ?thesis using assms(1) Suc.prems upd by (simp add: digits_step)
  next
    case False
    then have "0 < i" using Suc.prems(2) by (cases i) auto
    have "v div base < base ^ i" using Suc.prems(2) by (simp add: less_mult_imp_div_less mult.commute)
    from length_digits [OF assms(1) this] Suc.IH [of "v div base" "buffer[i := ?d]"] this False \<open>0 < i\<close> show ?thesis
      using Suc.prems assms(1) upd by (simp add: digits_step)
  qed
qed simp

lemma convert_unsigned_digits:
  assumes "2 \<le> base" and "base \<le> 16" and "min_len \<le> 64"
  shows "convert_unsigned_to_string v base uppercase min_len = Some
     (replicate (min_len - length (digits base (unat v))) (ch (CHR ''0'')) @ map (digit_char uppercase) (digits base (unat v)))"
proof (cases "v = 0")
  case True
  then show ?thesis using assms by (simp add: convert_unsigned_to_string_def)
next
  case False
  let ?k = "length (digits base (unat v))"
  have "unat v < 2 ^ 64" using unsigned_less [of v] by simp
  also have "\<dots> \<le> base ^ 64" using assms(1) by (rule power_mono) simp
  finally have small: "unat v < base ^ 64" .
  have k: "?k \<le> 64" by (rule length_digits [OF assms(1) small])
  have "0 < unat v" using False by (simp add: unat_gt_0)
  from convert_loop_digits [OF assms(1) this small, of "replicate 64 (ch (CHR ''0''))" uppercase]
  have loop: "convert_loop (replicate 64 (ch (CHR ''0''))) (unat v) base uppercase 64 =
      (replicate (64 - ?k) (ch (CHR ''0'')) @ map (digit_char uppercase) (digits base (unat v)), 64 - ?k)"
    by simp
  show ?thesis
    using assms False k
    by (auto simp: convert_unsigned_to_string_def Let_def loop)
qed

text \<open>
  C34: Every number is formatted so that it can be read back: in each style and for every least length up
  to that of the buffer, the text of a number stands for the number in the base of the style, and is as
  long as the digits or the least length ask for.
\<close>

theorem format_unsigned_roundtrip:
  assumes "if_min_length f \<le> 64"
  shows "\<exists>s. format_unsigned f v = Some s \<and> read_number (style_base (if_style f)) s = unat v \<and>
    length s = max (if_min_length f) (length (digits (style_base (if_style f)) (unat v)))"
proof -
  have base: "2 \<le> style_base (if_style f)" "style_base (if_style f) \<le> 16"
    by (simp_all add: style_base_def split: Style.split)
  show ?thesis
    unfolding format_unsigned_def convert_unsigned_digits [OF base assms]
    by (simp add: read_zeros read_digits [OF base])
qed

theorem format_unsigned_roundtrip_witness:
  "\<exists>s. format_unsigned \<lparr>if_style = UpperHex, if_min_length = 8\<rparr> 0xBEEF = Some s \<and> read_number 16 s = 0xBEEF"
  using format_unsigned_roundtrip [of "\<lparr>if_style = UpperHex, if_min_length = 8\<rparr>" "0xBEEF"]
  by (auto simp: style_base_def)

subsection \<open>What a format string means\<close>

datatype piece = Plain "u8 list" | Brace | CloseBrace | Spec "u8 list"

fun flat_piece :: "piece \<Rightarrow> u8 list" where
  "flat_piece (Plain t) = t"
| "flat_piece Brace = [ch (CHR ''{''), ch (CHR ''{'')]"
| "flat_piece CloseBrace = [ch (CHR ''}''), ch (CHR ''}'')]"
| "flat_piece (Spec s) = [ch (CHR ''{'')] @ s @ [ch (CHR ''}'')]"

definition flat_pieces :: "piece list \<Rightarrow> u8 list" where
  "flat_pieces ps = concat (map flat_piece ps)"

fun piece_ok :: "piece \<Rightarrow> bool" where
  "piece_ok (Plain t) \<longleftrightarrow> ch (CHR ''{'') \<notin> set t \<and> ch (CHR ''}'') \<notin> set t"
| "piece_ok Brace \<longleftrightarrow> True"
| "piece_ok CloseBrace \<longleftrightarrow> True"
| "piece_ok (Spec s) \<longleftrightarrow> ch (CHR ''}'') \<notin> set s \<and> (s = [] \<or> hd s \<noteq> ch (CHR ''{''))"

text \<open>What the pieces mean, and what is written for them: \<open>pend\<close> is the text that is not yet written.\<close>

fun expand_pieces :: "piece list \<Rightarrow> format_arg list \<Rightarrow> u8 list \<Rightarrow> u8 list option" where
  "expand_pieces [] args out = Some out"
| "expand_pieces (Plain t # ps) args out = expand_pieces ps args (out @ t)"
| "expand_pieces (Brace # ps) args out = expand_pieces ps args (out @ [ch (CHR ''{'')])"
| "expand_pieces (CloseBrace # ps) args out = expand_pieces ps args (out @ [ch (CHR ''}'')])"
| "expand_pieces (Spec s # ps) [] out = None"
| "expand_pieces (Spec s # ps) (x # xs) out =
     (case write_arg x s of None \<Rightarrow> None | Some r \<Rightarrow> expand_pieces ps xs (out @ r))"

fun write_pieces :: "piece list \<Rightarrow> format_arg list \<Rightarrow> u8 list \<Rightarrow> u8 list \<Rightarrow> u8 list option" where
  "write_pieces [] args out pend = Some (out @ pend)"
| "write_pieces (Plain t # ps) args out pend = write_pieces ps args out (pend @ t)"
| "write_pieces (Brace # ps) args out pend = write_pieces ps args (out @ pend) [ch (CHR ''{'')]"
| "write_pieces (CloseBrace # ps) args out pend = write_pieces ps args out [ch (CHR ''}'')]"
| "write_pieces (Spec s # ps) [] out pend = None"
| "write_pieces (Spec s # ps) (x # xs) out pend =
     (case write_arg x s of None \<Rightarrow> None | Some r \<Rightarrow> write_pieces ps xs (out @ pend @ r) [])"

lemma write_pieces_expand:
  "CloseBrace \<notin> set ps \<Longrightarrow> write_pieces ps args out pend = expand_pieces ps args (out @ pend)"
  by (induction ps args out pend rule: write_pieces.induct) (auto split: option.split)

lemma braces_differ: "ch (CHR ''{'') \<noteq> ch (CHR ''}'')"
  by (simp add: ch_def)

lemma closing_brace_at:
  assumes "fmt = P @ s @ ch (CHR ''}'') # R" and "ch (CHR ''}'') \<notin> set s"
  shows "closing_brace fmt (length P) = length P + length s"
  using assms
proof (induction s arbitrary: P)
  case Nil
  then show ?case by (subst closing_brace.simps) simp
next
  case (Cons c s)
  have "closing_brace fmt (length (P @ [c])) = length (P @ [c]) + length s"
    by (rule Cons.IH) (use Cons.prems in simp_all)
  then show ?case using Cons.prems by (subst closing_brace.simps) auto
qed

lemma format_loop_plain:
  assumes "fmt = Q @ t @ R" and "ch (CHR ''{'') \<notin> set t" and "ch (CHR ''}'') \<notin> set t"
  shows "format_loop fmt a (length Q) args out = format_loop fmt a (length Q + length t) args out"
  using assms
proof (induction t arbitrary: Q)
  case (Cons c t)
  have "format_loop fmt a (length Q) args out = format_loop fmt a (length (Q @ [c])) args out"
    using Cons.prems by (subst format_loop.simps) auto
  also have "\<dots> = format_loop fmt a (length (Q @ [c]) + length t) args out"
    by (rule Cons.IH) (use Cons.prems in simp_all)
  finally show ?case by simp
qed simp

lemma substr_middle: "substr (P @ pend @ R) (length P) (length P + length pend) = pend"
  by (simp add: substr_def)

lemma format_loop_pieces:
  assumes "fmt = P @ pend @ flat_pieces ps" and "list_all piece_ok ps"
  shows "format_loop fmt (length P) (length P + length pend) args out = write_pieces ps args out pend"
  using assms
proof (induction ps arbitrary: P pend args out)
  case Nil
  then show ?case
    by (subst format_loop.simps) (auto simp: flat_pieces_def substr_def)
next
  case (Cons x ps)
  note IH = Cons.IH
  have ok: "list_all piece_ok ps" using Cons.prems(2) by simp
  show ?case
  proof (cases x)
    case (Plain t)
    have "format_loop fmt (length P) (length (P @ pend)) args out = format_loop fmt (length P) (length (P @ pend) + length t) args out"
      by (rule format_loop_plain) (use Cons.prems Plain in \<open>simp_all add: flat_pieces_def\<close>)
    moreover have "format_loop fmt (length P) (length P + length (pend @ t)) args out = write_pieces ps args out (pend @ t)"
      by (rule Cons.IH) (use Cons.prems Plain ok in \<open>simp_all add: flat_pieces_def\<close>)
    ultimately show ?thesis using Plain by (simp add: add.assoc)
  next
    case Brace
    let ?b = "length P + length pend"
    have fmt: "fmt = (P @ pend @ [ch (CHR ''{'')]) @ [ch (CHR ''{'')] @ flat_pieces ps"
      using Cons.prems Brace by (simp add: flat_pieces_def)
    then have at: "fmt ! ?b = ch (CHR ''{'')" "fmt ! (?b + 1) = ch (CHR ''{'')" "?b + 1 < length fmt"
      by (simp_all add: nth_append)
    have "substr fmt (length P) ?b = pend" using fmt by (simp add: substr_def)
    then have "format_loop fmt (length P) ?b args out = format_loop fmt (?b + 1) (?b + 2) args (out @ pend)"
      using at by (subst format_loop.simps) auto
    moreover have "format_loop fmt (length (P @ pend @ [ch (CHR ''{'')])) (length (P @ pend @ [ch (CHR ''{'')]) + length [ch (CHR ''{'')])
        args (out @ pend) = write_pieces ps args (out @ pend) [ch (CHR ''{'')]"
      by (rule Cons.IH [OF fmt ok])
    ultimately show ?thesis using Brace by simp
  next
    case CloseBrace
    let ?b = "length P + length pend"
    have fmt: "fmt = (P @ pend @ [ch (CHR ''}'')]) @ [ch (CHR ''}'')] @ flat_pieces ps"
      using Cons.prems CloseBrace by (simp add: flat_pieces_def)
    then have at: "fmt ! ?b = ch (CHR ''}'')" "fmt ! (?b + 1) = ch (CHR ''}'')" "?b + 1 < length fmt"
      by (simp_all add: nth_append)
    then have "format_loop fmt (length P) ?b args out = format_loop fmt (?b + 1) (?b + 2) args out"
      using braces_differ by (subst format_loop.simps) auto
    moreover have "format_loop fmt (length (P @ pend @ [ch (CHR ''}'')])) (length (P @ pend @ [ch (CHR ''}'')]) + length [ch (CHR ''}'')])
        args out = write_pieces ps args out [ch (CHR ''}'')]"
      by (rule Cons.IH [OF fmt ok])
    ultimately show ?thesis using CloseBrace by simp
  next
    case (Spec s)
    let ?b = "length P + length pend"
    have fmt: "fmt = (P @ pend @ [ch (CHR ''{'')]) @ s @ ch (CHR ''}'') # flat_pieces ps"
      using Cons.prems Spec by (simp add: flat_pieces_def)
    have s_ok: "ch (CHR ''}'') \<notin> set s" "s = [] \<or> hd s \<noteq> ch (CHR ''{'')" using Cons.prems(2) Spec by simp_all
    have at: "fmt ! ?b = ch (CHR ''{'')" "fmt ! (?b + 1) \<noteq> ch (CHR ''{'')" "?b + 1 < length fmt"
      using s_ok(2) braces_differ by (cases s; simp add: fmt nth_append)+
    have brace: "closing_brace fmt (?b + 1) = ?b + 1 + length s"
      using closing_brace_at [OF fmt s_ok(1)] by simp
    have parts: "substr fmt (length P) ?b = pend" "substr fmt (?b + 1) (?b + 1 + length s) = s"
      using fmt by (simp_all add: substr_def)
    show ?thesis
    proof (cases args)
      case Nil
      then show ?thesis using at Spec by (subst format_loop.simps) (simp add: Let_def)
    next
      case (Cons y ys)
      show ?thesis
      proof (cases "write_arg y s")
        case None
        then show ?thesis
          using at parts brace Cons Spec by (subst format_loop.simps) (simp add: Let_def)
      next
        case (Some r)
        have "format_loop fmt (length P) ?b args out = format_loop fmt (?b + length s + 2) (?b + length s + 2) ys (out @ pend @ r)"
          using at parts brace Cons Some by (subst format_loop.simps) (simp add: Let_def)
        moreover have next_piece: "fmt = (P @ pend @ [ch (CHR ''{'')] @ s @ [ch (CHR ''}'')]) @ [] @ flat_pieces ps"
          using fmt by simp
        ultimately show ?thesis
          using IH [OF next_piece ok, of ys "out @ pend @ r"] Some Cons Spec by (simp add: add.assoc)
      qed
    qed
  qed
qed

text \<open>
  C35: What is written for a format string of any pieces.  Text is kept until a brace or a specification
  follows, or the string ends; \<open>{{\<close> writes it and keeps one brace; a specification writes it and then the next
  argument formatted by it; but \<open>}}\<close> throws it away and keeps one brace.  So a format string without \<open>}}\<close> is
  written as its pieces mean, and one with \<open>}}\<close> lacks the text in front of it.  Formatting fails just when an
  argument is missing or cannot be formatted.
\<close>

theorem format_to_pieces:
  assumes "list_all piece_ok ps"
  shows "format_to (flat_pieces ps) args out = write_pieces ps args out [] \<and>
    (CloseBrace \<notin> set ps \<longrightarrow> format_to (flat_pieces ps) args out = expand_pieces ps args out)"
  using format_loop_pieces [of "flat_pieces ps" "[]" "[]" ps args out] assms write_pieces_expand [of ps args out "[]"]
  by (simp add: format_to_def)

theorem format_to_pieces_witness:
  "format_to (flat_pieces [Plain (map ch ''at ''), Spec (map ch '':X''), Brace]) [ArgUnsigned 0xAB] [] = Some (map ch ''at AB{'') \<and>
   format_to (flat_pieces [Plain (map ch ''ab''), CloseBrace]) [] [] = Some [ch (CHR ''}'')]"
proof -
  have "list_all piece_ok [Plain (map ch ''at ''), Spec (map ch '':X''), Brace]" by (simp add: ch_def)
  note first = format_to_pieces [OF this, of "[ArgUnsigned 0xAB]" "[]", THEN conjunct1]
  have "list_all piece_ok [Plain (map ch ''ab''), CloseBrace]" by (simp add: ch_def)
  note second = format_to_pieces [OF this, of "[]" "[]", THEN conjunct1]
  show ?thesis
    unfolding first second
    by (simp add: write_arg_def parse_spec_def parse_style_def format_unsigned_def convert_unsigned_digits style_base_def
        digits.simps digit_char_def uppercase_alphabet_def ch_def default_formatter_def)
qed

end
