(* ===== verification/Devices.thy ===== *)
theory Devices
  imports Format Transactional_Buffer
begin

text \<open>
  Named devices (\<open>kernel/src/peripherals/device.cpp\<close>, \<open>device.h\<close>) and the devices that answer messages of
  user programs (\<open>keyboard.h\<close>, \<open>mouse.h\<close>, \<open>api/protocols\<close>).

  The registry is the map that its hash table refines; devices are never taken out of it.
\<close>

subsection \<open>The registry\<close>

type_synonym 'd registry = "u8 list \<rightharpoonup> 'd"

definition device_name :: "u8 list \<Rightarrow> int \<Rightarrow> u8 list option" where
  "device_name name_prefix i = format (map ch ''{}{}'') [ArgString name_prefix, ArgSigned i]"

text \<open>The search for a free name; the counter is an \<open>int\<close>.\<close>

partial_function (option) free_name :: "'d registry \<Rightarrow> u8 list \<Rightarrow> int \<Rightarrow> u8 list option" where
  "free_name devices name_prefix i = do {
     nm \<leftarrow> device_name name_prefix i;
     (if devices nm \<noteq> None
      then do { verify (i + 1 < 2 ^ 31); free_name devices name_prefix (i + 1) }
      else Some nm) }"

definition register_device :: "'d registry \<Rightarrow> u8 list \<Rightarrow> 'd \<Rightarrow> (u8 list \<times> 'd registry) option" where
  "register_device devices name_prefix d = do {
     nm \<leftarrow> free_name devices name_prefix 0;
     verify (devices nm = None);
     Some (nm, devices(nm \<mapsto> d)) }"

definition get_device :: "'d registry \<Rightarrow> u8 list \<Rightarrow> 'd option" where
  "get_device devices name = devices name"

text \<open>The handle that \<open>open\<close> makes stands for its device.\<close>

definition open_device :: "'d registry \<Rightarrow> u8 list \<Rightarrow> 'd option" where
  "open_device devices name = get_device devices name"

subsection \<open>Keyboards and mice\<close>

record kb_report =
  kb_modifier_keys :: u8
  kb_keys :: "u8 list"

record mouse_report =
  ms_buttons :: u8
  ms_delta_x :: int
  ms_delta_y :: int
  ms_sequence_number :: u8

definition mouse_start :: mouse_report where
  "mouse_start = \<lparr>ms_buttons = 0, ms_delta_x = 0, ms_delta_y = 0, ms_sequence_number = 0\<rparr>"

definition GET_REPORT :: u32 where "GET_REPORT = 0"
definition KB_MESSAGE_SIZE :: nat where "KB_MESSAGE_SIZE = 12"
definition MOUSE_MESSAGE_SIZE :: nat where "MOUSE_MESSAGE_SIZE = 20"

text \<open>The bytes of the messages; padding is unspecified and 0.\<close>

definition kb_message :: "kb_report \<Rightarrow> u8 list" where
  "kb_message r = le_bytes 4 GET_REPORT @ [kb_modifier_keys r] @ kb_keys r"

definition mouse_message :: "mouse_report \<Rightarrow> u8 list" where
  "mouse_message r = le_bytes 4 GET_REPORT @ [ms_buttons r, 0, 0, 0] @ le_bytes 4 (of_int (ms_delta_x r) :: u32)
     @ le_bytes 4 (of_int (ms_delta_y r) :: u32) @ [ms_sequence_number r, 0, 0, 0]"

text \<open>Signed overflow of the accumulated movement is undefined.\<close>

definition add_delta :: "int \<Rightarrow> int \<Rightarrow> int option" where
  "add_delta a d = do { verify (- (2 ^ 31) \<le> a + d \<and> a + d < 2 ^ 31); Some (a + d) }"

definition update_report :: "mouse_report \<Rightarrow> u8 \<Rightarrow> int \<Rightarrow> int \<Rightarrow> mouse_report option" where
  "update_report r buttons dx dy = do {
     x \<leftarrow> add_delta (ms_delta_x r) dx;
     y \<leftarrow> add_delta (ms_delta_y r) dy;
     Some (r\<lparr>ms_buttons := buttons, ms_delta_x := x, ms_delta_y := y\<rparr>) }"

definition fetch_report :: "mouse_report \<Rightarrow> mouse_report \<times> mouse_report" where
  "fetch_report r = (r, \<lparr>ms_buttons = ms_buttons r, ms_delta_x = 0, ms_delta_y = 0,
     ms_sequence_number = ms_sequence_number r + 1\<rparr>)"

datatype device =
    Keyboard kb_report
  | Mouse mouse_report

text \<open>\<open>on_userspace_message\<close> of the two: the answer is written over the message.\<close>

definition reply :: "TransactionalBuffer \<Rightarrow> u8 list \<Rightarrow> (int expected \<times> TransactionalBuffer) option" where
  "reply buffer bs = do {
     (r, buffer1) \<leftarrow> tb_write_from buffer bs 0;
     Some (map_value int r, buffer1) }"

definition on_userspace_message :: "device \<Rightarrow> TransactionalBuffer \<Rightarrow> (int expected \<times> TransactionalBuffer \<times> device) option" where
  "on_userspace_message d buffer = do {
     r \<leftarrow> tb_read_object buffer 4 0;
     (case r of
        Err e \<Rightarrow> Some (Err e, buffer, d)
      | Value bs \<Rightarrow>
          if (le_word bs :: u32) \<noteq> GET_REPORT then Some (Err EINVAL, buffer, d)
          else (case d of
              Keyboard k \<Rightarrow>
                (if tb_size buffer \<noteq> KB_MESSAGE_SIZE then Some (Err EINVAL, buffer, d)
                 else do { (v, buffer1) \<leftarrow> reply buffer (kb_message k); Some (v, buffer1, d) })
            | Mouse m \<Rightarrow>
                (if tb_size buffer \<noteq> MOUSE_MESSAGE_SIZE then Some (Err EINVAL, buffer, d)
                 else (let (report, m1) = fetch_report m
                       in do { (v, buffer1) \<leftarrow> reply buffer (mouse_message report); Some (v, buffer1, Mouse m1) })))) }"

subsection \<open>Names\<close>

definition number_text :: "nat \<Rightarrow> u8 list" where
  "number_text n = replicate (1 - length (digits 10 n)) (ch (CHR ''0'')) @ map (digit_char False) (digits 10 n)"

lemma read_number_text [simp]: "read_number 10 (number_text n) = n"
  by (simp add: number_text_def read_zeros read_digits)

lemma number_text_nonzero: "0 \<notin> set (number_text n)"
proof -
  have "digit_char False d \<noteq> 0" if "d \<in> set (digits 10 n)" for d
    using digits_bound [OF _ that] by (intro digit_char_nonzero) simp
  then show ?thesis unfolding number_text_def by (auto simp: ch_def)
qed

lemma format_signed_number: "n < 2 ^ 31 \<Longrightarrow> format_signed default_formatter (int n) = Some (number_text n)"
proof -
  assume "n < 2 ^ 31"
  then have "unat (of_int (int n) :: u64) = n" by (simp add: unsigned_of_nat take_bit_nat_eq_self)
  then show ?thesis
    by (simp add: format_signed_def format_unsigned_def default_formatter_def style_base_def convert_unsigned_digits number_text_def)
qed

lemma device_name_eq:
  assumes "n < 2 ^ 31" and "0 \<notin> set name_prefix"
  shows "device_name name_prefix (int n) = Some (name_prefix @ number_text n)"
proof -
  have pieces: "map ch ''{}{}'' = flat_pieces [Spec [], Spec []]" by (simp add: flat_pieces_def)
  have "format_to (map ch ''{}{}'') [ArgString name_prefix, ArgSigned (int n)] [] = Some (name_prefix @ number_text n)"
    using format_loop_pieces [of "flat_pieces [Spec [], Spec []]" "[]" "[]" "[Spec [], Spec []]"
        "[ArgString name_prefix, ArgSigned (int n)]" "[]"] format_signed_number [OF assms(1)]
    unfolding pieces by (simp add: format_to_def write_arg_def parse_spec_def)
  moreover have "0 \<notin> set (name_prefix @ number_text n)" using assms(2) number_text_nonzero by simp
  ultimately show ?thesis
    using strlen_append_zero [of "name_prefix @ number_text n" "[]"]
    by (simp add: device_name_def format_def build_and_clear_def)
qed

lemma name_inject: "name_prefix @ number_text a = name_prefix @ number_text b \<Longrightarrow> a = b"
  by (metis read_number_text same_append_eq)

text \<open>Among the first names one is free, and the search finds the first of them.\<close>

lemma some_name_free:
  assumes "finite (dom devices)"
  shows "\<exists>n \<le> card (dom devices). devices (name_prefix @ number_text n) = None"
proof (rule ccontr)
  assume "\<not> ?thesis"
  then have "(\<lambda>n. name_prefix @ number_text n) ` {..card (dom devices)} \<subseteq> dom devices" by auto
  then have "card ((\<lambda>n. name_prefix @ number_text n) ` {..card (dom devices)}) \<le> card (dom devices)"
    using assms by (rule card_mono [rotated])
  moreover have "inj_on (\<lambda>n. name_prefix @ number_text n) {..card (dom devices)}"
    using name_inject by (intro inj_onI) blast
  ultimately show False by (simp add: card_image)
qed

lemma free_name_finds:
  assumes "\<forall>j < n. devices (name_prefix @ number_text j) \<noteq> None" and "devices (name_prefix @ number_text n) = None"
    and "n < 2 ^ 31" and "0 \<notin> set name_prefix" and "i \<le> n"
  shows "free_name devices name_prefix (int i) = Some (name_prefix @ number_text n)"
  using assms(5)
proof (induction "n - i" arbitrary: i)
  case 0
  then show ?case
    using assms(2) device_name_eq [OF assms(3,4)] by (subst free_name.simps) simp
next
  case (Suc k)
  then have less: "i < n" by simp
  have "device_name name_prefix (int i) = Some (name_prefix @ number_text i)"
    by (rule device_name_eq) (use less assms(3,4) in simp_all)
  moreover have "free_name devices name_prefix (int (i + 1)) = Some (name_prefix @ number_text n)"
    by (rule Suc.hyps(1)) (use Suc.hyps(2) less in simp_all)
  moreover have "int i + 1 < 2 ^ 31" using less assms(3) by simp
  ultimately show ?case
    using assms(1) less by (subst free_name.simps) (auto simp: add.commute)
qed

text \<open>
  C37: Registering a device always ends with a name of its own: for any devices that are registered the
  search stops, the name it finds is the prefix and a number and belongs to no other device, and only that
  name is added.
\<close>

theorem register_device_fresh:
  assumes "finite (dom devices)" and "card (dom devices) < 2 ^ 31" and "0 \<notin> set name_prefix"
  shows "\<exists>n. register_device devices name_prefix d =
      Some (name_prefix @ number_text n, devices(name_prefix @ number_text n \<mapsto> d)) \<and>
    devices (name_prefix @ number_text n) = None"
proof -
  obtain m where m: "m \<le> card (dom devices)" "devices (name_prefix @ number_text m) = None"
    using some_name_free [OF assms(1)] by blast
  define n where "n = (LEAST n. devices (name_prefix @ number_text n) = None)"
  have n: "devices (name_prefix @ number_text n) = None" "n \<le> m"
    unfolding n_def using m(2) by (auto intro: LeastI Least_le)
  have "\<forall>j < n. devices (name_prefix @ number_text j) \<noteq> None"
    unfolding n_def using not_less_Least by blast
  from free_name_finds [OF this n(1) _ assms(3), of 0]
  have "free_name devices name_prefix 0 = Some (name_prefix @ number_text n)"
    using n(2) m(1) assms(2) by simp
  then show ?thesis using n(1) by (auto simp: register_device_def)
qed

theorem register_device_fresh_witness:
  "\<exists>n. register_device [map ch ''kb0'' \<mapsto> True] (map ch ''kb'') False =
      Some (map ch ''kb'' @ number_text n, [map ch ''kb0'' \<mapsto> True, map ch ''kb'' @ number_text n \<mapsto> False]) \<and>
    [map ch ''kb0'' \<mapsto> True] (map ch ''kb'' @ number_text n) = None"
  by (rule register_device_fresh) (simp_all add: ch_def)

subsection \<open>The mouse\<close>

text \<open>What was fetched and what is still in the report add up to the movement that was reported.\<close>

lemma fetch_report_keeps_sum:
  assumes "update_report r buttons dx dy = Some r1" and "fetch_report r1 = (got, r2)"
  shows "ms_delta_x got + ms_delta_x r2 = ms_delta_x r + dx" and "ms_delta_y got + ms_delta_y r2 = ms_delta_y r + dy"
    and "ms_buttons got = buttons" and "ms_sequence_number r2 = ms_sequence_number r + 1"
  using assms by (auto simp: update_report_def add_delta_def fetch_report_def bind_eq_Some_conv)

subsection \<open>Names of block devices\<close>

text \<open>\<open>BlockDeviceRegistry\<close> of \<open>filesystem/block_device.cpp\<close>: identifiers, and the partitions of a device.\<close>

record 'd blk_registry =
  br_next_id :: nat
  br_next_ids :: "u8 list \<rightharpoonup> nat"
  br_raw_devices :: "'d list"
  br_partitions :: "('d \<times> nat \<times> nat \<times> nat \<times> nat) list"

definition allocate_identifiers :: "'d blk_registry \<Rightarrow> u8 list \<Rightarrow> ((u8 list \<times> nat) \<times> 'd blk_registry) option" where
  "allocate_identifiers reg name_prefix =
     (let device_id = br_next_id reg;
          reg1 = reg\<lparr>br_next_id := (br_next_id reg + 1) mod 2 ^ 32\<rparr>;
          (name_suffix, ids) = (case br_next_ids reg1 name_prefix of
             Some x \<Rightarrow> (x, (br_next_ids reg1)(name_prefix \<mapsto> (x + 1) mod 2 ^ 32))
           | None \<Rightarrow> (0, (br_next_ids reg1)(name_prefix \<mapsto> 1)))
      in do {
        nm \<leftarrow> format (map ch ''{}{}'') [ArgString name_prefix, ArgUnsigned (of_nat name_suffix)];
        Some ((nm, device_id), reg1\<lparr>br_next_ids := ids\<rparr>) })"

text \<open>The partitions that the probe of a device finds: device, number, identifier, first sector and size.\<close>

fun add_partitions :: "'d \<Rightarrow> nat \<Rightarrow> (nat \<times> nat) list \<Rightarrow> 'd blk_registry \<Rightarrow> 'd blk_registry" where
  "add_partitions d i [] reg = reg"
| "add_partitions d i ((sector_index, size_sectors) # ps) reg =
     add_partitions d (i + 1) ps (reg\<lparr>br_partitions := br_partitions reg @ [(d, i, br_next_id reg, sector_index, size_sectors)],
       br_next_id := (br_next_id reg + 1) mod 2 ^ 32\<rparr>)"

definition register_raw_device :: "'d \<Rightarrow> (nat \<times> nat) list \<Rightarrow> 'd blk_registry \<Rightarrow> 'd blk_registry" where
  "register_raw_device d partitions reg = add_partitions d 0 partitions (reg\<lparr>br_raw_devices := br_raw_devices reg @ [d]\<rparr>)"

definition get_accessible_devices :: "'d blk_registry \<Rightarrow> ('d \<times> nat \<times> nat \<times> nat \<times> nat) list" where
  "get_accessible_devices reg = br_partitions reg"

lemma unsigned_device_name:
  assumes "n < 2 ^ 32" and "0 \<notin> set name_prefix"
  shows "format (map ch ''{}{}'') [ArgString name_prefix, ArgUnsigned (of_nat n)] = Some (name_prefix @ number_text n)"
proof -
  have pieces: "map ch ''{}{}'' = flat_pieces [Spec [], Spec []]" by (simp add: flat_pieces_def)
  have "format_unsigned default_formatter (of_nat n) = Some (number_text n)"
    using assms(1) by (simp add: format_unsigned_def default_formatter_def style_base_def convert_unsigned_digits number_text_def
        unsigned_of_nat take_bit_nat_eq_self)
  then have "format_to (map ch ''{}{}'') [ArgString name_prefix, ArgUnsigned (of_nat n)] [] = Some (name_prefix @ number_text n)"
    using format_loop_pieces [of "flat_pieces [Spec [], Spec []]" "[]" "[]" "[Spec [], Spec []]"
        "[ArgString name_prefix, ArgUnsigned (of_nat n)]" "[]"]
    unfolding pieces by (simp add: format_to_def write_arg_def parse_spec_def)
  moreover have "0 \<notin> set (name_prefix @ number_text n)" using assms(2) number_text_nonzero by simp
  ultimately show ?thesis
    using strlen_append_zero [of "name_prefix @ number_text n" "[]"] by (simp add: format_def build_and_clear_def)
qed

text \<open>Two devices registered one after the other under one prefix have different names.\<close>

definition next_suffix :: "'d blk_registry \<Rightarrow> u8 list \<Rightarrow> nat" where
  "next_suffix reg name_prefix = (case br_next_ids reg name_prefix of None \<Rightarrow> 0 | Some x \<Rightarrow> x)"

lemma allocate_identifiers_eq:
  assumes "next_suffix reg name_prefix < 2 ^ 32" and "0 \<notin> set name_prefix"
  shows "allocate_identifiers reg name_prefix = Some ((name_prefix @ number_text (next_suffix reg name_prefix), br_next_id reg),
    reg\<lparr>br_next_id := (br_next_id reg + 1) mod 2 ^ 32,
      br_next_ids := (br_next_ids reg)(name_prefix \<mapsto> (next_suffix reg name_prefix + 1) mod 2 ^ 32)\<rparr>)"
proof (cases "br_next_ids reg name_prefix")
  case None
  then show ?thesis
    using unsigned_device_name [of 0 name_prefix] assms(2) by (simp add: allocate_identifiers_def next_suffix_def)
next
  case (Some x)
  then show ?thesis
    using unsigned_device_name [of x name_prefix] assms by (simp add: allocate_identifiers_def next_suffix_def)
qed

lemma identifiers_differ:
  assumes "allocate_identifiers reg name_prefix = Some ((nm1, id1), reg1)"
    and "allocate_identifiers reg1 name_prefix = Some ((nm2, id2), reg2)"
    and "0 \<notin> set name_prefix" and "next_suffix reg name_prefix + 1 < 2 ^ 32"
  shows "nm1 \<noteq> nm2"
proof -
  have "next_suffix reg name_prefix < 2 ^ 32" using assms(4) by simp
  from allocate_identifiers_eq [OF this assms(3)]
  have one: "nm1 = name_prefix @ number_text (next_suffix reg name_prefix)"
      "br_next_ids reg1 name_prefix = Some (next_suffix reg name_prefix + 1)"
    using assms(1,4) by auto
  then have suffix: "next_suffix reg1 name_prefix = next_suffix reg name_prefix + 1"
    unfolding next_suffix_def [of reg1] by simp
  then have "next_suffix reg1 name_prefix < 2 ^ 32" using assms(4) by simp
  from allocate_identifiers_eq [OF this assms(3)] have "nm2 = name_prefix @ number_text (next_suffix reg name_prefix + 1)"
    using assms(2) suffix by simp
  then show ?thesis using one(1) name_inject [of name_prefix "next_suffix reg name_prefix" "next_suffix reg name_prefix + 1"] by auto
qed

end
