(* ===== verification/Usb.thy ===== *)
theory Usb
  imports Xhci_Ring Devices
begin

text \<open>
  USB devices above the host controller: descriptors (\<open>kernel/src/usb/descriptors.cpp\<close>, \<open>descriptors.h\<close>),
  the enumeration of a device (\<open>usb.cpp\<close>, \<open>usb.h\<close>) and boot keyboards and mice (\<open>hid.cpp\<close>, \<open>hid.h\<close>).

  Scheduling a transfer is a request that is handed to the controller; what the code does in the callback
  of a transfer is a function of its result and buffer.
\<close>

subsection \<open>Descriptors\<close>

datatype TransferType = Control | Isochronous | Bulk | Interrupt

record usb_endpoint =
  ue_number :: u8
  ue_direction :: Direction
  ue_type :: TransferType
  ue_max_packet_size :: u16
  ue_interval :: u8
  ue_is_notification :: bool

record usb_interface =
  ui_class :: u8
  ui_subclass :: u8
  ui_protocol :: u8
  ui_number :: u8
  ui_alternative :: u8
  ui_endpoints :: "usb_endpoint list"

definition CONFIGURATION_SIZE :: nat where "CONFIGURATION_SIZE = 9"
definition INTERFACE_SIZE :: nat where "INTERFACE_SIZE = 9"
definition ENDPOINT_SIZE :: nat where "ENDPOINT_SIZE = 7"
definition DEVICE_SIZE :: nat where "DEVICE_SIZE = 18"

definition DESC_DEVICE :: u8 where "DESC_DEVICE = 1"
definition DESC_CONFIGURATION :: u8 where "DESC_CONFIGURATION = 2"
definition DESC_INTERFACE :: u8 where "DESC_INTERFACE = 4"
definition DESC_ENDPOINT :: u8 where "DESC_ENDPOINT = 5"

definition transfer_type_of :: "u8 \<Rightarrow> TransferType" where
  "transfer_type_of b = (if b = 0 then Control else if b = 1 then Isochronous else if b = 2 then Bulk else Interrupt)"

definition get_at :: "u8 list \<Rightarrow> nat \<Rightarrow> nat \<Rightarrow> u8 list option" where
  "get_at buffer off n = do { verify (off + n \<le> length buffer); Some (take n (drop off buffer)) }"

definition interface_of :: "u8 list \<Rightarrow> usb_interface" where
  "interface_of d = \<lparr>ui_class = d ! 5, ui_subclass = d ! 6, ui_protocol = d ! 7, ui_number = d ! 2,
     ui_alternative = d ! 3, ui_endpoints = []\<rparr>"

definition to_endpoint :: "u8 list \<Rightarrow> usb_endpoint" where
  "to_endpoint d = \<lparr>ue_number = d ! 2 AND 0xF, ue_direction = (if d ! 2 AND push_bit 7 1 \<noteq> 0 then DirIn else DirOut),
     ue_type = transfer_type_of (d ! 3 AND 3), ue_max_packet_size = le_word (take 2 (drop 4 d)), ue_interval = d ! 6,
     ue_is_notification = (d ! 3 AND push_bit 4 1 \<noteq> 0)\<rparr>"

definition add_endpoint :: "usb_interface list \<Rightarrow> usb_endpoint \<Rightarrow> usb_interface list option" where
  "add_endpoint ifs ep =
     (if ifs = [] then None
      else Some (butlast ifs @ [(last ifs)\<lparr>ui_endpoints := ui_endpoints (last ifs) @ [ep]\<rparr>]))"

text \<open>What one descriptor does to the interfaces.\<close>

definition parse_descriptor :: "u8 list \<Rightarrow> nat \<Rightarrow> u8 \<Rightarrow> usb_interface list \<Rightarrow> usb_interface list option" where
  "parse_descriptor buffer off kind ifs =
     (if kind = DESC_INTERFACE then do { d \<leftarrow> get_at buffer off INTERFACE_SIZE; Some (ifs @ [interface_of d]) }
      else if kind = DESC_ENDPOINT then do { d \<leftarrow> get_at buffer off ENDPOINT_SIZE; add_endpoint ifs (to_endpoint d) }
      else Some ifs)"

function parse_descriptors :: "u8 list \<Rightarrow> nat \<Rightarrow> usb_interface list \<Rightarrow> usb_interface list option" where
  "parse_descriptors buffer off ifs =
     (if \<not> off < length buffer then Some ifs
      else do {
        header \<leftarrow> get_at buffer off 2;
        ifs1 \<leftarrow> parse_descriptor buffer off (header ! 1) ifs;
        (if header ! 0 = 0 then None else parse_descriptors buffer (off + unat (header ! 0)) ifs1) })"
  by pat_completeness auto

termination parse_descriptors
  by (relation "measure (\<lambda>(buffer, off, ifs). length buffer - off)") (auto simp: unat_gt_0 intro!: diff_less_mono2)

declare parse_descriptors.simps [simp del]

definition parse_configuration :: "u8 list \<Rightarrow> usb_interface list option" where
  "parse_configuration buffer = do {
     config \<leftarrow> get_at buffer 0 CONFIGURATION_SIZE;
     verify (config ! 4 = 1);
     verify (unat (config ! 0) = CONFIGURATION_SIZE);
     parse_descriptors buffer CONFIGURATION_SIZE [] }"

subsection \<open>Enumeration\<close>

record transfer_request =
  tr_type :: TransferType
  tr_direction :: Direction
  tr_endpoint :: u8
  tr_buffer :: "nat option"
  tr_setup :: "SetupPacket option"

definition TTYPE_STANDARD :: u8 where "TTYPE_STANDARD = 0"
definition TTYPE_CLASS :: u8 where "TTYPE_CLASS = 1"
definition TARGET_DEVICE :: u8 where "TARGET_DEVICE = 0"
definition TARGET_INTERFACE :: u8 where "TARGET_INTERFACE = 1"

definition make_descriptor_request :: "u8 \<Rightarrow> nat \<Rightarrow> u8 \<Rightarrow> transfer_request" where
  "make_descriptor_request kind len index =
     \<lparr>tr_type = Control, tr_direction = DirIn, tr_endpoint = 0, tr_buffer = Some len,
      tr_setup = Some \<lparr>sp_request_type = make_req_type DirIn TTYPE_STANDARD TARGET_DEVICE, sp_request = 6,
        sp_value = push_bit 8 (ucast kind) OR ucast index, sp_index = 0, sp_data_length = of_nat len\<rparr>\<rparr>"

text \<open>What the enumeration waits for, and what it asks for next.\<close>

datatype enum_stage = WantDevice | WantConfigHeader | WantConfig | WantEnabled "usb_interface list"

datatype enum_action = Schedule transfer_request | EnableConfiguration u8 "usb_endpoint list"

definition begin_enumeration :: "enum_stage \<times> enum_action" where
  "begin_enumeration = (WantDevice, Schedule (make_descriptor_request DESC_DEVICE DEVICE_SIZE 0))"

definition active_endpoints :: "usb_interface list \<Rightarrow> usb_endpoint list" where
  "active_endpoints ifs = concat (map ui_endpoints (filter (\<lambda>i. ui_alternative i = 0) ifs))"

definition enumerate_step :: "enum_stage \<Rightarrow> bool \<Rightarrow> u8 list \<Rightarrow> (enum_stage \<times> enum_action) option" where
  "enumerate_step stage success buffer =
     (case stage of
        WantDevice \<Rightarrow> do {
          verify success;
          _ \<leftarrow> get_at buffer 0 DEVICE_SIZE;
          Some (WantConfigHeader, Schedule (make_descriptor_request DESC_CONFIGURATION CONFIGURATION_SIZE 0)) }
      | WantConfigHeader \<Rightarrow> do {
          verify success;
          d \<leftarrow> get_at buffer 0 CONFIGURATION_SIZE;
          Some (WantConfig, Schedule (make_descriptor_request DESC_CONFIGURATION (unat (le_word (take 2 (drop 2 d)) :: u16)) 0)) }
      | WantConfig \<Rightarrow> do {
          verify success;
          d \<leftarrow> get_at buffer 0 CONFIGURATION_SIZE;
          ifs \<leftarrow> parse_configuration buffer;
          Some (WantEnabled ifs, EnableConfiguration (d ! 5) (active_endpoints ifs)) }
      | WantEnabled ifs \<Rightarrow> None)"

subsection \<open>Boot keyboards and mice\<close>

datatype hid_kind = HidKeyboard | HidMouse

record hid =
  hid_kind :: hid_kind
  hid_endpoint :: u8
  hid_keys :: "u8 list"
  hid_mouse :: mouse_report

definition report_size :: "hid_kind \<Rightarrow> nat" where
  "report_size k = (case k of HidKeyboard \<Rightarrow> 8 | HidMouse \<Rightarrow> 3)"

definition new_hid :: "hid_kind \<Rightarrow> u8 \<Rightarrow> hid" where
  "new_hid k ep = \<lparr>hid_kind = k, hid_endpoint = ep, hid_keys = replicate 8 0, hid_mouse = mouse_start\<rparr>"

definition set_protocol_request :: "u8 \<Rightarrow> transfer_request" where
  "set_protocol_request interface_number =
     \<lparr>tr_type = Control, tr_direction = DirOut, tr_endpoint = 0, tr_buffer = None,
      tr_setup = Some \<lparr>sp_request_type = make_req_type DirOut TTYPE_CLASS TARGET_INTERFACE, sp_request = 0x0B,
        sp_value = 0, sp_index = ucast interface_number, sp_data_length = 0\<rparr>\<rparr>"

definition hid_probe :: "usb_interface \<Rightarrow> (hid \<times> transfer_request) option" where
  "hid_probe i =
     (if ui_class i \<noteq> 3 \<or> ui_subclass i \<noteq> 1 then None
      else if ui_protocol i \<noteq> 1 \<and> ui_protocol i \<noteq> 2 then None
      else if length (ui_endpoints i) \<noteq> 1 then None
      else (let ep = ui_endpoints i ! 0
            in if ue_type ep \<noteq> Interrupt \<or> ue_direction ep \<noteq> DirIn then None
               else Some (new_hid (if ui_protocol i = 1 then HidKeyboard else HidMouse) (ue_number ep),
                          set_protocol_request (ui_number i))))"

text \<open>After the configuration is enabled the interfaces are probed.\<close>

definition enumeration_enabled :: "usb_interface list \<Rightarrow> bool \<Rightarrow> (hid \<times> transfer_request) list option" where
  "enumeration_enabled ifs success = do {
     verify success;
     Some (List.map_filter hid_probe (filter (\<lambda>i. ui_alternative i = 0) ifs)) }"

definition interrupt_request :: "hid \<Rightarrow> transfer_request" where
  "interrupt_request h = \<lparr>tr_type = Interrupt, tr_direction = DirIn, tr_endpoint = hid_endpoint h,
     tr_buffer = Some (report_size (hid_kind h)), tr_setup = None\<rparr>"

definition on_set_protocol :: "hid \<Rightarrow> bool \<Rightarrow> transfer_request option" where
  "on_set_protocol h success = (if \<not> success then None else Some (interrupt_request h))"

definition signed_byte :: "u8 \<Rightarrow> int" where
  "signed_byte b = sint b"

definition on_report :: "hid \<Rightarrow> u8 list \<Rightarrow> hid option" where
  "on_report h buffer = do {
     r \<leftarrow> get_at buffer 0 (report_size (hid_kind h));
     (case hid_kind h of
        HidKeyboard \<Rightarrow> Some (if hid_keys h \<noteq> r then h\<lparr>hid_keys := r\<rparr> else h)
      | HidMouse \<Rightarrow> do {
          m \<leftarrow> update_report (hid_mouse h) (r ! 0) (signed_byte (r ! 1)) (signed_byte (r ! 2));
          Some (h\<lparr>hid_mouse := m\<rparr>) }) }"

definition on_interrupt :: "hid \<Rightarrow> u8 list \<Rightarrow> bool \<Rightarrow> (hid \<times> transfer_request option) option" where
  "on_interrupt h buffer success = do {
     verify (length buffer = report_size (hid_kind h));
     (if \<not> success then Some (h, None)
      else do { h1 \<leftarrow> on_report h buffer; Some (h1, Some (interrupt_request h1)) }) }"

text \<open>The report that a keyboard gives to user programs: the modifiers and six keys in seven places.\<close>

definition get_report :: "hid \<Rightarrow> kb_report" where
  "get_report h = \<lparr>kb_modifier_keys = hid_keys h ! 0, kb_keys = take 6 (drop 2 (hid_keys h)) @ [0]\<rparr>"

definition hid_device :: "hid \<Rightarrow> device" where
  "hid_device h = (case hid_kind h of HidKeyboard \<Rightarrow> Keyboard (get_report h) | HidMouse \<Rightarrow> Mouse (hid_mouse h))"

definition try_convert_keycode :: "u8 \<Rightarrow> u8" where
  "try_convert_keycode c =
     (if 4 \<le> c \<and> c \<le> 29 then c + 61 else if 30 \<le> c \<and> c \<le> 38 then c + 19 else if c = 39 then 48 else 0)"

subsection \<open>Descriptors are read back\<close>

text \<open>A configuration as a device sends it.\<close>

definition type_code :: "TransferType \<Rightarrow> u8" where
  "type_code t = (case t of Control \<Rightarrow> 0 | Isochronous \<Rightarrow> 1 | Bulk \<Rightarrow> 2 | Interrupt \<Rightarrow> 3)"

definition enc_endpoint :: "usb_endpoint \<Rightarrow> u8 list" where
  "enc_endpoint ep = [7, DESC_ENDPOINT, ue_number ep OR (if ue_direction ep = DirIn then push_bit 7 1 else 0),
     type_code (ue_type ep) OR (if ue_is_notification ep then push_bit 4 1 else 0)] @ le_bytes 2 (ue_max_packet_size ep) @ [ue_interval ep]"

text \<open>A descriptor of another kind, such as that of a HID class: its kind and what follows.\<close>

definition enc_other :: "u8 \<times> u8 list \<Rightarrow> u8 list" where
  "enc_other d = of_nat (2 + length (snd d)) # fst d # snd d"

definition other_ok :: "u8 \<times> u8 list \<Rightarrow> bool" where
  "other_ok d \<longleftrightarrow> fst d \<noteq> DESC_INTERFACE \<and> fst d \<noteq> DESC_ENDPOINT \<and> length (snd d) < 254"

text \<open>An interface is sent with the descriptors of its class and its endpoints.\<close>

type_synonym sent_interface = "usb_interface \<times> (u8 \<times> u8 list) list"

definition enc_interface :: "sent_interface \<Rightarrow> u8 list" where
  "enc_interface x = (let i = fst x in [9, DESC_INTERFACE, ui_number i, ui_alternative i, of_nat (length (ui_endpoints i)), ui_class i,
     ui_subclass i, ui_protocol i, 0] @ concat (map enc_other (snd x)) @ concat (map enc_endpoint (ui_endpoints i)))"

text \<open>
  Several descriptors with the same number are the alternate settings of one interface; the
  configuration says how many interfaces, that is how many different numbers, there are.
\<close>

definition interface_count :: "sent_interface list \<Rightarrow> nat" where
  "interface_count xs = card (ui_number ` fst ` set xs)"

definition enc_configuration :: "u8 \<Rightarrow> sent_interface list \<Rightarrow> u8 list" where
  "enc_configuration config_value xs =
     (let body = concat (map enc_interface xs)
      in [9, DESC_CONFIGURATION] @ le_bytes 2 (of_nat (9 + length body) :: u16) @
         [of_nat (interface_count xs), config_value, 0, 0, 0] @ body)"

definition interface_ok :: "sent_interface \<Rightarrow> bool" where
  "interface_ok x \<longleftrightarrow> (\<forall>ep\<in>set (ui_endpoints (fst x)). ue_number ep < 16) \<and> list_all other_ok (snd x)"

lemma length_enc_endpoint [simp]: "length (enc_endpoint ep) = 7"
  by (simp add: enc_endpoint_def)

lemma number_cases:
  assumes "n < (16 :: u8)"
  shows "n \<in> {0, 1, 2, 3, 4, 5, 6, 7, 8, 9, 10, 11, 12, 13, 14, 15}"
proof -
  have "unat n < 16" using assms by (simp add: word_less_nat_alt)
  from imageI [OF less_16_cases [OF this], of "of_nat :: nat \<Rightarrow> u8"] show ?thesis by simp
qed

lemma endpoint_address:
  assumes "n < (16 :: u8)"
  shows "(n OR (if b then push_bit 7 1 else 0)) AND 0xF = n"
    and "(n OR (if b then push_bit 7 1 else 0)) AND push_bit 7 1 \<noteq> 0 \<longleftrightarrow> b"
  using number_cases [OF assms] by (cases b; auto)+

lemma endpoint_attributes:
  "transfer_type_of ((type_code t OR (if b then push_bit 4 1 else 0)) AND 3) = t"
  "(type_code t OR (if b then push_bit 4 1 else 0)) AND push_bit 4 1 \<noteq> 0 \<longleftrightarrow> b"
  by (cases t; cases b; simp add: type_code_def transfer_type_of_def)+

lemma to_endpoint_enc: "ue_number ep < 16 \<Longrightarrow> to_endpoint (enc_endpoint ep) = ep"
  using endpoint_address [of "ue_number ep" "ue_direction ep = DirIn"]
    endpoint_attributes [of "ue_type ep" "ue_is_notification ep"]
  by (cases "ue_direction ep") (simp_all add: to_endpoint_def enc_endpoint_def le_word_le_bytes_full nth_append)

text \<open>The loop over the descriptors of the endpoints of an interface, and over whole interfaces.\<close>

lemma get_at_middle: "length P = off \<Longrightarrow> n \<le> length D \<Longrightarrow> get_at (P @ D @ R) off n = Some (take n D)"
  by (simp add: get_at_def)

lemma endpoint_descriptor:
  assumes "length P = off" and "ue_number ep < 16"
  shows "parse_descriptors (P @ enc_endpoint ep @ R) off (ifs @ [i]) =
    parse_descriptors (P @ enc_endpoint ep @ R) (off + 7) (ifs @ [i\<lparr>ui_endpoints := ui_endpoints i @ [ep]\<rparr>])"
proof -
  let ?d = "enc_endpoint ep"
  have "get_at (P @ ?d @ R) off 2 = Some (take 2 ?d)" by (rule get_at_middle) (use assms(1) in simp_all)
  moreover have "take 2 ?d = [7, DESC_ENDPOINT]" by (simp add: enc_endpoint_def)
  moreover have "get_at (P @ ?d @ R) off ENDPOINT_SIZE = Some ?d"
    using get_at_middle [OF assms(1), of 7 ?d R] by (simp add: ENDPOINT_SIZE_def)
  moreover have "DESC_ENDPOINT \<noteq> DESC_INTERFACE" by (simp add: DESC_ENDPOINT_def DESC_INTERFACE_def)
  ultimately show ?thesis
    using assms to_endpoint_enc [OF assms(2)]
    by (subst parse_descriptors.simps) (simp add: parse_descriptor_def add_endpoint_def)
qed

lemma endpoint_descriptors:
  assumes "length P = off" and "\<forall>ep\<in>set eps. ue_number ep < 16"
  shows "parse_descriptors (P @ concat (map enc_endpoint eps) @ R) off (ifs @ [i]) =
    parse_descriptors (P @ concat (map enc_endpoint eps) @ R) (off + length (concat (map enc_endpoint eps)))
      (ifs @ [i\<lparr>ui_endpoints := ui_endpoints i @ eps\<rparr>])"
  using assms
proof (induction eps arbitrary: P off i)
  case (Cons ep eps)
  let ?i = "i\<lparr>ui_endpoints := ui_endpoints i @ [ep]\<rparr>"
  have "parse_descriptors ((P @ enc_endpoint ep) @ concat (map enc_endpoint eps) @ R) (off + 7) (ifs @ [?i]) =
    parse_descriptors ((P @ enc_endpoint ep) @ concat (map enc_endpoint eps) @ R) (off + 7 + length (concat (map enc_endpoint eps)))
      (ifs @ [?i\<lparr>ui_endpoints := ui_endpoints ?i @ eps\<rparr>])"
    by (rule Cons.IH) (use Cons.prems in simp_all)
  then show ?case
    using endpoint_descriptor [of P off ep "concat (map enc_endpoint eps) @ R" ifs i] Cons.prems by (simp add: add.assoc)
qed simp

lemma other_descriptors:
  assumes "length P = off" and "list_all other_ok ds"
  shows "parse_descriptors (P @ concat (map enc_other ds) @ R) off ifs =
    parse_descriptors (P @ concat (map enc_other ds) @ R) (off + length (concat (map enc_other ds))) ifs"
  using assms
proof (induction ds arbitrary: P off)
  case (Cons d ds)
  let ?d = "enc_other d"
  let ?all = "P @ ?d @ concat (map enc_other ds) @ R"
  have len: "length ?d = 2 + length (snd d)" by (simp add: enc_other_def)
  have small: "unat (of_nat (2 + length (snd d)) :: u8) = 2 + length (snd d)"
    using Cons.prems(2) by (subst unat_of_nat) (simp add: other_ok_def)
  have "get_at ?all off 2 = Some (take 2 ?d)" by (rule get_at_middle) (use Cons.prems(1) len in simp_all)
  moreover have "take 2 ?d = [of_nat (2 + length (snd d)), fst d]" by (simp add: enc_other_def)
  moreover have "(of_nat (2 + length (snd d)) :: u8) \<noteq> 0" using small by (metis add_is_0 unat_0 zero_neq_numeral)
  ultimately have "parse_descriptors ?all off ifs = parse_descriptors ?all (off + length ?d) ifs"
    using Cons.prems small len
    by (subst parse_descriptors.simps) (simp add: parse_descriptor_def other_ok_def del: of_nat_add)
  moreover have "parse_descriptors ((P @ ?d) @ concat (map enc_other ds) @ R) (off + length ?d) ifs =
    parse_descriptors ((P @ ?d) @ concat (map enc_other ds) @ R) (off + length ?d + length (concat (map enc_other ds))) ifs"
    by (rule Cons.IH) (use Cons.prems in simp_all)
  ultimately show ?case by (simp add: add.assoc)
qed simp

lemma interface_descriptors:
  assumes "length P = off" and "\<forall>x\<in>set xs. interface_ok x"
  shows "parse_descriptors (P @ concat (map enc_interface xs)) off ifs = Some (ifs @ map fst xs)"
  using assms
proof (induction xs arbitrary: P off ifs)
  case Nil
  then show ?case by (subst parse_descriptors.simps) simp
next
  case (Cons x xs)
  obtain i ds where x: "x = (i, ds)" by (cases x)
  let ?rest = "concat (map enc_interface xs)" and ?eps = "concat (map enc_endpoint (ui_endpoints i))"
    and ?others = "concat (map enc_other ds)"
  let ?d = "[9, DESC_INTERFACE, ui_number i, ui_alternative i, of_nat (length (ui_endpoints i)), ui_class i,
     ui_subclass i, ui_protocol i, 0] :: u8 list"
  let ?all = "P @ ?d @ ?others @ ?eps @ ?rest"
  have "get_at ?all off 2 = Some (take 2 ?d)" by (rule get_at_middle) (use Cons.prems(1) in simp_all)
  moreover have "get_at ?all off INTERFACE_SIZE = Some ?d"
    using get_at_middle [OF Cons.prems(1), of 9 ?d "?others @ ?eps @ ?rest"] by (simp add: INTERFACE_SIZE_def)
  moreover have "interface_of ?d = i\<lparr>ui_endpoints := []\<rparr>" by (cases i) (simp add: interface_of_def)
  ultimately have "parse_descriptors ?all off ifs = parse_descriptors ?all (off + 9) (ifs @ [i\<lparr>ui_endpoints := []\<rparr>])"
    using Cons.prems(1) by (subst parse_descriptors.simps) (simp add: parse_descriptor_def)
  also have "\<dots> = parse_descriptors ((P @ ?d) @ ?others @ ?eps @ ?rest) (off + 9 + length ?others) (ifs @ [i\<lparr>ui_endpoints := []\<rparr>])"
    using other_descriptors [of "P @ ?d" "off + 9" ds "?eps @ ?rest" "ifs @ [i\<lparr>ui_endpoints := []\<rparr>]"] Cons.prems
    by (simp add: interface_ok_def x)
  also have "\<dots> = parse_descriptors ((P @ ?d @ ?others) @ ?eps @ ?rest) (off + 9 + length ?others + length ?eps) (ifs @ [i])"
    using endpoint_descriptors [of "P @ ?d @ ?others" "off + 9 + length ?others" "ui_endpoints i" ?rest ifs "i\<lparr>ui_endpoints := []\<rparr>"]
      Cons.prems by (simp add: interface_ok_def x)
  also have "\<dots> = Some ((ifs @ [i]) @ map fst xs)"
    using Cons.IH [of "P @ ?d @ ?others @ ?eps" "off + 9 + length ?others + length ?eps" "ifs @ [i]"] Cons.prems by simp
  finally show ?case by (simp add: enc_interface_def [of "(i, ds)"] x)
qed

lemma one_interface: "(of_nat (interface_count xs) :: u8) = 1 \<longleftrightarrow> interface_count xs = 1"
proof -
  have "interface_count xs \<le> card (UNIV :: u8 set)" unfolding interface_count_def by (intro card_mono) auto
  then have "interface_count xs \<le> 256" by (simp add: card_word)
  then consider "interface_count xs = 256" | "interface_count xs < 256" by linarith
  then show ?thesis
  proof cases
    case 1
    then show ?thesis by simp
  next
    case 2
    then have "unat (of_nat (interface_count xs) :: u8) = interface_count xs" by (simp add: unat_of_nat)
    then show ?thesis by (metis unat_1 of_nat_1)
  qed
qed

text \<open>
  C38: The descriptors of a configuration of one interface are read back: from the bytes that a device sends
  for any alternate settings of it, with any descriptors of its class among them, \<open>parse_configuration\<close>
  makes the same interfaces, each with its endpoints in order.  A configuration of several
  interfaces, or of none, stops the kernel.
\<close>

theorem parse_configuration_roundtrip:
  assumes "\<forall>x\<in>set xs. interface_ok x"
  shows "parse_configuration (enc_configuration config_value xs) =
    (if interface_count xs = 1 then Some (map fst xs) else None)"
proof -
  let ?body = "concat (map enc_interface xs)"
  let ?head = "[9, DESC_CONFIGURATION] @ le_bytes 2 (of_nat (9 + length ?body) :: u16) @
     [of_nat (interface_count xs), config_value, 0, 0, 0]"
  have "parse_descriptors (?head @ ?body) 9 [] = Some ([] @ map fst xs)"
    by (rule interface_descriptors) (use assms in simp_all)
  then show ?thesis
    using one_interface [of xs]
    by (simp add: parse_configuration_def enc_configuration_def Let_def get_at_def CONFIGURATION_SIZE_def nth_append)
qed

definition demo_interface :: usb_interface where
  "demo_interface = \<lparr>ui_class = 3, ui_subclass = 1, ui_protocol = 1, ui_number = 0, ui_alternative = 0,
     ui_endpoints = [\<lparr>ue_number = 1, ue_direction = DirIn, ue_type = Interrupt, ue_max_packet_size = 8, ue_interval = 10,
       ue_is_notification = False\<rparr>]\<rparr>"

theorem parse_configuration_roundtrip_witness:
  "parse_configuration (enc_configuration 1 [(demo_interface, [(0x21, replicate 7 0)])]) = Some [demo_interface] \<and>
   parse_configuration (enc_configuration 1 [(demo_interface, []), (demo_interface\<lparr>ui_number := 1\<rparr>, [])]) = None"
  using parse_configuration_roundtrip [of "[(demo_interface, [(0x21, replicate 7 0)])]" 1]
    parse_configuration_roundtrip [of "[(demo_interface, []), (demo_interface\<lparr>ui_number := 1\<rparr>, [])]" 1]
  by (simp add: interface_ok_def other_ok_def demo_interface_def interface_count_def DESC_INTERFACE_def DESC_ENDPOINT_def)

text \<open>A keyboard that is enumerated reports on its interrupt endpoint, again and again while transfers succeed.\<close>

lemma demo_enumeration:
  "enumeration_enabled [demo_interface] True = Some [(new_hid HidKeyboard 1, set_protocol_request 0)]"
  by (simp add: enumeration_enabled_def demo_interface_def hid_probe_def List.map_filter_def)

lemma on_interrupt_again:
  assumes "hid_kind h = HidKeyboard" and "length buffer = 8"
  shows "on_interrupt h buffer True = Some (h\<lparr>hid_keys := buffer\<rparr>, Some (interrupt_request h))"
    and "get_report (h\<lparr>hid_keys := buffer\<rparr>) = \<lparr>kb_modifier_keys = buffer ! 0, kb_keys = drop 2 buffer @ [0]\<rparr>"
  using assms by (auto simp: on_interrupt_def on_report_def get_at_def report_size_def interrupt_request_def get_report_def)

end
