(* ===== verification/Virtio.thy ===== *)
theory Virtio
  imports Addresses
begin

text \<open>
  VirtIO queues and the VirtIO block device (\<open>kernel/src/peripherals/virtio.cpp\<close>, \<open>virtio.h\<close>,
  \<open>virtio/block.cpp\<close>).

  The registers of the device and the used ring, which the device writes, are arguments: the features it
  offers, whether a queue is ready, the index and entries of the used ring.  A callback is a value, and
  what calling it does to the queue and to the rest of the system \<open>'s\<close> is a parameter.  The wait loop of
  \<open>blocking_transfer\<close> is left out.
\<close>

subsection \<open>Split queues\<close>

definition DESC_NEXT :: u16 where "DESC_NEXT = 1"
definition DESC_WRITE :: u16 where "DESC_WRITE = 2"

record vq_desc =
  vd_address :: uSize
  vd_length :: nat
  vd_flags :: u16
  vd_next :: nat

definition vd_has_next :: "vq_desc \<Rightarrow> bool" where
  "vd_has_next d \<longleftrightarrow> vd_flags d AND DESC_NEXT \<noteq> 0"

record 'c split_vq =
  vq_descs :: "vq_desc list"
  vq_avail_idx :: nat
  vq_avail :: "nat list"
  vq_callbacks :: "nat \<rightharpoonup> 'c"
  vq_next_free :: nat
  vq_id :: nat
  vq_free :: nat
  vq_last_seen :: nat

definition split_vq_available_size :: "nat \<Rightarrow> nat" where
  "split_vq_available_size queue_num = 6 + 2 * queue_num"

definition split_vq_used_size :: "nat \<Rightarrow> nat" where
  "split_vq_used_size queue_num = 6 + 8 * queue_num"

text \<open>The other fields of the descriptors are what the memory holds.\<close>

definition new_split_vq :: "(nat \<Rightarrow> vq_desc) \<Rightarrow> nat \<Rightarrow> nat \<Rightarrow> 'c split_vq" where
  "new_split_vq memory queue_num queue_idx =
     \<lparr>vq_descs = map (\<lambda>i. (memory i)\<lparr>vd_next := (i + 1) mod 2 ^ 16\<rparr>) [0..<queue_num], vq_avail_idx = 0,
      vq_avail = replicate queue_num 0, vq_callbacks = Map.empty, vq_next_free = 0, vq_id = queue_idx,
      vq_free = queue_num, vq_last_seen = 0\<rparr>"

definition allocate_descriptor :: "'c split_vq \<Rightarrow> nat option \<times> 'c split_vq" where
  "allocate_descriptor q =
     (if vq_next_free q < length (vq_descs q)
      then (let idx = vq_next_free q; d = vq_descs q ! idx
            in (Some idx, q\<lparr>vq_free := (vq_free q + 2 ^ 32 - 1) mod 2 ^ 32, vq_next_free := vd_next d,
                  vq_descs := (vq_descs q)[idx := d\<lparr>vd_next := length (vq_descs q) mod 2 ^ 16\<rparr>]\<rparr>))
      else (None, q))"

definition place_available :: "'c split_vq \<Rightarrow> nat \<Rightarrow> 'c split_vq" where
  "place_available q index =
     q\<lparr>vq_avail := (vq_avail q)[vq_avail_idx q mod length (vq_descs q) := index],
       vq_avail_idx := (vq_avail_idx q + 1) mod 2 ^ 16\<rparr>"

text \<open>The walk to the end of a chain, and the number of its descriptors.\<close>

partial_function (option) chain_end :: "vq_desc list \<Rightarrow> nat \<Rightarrow> nat \<Rightarrow> (nat \<times> nat) option" where
  "chain_end descs i count =
     (if \<not> i < length descs then None
      else if vd_has_next (descs ! i) then chain_end descs (vd_next (descs ! i)) (count + 1)
      else Some (i, count))"

text \<open>One turn of the loop of \<open>process_used\<close>: the callback and the queue before it is called.\<close>

definition process_entry :: "'c split_vq \<Rightarrow> nat \<Rightarrow> ('c option \<times> 'c split_vq) option" where
  "process_entry q entry_id = do {
     (last_desc, count) \<leftarrow> chain_end (vq_descs q) entry_id 1;
     Some (vq_callbacks q (entry_id mod 2 ^ 16),
       q\<lparr>vq_callbacks := (vq_callbacks q)(entry_id mod 2 ^ 16 := None),
         vq_descs := (vq_descs q)[last_desc := (vq_descs q ! last_desc)\<lparr>vd_next := vq_next_free q mod 2 ^ 16\<rparr>],
         vq_next_free := entry_id,
         vq_free := (vq_free q + count) mod 2 ^ 32,
         vq_last_seen := (vq_last_seen q + 1) mod 2 ^ 32\<rparr>) }"

partial_function (option) process_used :: "('c \<Rightarrow> nat \<Rightarrow> 'c split_vq \<Rightarrow> 's \<Rightarrow> ('c split_vq \<times> 's) option) \<Rightarrow>
    nat \<Rightarrow> (nat \<times> nat) list \<Rightarrow> 'c split_vq \<Rightarrow> 's \<Rightarrow> ('c split_vq \<times> 's) option" where
  "process_used call used_idx entries q s =
     (if vq_last_seen q = used_idx then Some (q, s)
      else do {
        x \<leftarrow> process_entry q (fst (entries ! (vq_last_seen q mod length (vq_descs q))));
        y \<leftarrow> (case fst x of
                None \<Rightarrow> Some (snd x, s)
              | Some cb \<Rightarrow> call cb (snd (entries ! (vq_last_seen q mod length (vq_descs q)))) (snd x) s);
        process_used call used_idx entries (fst y) (snd y) })"

subsection \<open>The transport\<close>

datatype transfer_direction = ElementIn | ElementOut

record transfer_element =
  te_direction :: transfer_direction
  te_address :: uSize
  te_size :: nat

text \<open>The loop of \<open>queue_transfer\<close> over the elements, with the last descriptor and the first one.\<close>

fun link_elements :: "transfer_element list \<Rightarrow> nat option \<Rightarrow> nat \<Rightarrow> 'c split_vq \<Rightarrow> bool \<times> nat \<times> 'c split_vq" where
  "link_elements [] last_desc start_idx q = (True, start_idx, q)"
| "link_elements (e # es) last_desc start_idx q =
     (case allocate_descriptor q of
        (None, q1) \<Rightarrow> (False, start_idx, q1)
      | (Some idx, q1) \<Rightarrow>
          (let descs1 = (case last_desc of
                 None \<Rightarrow> vq_descs q1
               | Some l \<Rightarrow> (vq_descs q1)[l := (vq_descs q1 ! l)\<lparr>vd_next := idx, vd_flags := vd_flags (vq_descs q1 ! l) OR DESC_NEXT\<rparr>]);
               start1 = (case last_desc of None \<Rightarrow> idx | Some l \<Rightarrow> start_idx);
               descs2 = descs1[idx := (descs1 ! idx)\<lparr>vd_address := te_address e, vd_length := te_size e mod 2 ^ 32,
                 vd_flags := (if te_direction e = ElementOut then 0 else DESC_WRITE)\<rparr>]
           in link_elements es (Some idx) start1 (q1\<lparr>vq_descs := descs2\<rparr>)))"

record 'c transport =
  tp_queues :: "'c split_vq list"
  tp_notified :: "nat list"

text \<open>The last queue with the number is used.\<close>

definition find_queue :: "'c split_vq list \<Rightarrow> nat \<Rightarrow> nat option" where
  "find_queue queues idx =
     (case filter (\<lambda>i. vq_id (queues ! i) = idx) [0..<length queues] of [] \<Rightarrow> None | is \<Rightarrow> Some (last is))"

definition queue_elements :: "'c split_vq \<Rightarrow> transfer_element list \<Rightarrow> 'c \<Rightarrow> (bool \<times> 'c split_vq) option" where
  "queue_elements q elements cb =
     (if vq_free q < length elements then Some (False, q)
      else (case link_elements elements None 0 q of
              (False, _, q1) \<Rightarrow> Some (False, q1)
            | (True, start_idx, q1) \<Rightarrow> do {
                verify (vq_callbacks q1 start_idx = None);
                Some (True, place_available (q1\<lparr>vq_callbacks := (vq_callbacks q1)(start_idx \<mapsto> cb)\<rparr>) start_idx) }))"

definition queue_transfer :: "'c transport \<Rightarrow> (nat \<Rightarrow> bool) \<Rightarrow> nat \<Rightarrow> transfer_element list \<Rightarrow> 'c \<Rightarrow> (bool \<times> 'c transport) option" where
  "queue_transfer tp ready queue_idx elements cb = do {
     verify (elements \<noteq> []);
     (if \<not> ready queue_idx then Some (False, tp)
      else (case find_queue (tp_queues tp) queue_idx of
              None \<Rightarrow> Some (False, tp)
            | Some i \<Rightarrow> do {
                (ok, q) \<leftarrow> queue_elements (tp_queues tp ! i) elements cb;
                Some (ok, tp\<lparr>tp_queues := (tp_queues tp)[i := q],
                  tp_notified := (if ok then tp_notified tp @ [queue_idx] else tp_notified tp)\<rparr>) })) }"

definition sensible_max_queue_num :: nat where "sensible_max_queue_num = 32"

definition setup_vqueue :: "(nat \<Rightarrow> vq_desc) \<Rightarrow> 'c transport \<Rightarrow> bool \<Rightarrow> nat \<Rightarrow> nat \<Rightarrow> bool \<times> 'c transport" where
  "setup_vqueue memory tp ready max_num queue_idx =
     (if ready then (False, tp)
      else if max_num = 0 then (False, tp)
      else (True, tp\<lparr>tp_queues := tp_queues tp @ [new_split_vq memory (min max_num sensible_max_queue_num) queue_idx]\<rparr>))"

text \<open>The features that are asked for; \<open>accepted\<close> is the answer of the device to them.\<close>

definition configure_features :: "u64 \<Rightarrow> (u64 \<Rightarrow> bool) \<Rightarrow> u64 \<Rightarrow> u64 \<Rightarrow> u64 option" where
  "configure_features device_feats accepted required supported =
     (if device_feats AND required \<noteq> required then None
      else (let feats = device_feats AND supported in if accepted feats then Some feats else None))"

text \<open>A notification that is for a used buffer processes every queue, with its used ring.\<close>

fun process_queues :: "('c \<Rightarrow> nat \<Rightarrow> 'c split_vq \<Rightarrow> 's \<Rightarrow> ('c split_vq \<times> 's) option) \<Rightarrow>
    (nat \<times> (nat \<times> nat) list) list \<Rightarrow> 'c split_vq list \<Rightarrow> 's \<Rightarrow> ('c split_vq list \<times> 's) option" where
  "process_queues call used [] s = Some ([], s)"
| "process_queues call used (q # qs) s =
     (case used of
        [] \<Rightarrow> None
      | (idx, entries) # us \<Rightarrow> do {
          (q1, s1) \<leftarrow> process_used call idx entries q s;
          (qs1, s2) \<leftarrow> process_queues call us qs s1;
          Some (q1 # qs1, s2) })"

definition on_notification :: "('c \<Rightarrow> nat \<Rightarrow> 'c split_vq \<Rightarrow> 's \<Rightarrow> ('c split_vq \<times> 's) option) \<Rightarrow>
    u32 \<Rightarrow> (nat \<times> (nat \<times> nat) list) list \<Rightarrow> 'c transport \<Rightarrow> 's \<Rightarrow> ('c transport \<times> 's) option" where
  "on_notification call interrupt_status used tp s =
     (if interrupt_status AND 1 \<noteq> 0
      then do { (qs, s1) \<leftarrow> process_queues call used (tp_queues tp) s; Some (tp\<lparr>tp_queues := qs\<rparr>, s1) }
      else Some (tp, s))"

subsection \<open>The block device\<close>

definition BLK_SECTOR_SIZE :: nat where "BLK_SECTOR_SIZE = 512"

record block_request =
  br_sector :: nat
  br_within :: nat
  br_transfer_size :: nat
  br_elements :: "transfer_element list"

text \<open>
  The header is written into the request buffer, of which \<open>request\<close> are the bytes as they were
  allocated: the sector, then the type; the reserved word is left as it is.
\<close>

definition BLK_REQUEST_IN :: u32 where "BLK_REQUEST_IN = 0"

definition block_read_header :: "block_request \<Rightarrow> u8 list \<Rightarrow> u8 list option" where
  "block_read_header r request = do {
     b \<leftarrow> mem_write request 8 (le_bytes 8 (word_of_nat (br_sector r) :: u64));
     mem_write b 0 (le_bytes 4 BLK_REQUEST_IN) }"

text \<open>
  The request of a read; \<open>dma\<close> is the address, for the device, of the buffer of \<open>transfer_size + 17\<close>
  bytes that the pool of the transport gives for it.
\<close>

definition block_read_request :: "uSize \<Rightarrow> uSize \<Rightarrow> uSize \<Rightarrow> block_request" where
  "block_read_request dma byte_offset n =
     (let sector_index = byte_offset div BLK_SECTOR_SIZE;
          offset_within_sector = byte_offset - sector_index * BLK_SECTOR_SIZE;
          sector_count = ceil_div (uadd n offset_within_sector) BLK_SECTOR_SIZE;
          transfer_size = sector_count * BLK_SECTOR_SIZE
      in \<lparr>br_sector = sector_index, br_within = offset_within_sector, br_transfer_size = transfer_size,
          br_elements = [\<lparr>te_direction = ElementOut, te_address = dma, te_size = 16\<rparr>,
            \<lparr>te_direction = ElementIn, te_address = dma + 16, te_size = transfer_size\<rparr>,
            \<lparr>te_direction = ElementIn, te_address = dma + transfer_size + 16, te_size = 1\<rparr>]\<rparr>)"

definition block_schedule_read :: "block_request transport \<Rightarrow> (nat \<Rightarrow> bool) \<Rightarrow> uSize \<Rightarrow> uSize \<Rightarrow> uSize \<Rightarrow>
    (bool \<times> block_request transport) option" where
  "block_schedule_read tp ready dma byte_offset n =
     (let r = block_read_request dma byte_offset n in queue_transfer tp ready 0 (br_elements r) r)"

text \<open>The callback: \<open>request\<close> are the bytes of the request buffer when it is called; the data and the status.\<close>

definition block_read_done :: "block_request \<Rightarrow> u8 list \<Rightarrow> uSize \<Rightarrow> (u8 list \<times> bool) option" where
  "block_read_done r request n = do {
     verify (br_transfer_size r + 16 < length request);
     verify (n \<le> MAX_MEMCOPY);
     bs \<leftarrow> mem_read request (16 + br_within r) n;
     Some (bs, request ! (br_transfer_size r + 16) = 0) }"

subsection \<open>Free and used descriptors\<close>

fun free_chain :: "vq_desc list \<Rightarrow> nat list \<Rightarrow> nat \<Rightarrow> bool" where
  "free_chain ds [] i \<longleftrightarrow> length ds \<le> i"
| "free_chain ds (x # xs) i \<longleftrightarrow> i = x \<and> x < length ds \<and> free_chain ds xs (vd_next (ds ! x))"

fun used_chain :: "vq_desc list \<Rightarrow> nat list \<Rightarrow> bool" where
  "used_chain ds [] \<longleftrightarrow> False"
| "used_chain ds [x] \<longleftrightarrow> x < length ds \<and> \<not> vd_has_next (ds ! x)"
| "used_chain ds (x # y # zs) \<longleftrightarrow> x < length ds \<and> vd_has_next (ds ! x) \<and> vd_next (ds ! x) = y \<and> used_chain ds (y # zs)"

text \<open>The descriptors are the free list \<open>F\<close> and the chains \<open>Cs\<close> that the device works on.\<close>

definition queue_ok :: "'c split_vq \<Rightarrow> nat list \<Rightarrow> nat list list \<Rightarrow> bool" where
  "queue_ok q F Cs \<longleftrightarrow> 0 < length (vq_descs q) \<and> length (vq_descs q) < 2 ^ 16 \<and>
     length (vq_avail q) = length (vq_descs q) \<and>
     distinct (F @ concat Cs) \<and> set (F @ concat Cs) = {..<length (vq_descs q)} \<and>
     (\<forall>d\<in>set (vq_descs q). vd_next d < 2 ^ 16) \<and> vq_next_free q < 2 ^ 16 \<and>
     free_chain (vq_descs q) F (vq_next_free q) \<and> (\<forall>C\<in>set Cs. used_chain (vq_descs q) C) \<and>
     vq_free q = length F \<and> dom (vq_callbacks q) = hd ` set Cs"

lemma free_chain_cong:
  "length ds' = length ds \<Longrightarrow> \<forall>x\<in>set F. ds' ! x = ds ! x \<Longrightarrow> free_chain ds' F i = free_chain ds F i"
  by (induction F arbitrary: i) auto

lemma used_chain_cong:
  "length ds' = length ds \<Longrightarrow> \<forall>x\<in>set C. ds' ! x = ds ! x \<Longrightarrow> used_chain ds' C = used_chain ds C"
  by (induction ds C rule: used_chain.induct) auto

lemma used_chain_nonempty: "used_chain ds C \<Longrightarrow> C \<noteq> []"
  by auto

lemma has_next_set: "vd_has_next (d\<lparr>vd_next := i, vd_flags := f OR DESC_NEXT\<rparr>)"
proof -
  have "(f OR 1) AND 1 = (1 :: u16)" by (rule bit_word_eqI) (auto simp: bit_simps)
  then show ?thesis by (simp add: vd_has_next_def DESC_NEXT_def)
qed

text \<open>A chain is extended by one descriptor at its end.\<close>

lemma used_chain_snoc:
  assumes "used_chain ds D" and "x \<notin> set D" and "x < length ds" and "vd_has_next d1" and "vd_next d1 = x"
    and "\<not> vd_has_next d2" and "distinct D"
  shows "used_chain (ds[last D := d1, x := d2]) (D @ [x])"
  using assms(1-3,7)
proof (induction ds D rule: used_chain.induct)
  case (2 ds y)
  then show ?case using assms(4-6) by (auto simp: nth_list_update)
next
  case (3 ds y z zs)
  have "last (z # zs) \<in> set (z # zs)" by (rule last_in_set) simp
  then have "last (z # zs) \<noteq> y" using 3 by auto
  then show ?case using 3 assms(4-6) by (auto simp del: last.simps simp: nth_list_update last_ConsR)
qed simp

text \<open>A chain that is given back is put in front of the free list.\<close>

lemma free_chain_return:
  assumes "used_chain ds C" and "distinct C" and "set C \<inter> set F = {}" and "free_chain ds F nf" and "vd_next d = nf"
  shows "free_chain (ds[last C := d]) (C @ F) (hd C)"
  using assms(1-4)
proof (induction ds C rule: used_chain.induct)
  case (2 ds x)
  have "free_chain (ds[x := d]) F nf = free_chain ds F nf"
    by (rule free_chain_cong) (use 2 in \<open>auto simp: nth_list_update\<close>)
  then show ?case using 2 assms(5) by simp
next
  case (3 ds x y zs)
  have "last (y # zs) \<in> set (y # zs)" by (rule last_in_set) simp
  then have "last (y # zs) \<noteq> x" using 3 by auto
  then show ?case using 3 by (auto simp del: last.simps simp: nth_list_update last_ConsR)
qed simp

text \<open>Filling in one element: a descriptor moves from the free list to the chain \<open>D\<close> in the making.\<close>

definition linking :: "'c split_vq \<Rightarrow> nat list \<Rightarrow> nat list \<Rightarrow> nat option \<Rightarrow> bool" where
  "linking q F D last_desc \<longleftrightarrow> distinct (F @ D) \<and> length (vq_descs q) < 2 ^ 16 \<and> set D \<subseteq> {..<length (vq_descs q)} \<and>
     (\<forall>d\<in>set (vq_descs q). vd_next d < 2 ^ 16) \<and> vq_next_free q < 2 ^ 16 \<and>
     free_chain (vq_descs q) F (vq_next_free q) \<and> vq_free q = length F \<and>
     (case last_desc of None \<Rightarrow> D = [] | Some l \<Rightarrow> used_chain (vq_descs q) D \<and> l = last D)"

definition link_one :: "transfer_element \<Rightarrow> nat option \<Rightarrow> nat \<Rightarrow> 'c split_vq \<Rightarrow> 'c split_vq" where
  "link_one e last_desc idx q1 =
     (let descs1 = (case last_desc of
            None \<Rightarrow> vq_descs q1
          | Some l \<Rightarrow> (vq_descs q1)[l := (vq_descs q1 ! l)\<lparr>vd_next := idx, vd_flags := vd_flags (vq_descs q1 ! l) OR DESC_NEXT\<rparr>])
      in q1\<lparr>vq_descs := descs1[idx := (descs1 ! idx)\<lparr>vd_address := te_address e, vd_length := te_size e mod 2 ^ 32,
            vd_flags := (if te_direction e = ElementOut then 0 else DESC_WRITE)\<rparr>]\<rparr>)"

lemma link_elements_Cons:
  "link_elements (e # es) last_desc start_idx q =
     (case allocate_descriptor q of
        (None, q1) \<Rightarrow> (False, start_idx, q1)
      | (Some idx, q1) \<Rightarrow> link_elements es (Some idx) (if last_desc = None then idx else start_idx) (link_one e last_desc idx q1))"
proof (cases "allocate_descriptor q")
  case (Pair r q1)
  show ?thesis by (cases r; cases last_desc) (simp_all add: Pair link_one_def Let_def)
qed

lemma no_next_flags: "\<not> vd_has_next (d\<lparr>vd_address := a, vd_length := n, vd_flags := (if b then 0 else DESC_WRITE)\<rparr>)"
  by (simp add: vd_has_next_def DESC_NEXT_def DESC_WRITE_def)

lemma free_chain_bound: "free_chain ds F i \<Longrightarrow> set F \<subseteq> {..<length ds}"
  by (induction F arbitrary: i) auto

lemma link_one_step:
  assumes "linking q (x # F) D last_desc"
  shows "\<exists>q1. allocate_descriptor q = (Some x, q1) \<and> linking (link_one e last_desc x q1) F (D @ [x]) (Some x) \<and>
    length (vq_descs (link_one e last_desc x q1)) = length (vq_descs q) \<and>
    (\<forall>j. j \<notin> insert x (set D) \<longrightarrow> vq_descs (link_one e last_desc x q1) ! j = vq_descs q ! j) \<and>
    vq_callbacks (link_one e last_desc x q1) = vq_callbacks q \<and> vq_avail (link_one e last_desc x q1) = vq_avail q \<and>
    vq_avail_idx (link_one e last_desc x q1) = vq_avail_idx q"
proof -
  let ?ds = "vq_descs q" and ?n = "length (vq_descs q)"
  have x: "vq_next_free q = x" "x < ?n" "free_chain ?ds F (vd_next (?ds ! x))" "x \<notin> set F" "x \<notin> set D" "distinct (F @ D)"
    and small: "?n < 2 ^ 16" "\<forall>d\<in>set ?ds. vd_next d < 2 ^ 16" "vq_free q = Suc (length F)" "set D \<subseteq> {..<?n}"
    using assms by (auto simp: linking_def)
  define ds1 where "ds1 = ?ds[x := (?ds ! x)\<lparr>vd_next := ?n\<rparr>]"
  define q1 where "q1 = q\<lparr>vq_free := length F, vq_next_free := vd_next (?ds ! x), vq_descs := ds1\<rparr>"
  have "length F \<le> ?n"
    using card_mono [of "{..<?n}" "set F"] free_chain_bound [OF x(3)] distinct_card [of F] x(6) by simp
  then have alloc: "allocate_descriptor q = (Some x, q1)"
    using x(1,2) small(1,3) by (simp add: allocate_descriptor_def Let_def q1_def ds1_def)
  let ?q2 = "link_one e last_desc x q1"
  obtain d where descs: "vq_descs ?q2 = (case last_desc of None \<Rightarrow> ds1[x := d]
      | Some l \<Rightarrow> ds1[l := (ds1 ! l)\<lparr>vd_next := x, vd_flags := vd_flags (ds1 ! l) OR DESC_NEXT\<rparr>, x := d])"
    and d: "\<not> vd_has_next d" "vd_next d < 2 ^ 16"
  proof
    let ?ds2 = "case last_desc of None \<Rightarrow> ds1
      | Some l \<Rightarrow> ds1[l := (ds1 ! l)\<lparr>vd_next := x, vd_flags := vd_flags (ds1 ! l) OR DESC_NEXT\<rparr>]"
    let ?d = "(?ds2 ! x)\<lparr>vd_address := te_address e, vd_length := te_size e mod 2 ^ 32,
            vd_flags := (if te_direction e = ElementOut then 0 else DESC_WRITE)\<rparr>"
    show "vq_descs ?q2 = (case last_desc of None \<Rightarrow> ds1[x := ?d]
      | Some l \<Rightarrow> ds1[l := (ds1 ! l)\<lparr>vd_next := x, vd_flags := vd_flags (ds1 ! l) OR DESC_NEXT\<rparr>, x := ?d])"
      by (cases last_desc) (simp_all add: link_one_def Let_def q1_def)
    show "\<not> vd_has_next ?d" by (rule no_next_flags)
    have "vd_next (?ds2 ! x) < 2 ^ 16"
      using small(1) x(2) by (cases last_desc) (auto simp: ds1_def nth_list_update)
    then show "vd_next ?d < 2 ^ 16" by simp
  qed
  have len: "length (vq_descs ?q2) = ?n" unfolding descs by (cases last_desc) (simp_all add: ds1_def)
  have lastD: "l \<in> set D" if "last_desc = Some l" for l
    using assms that used_chain_nonempty last_in_set by (auto simp: linking_def)
  have frame: "vq_descs ?q2 ! j = ?ds ! j" if j: "j \<notin> insert x (set D)" for j
  proof (cases last_desc)
    case None
    then show ?thesis unfolding descs using j by (simp add: ds1_def)
  next
    case (Some l)
    then have "l \<noteq> j" using lastD j by auto
    then show ?thesis unfolding descs using Some j by (simp add: ds1_def)
  qed
  have chain: "used_chain (vq_descs ?q2) (D @ [x])"
  proof (cases last_desc)
    case None
    then have "D = []" "vq_descs ?q2 = ds1[x := d]" using assms descs by (simp_all add: linking_def)
    then show ?thesis using x(2) d(1) by (simp add: ds1_def)
  next
    case (Some l)
    have "used_chain ds1 D = used_chain ?ds D"
      unfolding ds1_def using x(5) by (intro used_chain_cong) (simp, metis nth_list_update_neq)
    then have "used_chain ds1 D" "l = last D" using assms Some by (simp_all add: linking_def)
    then show ?thesis
      unfolding descs unfolding Some option.case using x d(1) has_next_set
      by (simp add: used_chain_snoc ds1_def)
  qed
  have "free_chain (vq_descs ?q2) F (vd_next (?ds ! x)) = free_chain ?ds F (vd_next (?ds ! x))"
    by (rule free_chain_cong [OF len], rule ballI, rule frame) (use x(4,6) in auto)
  moreover have "\<forall>d\<in>set (vq_descs ?q2). vd_next d < 2 ^ 16"
  proof -
    have "set ds1 \<subseteq> insert ((?ds ! x)\<lparr>vd_next := ?n\<rparr>) (set ?ds)" unfolding ds1_def by (rule set_update_subset_insert)
    then have "\<forall>d\<in>set ds1. vd_next d < 2 ^ 16" using small(1,2) by auto
    then show ?thesis
      using d(2) x(2) small(1) unfolding descs
      by (cases last_desc) (auto dest!: set_update_subset_insert [THEN subsetD])
  qed
  moreover have "vd_next (?ds ! x) < 2 ^ 16" using small(2) x(2) by simp
  ultimately have "linking ?q2 F (D @ [x]) (Some x)"
    using x small len chain by (auto simp: linking_def link_one_def Let_def q1_def)
  then show ?thesis
    using alloc len frame by (auto simp: link_one_def Let_def q1_def)
qed

lemma link_elements_all:
  assumes "linking q F D last_desc" and "length es \<le> length F" and "D \<noteq> [] \<longrightarrow> start_idx = hd D"
  shows "\<exists>st q' last'. link_elements es last_desc start_idx q = (True, st, q') \<and>
    linking q' (drop (length es) F) (D @ take (length es) F) last' \<and>
    (D @ take (length es) F \<noteq> [] \<longrightarrow> st = hd (D @ take (length es) F)) \<and>
    length (vq_descs q') = length (vq_descs q) \<and>
    (\<forall>j. j \<notin> set D \<union> set (take (length es) F) \<longrightarrow> vq_descs q' ! j = vq_descs q ! j) \<and>
    vq_callbacks q' = vq_callbacks q \<and> vq_avail q' = vq_avail q \<and> vq_avail_idx q' = vq_avail_idx q"
  using assms
proof (induction es arbitrary: q F D last_desc start_idx)
  case Nil
  then show ?case by auto
next
  case (Cons e es)
  obtain x F' where F: "F = x # F'" using Cons.prems(2) by (cases F) auto
  obtain q1 where q1: "allocate_descriptor q = (Some x, q1)" and step: "linking (link_one e last_desc x q1) F' (D @ [x]) (Some x)"
    "length (vq_descs (link_one e last_desc x q1)) = length (vq_descs q)"
    "\<forall>j. j \<notin> insert x (set D) \<longrightarrow> vq_descs (link_one e last_desc x q1) ! j = vq_descs q ! j"
    "vq_callbacks (link_one e last_desc x q1) = vq_callbacks q" "vq_avail (link_one e last_desc x q1) = vq_avail q"
    "vq_avail_idx (link_one e last_desc x q1) = vq_avail_idx q"
    using link_one_step [of q x F' D last_desc e] Cons.prems(1) unfolding F by blast
  let ?start = "if last_desc = None then x else start_idx"
  have "last_desc = None \<longleftrightarrow> D = []"
    using Cons.prems(1) by (cases last_desc) (auto simp: linking_def)
  then have start: "?start = hd (D @ [x])" using Cons.prems(3) by auto
  have "link_elements (e # es) last_desc start_idx q = link_elements es (Some x) ?start (link_one e last_desc x q1)"
    unfolding link_elements_Cons by (simp add: q1)
  moreover obtain st q' last' where
    "link_elements es (Some x) ?start (link_one e last_desc x q1) = (True, st, q')"
    "linking q' (drop (length es) F') ((D @ [x]) @ take (length es) F') last'"
    "st = hd ((D @ [x]) @ take (length es) F')"
    "length (vq_descs q') = length (vq_descs (link_one e last_desc x q1))"
    "\<forall>j. j \<notin> set (D @ [x]) \<union> set (take (length es) F') \<longrightarrow> vq_descs q' ! j = vq_descs (link_one e last_desc x q1) ! j"
    "vq_callbacks q' = vq_callbacks (link_one e last_desc x q1)" "vq_avail q' = vq_avail (link_one e last_desc x q1)"
    "vq_avail_idx q' = vq_avail_idx (link_one e last_desc x q1)"
    using Cons.IH [OF step(1), of ?start] Cons.prems(2) start unfolding F by auto
  ultimately show ?case using step(2-6) by (auto simp: F)
qed

text \<open>What a descriptor tells the device: may it write there, where, and how much.\<close>

definition desc_buffer :: "vq_desc \<Rightarrow> bool \<times> nat \<times> nat" where
  "desc_buffer d = (vd_flags d AND DESC_WRITE \<noteq> 0, vd_address d, vd_length d)"

definition element_buffer :: "transfer_element \<Rightarrow> bool \<times> nat \<times> nat" where
  "element_buffer e = (te_direction e = ElementIn, te_address e, te_size e mod 2 ^ 32)"

lemma desc_buffer_next: "desc_buffer (d\<lparr>vd_next := i, vd_flags := vd_flags d OR DESC_NEXT\<rparr>) = desc_buffer d"
proof -
  have "(vd_flags d OR 1) AND 2 = vd_flags d AND (2 :: u16)"
    by (rule bit_word_eqI) (auto simp: bit_simps bit_1_iff bit_numeral_rec)
  then show ?thesis by (simp add: desc_buffer_def DESC_NEXT_def DESC_WRITE_def)
qed

lemma link_one_buffers:
  assumes "linking q (x # F) D last_desc" and "allocate_descriptor q = (Some x, q1)"
  shows "map (\<lambda>i. desc_buffer (vq_descs (link_one e last_desc x q1) ! i)) (D @ [x]) =
    map (\<lambda>i. desc_buffer (vq_descs q ! i)) D @ [element_buffer e]"
proof -
  let ?ds = "vq_descs (link_one e last_desc x q1)"
  have x: "x \<notin> set D" "x < length (vq_descs q)" using assms(1) by (auto simp: linking_def)
  have q1: "length (vq_descs q1) = length (vq_descs q)" "\<And>i. i \<noteq> x \<Longrightarrow> vq_descs q1 ! i = vq_descs q ! i"
    using assms(2) by (auto simp: allocate_descriptor_def Let_def split: if_splits)
  have "desc_buffer (?ds ! i) = desc_buffer (vq_descs q ! i)" if i: "i \<in> set D" for i
  proof (cases last_desc)
    case (Some l)
    have ne: "i \<noteq> x" "i < length (vq_descs q)" using i x(1) assms(1) by (auto simp: linking_def)
    show ?thesis
      using ne q1 Some by (cases "i = l") (simp_all add: link_one_def Let_def desc_buffer_next)
  next
    case None
    then show ?thesis using i assms(1) by (simp add: linking_def)
  qed
  moreover have "desc_buffer (?ds ! x) = element_buffer e"
    using x(2) q1(1)
    by (cases last_desc; cases "te_direction e") (simp_all add: link_one_def Let_def desc_buffer_def element_buffer_def DESC_WRITE_def)
  ultimately show ?thesis by simp
qed

lemma link_elements_buffers:
  assumes "linking q F D last_desc" and "length es \<le> length F"
    and "link_elements es last_desc start_idx q = (True, st, q')"
  shows "map (\<lambda>i. desc_buffer (vq_descs q' ! i)) (D @ take (length es) F) =
    map (\<lambda>i. desc_buffer (vq_descs q ! i)) D @ map element_buffer es"
  using assms
proof (induction es arbitrary: q F D last_desc start_idx)
  case (Cons e es)
  obtain x F' where F: "F = x # F'" using Cons.prems(2) by (cases F) auto
  obtain q1 where q1: "allocate_descriptor q = (Some x, q1)"
    and step: "linking (link_one e last_desc x q1) F' (D @ [x]) (Some x)"
    using link_one_step [of q x F' D last_desc e] Cons.prems(1) unfolding F by blast
  have rest: "link_elements es (Some x) (if last_desc = None then x else start_idx) (link_one e last_desc x q1) = (True, st, q')"
    using Cons.prems(3) unfolding link_elements_Cons by (simp add: q1)
  have "length es \<le> length F'" using Cons.prems(2) F by simp
  from Cons.IH [OF step this rest] show ?case
    using link_one_buffers [of q x F' D last_desc q1 e] Cons.prems(1) q1 by (simp add: F)
qed simp

text \<open>A transfer takes its descriptors from the front of the free list.\<close>

lemma queue_elements_ok:
  assumes ok: "queue_ok q F Cs" and es: "es \<noteq> []" "length es \<le> length F"
  shows "\<exists>q'. queue_elements q es cb = Some (True, q') \<and> queue_ok q' (drop (length es) F) (Cs @ [take (length es) F]) \<and>
    vq_avail q' ! (vq_avail_idx q mod length (vq_descs q)) = hd F \<and> vq_avail_idx q' = (vq_avail_idx q + 1) mod 2 ^ 16 \<and>
    map (\<lambda>i. desc_buffer (vq_descs q' ! i)) (take (length es) F) = map element_buffer es \<and>
    vq_callbacks q' (hd F) = Some cb \<and> length (vq_descs q') = length (vq_descs q)"
proof -
  let ?k = "length es" and ?C = "take (length es) F"
  have C: "?C \<noteq> []" using es by (cases F) auto
  have hdC: "hd ?C = hd F" using C by (cases F; cases es) auto
  have free: "linking q F [] None" using ok by (auto simp: linking_def queue_ok_def)
  from link_elements_all [OF free es(2), of 0] C obtain st q1 l where
    link: "link_elements es None 0 q = (True, hd ?C, q1)" and linked: "linking q1 (drop ?k F) ?C l"
    and same: "length (vq_descs q1) = length (vq_descs q)" "\<forall>j. j \<notin> set ?C \<longrightarrow> vq_descs q1 ! j = vq_descs q ! j"
      "vq_callbacks q1 = vq_callbacks q" "vq_avail q1 = vq_avail q" "vq_avail_idx q1 = vq_avail_idx q"
    by auto
  have part: "distinct (F @ concat Cs)" "set (F @ concat Cs) = {..<length (vq_descs q)}" using ok by (simp_all add: queue_ok_def)
  have split: "set F = set ?C \<union> set (drop ?k F)" by (metis append_take_drop_id set_append)
  have chains: "used_chain (vq_descs q1) C" if "C \<in> set Cs" for C
  proof -
    have "\<forall>x\<in>set C. vq_descs q1 ! x = vq_descs q ! x"
      using part(1) that same(2) split by fastforce
    then show ?thesis using used_chain_cong [OF same(1)] ok that by (auto simp: queue_ok_def)
  qed
  have newC: "used_chain (vq_descs q1) ?C" using linked C by (auto simp: linking_def split: option.splits)
  have "hd ?C \<in> set F" using C hdC by (cases F) auto
  moreover have "hd C \<in> set (concat Cs)" if "C \<in> set Cs" for C
    using used_chain_nonempty [OF chains [OF that]] that by (auto intro!: bexI [of _ C] hd_in_set)
  ultimately have fresh: "hd ?C \<notin> dom (vq_callbacks q)"
    using ok part(1) by (auto simp: queue_ok_def)
  define q' where "q' = place_available (q1\<lparr>vq_callbacks := (vq_callbacks q1)(hd ?C \<mapsto> cb)\<rparr>) (hd ?C)"
  have run: "queue_elements q es cb = Some (True, q')"
    using link fresh ok es(2) same(3) by (auto simp: queue_elements_def queue_ok_def q'_def)
  have "distinct (drop ?k F @ concat (Cs @ [?C]))"
    using part(1) linked by (auto simp: linking_def split) 
  moreover have "set (drop ?k F @ concat (Cs @ [?C])) = {..<length (vq_descs q')}"
    using part(2) split same(1) by (auto simp: q'_def place_available_def)
  ultimately have "queue_ok q' (drop ?k F) (Cs @ [?C])"
    using ok linked same chains newC by (auto simp: queue_ok_def linking_def q'_def place_available_def)
  moreover have "vq_avail q' ! (vq_avail_idx q mod length (vq_descs q)) = hd F"
    using ok same hdC by (simp add: q'_def place_available_def queue_ok_def)
  moreover have "vq_avail_idx q' = (vq_avail_idx q + 1) mod 2 ^ 16"
    by (simp add: q'_def place_available_def same)
  moreover have "map (\<lambda>i. desc_buffer (vq_descs q' ! i)) ?C = map element_buffer es"
    using link_elements_buffers [OF free es(2) link] by (simp add: q'_def place_available_def)
  moreover have "vq_callbacks q' (hd F) = Some cb" "length (vq_descs q') = length (vq_descs q)"
    by (simp_all add: q'_def place_available_def hdC same(1))
  ultimately show ?thesis using run by blast
qed

text \<open>A used entry gives its whole chain back.\<close>

lemma chain_end_used: "used_chain ds C \<Longrightarrow> chain_end ds (hd C) k = Some (last C, k + length C - 1)"
proof (induction ds C arbitrary: k rule: used_chain.induct)
  case (2 ds x)
  then show ?case by (subst chain_end.simps) simp
next
  case (3 ds x y zs)
  then show ?case by (subst chain_end.simps) simp
qed simp

lemma process_entry_ok:
  assumes ok: "queue_ok q F Cs" and C: "C \<in> set Cs"
  shows "\<exists>q'. process_entry q (hd C) = Some (vq_callbacks q (hd C), q') \<and> queue_ok q' (C @ F) (remove1 C Cs) \<and>
    vq_callbacks q (hd C) \<noteq> None"
proof -
  let ?ds = "vq_descs q" and ?n = "length (vq_descs q)"
  let ?d = "(?ds ! last C)\<lparr>vd_next := vq_next_free q\<rparr>"
  let ?ds' = "?ds[last C := ?d]"
  have used: "used_chain ?ds C" and small: "?n < 2 ^ 16" "vq_next_free q < 2 ^ 16"
    and part: "distinct (F @ concat Cs)" "set (F @ concat Cs) = {..<?n}" using ok C by (simp_all add: queue_ok_def)
  have ne: "C \<noteq> []" by (rule used_chain_nonempty [OF used])
  obtain As Bs where split: "Cs = As @ C # Bs" "C \<notin> set As" using split_list_first [OF C] by blast
  have rem: "remove1 C Cs = As @ Bs" using split by (simp add: remove1_append)
  have parts: "distinct C" "set C \<inter> set F = {}" "distinct ((C @ F) @ concat (As @ Bs))"
      "set ((C @ F) @ concat (As @ Bs)) = {..<?n}"
    using part unfolding split(1) by auto
  have hd_small: "hd C < 2 ^ 16" "hd C mod 2 ^ 16 = hd C"
  proof -
    have "hd C \<in> {..<?n}" using hd_in_set [OF ne] parts(4) by (metis UnCI set_append)
    then show "hd C < 2 ^ 16" "hd C mod 2 ^ 16 = hd C" using small(1) by simp_all
  qed
  have len: "vq_free q + length C < 2 ^ 32"
  proof -
    have "length C + length F \<le> ?n"
      using card_mono [of "{..<?n}" "set (C @ F)"] distinct_card [of "C @ F"] parts(1-4) ok by (auto simp: queue_ok_def)
    then show ?thesis using small(1) ok by (simp add: queue_ok_def)
  qed
  define q' where "q' = q\<lparr>vq_callbacks := (vq_callbacks q)(hd C := None), vq_descs := ?ds', vq_next_free := hd C,
     vq_free := vq_free q + length C, vq_last_seen := (vq_last_seen q + 1) mod 2 ^ 32\<rparr>"
  have run: "process_entry q (hd C) = Some (vq_callbacks q (hd C), q')"
    using chain_end_used [OF used, of 1] hd_small small(2) len by (simp add: process_entry_def q'_def)
  have free: "free_chain ?ds' (C @ F) (hd C)"
    by (rule free_chain_return [OF used parts(1,2)]) (use ok in \<open>simp_all add: queue_ok_def\<close>)
  have others: "used_chain ?ds' D" if "D \<in> set (As @ Bs)" for D
  proof -
    have "last C \<in> set C" using ne by simp
    then have "last C \<notin> set D" using parts(3) that by fastforce
    then have "used_chain ?ds' D = used_chain ?ds D" by (intro used_chain_cong) (simp, metis nth_list_update_neq)
    then show ?thesis using ok that split(1) by (auto simp: queue_ok_def)
  qed
  have heads: "hd C \<notin> hd ` set (As @ Bs)"
  proof
    assume "hd C \<in> hd ` set (As @ Bs)"
    then obtain D where D: "D \<in> set (As @ Bs)" "hd C = hd D" by auto
    have "used_chain ?ds D" using ok D(1) split(1) by (auto simp: queue_ok_def)
    then have "hd D \<in> set D" using used_chain_nonempty by (metis hd_in_set)
    then show False using parts(3) D hd_in_set [OF ne] by fastforce
  qed
  have "dom (vq_callbacks q) = hd ` set Cs" using ok by (simp add: queue_ok_def)
  then have "dom (vq_callbacks q') = hd ` set (As @ Bs)" using heads split(1) by (auto simp: q'_def)
  moreover have "\<forall>d\<in>set ?ds'. vd_next d < 2 ^ 16"
    using ok small(2) by (auto simp: queue_ok_def dest!: set_update_subset_insert [THEN subsetD])
  ultimately have "queue_ok q' (C @ F) (remove1 C Cs)"
    unfolding rem using ok free others parts(3,4) hd_small(1) by (auto simp: queue_ok_def q'_def)
  moreover have "vq_callbacks q (hd C) \<noteq> None"
    using ok C by (auto simp: queue_ok_def)
  ultimately show ?thesis using run by blast
qed

text \<open>
  A queue in use: transfers put chains in flight, which are known by their first descriptor, and the
  device gives them back in any order.
\<close>

inductive vq_run :: "'c split_vq \<Rightarrow> nat list \<Rightarrow> bool" where
  start: "0 < n \<Longrightarrow> n < 2 ^ 16 \<Longrightarrow> vq_run (new_split_vq memory n queue_id) []"
| transfer: "vq_run q ids \<Longrightarrow> es \<noteq> [] \<Longrightarrow> queue_elements q es cb = Some (True, q') \<Longrightarrow>
    vq_run q' (ids @ [vq_avail q' ! (vq_avail_idx q mod length (vq_descs q))])"
| used: "vq_run q ids \<Longrightarrow> i \<in> set ids \<Longrightarrow> process_entry q i = Some (cb, q') \<Longrightarrow> vq_run q' (remove1 i ids)"

lemma new_queue_descs:
  "length (vq_descs (new_split_vq memory n queue_id)) = n"
  "i < n \<Longrightarrow> n < 2 ^ 16 \<Longrightarrow> vd_next (vq_descs (new_split_vq memory n queue_id) ! i) = i + 1"
  by (simp_all add: new_split_vq_def)

lemma new_queue_chain:
  assumes "i \<le> n" and "n < 2 ^ 16"
  shows "free_chain (vq_descs (new_split_vq memory n queue_id)) [i..<n] i"
  using assms(1)
proof (induction "n - i" arbitrary: i)
  case (Suc k)
  then have "i < n" by simp
  moreover have "k = n - (i + 1)" "i + 1 \<le> n" using Suc.hyps(2) by simp_all
  ultimately show ?case
    using Suc.hyps(1) [of "i + 1"] assms(2) by (simp add: upt_conv_Cons new_queue_descs)
qed (simp add: new_queue_descs)

lemma new_queue_ok:
  assumes "0 < n" and "n < 2 ^ 16"
  shows "queue_ok (new_split_vq memory n queue_id) [0..<n] []"
  using new_queue_chain [of 0 n memory queue_id] assms
  by (auto simp: queue_ok_def new_split_vq_def atLeast0LessThan)

lemma remove1_hd_map:
  assumes "C \<in> set Cs" and "distinct (map hd Cs)"
  shows "map hd (remove1 C Cs) = remove1 (hd C) (map hd Cs)"
  using assms by (induction Cs) (auto simp: image_iff)

lemma heads_distinct: "queue_ok q F Cs \<Longrightarrow> distinct (map hd Cs)"
proof -
  assume ok: "queue_ok q F Cs"
  then have "distinct (concat Cs)" "\<forall>C\<in>set Cs. C \<noteq> []"
    using used_chain_nonempty by (auto simp: queue_ok_def)
  then show ?thesis
  proof (induction Cs)
    case (Cons C Cs)
    have "hd C \<notin> hd ` set Cs"
    proof
      assume "hd C \<in> hd ` set Cs"
      then obtain D where "D \<in> set Cs" "hd C = hd D" by auto
      then show False using Cons.prems hd_in_set [of C] hd_in_set [of D] by fastforce
    qed
    then show ?case using Cons by simp
  qed simp
qed

lemma vq_run_ok: "vq_run q ids \<Longrightarrow> \<exists>F Cs. queue_ok q F Cs \<and> ids = map hd Cs"
proof (induction rule: vq_run.induct)
  case (start n memory queue_id)
  then show ?case using new_queue_ok by (metis list.map_disc_iff)
next
  case (transfer q ids es cb q')
  then obtain F Cs where ok: "queue_ok q F Cs" "ids = map hd Cs" by blast
  have room: "length es \<le> length F"
    using transfer.hyps(3) ok(1) by (auto simp: queue_elements_def queue_ok_def split: if_splits)
  have "hd (take (length es) F) = hd F" using transfer.hyps(2) room by (cases F; cases es) auto
  then show ?case
    using queue_elements_ok [OF ok(1) transfer.hyps(2) room, of cb] transfer.hyps(3) ok(2)
    by (intro exI [of _ "drop (length es) F"] exI [of _ "Cs @ [take (length es) F]"]) auto
next
  case (used q ids i cb q')
  then obtain F Cs where ok: "queue_ok q F Cs" "ids = map hd Cs" by blast
  then obtain C where C: "C \<in> set Cs" "i = hd C" using used.hyps(2) by auto
  then have "queue_ok q' (C @ F) (remove1 C Cs)"
    using process_entry_ok [OF ok(1) C(1)] used.hyps(3) by auto
  then show ?case
    using remove1_hd_map [OF C(1) heads_distinct [OF ok(1)]] ok(2) C(2) by metis
qed

text \<open>
  C39: No descriptor of a queue is lost or used twice: after any transfers and completions, the free
  descriptors, as many as the queue counts, and the chains in flight are all the descriptors, each once.
\<close>

theorem virtio_descriptors_partition:
  assumes "vq_run q ids"
  shows "\<exists>F Cs. ids = map hd Cs \<and> distinct (F @ concat Cs) \<and> set (F @ concat Cs) = {..<length (vq_descs q)} \<and>
    length F = vq_free q \<and> free_chain (vq_descs q) F (vq_next_free q) \<and> (\<forall>C\<in>set Cs. used_chain (vq_descs q) C)"
proof -
  obtain F Cs where ok: "queue_ok q F Cs" "ids = map hd Cs" using vq_run_ok [OF assms] by auto
  then show ?thesis by (intro exI [of _ F] exI [of _ Cs]) (simp add: queue_ok_def)
qed

text \<open>
  A transfer is refused only when there are not enough descriptors, and then it changes nothing; a
  completion that the device reports for a chain in flight always succeeds.
\<close>

lemma virtio_transfer_refused:
  assumes "vq_run q ids" and "es \<noteq> []"
  shows "(if length es \<le> vq_free q then \<exists>q'. queue_elements q es cb = Some (True, q')
     else queue_elements q es cb = Some (False, q))"
proof -
  obtain F Cs where ok: "queue_ok q F Cs" using vq_run_ok [OF assms(1)] by auto
  then have "vq_free q = length F" by (simp add: queue_ok_def)
  then show ?thesis
    using queue_elements_ok [OF ok assms(2), of cb] by (auto simp: queue_elements_def)
qed

lemma virtio_completion:
  assumes "vq_run q ids" and "i \<in> set ids"
  shows "\<exists>cb q'. process_entry q i = Some (Some cb, q')"
proof -
  obtain F Cs where ok: "queue_ok q F Cs" "ids = map hd Cs" using vq_run_ok [OF assms(1)] by auto
  then obtain C where "C \<in> set Cs" "i = hd C" using assms(2) by auto
  then show ?thesis using process_entry_ok [OF ok(1)] by fastforce
qed

text \<open>
  \<open>process_used\<close> compares a 32-bit counter with the 16-bit index of the device.  Once the counter has
  passed \<open>2 ^ 16\<close> it takes every old entry of the ring for a new one.
\<close>

lemma process_used_stale:
  assumes "2 ^ 16 \<le> vq_last_seen q" and "used_idx < 2 ^ 16"
  shows "process_used call used_idx entries q s =
    do { x \<leftarrow> process_entry q (fst (entries ! (vq_last_seen q mod length (vq_descs q))));
         y \<leftarrow> (case fst x of
                 None \<Rightarrow> Some (snd x, s)
               | Some cb \<Rightarrow> call cb (snd (entries ! (vq_last_seen q mod length (vq_descs q)))) (snd x) s);
         process_used call used_idx entries (fst y) (snd y) }"
  using assms by (subst process_used.simps) auto

theorem virtio_descriptors_partition_witness:
  "\<exists>F Cs. [] = map hd Cs \<and> distinct (F @ concat Cs) \<and>
    set (F @ concat Cs) = {..<length (vq_descs (new_split_vq (\<lambda>_. \<lparr>vd_address = 0, vd_length = 0, vd_flags = 0, vd_next = 0\<rparr>) 4 0 :: nat split_vq))} \<and>
    length F = vq_free (new_split_vq (\<lambda>_. \<lparr>vd_address = 0, vd_length = 0, vd_flags = 0, vd_next = 0\<rparr>) 4 0 :: nat split_vq) \<and>
    free_chain (vq_descs (new_split_vq (\<lambda>_. \<lparr>vd_address = 0, vd_length = 0, vd_flags = 0, vd_next = 0\<rparr>) 4 0 :: nat split_vq)) F
      (vq_next_free (new_split_vq (\<lambda>_. \<lparr>vd_address = 0, vd_length = 0, vd_flags = 0, vd_next = 0\<rparr>) 4 0 :: nat split_vq)) \<and>
    (\<forall>C\<in>set Cs. used_chain (vq_descs (new_split_vq (\<lambda>_. \<lparr>vd_address = 0, vd_length = 0, vd_flags = 0, vd_next = 0\<rparr>) 4 0 :: nat split_vq)) C)"
  by (rule virtio_descriptors_partition [OF vq_run.start]) simp_all

subsection \<open>Reading the disk\<close>

text \<open>
  A device that follows the VirtIO specification, working on a request buffer that it knows at the
  address \<open>base\<close>.  It takes the chain of descriptors from the queue, collects the request header from
  those it may only read, and spreads the sectors and the status over those it may write.  It reaches
  nothing outside the buffer.
\<close>

fun device_chain :: "nat \<Rightarrow> vq_desc list \<Rightarrow> nat \<Rightarrow> (bool \<times> nat \<times> nat) list option" where
  "device_chain 0 descs i = None"
| "device_chain (Suc fuel) descs i =
     (if \<not> i < length descs then None
      else if vd_has_next (descs ! i)
      then map_option ((#) (desc_buffer (descs ! i))) (device_chain fuel descs (vd_next (descs ! i)))
      else Some [desc_buffer (descs ! i)])"

fun device_gather :: "nat \<Rightarrow> u8 list \<Rightarrow> (bool \<times> nat \<times> nat) list \<Rightarrow> u8 list option" where
  "device_gather base buf [] = Some []"
| "device_gather base buf ((writable, addr, len) # ds) = do {
     verify (base \<le> addr);
     bs \<leftarrow> mem_read buf (addr - base) len;
     rest \<leftarrow> device_gather base buf ds;
     Some (bs @ rest) }"

fun device_scatter :: "nat \<Rightarrow> (bool \<times> nat \<times> nat) list \<Rightarrow> u8 list \<Rightarrow> u8 list \<Rightarrow> u8 list option" where
  "device_scatter base [] bs buf = Some buf"
| "device_scatter base ((writable, addr, len) # ds) bs buf = do {
     verify (base \<le> addr);
     buf1 \<leftarrow> mem_write buf (addr - base) (take len bs);
     device_scatter base ds (drop len bs) buf1 }"

text \<open>The status of a request that is not served, here one past the end of the disk, is 1 and it gives no data.\<close>

definition device_serves :: "u8 list \<Rightarrow> nat \<Rightarrow> (bool \<times> nat \<times> nat) list \<Rightarrow> u8 list \<Rightarrow> u8 list option" where
  "device_serves disk base ds buf = do {
     header \<leftarrow> device_gather base buf (filter (\<lambda>d. \<not> fst d) ds);
     verify (length header = 16 \<and> (le_word (take 4 header) :: u32) = 0);
     let sector = unat (le_word (drop 8 header) :: u64);
         room = sum_list (map (snd \<circ> snd) (filter fst ds)) - 1
     in if sector * 512 + room \<le> length disk \<and> room mod 512 = 0
        then device_scatter base (filter fst ds) (take room (drop (sector * 512) disk) @ [0]) buf
        else device_scatter base (filter fst ds) (replicate room 0 @ [1]) buf }"

lemma device_chain_used:
  "used_chain ds C \<Longrightarrow> length C \<le> fuel \<Longrightarrow> device_chain fuel ds (hd C) = Some (map (\<lambda>i. desc_buffer (ds ! i)) C)"
proof (induction ds C arbitrary: fuel rule: used_chain.induct)
  case (2 ds x)
  then show ?case by (cases fuel) auto
next
  case (3 ds x y zs)
  then obtain k where "fuel = Suc k" "length (y # zs) \<le> k" by (cases fuel) auto
  then show ?case using 3 by simp
qed simp

text \<open>The sectors that are requested cover the range and lie on the disk.\<close>

lemma block_read_sectors:
  assumes "byte_offset + n \<le> length disk" and "length disk mod BLK_SECTOR_SIZE = 0" and "length disk + BLK_SECTOR_SIZE < 2 ^ 64"
  shows "br_sector (block_read_request dma byte_offset n) * 512 + br_transfer_size (block_read_request dma byte_offset n) \<le> length disk"
    and "br_sector (block_read_request dma byte_offset n) * 512 + br_within (block_read_request dma byte_offset n) = byte_offset"
    and "br_within (block_read_request dma byte_offset n) + n \<le> br_transfer_size (block_read_request dma byte_offset n)"
    and "br_transfer_size (block_read_request dma byte_offset n) mod 512 = 0"
    and "br_transfer_size (block_read_request dma byte_offset n) < n + 1024"
proof -
  let ?r = "block_read_request dma byte_offset n"
  define si where "si = byte_offset div 512"
  define w where "w = byte_offset mod 512"
  define c where "c = (n + w + 511) div 512"
  have off: "byte_offset = si * 512 + w" "w < 512" by (simp_all add: si_def w_def)
  have "512 dvd length disk" using assms(2) by (simp add: BLK_SECTOR_SIZE_def mod_eq_0_iff_dvd)
  then obtain m where m: "length disk = m * 512" by (metis dvd_def mult.commute)
  have "n + w < 2 ^ 64 - 512" using assms(1,3) off by (simp add: BLK_SECTOR_SIZE_def)
  then have "ceil_div (uadd n w) 512 = c" by (simp add: ceil_div_def uadd_def usub_def c_def)
  moreover have "byte_offset - si * 512 = w" using off by simp
  ultimately have r: "br_sector ?r = si" "br_within ?r = w" "br_transfer_size ?r = c * 512"
    by (simp_all add: block_read_request_def Let_def BLK_SECTOR_SIZE_def si_def)
  have cdiv: "c * 512 + (n + w + 511) mod 512 = n + w + 511" unfolding c_def by simp
  moreover have "(n + w + 511) mod 512 < 512" by simp
  ultimately have cover: "w + n \<le> c * 512" "c * 512 < n + 1024" using off(2) by linarith+
  have "si + c \<le> m"
  proof -
    have "si * 512 + w + n \<le> m * 512" using assms(1) m off by simp
    then have "n + w + 511 < (m - si + 1) * 512" "si \<le> m" by auto
    then show ?thesis unfolding c_def using less_mult_imp_div_less [of "n + w + 511" "m - si + 1" 512] by simp
  qed
  then show "br_sector ?r * 512 + br_transfer_size ?r \<le> length disk" using m r by simp
  show "br_sector ?r * 512 + br_within ?r = byte_offset" "br_within ?r + n \<le> br_transfer_size ?r"
    "br_transfer_size ?r mod 512 = 0" "br_transfer_size ?r < n + 1024"
    using r off cover by simp_all
qed

lemma block_read_elements:
  "map element_buffer (br_elements (block_read_request dma byte_offset n)) =
     [(False, dma, 16), (True, dma + 16, br_transfer_size (block_read_request dma byte_offset n) mod 2 ^ 32),
      (True, dma + br_transfer_size (block_read_request dma byte_offset n) + 16, 1)]"
  by (simp add: block_read_request_def Let_def element_buffer_def)

text \<open>What the device makes of a buffer with this header.\<close>

lemma device_serves_read:
  assumes "br_sector r < 2 ^ 64" and "length request = ts + 17" and "block_read_header r request = Some buf"
    and "br_sector r * 512 + ts \<le> length disk" and "ts mod 512 = 0"
  shows "\<exists>header. length header = 16 \<and>
    device_serves disk dma [(False, dma, 16), (True, dma + 16, ts), (True, dma + ts + 16, 1)] buf =
      Some (header @ take ts (drop (br_sector r * 512) disk) @ [0])"
proof -
  let ?sector = "le_bytes 8 (word_of_nat (br_sector r) :: u64)"
  let ?header = "le_bytes 4 BLK_REQUEST_IN @ take 4 (drop 4 request) @ ?sector"
  let ?data = "take ts (drop (br_sector r * 512) disk)"
  have buf: "buf = ?header @ drop 16 request"
    using assms(2,3) by (auto simp: block_read_header_def mem_write_def drop_take split: if_splits)
  have len: "length ?header = 16" "length ?data = ts" "length buf = ts + 17" using assms(2,4) by (simp_all add: buf)
  have gather: "device_gather dma buf [(False, dma, 16)] = Some ?header"
    using len(3) len(1) by (simp add: mem_read_def buf)
  have words: "(le_word (take 4 ?header) :: u32) = 0" "drop 8 ?header = ?sector"
    using assms(2) by (simp_all add: le_word_le_bytes_full BLK_REQUEST_IN_def)
  have sector: "unat (le_word ?sector :: u64) = br_sector r"
    using assms(1) by (simp add: le_word_le_bytes_full unat_of_nat)
  have scatter: "device_scatter dma [(True, dma + 16, ts), (True, dma + ts + 16, 1)] (?data @ [0]) buf = Some (?header @ ?data @ [0])"
    using len assms(2) by (simp add: mem_write_def buf)
  have "device_serves disk dma [(False, dma, 16), (True, dma + 16, ts), (True, dma + ts + 16, 1)] buf = Some (?header @ ?data @ [0])"
    unfolding device_serves_def using gather words sector scatter assms(4,5) len(1) by (simp add: Let_def)
  then show ?thesis using len(1) by blast
qed

text \<open>What the callback copies out of the answer.\<close>

lemma block_read_done_answer:
  assumes "length header = 16" and "br_sector r * 512 + br_transfer_size r \<le> length disk"
    and "br_within r + n \<le> br_transfer_size r" and "n \<le> MAX_MEMCOPY"
  shows "block_read_done r (header @ take (br_transfer_size r) (drop (br_sector r * 512) disk) @ [0]) n =
    Some (take n (drop (br_sector r * 512 + br_within r) disk), True)"
proof -
  let ?data = "take (br_transfer_size r) (drop (br_sector r * 512) disk)"
  have len: "length ?data = br_transfer_size r" using assms(2) by simp
  have "take n (drop (16 + br_within r) (header @ ?data @ [0])) = take n (drop (br_within r) ?data)"
    using assms(1,3) len by simp
  also have "\<dots> = take n (drop (br_sector r * 512 + br_within r) disk)"
    using assms(3) by (simp add: drop_take min_def add.commute)
  finally have "mem_read (header @ ?data @ [0]) (16 + br_within r) n = Some (take n (drop (br_sector r * 512 + br_within r) disk))"
    using assms(1,3) len by (simp add: mem_read_def)
  then show ?thesis
    using assms(1,4) len by (simp add: block_read_done_def nth_append)
qed

text \<open>
  C40: A read of the block device, of a range on the disk, at any offset.  Through any queue that has three
  free descriptors it is scheduled and the device is notified; a device that follows the descriptors of
  the chain that is then made available finds in them the header of the request and room for the sectors
  and the status; and from the buffer as it leaves it the callback, which is the one that is stored for
  the chain, copies the range and nothing else and reports success.  That is for up to 2 MiB: the copy of
  a larger range panics, whatever the device answers.
\<close>

theorem block_read_correct:
  assumes "byte_offset + n \<le> length disk" and "length disk mod BLK_SECTOR_SIZE = 0" and "length disk + BLK_SECTOR_SIZE < 2 ^ 64"
    and "ready 0" and "find_queue (tp_queues tp) 0 = Some k" and "vq_run (tp_queues tp ! k) ids" and "3 \<le> vq_free (tp_queues tp ! k)"
    and "r = block_read_request dma byte_offset n"
    and "length request = br_transfer_size r + 17" and "block_read_header r request = Some buf"
  shows "if n \<le> MAX_MEMCOPY
    then \<exists>q' i ds answer. block_schedule_read tp ready dma byte_offset n =
           Some (True, tp\<lparr>tp_queues := (tp_queues tp)[k := q'], tp_notified := tp_notified tp @ [0]\<rparr>) \<and>
         i = vq_avail q' ! (vq_avail_idx (tp_queues tp ! k) mod length (vq_descs q')) \<and>
         vq_callbacks q' i = Some r \<and>
         device_chain (length (vq_descs q')) (vq_descs q') i = Some ds \<and>
         device_serves disk dma ds buf = Some answer \<and>
         block_read_done r answer n = Some (take n (drop byte_offset disk), True)
    else \<forall>answer. block_read_done r answer n = None"
proof (cases "n \<le> MAX_MEMCOPY")
  case True
  let ?q = "tp_queues tp ! k" and ?es = "br_elements r"
  note sectors = block_read_sectors [OF assms(1-3), of dma, folded assms(8)]
  obtain F Cs where ok: "queue_ok ?q F Cs" using vq_run_ok [OF assms(6)] by blast
  have es: "?es \<noteq> []" "length ?es = 3" unfolding assms(8) by (simp_all add: block_read_request_def Let_def)
  have room: "length ?es \<le> length F" using ok assms(7) es(2) by (simp add: queue_ok_def)
  let ?C = "take (length ?es) F"
  obtain q' where q': "queue_elements ?q ?es r = Some (True, q')" "queue_ok q' (drop (length ?es) F) (Cs @ [?C])"
    "vq_avail q' ! (vq_avail_idx ?q mod length (vq_descs ?q)) = hd F"
    "map (\<lambda>i. desc_buffer (vq_descs q' ! i)) ?C = map element_buffer ?es"
    "vq_callbacks q' (hd F) = Some r" "length (vq_descs q') = length (vq_descs ?q)"
    using queue_elements_ok [OF ok es(1) room, of r] by blast
  have "block_schedule_read tp ready dma byte_offset n =
      Some (True, tp\<lparr>tp_queues := (tp_queues tp)[k := q'], tp_notified := tp_notified tp @ [0]\<rparr>)"
    using q'(1) es(1) assms(4,5) by (simp add: block_schedule_read_def Let_def queue_transfer_def flip: assms(8))
  moreover have "device_chain (length (vq_descs q')) (vq_descs q') (hd F) = Some (map element_buffer ?es)"
  proof -
    have "used_chain (vq_descs q') ?C" "set ?C \<subseteq> {..<length (vq_descs q')}" "distinct ?C"
      using q'(2) by (auto simp: queue_ok_def)
    moreover have "hd ?C = hd F" using es(2) room by (cases F) auto
    moreover have "length ?C \<le> length (vq_descs q')"
      using calculation(2,3) card_mono [of "{..<length (vq_descs q')}" "set ?C"] distinct_card [of ?C] by simp
    ultimately show ?thesis using device_chain_used [of "vq_descs q'" ?C "length (vq_descs q')"] q'(4) by simp
  qed
  moreover obtain header where "length header = 16"
    "device_serves disk dma (map element_buffer ?es) buf = Some (header @ take (br_transfer_size r) (drop (br_sector r * 512) disk) @ [0])"
  proof -
    have "br_transfer_size r < 2 ^ 32" using sectors(5) True by (simp add: MAX_MEMCOPY_def)
    then have "map element_buffer ?es = [(False, dma, 16), (True, dma + 16, br_transfer_size r), (True, dma + br_transfer_size r + 16, 1)]"
      unfolding assms(8) block_read_elements by simp
    moreover have "br_sector r < 2 ^ 64" using sectors(1) assms(3) by simp
    ultimately show ?thesis using device_serves_read [OF _ assms(9,10) sectors(1,4)] that by metis
  qed
  moreover from this have "block_read_done r (header @ take (br_transfer_size r) (drop (br_sector r * 512) disk) @ [0]) n =
      Some (take n (drop byte_offset disk), True)"
    using block_read_done_answer [OF _ sectors(1,3) True] sectors(2) by simp
  ultimately show ?thesis using True q'(3,5,6) by auto
next
  case False
  then show ?thesis by (simp add: block_read_done_def verify_def)
qed

definition demo_transport :: "block_request transport" where
  "demo_transport = snd (setup_vqueue (\<lambda>_. \<lparr>vd_address = 0, vd_length = 0, vd_flags = 0, vd_next = 0\<rparr>) \<lparr>tp_queues = [], tp_notified = []\<rparr> False 4 0)"

definition demo_disk :: "u8 list" where
  "demo_disk = replicate 512 1 @ replicate 512 2"

theorem block_read_correct_witness:
  "\<exists>q' i ds answer. block_schedule_read demo_transport (\<lambda>_. True) 0x1000 510 4 =
     Some (True, demo_transport\<lparr>tp_queues := (tp_queues demo_transport)[0 := q'], tp_notified := tp_notified demo_transport @ [0]\<rparr>) \<and>
   i = vq_avail q' ! (vq_avail_idx (tp_queues demo_transport ! 0) mod length (vq_descs q')) \<and>
   vq_callbacks q' i = Some (block_read_request 0x1000 510 4) \<and>
   device_chain (length (vq_descs q')) (vq_descs q') i = Some ds \<and>
   device_serves demo_disk 0x1000 ds (replicate 4 0 @ replicate 4 7 @ replicate 8 0 @ replicate 1025 7) = Some answer \<and>
   block_read_done (block_read_request 0x1000 510 4) answer 4 = Some (take 4 (drop 510 demo_disk), True)"
proof -
  have run: "vq_run (tp_queues demo_transport ! 0) []"
    unfolding demo_transport_def setup_vqueue_def by (simp add: sensible_max_queue_num_def vq_run.start)
  have hyps: "510 + 4 \<le> length demo_disk" "length demo_disk mod BLK_SECTOR_SIZE = 0" "length demo_disk + BLK_SECTOR_SIZE < 2 ^ 64"
    "find_queue (tp_queues demo_transport) 0 = Some 0" "3 \<le> vq_free (tp_queues demo_transport ! 0)" 
    by (simp_all add: demo_disk_def BLK_SECTOR_SIZE_def demo_transport_def setup_vqueue_def sensible_max_queue_num_def new_split_vq_def find_queue_def)
  have size: "length (replicate 1041 (7 :: u8)) = br_transfer_size (block_read_request 0x1000 510 4) + 17"
    by (simp add: block_read_request_def BLK_SECTOR_SIZE_def ceil_div_def uadd_def usub_def)
  have zeros: "le_bytes 8 (0 :: u64) = replicate 8 0" "le_bytes 4 (0 :: u32) = replicate 4 0"
    by (simp_all add: numeral_eq_Suc)
  have sector: "br_sector (block_read_request 0x1000 510 4) = 0"
    by (simp add: block_read_request_def Let_def BLK_SECTOR_SIZE_def)
  have header: "block_read_header (block_read_request 0x1000 510 4) (replicate 1041 7) =
      Some (replicate 4 0 @ replicate 4 7 @ replicate 8 0 @ replicate 1025 7)"
    by (simp add: block_read_header_def sector BLK_REQUEST_IN_def mem_write_def zeros min_def drop_replicate take_replicate)
  show ?thesis
    using block_read_correct [OF hyps(1-3) TrueI hyps(4) run hyps(5) refl size header] by (simp add: MAX_MEMCOPY_def)
qed

end
